(* ===== verification/Prelude.thy ===== *)
theory Prelude
  imports Main "HOL-Library.Word" "HOL-Library.List_Lexorder"
begin

text \<open>
  Shared vocabulary of the development: the machine types of the C sources
  (\<^verbatim>\<open>include/cetcd/base.h\<close>), the status codes every component returns, the
  named collections the component proofs draw on, and the generic facts on words
  and lists that several components need.

  A \<^verbatim>\<open>uint8_t\<close>, \<^verbatim>\<open>uint32_t\<close> or \<^verbatim>\<open>uint64_t\<close> is a word of that width, so its
  arithmetic wraps as in C. A \<^verbatim>\<open>cetcd_slice\<close> or a pointer/length pair is the list
  of the bytes it denotes.
\<close>

unbundle bit_operations_syntax

type_synonym byte = "8 word"
type_synonym u32 = "32 word"
type_synonym u64 = "64 word"
type_synonym bytes = "byte list"

text \<open>The bytes of a string literal.\<close>

definition bytes_of :: "string \<Rightarrow> bytes" where
  "bytes_of s = map (\<lambda>c. of_nat (of_char c)) s"

section \<open>Status codes\<close>

datatype cetcd_status =
    CETCD_OK
  | CETCD_ERR_NOMEM
  | CETCD_ERR_INVAL
  | CETCD_ERR_RANGE
  | CETCD_ERR_NOTFOUND
  | CETCD_ERR_EXISTS
  | CETCD_ERR_IO
  | CETCD_ERR_CORRUPT
  | CETCD_ERR_INTERNAL
  | CETCD_ERR_OVERFLOW
  | CETCD_ERR_CANCELED
  | CETCD_ERR_TIMEDOUT
  | CETCD_ERR_UNSUPPORT

named_theorems raft_defs \<open>definitions of the Raft handlers, unfolded by the handler proofs\<close>
named_theorems raft_frame \<open>fields a Raft helper leaves alone\<close>
named_theorems codec_simps \<open>evaluation and round-trip rules of the byte codecs\<close>

section \<open>Words\<close>

lemma word_less_add_one_le:
  fixes x y :: "'a::len word"
  assumes "x < y"
  shows "x + 1 \<le> y"
  using assms by (simp add: inc_le)

lemma unat_add_one_neq:
  fixes x :: "'a::len word"
  assumes "x \<noteq> - 1"
  shows "unat (x + 1) = Suc (unat x)"
proof -
  from assms have "1 + x \<noteq> 0"
    by (metis add.commute add_eq_0_iff2)
  then show ?thesis
    by (metis add.commute unatSuc)
qed

lemma less_imp_neq_max_word:
  fixes x y :: "'a::len word"
  assumes "x < y"
  shows "x \<noteq> - 1"
  using assms by (metis leD word_order.extremum)

lemma unat_add_one:
  fixes x y :: "'a::len word"
  assumes "x < y"
  shows "unat (x + 1) = Suc (unat x)"
  by (rule unat_add_one_neq) (rule less_imp_neq_max_word [OF assms])

lemma less_add_one_iff:
  fixes x y :: "'a::len word"
  assumes "y \<noteq> - 1"
  shows "x < y + 1 \<longleftrightarrow> x \<le> y"
  by (simp add: word_less_nat_alt word_le_nat_alt unat_add_one_neq [OF assms] less_Suc_eq_le)

lemma xor_left_cancel [simp]:
  fixes a b c :: "'a::len word"
  shows "a XOR b = a XOR c \<longleftrightarrow> b = c"
proof
  assume "a XOR b = a XOR c"
  then have "a XOR (a XOR b) = a XOR (a XOR c)" by simp
  then show "b = c" by (simp add: xor.assoc [symmetric])
qed simp

lemma xor_right_cancel [simp]:
  fixes a b c :: "'a::len word"
  shows "b XOR a = c XOR a \<longleftrightarrow> b = c"
  by (simp add: xor.commute [of _ a])

lemma ucast_byte_inject [simp]:
  fixes x y :: byte
  shows "(ucast x :: u32) = ucast y \<longleftrightarrow> x = y" and "(ucast x :: u64) = ucast y \<longleftrightarrow> x = y"
proof -
  have "(ucast (ucast x :: u32) :: byte) = x" "(ucast (ucast x :: u64) :: byte) = x" for x :: byte
    by (simp_all add: ucast_up_ucast_id is_up)
  then show "(ucast x :: u32) = ucast y \<longleftrightarrow> x = y" "(ucast x :: u64) = ucast y \<longleftrightarrow> x = y"
    by metis+
qed

end
