(* ===== verification/Raft_Log.thy ===== *)
theory Raft_Log
  imports Prelude
begin

text \<open>
  The data of the Raft node (\<^verbatim>\<open>include/cetcd/raft.h\<close>, \<^verbatim>\<open>src/raft/raft.c\<close>) and the
  in-memory log: entries, messages, the node's state record, and the three log
  primitives \<^verbatim>\<open>log_at_\<close>, \<^verbatim>\<open>log_append_\<close> and \<^verbatim>\<open>log_truncate_after_\<close>.

  An enumeration that a decoder fills from the wire has one extra constructor for
  the values outside the named ones. The log array is a function from its index;
  \<open>r_log_cap\<close> is its allocated size, and an access is in bounds when the index is
  below it. Arrays with a separate count (peers, votes, outgoing voters, pending
  entries and messages) are lists. The payload of an entry is a value, and memory
  allocation succeeds. A name of the source that ends in an underscore loses it here,
  since Isabelle reserves such names. The unused \<^verbatim>\<open>storage\<close> pointer has no field.
\<close>

section \<open>Entries and messages\<close>

datatype cetcd_entry_type =
    CETCD_ENTRY_NORMAL
  | CETCD_ENTRY_CONF_CHANGE
  | CETCD_ENTRY_CONF_CHANGE_V2
  | CETCD_ENTRY_OTHER u32

record cetcd_entry =
  e_term :: u64
  e_index :: u64
  e_type :: cetcd_entry_type
  e_data :: bytes

definition zero_entry :: cetcd_entry where
  "zero_entry = \<lparr>e_term = 0, e_index = 0, e_type = CETCD_ENTRY_NORMAL, e_data = []\<rparr>"

datatype cetcd_msg_type =
    CETCD_MSG_HUP
  | CETCD_MSG_BEAT
  | CETCD_MSG_PROP
  | CETCD_MSG_APP
  | CETCD_MSG_APP_RESP
  | CETCD_MSG_VOTE
  | CETCD_MSG_VOTE_RESP
  | CETCD_MSG_SNAP
  | CETCD_MSG_HEARTBEAT
  | CETCD_MSG_HEARTBEAT_RESP
  | CETCD_MSG_UNREACHABLE
  | CETCD_MSG_SNAP_STATUS
  | CETCD_MSG_CHECK_QUORUM
  | CETCD_MSG_TRANSFER_LEADER
  | CETCD_MSG_TIMEOUT_NOW
  | CETCD_MSG_READ_INDEX
  | CETCD_MSG_READ_INDEX_RESP
  | CETCD_MSG_PRE_VOTE
  | CETCD_MSG_PRE_VOTE_RESP
  | CETCD_MSG_COMPACT_HASH
  | CETCD_MSG_OTHER u32

record cetcd_msg =
  m_type :: cetcd_msg_type
  m_to :: u64
  m_from :: u64
  m_term :: u64
  m_log_term :: u64
  m_index :: u64
  m_commit :: u64
  m_reject :: u64
  m_entries :: "cetcd_entry list"
  m_snapshot :: u64
  m_context :: bytes

definition zero_msg :: cetcd_msg where
  "zero_msg = \<lparr>m_type = CETCD_MSG_HUP, m_to = 0, m_from = 0, m_term = 0, m_log_term = 0,
     m_index = 0, m_commit = 0, m_reject = 0, m_entries = [], m_snapshot = 0, m_context = []\<rparr>"

record cetcd_hard_state =
  hs_term :: u64
  hs_vote :: u64
  hs_commit :: u64

section \<open>The node\<close>

definition MAX_PEERS :: nat where
  "MAX_PEERS = 16"

record peer_progress =
  next_idx :: u64
  match_idx :: u64
  pending_snap :: bool
  pending_app :: bool

definition zero_progress :: peer_progress where
  "zero_progress = \<lparr>next_idx = 0, match_idx = 0, pending_snap = False, pending_app = False\<rparr>"

datatype raft_role = ROLE_FOLLOWER | ROLE_CANDIDATE | ROLE_LEADER | ROLE_PRE_CANDIDATE

record cetcd_raft =
  r_id :: u64
  r_term :: u64
  r_vote :: u64
  r_commit :: u64
  r_applied :: u64
  r_leader_id :: u64
  r_role :: raft_role
  r_election_tick :: u64
  r_heartbeat_tick :: u64
  r_election_timeout :: u64
  r_heartbeat_timeout :: u64
  r_elapsed_ticks :: u64
  r_heartbeat_elapsed :: u64
  r_max_size_per_msg :: u64
  r_max_inflight_msgs :: u64
  r_check_quorum :: bool
  r_pre_vote :: bool
  r_peers :: "u64 list"
  r_peer_learner :: "bool list"
  r_peers_cap :: nat
  r_outgoing :: "u64 list"
  r_joint_index :: u64
  r_applying_index :: u64
  r_leave_pending :: bool
  r_votes_granted :: "u64 list"
  r_progress :: "nat \<Rightarrow> peer_progress"
  r_log :: "u64 \<Rightarrow> cetcd_entry"
  r_log_cap :: u32
  r_log_last_index :: u64
  r_log_last_term :: u64
  r_log_compacted :: u64
  r_pending_hs :: "cetcd_hard_state option"
  r_pending_entries :: "cetcd_entry list"
  r_pending_msgs :: "cetcd_msg list"
  r_has_pending :: bool

section \<open>Log primitives\<close>

definition log_at :: "cetcd_raft \<Rightarrow> u64 \<Rightarrow> cetcd_entry option" where
  "log_at r index =
     (if index = 0 \<or> index > r_log_last_index r then None
      else if index < r_log_compacted r then None
      else Some (r_log r index))"

definition log_term_at :: "cetcd_raft \<Rightarrow> u64 \<Rightarrow> u64" where
  "log_term_at r index =
     (if index = 0 then 0
      else case log_at r index of Some e \<Rightarrow> e_term e | None \<Rightarrow> 0)"

definition entry_clear_data :: "cetcd_entry \<Rightarrow> cetcd_entry" where
  "entry_clear_data e = e\<lparr>e_data := []\<rparr>"

text \<open>
  The doubling loop of \<^verbatim>\<open>log_append_\<close>. Its caller starts it at a capacity above
  zero; the test of that is what makes the recursion well-founded.
\<close>

function log_new_cap :: "u32 \<Rightarrow> u32 \<Rightarrow> u32" where
  "log_new_cap new_cap needed =
     (if new_cap < needed \<and> 0 < new_cap then
        (if new_cap > 0xFFFFFFFF div 2 then needed
         else log_new_cap (new_cap * 2) needed)
      else new_cap)"
  by pat_completeness auto
termination
proof (relation "measure (\<lambda>(new_cap, needed). 2 ^ 32 - unat new_cap)", goal_cases)
  case (2 new_cap needed)
  have "unat (0xFFFFFFFF div 2 :: u32) = 2147483647"
    by simp
  with 2 have le: "unat new_cap \<le> 2147483647"
    by (metis not_less word_le_nat_alt)
  then have "unat (new_cap * 2) = unat new_cap * 2"
    by (subst unat_mult_lem [THEN iffD1]) simp_all
  moreover from 2 have "0 < unat new_cap"
    by (simp add: word_less_nat_alt)
  ultimately show ?case using le by simp
qed simp

declare log_new_cap.simps [simp del]

text \<open>
  \<^verbatim>\<open>log_append_\<close> grows the array (the new part is zeroed) when the index does not
  fit, stores the entry with its own copy of the payload, and raises the last
  index and term when the entry lies beyond them. The comparison of the needed
  size with the capacity is made on 64 bits and the growth on 32 bits.
\<close>

definition log_grow :: "cetcd_raft \<Rightarrow> u64 \<Rightarrow> cetcd_raft" where
  "log_grow r needed =
     (if needed > ucast (r_log_cap r) then
        (let new_cap = log_new_cap (if r_log_cap r \<noteq> 0 then r_log_cap r else 64) (ucast needed)
         in r\<lparr>r_log := (\<lambda>i. if ucast (r_log_cap r) \<le> i \<and> i < ucast new_cap
                             then zero_entry else r_log r i),
              r_log_cap := new_cap\<rparr>)
      else r)"

definition log_append :: "cetcd_raft \<Rightarrow> cetcd_entry \<Rightarrow> cetcd_raft" where
  "log_append r e =
     (let r = log_grow r (e_index e + 1);
          r = r\<lparr>r_log := (r_log r)(e_index e := e)\<rparr>
      in if e_index e > r_log_last_index r
         then r\<lparr>r_log_last_index := e_index e, r_log_last_term := e_term e\<rparr>
         else r)"

definition log_truncate_after :: "cetcd_raft \<Rightarrow> u64 \<Rightarrow> cetcd_raft" where
  "log_truncate_after r index =
     (if index \<ge> r_log_last_index r then r
      else let r = r\<lparr>r_log := (\<lambda>i. if index + 1 \<le> i \<and> i \<le> r_log_last_index r \<and> i < ucast (r_log_cap r)
                                     then zero_entry else r_log r i)\<rparr>;
               r = r\<lparr>r_log_last_index := index\<rparr>
           in r\<lparr>r_log_last_term := log_term_at r index\<rparr>)"

end
