(* ===== verification/Raft_Node.thy ===== *)
theory Raft_Node
  imports Raft_Log
begin

text \<open>
  The Raft state machine of \<^verbatim>\<open>src/raft/raft.c\<close>: quorum arithmetic, the pending
  \<^verbatim>\<open>Ready\<close> state, replication and commit advancement, the role transitions, the
  message handlers and the public operations (step, tick, proposals, membership and
  joint consensus, ready/advance, restart and compaction). Every handler of the
  source returns 0, so a handler here is a function on the node's state and
  \<open>cetcd_raft_step\<close> supplies the return value.
\<close>

section \<open>Quorums and votes\<close>

definition quorum :: "nat \<Rightarrow> nat" where
  "quorum n = n div 2 + 1"

definition n_peers :: "cetcd_raft \<Rightarrow> nat" where
  "n_peers r = length (r_peers r)"

definition peer_is_learner :: "cetcd_raft \<Rightarrow> nat \<Rightarrow> bool" where
  "peer_is_learner r i = (i < n_peers r \<and> i < length (r_peer_learner r) \<and> r_peer_learner r ! i)"

fun find_peer :: "u64 \<Rightarrow> u64 list \<Rightarrow> nat \<Rightarrow> nat option" where
  "find_peer pid [] i = None"
| "find_peer pid (p # ps) i = (if p = pid then Some i else find_peer pid ps (Suc i))"

definition peer_slot :: "cetcd_raft \<Rightarrow> u64 \<Rightarrow> nat option" where
  "peer_slot r pid = find_peer pid (take MAX_PEERS (r_peers r)) 0"

definition match_of :: "cetcd_raft \<Rightarrow> u64 \<Rightarrow> u64" where
  "match_of r pid =
     (if pid = r_id r then r_log_last_index r
      else case peer_slot r pid of None \<Rightarrow> 0 | Some slot \<Rightarrow> match_idx (r_progress r slot))"

text \<open>The exchange sort of \<^verbatim>\<open>majority_match_ids_\<close>, descending.\<close>

definition swap_if_less :: "nat \<Rightarrow> nat \<Rightarrow> u64 list \<Rightarrow> u64 list" where
  "swap_if_less i j s = (if s ! j > s ! i then s[i := s ! j, j := s ! i] else s)"

definition exchange_sort :: "u64 list \<Rightarrow> u64 list" where
  "exchange_sort s =
     fold (\<lambda>i s. fold (\<lambda>j s. swap_if_less i j s) [Suc i..<length s] s) [0..<length s] s"

definition majority_match_ids :: "cetcd_raft \<Rightarrow> u64 list \<Rightarrow> u64" where
  "majority_match_ids r ids =
     (if ids = [] then 0
      else let sorted = map (match_of r) (take MAX_PEERS ids)
           in exchange_sort sorted ! (quorum (length sorted) - 1))"

definition vote_from :: "cetcd_raft \<Rightarrow> u64 \<Rightarrow> bool" where
  "vote_from r pid = (pid \<in> set (r_votes_granted r))"

definition incoming_voters :: "cetcd_raft \<Rightarrow> u64 list" where
  "incoming_voters r =
     take MAX_PEERS [r_peers r ! i. i \<leftarrow> [0..<n_peers r], \<not> peer_is_learner r i]"

definition vote_quorum_ok :: "cetcd_raft \<Rightarrow> bool" where
  "vote_quorum_ok r =
     (let incoming = incoming_voters r;
          inc_n = length incoming;
          inc_v = length (filter (vote_from r) incoming)
      in if inc_n = 0 \<or> inc_v < quorum inc_n then False
         else if r_outgoing r = [] then True
         else length (filter (vote_from r) (r_outgoing r)) \<ge> quorum (length (r_outgoing r)))"

definition has_peer :: "cetcd_raft \<Rightarrow> u64 \<Rightarrow> bool" where
  "has_peer r pid = (pid \<in> set (r_peers r))"

definition add_peer :: "cetcd_raft \<Rightarrow> u64 \<Rightarrow> bool \<Rightarrow> cetcd_raft" where
  "add_peer r pid is_learner =
     (if has_peer r pid then r
      else let r = (if n_peers r \<ge> r_peers_cap r
                    then r\<lparr>r_peers_cap := (if r_peers_cap r \<noteq> 0 then r_peers_cap r * 2 else 8)\<rparr>
                    else r);
               i = n_peers r;
               r = (if i < MAX_PEERS then
                      r\<lparr>r_progress := (r_progress r)(i :=
                          \<lparr>next_idx = (if pid = r_id r then r_log_last_index r + 1
                                       else if r_log_compacted r > 0 then r_log_compacted r else 1),
                           match_idx = 0, pending_snap = False, pending_app = False\<rparr>)\<rparr>
                    else r)
           in r\<lparr>r_peers := r_peers r @ [pid], r_peer_learner := r_peer_learner r @ [is_learner]\<rparr>)"

section \<open>Pending Ready state\<close>

definition hard_state :: "cetcd_raft \<Rightarrow> cetcd_hard_state" where
  "hard_state r = \<lparr>hs_term = r_term r, hs_vote = r_vote r, hs_commit = r_commit r\<rparr>"

definition queue_hard_state :: "cetcd_raft \<Rightarrow> cetcd_raft" where
  "queue_hard_state r = r\<lparr>r_pending_hs := Some (hard_state r), r_has_pending := True\<rparr>"

definition queue_entry :: "cetcd_raft \<Rightarrow> cetcd_entry \<Rightarrow> cetcd_raft" where
  "queue_entry r e = r\<lparr>r_pending_entries := r_pending_entries r @ [e], r_has_pending := True\<rparr>"

definition queue_msg :: "cetcd_raft \<Rightarrow> cetcd_msg \<Rightarrow> cetcd_raft" where
  "queue_msg r m = r\<lparr>r_pending_msgs := r_pending_msgs r @ [m], r_has_pending := True\<rparr>"

definition set_progress :: "cetcd_raft \<Rightarrow> nat \<Rightarrow> (peer_progress \<Rightarrow> peer_progress) \<Rightarrow> cetcd_raft" where
  "set_progress r i f = r\<lparr>r_progress := (r_progress r)(i := f (r_progress r i))\<rparr>"

definition maybe_send_snap :: "cetcd_raft \<Rightarrow> nat \<Rightarrow> cetcd_raft" where
  "maybe_send_snap r i =
     (if i \<ge> MAX_PEERS \<or> i \<ge> n_peers r then r
      else if r_peers r ! i = r_id r then r
      else if r_log_compacted r = 0 then r
      else if next_idx (r_progress r i) > r_log_compacted r then r
      else if pending_snap (r_progress r i) then r
      else let snap = zero_msg\<lparr>m_type := CETCD_MSG_SNAP, m_to := r_peers r ! i, m_from := r_id r,
                 m_term := r_term r, m_snapshot := r_log_compacted r, m_index := r_log_compacted r,
                 m_log_term := log_term_at r (r_log_compacted r), m_commit := r_commit r\<rparr>
           in set_progress (queue_msg r snap) i (\<lambda>p. p\<lparr>pending_snap := True\<rparr>))"

text \<open>
  The counting loop of \<^verbatim>\<open>maybe_send_app_\<close>: \<open>fuel\<close> is what is left of the entry
  limit 256, so \<open>n + fuel\<close> stays 256.
\<close>

fun app_count :: "cetcd_raft \<Rightarrow> u64 \<Rightarrow> nat \<Rightarrow> u64 \<Rightarrow> nat \<Rightarrow> u64 \<Rightarrow> nat" where
  "app_count r max_sz 0 idx n bytes = n"
| "app_count r max_sz (Suc fuel) idx n bytes =
     (if idx \<le> r_log_last_index r then
        (case log_at r idx of
           None \<Rightarrow> n
         | Some e \<Rightarrow>
             let add = of_nat (length (e_data e)) + 16
             in if n > 0 \<and> bytes + add > max_sz then n
                else app_count r max_sz fuel (idx + 1) (Suc n) (bytes + add))
      else n)"

definition maybe_send_app :: "cetcd_raft \<Rightarrow> nat \<Rightarrow> cetcd_raft" where
  "maybe_send_app r i =
     (if i \<ge> MAX_PEERS \<or> i \<ge> n_peers r then r
      else if r_peers r ! i = r_id r then r
      else if pending_snap (r_progress r i) then r
      else if pending_app (r_progress r i) then r
      else let next = (if next_idx (r_progress r i) = 0 then 1 else next_idx (r_progress r i))
           in if r_log_compacted r > 0 \<and> next \<le> r_log_compacted r then maybe_send_snap r i
      else if next > r_log_last_index r then r
      else let prev = next - 1
           in if prev > 0 \<and> log_at r prev = None \<and> prev \<noteq> r_log_compacted r then r
      else let max_sz = (if r_max_size_per_msg r \<noteq> 0 then r_max_size_per_msg r else 1024 * 1024);
               n = app_count r max_sz 256 next 0 0
           in if n = 0 then r
      else case those (map (\<lambda>k. log_at r (next + of_nat k)) [0..<n]) of
             None \<Rightarrow> r
           | Some ecopy \<Rightarrow>
               let app = zero_msg\<lparr>m_type := CETCD_MSG_APP, m_to := r_peers r ! i, m_from := r_id r,
                     m_term := r_term r, m_index := prev, m_log_term := log_term_at r prev,
                     m_commit := r_commit r, m_entries := ecopy\<rparr>
               in set_progress (queue_msg r app) i (\<lambda>p. p\<lparr>pending_app := True\<rparr>))"

section \<open>Commit advancement\<close>

definition maybe_advance_commit :: "cetcd_raft \<Rightarrow> cetcd_raft" where
  "maybe_advance_commit r =
     (if r_role r \<noteq> ROLE_LEADER then r
      else let incoming = incoming_voters r
           in if incoming = [] then r
      else let new_commit = majority_match_ids r incoming;
               new_commit = (if r_outgoing r \<noteq> [] then
                               (let old_commit = majority_match_ids r (r_outgoing r)
                                in if old_commit < new_commit then old_commit else new_commit)
                             else new_commit)
           in if new_commit > r_commit r \<and> log_term_at r new_commit = r_term r
              then queue_hard_state (r\<lparr>r_commit := new_commit\<rparr>)
              else r)"

section \<open>Lifecycle\<close>

record cetcd_raft_config =
  cfg_id :: u64
  cfg_election_tick :: u64
  cfg_heartbeat_tick :: u64
  cfg_max_size_per_msg :: u64
  cfg_max_inflight_msgs :: u64
  cfg_check_quorum :: bool
  cfg_pre_vote :: bool

definition cetcd_raft_new :: "cetcd_raft_config \<Rightarrow> cetcd_raft option" where
  "cetcd_raft_new cfg =
     (if cfg_id cfg = 0 then None
      else if cfg_election_tick cfg = 0 \<or> cfg_heartbeat_tick cfg = 0 then None
      else Some
        ((add_peer
           \<lparr>r_id = cfg_id cfg, r_term = 0, r_vote = 0, r_commit = 0, r_applied = 0, r_leader_id = 0,
            r_role = ROLE_FOLLOWER,
            r_election_tick = cfg_election_tick cfg, r_heartbeat_tick = cfg_heartbeat_tick cfg,
            r_election_timeout = cfg_election_tick cfg, r_heartbeat_timeout = cfg_heartbeat_tick cfg,
            r_elapsed_ticks = 0, r_heartbeat_elapsed = 0,
            r_max_size_per_msg = cfg_max_size_per_msg cfg,
            r_max_inflight_msgs = cfg_max_inflight_msgs cfg,
            r_check_quorum = cfg_check_quorum cfg, r_pre_vote = cfg_pre_vote cfg,
            r_peers = [], r_peer_learner = [], r_peers_cap = 0,
            r_outgoing = [], r_joint_index = 0, r_applying_index = 0, r_leave_pending = False,
            r_votes_granted = [], r_progress = (\<lambda>_. zero_progress),
            r_log = (\<lambda>_. zero_entry), r_log_cap = 0, r_log_last_index = 0, r_log_last_term = 0,
            r_log_compacted = 0,
            r_pending_hs = None, r_pending_entries = [], r_pending_msgs = [], r_has_pending = False\<rparr>
           (cfg_id cfg) False)\<lparr>r_log_cap := 64\<rparr>))"

section \<open>Role transitions\<close>

definition become_leader :: "cetcd_raft \<Rightarrow> cetcd_raft" where
  "become_leader r =
     r\<lparr>r_role := ROLE_LEADER, r_leader_id := r_id r, r_elapsed_ticks := 0, r_heartbeat_elapsed := 0,
       r_progress := (\<lambda>i. if i < n_peers r \<and> i < MAX_PEERS
                           then \<lparr>next_idx = r_log_last_index r + 1, match_idx = 0,
                                 pending_snap = False, pending_app = False\<rparr>
                           else r_progress r i)\<rparr>"

definition send_vote_requests :: "cetcd_raft \<Rightarrow> cetcd_msg_type \<Rightarrow> u64 \<Rightarrow> cetcd_raft" where
  "send_vote_requests r typ t =
     fold (\<lambda>p r. if p = r_id r then r
                 else queue_msg r (zero_msg\<lparr>m_type := typ, m_to := p, m_from := r_id r, m_term := t,
                        m_log_term := r_log_last_term r, m_index := r_log_last_index r\<rparr>))
       (r_peers r) r"

definition log_ok_for_vote :: "cetcd_raft \<Rightarrow> cetcd_msg \<Rightarrow> bool" where
  "log_ok_for_vote r msg =
     (m_log_term msg > r_log_last_term r \<or>
      m_log_term msg = r_log_last_term r \<and> m_index msg \<ge> r_log_last_index r)"

definition become_candidate :: "cetcd_raft \<Rightarrow> cetcd_raft" where
  "become_candidate r =
     (let r = r\<lparr>r_role := ROLE_CANDIDATE, r_leader_id := 0, r_term := r_term r + 1,
                r_vote := r_id r, r_elapsed_ticks := 0, r_votes_granted := [r_id r]\<rparr>
      in if vote_quorum_ok r then become_leader r
         else send_vote_requests r CETCD_MSG_VOTE (r_term r))"

definition become_pre_candidate :: "cetcd_raft \<Rightarrow> cetcd_raft" where
  "become_pre_candidate r =
     (let r = r\<lparr>r_role := ROLE_PRE_CANDIDATE, r_leader_id := 0, r_elapsed_ticks := 0,
                r_votes_granted := [r_id r]\<rparr>
      in if vote_quorum_ok r then become_candidate r
         else send_vote_requests r CETCD_MSG_PRE_VOTE (r_term r + 1))"

definition become_follower :: "cetcd_raft \<Rightarrow> u64 \<Rightarrow> u64 \<Rightarrow> cetcd_raft" where
  "become_follower r t leader =
     (let r = r\<lparr>r_role := ROLE_FOLLOWER, r_leader_id := leader\<rparr>;
          r = (if t > r_term r then r\<lparr>r_term := t, r_vote := 0\<rparr> else r)
      in r\<lparr>r_elapsed_ticks := 0\<rparr>)"

definition leader_broadcast_heartbeat :: "cetcd_raft \<Rightarrow> cetcd_raft" where
  "leader_broadcast_heartbeat r =
     (if r_role r \<noteq> ROLE_LEADER then r
      else fold (\<lambda>p r. if p = r_id r then r
                       else queue_msg r (zero_msg\<lparr>m_type := CETCD_MSG_HEARTBEAT, m_to := p,
                              m_from := r_id r, m_term := r_term r, m_commit := r_commit r\<rparr>))
             (r_peers r) r)"

end
