(* ===== verification/Raft_Step.thy ===== *)
theory Raft_Step
  imports Raft_Node
begin

text \<open>
  The message handlers and the public operations of \<^verbatim>\<open>src/raft/raft.c\<close>: vote and
  pre-vote, log replication, heartbeats and snapshots on the receiving side, the
  leader's bookkeeping, \<^verbatim>\<open>cetcd_raft_step\<close> and \<^verbatim>\<open>cetcd_raft_tick\<close>, proposals,
  membership and joint consensus, \<^verbatim>\<open>Ready\<close>/\<^verbatim>\<open>Advance\<close>, restart and compaction.
\<close>

section \<open>Elections\<close>

definition handle_vote :: "cetcd_raft \<Rightarrow> cetcd_msg \<Rightarrow> cetcd_raft" where
  "handle_vote r msg =
     (if m_term msg < r_term r then
        queue_msg r (zero_msg\<lparr>m_type := CETCD_MSG_VOTE_RESP, m_to := m_from msg, m_from := r_id r,
                       m_term := r_term r, m_reject := 1\<rparr>)
      else
        let r = (if m_term msg > r_term r
                 then queue_hard_state (become_follower r (m_term msg) 0) else r);
            can_vote = (r_vote r = 0 \<or> r_vote r = m_from msg);
            log_ok = log_ok_for_vote r msg;
            resp = zero_msg\<lparr>m_type := CETCD_MSG_VOTE_RESP, m_to := m_from msg, m_from := r_id r,
                     m_term := r_term r\<rparr>
        in if can_vote \<and> log_ok
           then queue_msg (queue_hard_state (r\<lparr>r_vote := m_from msg, r_elapsed_ticks := 0\<rparr>))
                  (resp\<lparr>m_reject := 0\<rparr>)
           else queue_msg r (resp\<lparr>m_reject := 1\<rparr>))"

text \<open>The peer loop that looks up whether the sender is a learner.\<close>

definition from_learner :: "cetcd_raft \<Rightarrow> u64 \<Rightarrow> bool" where
  "from_learner r from =
     (case find_peer from (r_peers r) 0 of None \<Rightarrow> False | Some i \<Rightarrow> peer_is_learner r i)"

definition record_vote :: "cetcd_raft \<Rightarrow> u64 \<Rightarrow> cetcd_raft" where
  "record_vote r from =
     (if \<not> vote_from r from \<and> length (r_votes_granted r) < r_peers_cap r
      then r\<lparr>r_votes_granted := r_votes_granted r @ [from]\<rparr> else r)"

definition handle_vote_resp :: "cetcd_raft \<Rightarrow> cetcd_msg \<Rightarrow> cetcd_raft" where
  "handle_vote_resp r msg =
     (if m_term msg > r_term r then queue_hard_state (become_follower r (m_term msg) 0)
      else if r_role r \<noteq> ROLE_CANDIDATE then r
      else if m_reject msg = 0 then
        (if from_learner r (m_from msg) then r
         else let r = record_vote r (m_from msg)
              in if vote_quorum_ok r
                 then leader_broadcast_heartbeat (queue_hard_state (become_leader r))
                 else r)
      else r)"

definition handle_pre_vote :: "cetcd_raft \<Rightarrow> cetcd_msg \<Rightarrow> cetcd_raft" where
  "handle_pre_vote r msg =
     (let reject =
            (if m_term msg < r_term r then True
             else if r_check_quorum r \<and> r_leader_id r \<noteq> 0 \<and> r_elapsed_ticks r < r_election_timeout r
             then True
             else \<not> log_ok_for_vote r msg)
      in queue_msg r (zero_msg\<lparr>m_type := CETCD_MSG_PRE_VOTE_RESP, m_to := m_from msg, m_from := r_id r,
           m_reject := (if reject then 1 else 0),
           m_term := (if reject then r_term r else m_term msg)\<rparr>))"

definition handle_pre_vote_resp :: "cetcd_raft \<Rightarrow> cetcd_msg \<Rightarrow> cetcd_raft" where
  "handle_pre_vote_resp r msg =
     (if m_reject msg \<noteq> 0 then
        (if m_term msg > r_term r then queue_hard_state (become_follower r (m_term msg) 0) else r)
      else if r_role r \<noteq> ROLE_PRE_CANDIDATE then r
      else if from_learner r (m_from msg) then r
      else let r = record_vote r (m_from msg)
           in if vote_quorum_ok r
              then leader_broadcast_heartbeat (queue_hard_state (become_candidate r))
              else r)"

section \<open>Replication, receiving side\<close>

text \<open>
  The loop of \<^verbatim>\<open>handle_app_\<close> over the entries of the message: \<open>idx\<close> is
  \<^verbatim>\<open>first_new + i\<close>.
\<close>

definition app_store_one :: "cetcd_raft \<Rightarrow> u64 \<Rightarrow> cetcd_entry \<Rightarrow> cetcd_raft" where
  "app_store_one r idx ent =
     (let r = (if idx \<le> r_log_last_index r \<and> log_term_at r idx \<noteq> e_term ent
               then log_truncate_after r (idx - 1) else r);
          e = ent\<lparr>e_index := idx\<rparr>;
          r = log_append r e
      in case log_at r idx of Some stored \<Rightarrow> queue_entry r stored | None \<Rightarrow> r)"

fun app_store :: "cetcd_raft \<Rightarrow> u64 \<Rightarrow> cetcd_entry list \<Rightarrow> cetcd_raft" where
  "app_store r idx [] = r"
| "app_store r idx (ent # ents) = app_store (app_store_one r idx ent) (idx + 1) ents"

text \<open>Following the leader's commit index, shared by appends and heartbeats.\<close>

definition follow_commit :: "cetcd_raft \<Rightarrow> u64 \<Rightarrow> cetcd_raft" where
  "follow_commit r commit =
     (if commit > r_commit r then
        (let new_commit = (if commit > r_log_last_index r then r_log_last_index r else commit)
         in if new_commit > r_commit r
            then queue_hard_state (r\<lparr>r_commit := new_commit\<rparr>) else r)
      else r)"

text \<open>Accepting a leader's message: step down, adopt its term, reset the election timer.\<close>

definition accept_leader :: "cetcd_raft \<Rightarrow> cetcd_msg \<Rightarrow> cetcd_raft" where
  "accept_leader r msg =
     (let r = (if m_term msg > r_term r
               then queue_hard_state (become_follower r (m_term msg) (m_from msg)) else r);
          r = (if r_role r \<noteq> ROLE_FOLLOWER then become_follower r (m_term msg) (m_from msg) else r)
      in r\<lparr>r_leader_id := m_from msg, r_elapsed_ticks := 0\<rparr>)"

definition handle_app :: "cetcd_raft \<Rightarrow> cetcd_msg \<Rightarrow> cetcd_raft" where
  "handle_app r msg =
     (let resp = (\<lambda>r. zero_msg\<lparr>m_type := CETCD_MSG_APP_RESP, m_to := m_from msg, m_from := r_id r,
                        m_term := r_term r\<rparr>)
      in if m_term msg < r_term r then queue_msg r ((resp r)\<lparr>m_reject := 1\<rparr>)
      else let r = accept_leader r msg
           in if m_index msg > 0 \<and> m_index msg > r_log_last_index r
              then queue_msg r ((resp r)\<lparr>m_index := r_log_last_index r, m_reject := 1\<rparr>)
              else if m_index msg > 0 \<and> log_term_at r (m_index msg) \<noteq> m_log_term msg
              then queue_msg r ((resp r)\<lparr>m_index := m_index msg, m_reject := 1\<rparr>)
              else let r = app_store r (m_index msg + 1) (m_entries msg);
                       r = follow_commit r (m_commit msg)
                   in queue_msg r ((resp r)\<lparr>m_index := r_log_last_index r, m_reject := 0\<rparr>))"

definition handle_heartbeat :: "cetcd_raft \<Rightarrow> cetcd_msg \<Rightarrow> cetcd_raft" where
  "handle_heartbeat r msg =
     (if m_term msg < r_term r then r
      else let r = accept_leader r msg;
               r = follow_commit r (m_commit msg)
           in queue_msg r (zero_msg\<lparr>m_type := CETCD_MSG_HEARTBEAT_RESP, m_to := m_from msg,
                m_from := r_id r, m_term := r_term r\<rparr>))"

text \<open>\<^verbatim>\<open>cetcd_raft_compact\<close>: the return value (0 or -1) and the state.\<close>

definition cetcd_raft_compact :: "cetcd_raft \<Rightarrow> u64 \<Rightarrow> u64 \<Rightarrow> int \<times> cetcd_raft" where
  "cetcd_raft_compact r last_included last_term =
     (if last_included = 0 then (- 1, r)
      else if last_included < r_log_compacted r then (- 1, r)
      else if r_log_last_index r \<noteq> 0 \<and> last_included > r_log_last_index r then (- 1, r)
      else let r = log_append r \<lparr>e_term = last_term, e_index = last_included,
                                 e_type = CETCD_ENTRY_NORMAL, e_data = []\<rparr>
           in if r_log_last_index r < last_included then (- 1, r)
              else (0, r\<lparr>r_log := (\<lambda>i. if 1 \<le> i \<and> i < last_included \<and> i < ucast (r_log_cap r)
                                       then entry_clear_data (r_log r i) else r_log r i),
                         r_log_compacted := last_included\<rparr>))"

definition handle_snap :: "cetcd_raft \<Rightarrow> cetcd_msg \<Rightarrow> cetcd_raft" where
  "handle_snap r msg =
     (if m_term msg < r_term r then r
      else let r = (if m_term msg > r_term r
                    then queue_hard_state (become_follower r (m_term msg) (m_from msg)) else r);
               st = zero_msg\<lparr>m_type := CETCD_MSG_SNAP_STATUS, m_to := m_from msg, m_from := r_id r,
                      m_term := r_term r, m_snapshot := m_snapshot msg, m_index := m_snapshot msg\<rparr>
           in if m_snapshot msg = 0 then queue_msg r (st\<lparr>m_reject := 1\<rparr>)
      else let r = (if r_role r \<noteq> ROLE_FOLLOWER then become_follower r (r_term r) (m_from msg) else r);
               r = r\<lparr>r_leader_id := m_from msg, r_elapsed_ticks := 0\<rparr>;
               (rc, r) = (if m_snapshot msg > r_log_compacted r
                          then cetcd_raft_compact r (m_snapshot msg) (m_log_term msg) else (0, r))
           in if rc \<noteq> 0 then queue_msg r (st\<lparr>m_reject := 1\<rparr>)
      else let r = (if m_snapshot msg > r_commit r
                    then queue_hard_state (r\<lparr>r_commit := m_snapshot msg\<rparr>) else r);
               r = (if m_snapshot msg > r_applied r then r\<lparr>r_applied := m_snapshot msg\<rparr> else r)
           in queue_msg r (st\<lparr>m_reject := 0\<rparr>))"

section \<open>Replication, leader side\<close>

definition handle_app_resp :: "cetcd_raft \<Rightarrow> cetcd_msg \<Rightarrow> cetcd_raft" where
  "handle_app_resp r msg =
     (if r_role r \<noteq> ROLE_LEADER then r
      else if m_term msg > r_term r then queue_hard_state (become_follower r (m_term msg) 0)
      else case peer_slot r (m_from msg) of
        None \<Rightarrow> r
      | Some slot \<Rightarrow>
          let r = set_progress r slot (\<lambda>p. p\<lparr>pending_app := False\<rparr>)
          in if m_reject msg = 0 then
               let r = set_progress r slot
                         (\<lambda>p. p\<lparr>match_idx := m_index msg, next_idx := m_index msg + 1\<rparr>)
               in maybe_send_app (maybe_advance_commit r) slot
             else
               let hint = m_index msg + 1;
                   hint = (if hint < 1 then 1 else hint);
                   r = (if hint < next_idx (r_progress r slot)
                        then set_progress r slot (\<lambda>p. p\<lparr>next_idx := hint\<rparr>) else r);
                   r = (if m_index msg < match_idx (r_progress r slot)
                        then set_progress r slot (\<lambda>p. p\<lparr>match_idx := m_index msg\<rparr>) else r)
               in maybe_send_app (maybe_send_snap r slot) slot)"

definition handle_snap_status :: "cetcd_raft \<Rightarrow> cetcd_msg \<Rightarrow> cetcd_raft" where
  "handle_snap_status r msg =
     (if r_role r \<noteq> ROLE_LEADER then r
      else case peer_slot r (m_from msg) of
        None \<Rightarrow> r
      | Some slot \<Rightarrow>
          let r = set_progress r slot (\<lambda>p. p\<lparr>pending_snap := False, pending_app := False\<rparr>)
          in if m_reject msg = 0 \<and> m_snapshot msg > 0 then
               let r = set_progress r slot
                         (\<lambda>p. p\<lparr>match_idx := m_snapshot msg, next_idx := m_snapshot msg + 1\<rparr>)
               in maybe_send_app (maybe_advance_commit r) slot
             else r)"

section \<open>Core API\<close>

text \<open>
  Appending a leader's own entry and broadcasting it: the common part of the
  \<^verbatim>\<open>CETCD_MSG_PROP\<close> case and of \<^verbatim>\<open>cetcd_raft_propose_conf_change\<close>.
\<close>

definition broadcast_app :: "cetcd_raft \<Rightarrow> cetcd_raft" where
  "broadcast_app r =
     fold (\<lambda>i r. if r_peers r ! i = r_id r then r else maybe_send_app r i)
       [0..<min (n_peers r) MAX_PEERS] r"

definition leader_append :: "cetcd_raft \<Rightarrow> cetcd_entry_type \<Rightarrow> bytes \<Rightarrow> cetcd_raft" where
  "leader_append r typ data =
     (let r = r\<lparr>r_log_last_index := r_log_last_index r + 1\<rparr>;
          e = \<lparr>e_term = r_term r, e_index = r_log_last_index r, e_type = typ, e_data = data\<rparr>;
          r = log_append (r\<lparr>r_log_last_term := r_term r\<rparr>) e;
          r = (case log_at r (e_index e) of Some stored \<Rightarrow> queue_entry r stored | None \<Rightarrow> r);
          r = broadcast_app (queue_hard_state r)
      in maybe_advance_commit r)"

definition beat_peer :: "nat \<Rightarrow> cetcd_raft \<Rightarrow> cetcd_raft" where
  "beat_peer i r =
     (if r_peers r ! i = r_id r then r
      else let r = queue_msg r (zero_msg\<lparr>m_type := CETCD_MSG_HEARTBEAT, m_to := r_peers r ! i,
                     m_from := r_id r, m_term := r_term r, m_commit := r_commit r\<rparr>);
               r = set_progress r i (\<lambda>p. p\<lparr>pending_app := False\<rparr>)
           in maybe_send_app (maybe_send_snap r i) i)"

definition cetcd_raft_step :: "cetcd_raft \<Rightarrow> cetcd_msg \<Rightarrow> int \<times> cetcd_raft" where
  "cetcd_raft_step r msg =
     (case m_type msg of
        CETCD_MSG_HUP \<Rightarrow>
          (0, if r_role r \<noteq> ROLE_LEADER then
                queue_hard_state (if r_pre_vote r then become_pre_candidate r else become_candidate r)
              else r)
      | CETCD_MSG_VOTE \<Rightarrow> (0, handle_vote r msg)
      | CETCD_MSG_VOTE_RESP \<Rightarrow> (0, handle_vote_resp r msg)
      | CETCD_MSG_PRE_VOTE \<Rightarrow> (0, handle_pre_vote r msg)
      | CETCD_MSG_PRE_VOTE_RESP \<Rightarrow> (0, handle_pre_vote_resp r msg)
      | CETCD_MSG_APP \<Rightarrow> (0, handle_app r msg)
      | CETCD_MSG_APP_RESP \<Rightarrow> (0, handle_app_resp r msg)
      | CETCD_MSG_HEARTBEAT \<Rightarrow> (0, handle_heartbeat r msg)
      | CETCD_MSG_PROP \<Rightarrow>
          (if r_role r \<noteq> ROLE_LEADER then (- 1, r)
           else (0, leader_append r CETCD_ENTRY_NORMAL (m_context msg)))
      | CETCD_MSG_BEAT \<Rightarrow>
          (0, if r_role r \<noteq> ROLE_LEADER then r
              else fold beat_peer [0..<min (n_peers r) MAX_PEERS] r)
      | CETCD_MSG_SNAP \<Rightarrow> (0, handle_snap r msg)
      | CETCD_MSG_SNAP_STATUS \<Rightarrow> (0, handle_snap_status r msg)
      | CETCD_MSG_TRANSFER_LEADER \<Rightarrow>
          (0, if r_role r \<noteq> ROLE_LEADER then r
              else queue_msg r (zero_msg\<lparr>m_type := CETCD_MSG_TIMEOUT_NOW, m_to := m_to msg,
                     m_from := r_id r, m_term := r_term r\<rparr>))
      | CETCD_MSG_TIMEOUT_NOW \<Rightarrow>
          (0, if r_role r = ROLE_LEADER then r else queue_hard_state (become_candidate r))
      | _ \<Rightarrow> (0, r))"

definition cetcd_raft_tick :: "cetcd_raft \<Rightarrow> cetcd_raft" where
  "cetcd_raft_tick r =
     (let r = r\<lparr>r_elapsed_ticks := r_elapsed_ticks r + 1,
                r_heartbeat_elapsed := r_heartbeat_elapsed r + 1\<rparr>
      in if r_role r = ROLE_LEADER then
           (if r_heartbeat_elapsed r \<ge> r_heartbeat_timeout r then
              snd (cetcd_raft_step (r\<lparr>r_heartbeat_elapsed := 0\<rparr>)
                     (zero_msg\<lparr>m_type := CETCD_MSG_BEAT, m_from := r_id r\<rparr>))
            else r)
         else
           (if r_elapsed_ticks r \<ge> r_election_timeout r then
              snd (cetcd_raft_step r (zero_msg\<lparr>m_type := CETCD_MSG_HUP, m_from := r_id r\<rparr>))
            else r))"

definition cetcd_raft_advance_ticks :: "cetcd_raft \<Rightarrow> u64 \<Rightarrow> cetcd_raft" where
  "cetcd_raft_advance_ticks r n = (cetcd_raft_tick ^^ unat n) r"

definition cetcd_raft_initial_advance_ticks :: "u64 \<Rightarrow> u64" where
  "cetcd_raft_initial_advance_ticks election_tick =
     (if election_tick > 1 then election_tick - 1 else 0)"

definition cetcd_raft_propose :: "cetcd_raft \<Rightarrow> bytes \<Rightarrow> int \<times> cetcd_raft" where
  "cetcd_raft_propose r data =
     (if r_role r \<noteq> ROLE_LEADER then (- 1, r)
      else cetcd_raft_step r (zero_msg\<lparr>m_type := CETCD_MSG_PROP, m_context := data\<rparr>))"

definition cetcd_raft_propose_conf_change :: "cetcd_raft \<Rightarrow> bytes \<Rightarrow> int \<times> cetcd_raft" where
  "cetcd_raft_propose_conf_change r data =
     (if r_role r \<noteq> ROLE_LEADER then (- 1, r)
      else if data = [] then (- 1, r)
      else (0, leader_append r CETCD_ENTRY_CONF_CHANGE data))"

section \<open>Membership\<close>

definition cetcd_raft_apply_conf_change :: "cetcd_raft \<Rightarrow> u64 list \<Rightarrow> u64 list \<Rightarrow> cetcd_raft" where
  "cetcd_raft_apply_conf_change r voters learners =
     fold (\<lambda>p r. add_peer r p True) learners (fold (\<lambda>p r. add_peer r p False) voters r)"

definition cetcd_raft_add_peer :: "cetcd_raft \<Rightarrow> u64 \<Rightarrow> bool \<Rightarrow> int \<times> cetcd_raft" where
  "cetcd_raft_add_peer r pid is_learner =
     (if pid = 0 then (- 1, r)
      else if has_peer r pid then (- 1, r)
      else let r = add_peer r pid is_learner
           in (if has_peer r pid then 0 else - 1, r))"

definition cetcd_raft_promote :: "cetcd_raft \<Rightarrow> u64 \<Rightarrow> int \<times> cetcd_raft" where
  "cetcd_raft_promote r pid =
     (if pid = 0 then (- 1, r)
      else case find_peer pid (r_peers r) 0 of
        None \<Rightarrow> (- 1, r)
      | Some i \<Rightarrow>
          if \<not> peer_is_learner r i then (- 1, r)
          else (0, r\<lparr>r_peer_learner := (r_peer_learner r)[i := False]\<rparr>))"

text \<open>
  Removing a peer shifts the three parallel arrays left by one from its slot. The
  progress array has \<^verbatim>\<open>MAX_PEERS_\<close> slots: slot 15 is not overwritten by the shift.
\<close>

definition remove_nth :: "nat \<Rightarrow> 'a list \<Rightarrow> 'a list" where
  "remove_nth i xs = take i xs @ drop (Suc i) xs"

definition cetcd_raft_remove_peer :: "cetcd_raft \<Rightarrow> u64 \<Rightarrow> int \<times> cetcd_raft" where
  "cetcd_raft_remove_peer r pid =
     (if pid = 0 \<or> pid = r_id r then (- 1, r)
      else case find_peer pid (r_peers r) 0 of
        None \<Rightarrow> (- 1, r)
      | Some i \<Rightarrow>
          (0, r\<lparr>r_peers := remove_nth i (r_peers r),
                r_peer_learner := remove_nth i (r_peer_learner r),
                r_progress := (\<lambda>j. if i \<le> j \<and> Suc j < n_peers r \<and> Suc j < MAX_PEERS
                                   then r_progress r (Suc j) else r_progress r j)\<rparr>))"

definition cetcd_raft_enter_joint :: "cetcd_raft \<Rightarrow> int \<times> cetcd_raft" where
  "cetcd_raft_enter_joint r =
     (if r_outgoing r \<noteq> [] then (- 1, r)
      else let old = incoming_voters r
           in if old = [] then (- 1, r)
              else (0, r\<lparr>r_outgoing := old,
                         r_joint_index := (if r_applying_index r \<noteq> 0 then r_applying_index r
                                           else r_log_last_index r),
                         r_leave_pending := False\<rparr>))"

definition cetcd_raft_leave_joint :: "cetcd_raft \<Rightarrow> int \<times> cetcd_raft" where
  "cetcd_raft_leave_joint r =
     (if r_outgoing r = [] then (0, r)
      else (0, r\<lparr>r_outgoing := [], r_joint_index := 0, r_leave_pending := False\<rparr>))"

definition cetcd_raft_restore_joint :: "cetcd_raft \<Rightarrow> u64 list \<Rightarrow> u64 \<Rightarrow> int \<times> cetcd_raft" where
  "cetcd_raft_restore_joint r ids joint_index =
     (if ids = [] \<or> length ids > MAX_PEERS then (- 1, r)
      else (0, r\<lparr>r_outgoing := ids, r_joint_index := joint_index, r_leave_pending := False\<rparr>))"

definition cetcd_raft_in_joint :: "cetcd_raft \<Rightarrow> bool" where
  "cetcd_raft_in_joint r = (r_outgoing r \<noteq> [])"

definition cetcd_raft_joint_caught_up :: "cetcd_raft \<Rightarrow> bool" where
  "cetcd_raft_joint_caught_up r =
     (if r_outgoing r = [] then False
      else \<forall>i \<in> set [0..<n_peers r].
             peer_is_learner r i \<or> match_of r (r_peers r ! i) \<ge> r_joint_index r)"

definition cetcd_raft_set_applying :: "cetcd_raft \<Rightarrow> u64 \<Rightarrow> cetcd_raft" where
  "cetcd_raft_set_applying r index = r\<lparr>r_applying_index := index\<rparr>"

definition cetcd_raft_set_leave_pending :: "cetcd_raft \<Rightarrow> bool \<Rightarrow> cetcd_raft" where
  "cetcd_raft_set_leave_pending r pending = r\<lparr>r_leave_pending := pending\<rparr>"

section \<open>Ready, Advance, restart\<close>

record cetcd_ready =
  rd_hard_state :: "cetcd_hard_state option"
  rd_soft_state :: "(u64 \<times> raft_role) option"
  rd_entries :: "cetcd_entry list"
  rd_committed :: u64
  rd_messages :: "cetcd_msg list"

definition cetcd_raft_ready :: "cetcd_raft \<Rightarrow> cetcd_ready \<times> cetcd_raft" where
  "cetcd_raft_ready r =
     (\<lparr>rd_hard_state = r_pending_hs r,
       rd_soft_state = (if r_has_pending r then Some (r_leader_id r, r_role r) else None),
       rd_entries = r_pending_entries r, rd_committed = r_commit r,
       rd_messages = r_pending_msgs r\<rparr>,
      r\<lparr>r_pending_hs := None, r_pending_entries := [], r_pending_msgs := [], r_has_pending := False\<rparr>)"

definition cetcd_raft_advance :: "cetcd_raft \<Rightarrow> cetcd_ready \<Rightarrow> cetcd_raft" where
  "cetcd_raft_advance r rd =
     (if rd_committed rd > r_applied r then r\<lparr>r_applied := rd_committed rd\<rparr> else r)"

definition cetcd_raft_voter_count :: "cetcd_raft \<Rightarrow> nat" where
  "cetcd_raft_voter_count r = length (filter (\<lambda>i. \<not> peer_is_learner r i) [0..<n_peers r])"

definition cetcd_raft_restore_entry :: "cetcd_raft \<Rightarrow> cetcd_entry \<Rightarrow> int \<times> cetcd_raft" where
  "cetcd_raft_restore_entry r e =
     (if e_index e = 0 then (- 1, r)
      else let r = log_append r e
           in (if e_index e > r_log_last_index r then - 1 else 0, r))"

definition cetcd_raft_restore_hard_state :: "cetcd_raft \<Rightarrow> cetcd_hard_state \<Rightarrow> cetcd_raft" where
  "cetcd_raft_restore_hard_state r hs =
     r\<lparr>r_term := hs_term hs, r_vote := hs_vote hs, r_commit := hs_commit hs\<rparr>"

definition cetcd_raft_set_applied :: "cetcd_raft \<Rightarrow> u64 \<Rightarrow> cetcd_raft" where
  "cetcd_raft_set_applied r applied = r\<lparr>r_applied := applied\<rparr>"

end
