(* ===== verification/Raft_Frame.thy ===== *)
theory Raft_Frame
  imports Raft_Step
begin

text \<open>
  What the message-sending helpers of \<^verbatim>\<open>src/raft/raft.c\<close> change: queueing messages
  and updating peer progress leaves every other field of the node alone. The
  relation \<open>sends P r r'\<close> says that \<open>r'\<close> is \<open>r\<close> with other progress entries and with
  messages appended that all satisfy \<open>P\<close>; it is closed under composition, so each
  helper and each broadcast loop gets one lemma.
\<close>

definition resend :: "cetcd_raft \<Rightarrow> (nat \<Rightarrow> peer_progress) \<Rightarrow> cetcd_msg list \<Rightarrow> bool \<Rightarrow> cetcd_raft" where
  "resend r pr M b = r\<lparr>r_progress := pr, r_pending_msgs := r_pending_msgs r @ M, r_has_pending := b\<rparr>"

definition sends :: "(cetcd_msg \<Rightarrow> bool) \<Rightarrow> cetcd_raft \<Rightarrow> cetcd_raft \<Rightarrow> bool" where
  "sends P r r' \<longleftrightarrow> (\<exists>pr M b. r' = resend r pr M b \<and> (\<forall>m \<in> set M. P m))"

lemma resend_id: "resend r (r_progress r) [] (r_has_pending r) = r"
  by (simp add: resend_def)

lemma resend_resend: "resend (resend r pr M b) pr' M' b' = resend r pr' (M @ M') b'"
  by (simp add: resend_def)

lemma resend_fields [simp]:
  "r_id (resend r pr M b) = r_id r" "r_term (resend r pr M b) = r_term r"
  "r_vote (resend r pr M b) = r_vote r" "r_commit (resend r pr M b) = r_commit r"
  "r_applied (resend r pr M b) = r_applied r" "r_leader_id (resend r pr M b) = r_leader_id r"
  "r_role (resend r pr M b) = r_role r" "r_peers (resend r pr M b) = r_peers r"
  "r_peer_learner (resend r pr M b) = r_peer_learner r"
  "r_peers_cap (resend r pr M b) = r_peers_cap r" "r_outgoing (resend r pr M b) = r_outgoing r"
  "r_votes_granted (resend r pr M b) = r_votes_granted r" "r_log (resend r pr M b) = r_log r"
  "r_log_cap (resend r pr M b) = r_log_cap r"
  "r_log_last_index (resend r pr M b) = r_log_last_index r"
  "r_log_last_term (resend r pr M b) = r_log_last_term r"
  "r_log_compacted (resend r pr M b) = r_log_compacted r"
  "r_pending_hs (resend r pr M b) = r_pending_hs r"
  "r_pending_entries (resend r pr M b) = r_pending_entries r"
  "r_elapsed_ticks (resend r pr M b) = r_elapsed_ticks r"
  "r_pre_vote (resend r pr M b) = r_pre_vote r"
  "r_pending_msgs (resend r pr M b) = r_pending_msgs r @ M"
  by (simp_all add: resend_def)

definition leader_msg :: "u64 \<Rightarrow> u64 \<Rightarrow> cetcd_msg \<Rightarrow> bool" where
  "leader_msg i t m \<longleftrightarrow> m_from m = i \<and> m_term m = t \<and>
     m_type m \<in> {CETCD_MSG_APP, CETCD_MSG_SNAP, CETCD_MSG_HEARTBEAT}"

lemma sendsI: "\<forall>m \<in> set M. P m \<Longrightarrow> sends P r (resend r pr M b)"
  unfolding sends_def by blast

lemma sendsE:
  assumes "sends P r r'"
  obtains pr M b where "r' = resend r pr M b" "\<forall>m \<in> set M. P m"
  using assms unfolding sends_def by blast

lemma sends_refl [simp]: "sends P r r"
  using sendsI [of "[]" P r "r_progress r" "r_has_pending r"] by (simp add: resend_id)

lemma sends_trans: "sends P r r' \<Longrightarrow> sends P r' r'' \<Longrightarrow> sends P r r''"
  by (elim sendsE) (auto simp: resend_resend intro!: sendsI)

lemma sends_fields:
  assumes "sends P r r'"
  shows "r_id r' = r_id r" "r_term r' = r_term r" "r_vote r' = r_vote r" "r_commit r' = r_commit r"
    "r_applied r' = r_applied r" "r_leader_id r' = r_leader_id r" "r_role r' = r_role r"
    "r_peers r' = r_peers r" "r_peer_learner r' = r_peer_learner r" "r_peers_cap r' = r_peers_cap r"
    "r_outgoing r' = r_outgoing r" "r_votes_granted r' = r_votes_granted r"
    "r_log r' = r_log r" "r_log_cap r' = r_log_cap r" "r_log_last_index r' = r_log_last_index r"
    "r_log_last_term r' = r_log_last_term r" "r_log_compacted r' = r_log_compacted r"
    "r_pending_hs r' = r_pending_hs r" "r_pending_entries r' = r_pending_entries r"
    "r_elapsed_ticks r' = r_elapsed_ticks r" "r_pre_vote r' = r_pre_vote r"
  using assms by (auto elim!: sendsE)

lemma sends_msgs:
  assumes "sends P r r'"
  obtains M where "r_pending_msgs r' = r_pending_msgs r @ M" "\<forall>m \<in> set M. P m"
  using assms by (auto elim!: sendsE)

lemma queue_msg_resend: "queue_msg r m = resend r (r_progress r) [m] True"
  by (simp add: queue_msg_def resend_def)

lemma set_progress_resend:
  "set_progress r i f = resend r ((r_progress r)(i := f (r_progress r i))) [] (r_has_pending r)"
  by (simp add: set_progress_def resend_def)

lemma sends_queue_msg: "P m \<Longrightarrow> sends P r (queue_msg r m)"
  by (simp add: queue_msg_resend sendsI)

lemma sends_set_progress [simp]: "sends P r (set_progress r i f)"
  by (simp add: set_progress_resend sendsI)

lemma sends_queue_progress: "P m \<Longrightarrow> sends P r (set_progress (queue_msg r m) i f)"
  by (rule sends_trans [OF sends_queue_msg sends_set_progress])

lemma sends_if: "sends P r a \<Longrightarrow> sends P r b \<Longrightarrow> sends P r (if c then a else b)"
  by simp

lemma sends_option:
  "sends P r a \<Longrightarrow> (\<And>x. sends P r (f x)) \<Longrightarrow> sends P r (case y of None \<Rightarrow> a | Some x \<Rightarrow> f x)"
  by (cases y) simp_all

lemma sends_maybe_send_snap: "sends (leader_msg (r_id r) (r_term r)) r (maybe_send_snap r i)"
  unfolding maybe_send_snap_def Let_def
  by (intro sends_if sends_refl sends_queue_progress) (simp add: leader_msg_def)

lemma sends_maybe_send_app: "sends (leader_msg (r_id r) (r_term r)) r (maybe_send_app r i)"
  unfolding maybe_send_app_def Let_def
  by (intro sends_if sends_option sends_refl sends_maybe_send_snap sends_queue_progress)
    (simp add: leader_msg_def)

lemma sends_fold:
  assumes "\<And>x s. sends (P (r_id s) (r_term s)) s (f x s)"
  shows "sends (P (r_id r) (r_term r)) r (fold f xs r)"
proof (induction xs arbitrary: r)
  case (Cons x xs)
  have 1: "sends (P (r_id r) (r_term r)) r (f x r)" by (rule assms)
  have "sends (P (r_id (f x r)) (r_term (f x r))) (f x r) (fold f xs (f x r))" by (rule Cons.IH)
  with 1 show ?case by (auto simp: sends_fields [OF 1] intro: sends_trans)
qed simp

lemma sends_broadcast_app: "sends (leader_msg (r_id r) (r_term r)) r (broadcast_app r)"
  unfolding broadcast_app_def by (rule sends_fold) (simp add: sends_maybe_send_app)

lemma sends_heartbeats:
  "sends (leader_msg (r_id r) (r_term r)) r (leader_broadcast_heartbeat r)"
  unfolding leader_broadcast_heartbeat_def
  by (auto intro!: sends_fold sends_queue_msg simp: leader_msg_def)

lemma sends_beat_peer: "sends (leader_msg (r_id r) (r_term r)) r (beat_peer i r)"
proof (cases "r_peers r ! i = r_id r")
  case False
  let ?P = "leader_msg (r_id r) (r_term r)"
  define hb where "hb = zero_msg\<lparr>m_type := CETCD_MSG_HEARTBEAT, m_to := r_peers r ! i,
                     m_from := r_id r, m_term := r_term r, m_commit := r_commit r\<rparr>"
  define r1 where "r1 = set_progress (queue_msg r hb) i (\<lambda>p. p\<lparr>pending_app := False\<rparr>)"
  have 1: "sends ?P r r1"
    unfolding r1_def by (rule sends_queue_progress) (simp add: hb_def leader_msg_def)
  have 2: "sends ?P r (maybe_send_snap r1 i)"
    using sends_trans [OF 1] sends_maybe_send_snap [of r1 i] by (simp add: sends_fields [OF 1])
  have "sends ?P r (maybe_send_app (maybe_send_snap r1 i) i)"
    using sends_trans [OF 2] sends_maybe_send_app [of "maybe_send_snap r1 i" i]
    by (simp add: sends_fields [OF 2])
  with False show ?thesis by (simp add: beat_peer_def Let_def r1_def hb_def)
qed (simp add: beat_peer_def)

definition vote_request :: "cetcd_msg_type \<Rightarrow> u64 \<Rightarrow> u64 \<Rightarrow> cetcd_msg \<Rightarrow> bool" where
  "vote_request typ t i m \<longleftrightarrow> m_type m = typ \<and> m_term m = t \<and> m_from m = i"

lemma sends_vote_requests:
  "sends (vote_request typ t (r_id r)) r (send_vote_requests r typ t)"
  unfolding send_vote_requests_def
  by (rule sends_fold [where P = "\<lambda>i _. vote_request typ t i"])
    (auto intro!: sends_queue_msg simp: vote_request_def)

end
