(* ===== verification/Raft_Election.thy ===== *)
theory Raft_Election
  imports Raft_Frame
begin

text \<open>
  The election behaviour of one call into \<^verbatim>\<open>src/raft/raft.c\<close>. \<open>election_move\<close> lists
  the ways a call can touch term, vote, role and collected votes, and
  \<open>node_move\<close> adds what it may send: a granting vote response only to the
  candidate the node has just voted for. Every handler, and so
  \<open>cetcd_raft_step\<close> and \<open>cetcd_raft_tick\<close>, makes such a move.
\<close>

section \<open>What the helpers leave alone\<close>

definition ecore :: "cetcd_raft \<Rightarrow>
    (u64 \<times> u64 list \<times> bool list \<times> nat \<times> u64 list) \<times> u64 \<times> u64 \<times> raft_role \<times> u64 list" where
  "ecore r = ((r_id r, r_peers r, r_peer_learner r, r_peers_cap r, r_outgoing r),
              r_term r, r_vote r, r_role r, r_votes_granted r)"

definition core :: "cetcd_raft \<Rightarrow> _" where
  "core r = (ecore r, r_pending_msgs r)"

lemma ecoreD:
  assumes "ecore r' = ecore r"
  shows "r_id r' = r_id r" "r_peers r' = r_peers r" "r_peer_learner r' = r_peer_learner r"
    "r_peers_cap r' = r_peers_cap r" "r_outgoing r' = r_outgoing r" "r_term r' = r_term r"
    "r_vote r' = r_vote r" "r_role r' = r_role r" "r_votes_granted r' = r_votes_granted r"
  using assms by (auto simp: ecore_def)

lemma ecore_sends: "sends P r r' \<Longrightarrow> ecore r' = ecore r"
  by (simp add: ecore_def sends_fields)

lemma core_queue_hard_state [raft_frame]: "core (queue_hard_state r) = core r"
  by (simp add: core_def ecore_def queue_hard_state_def)

lemma core_queue_entry [raft_frame]: "core (queue_entry r e) = core r"
  by (simp add: core_def ecore_def queue_entry_def)

lemma core_log_append [raft_frame]: "core (log_append r e) = core r"
  by (simp add: core_def ecore_def log_append_def log_grow_def Let_def)

lemma core_log_truncate_after [raft_frame]: "core (log_truncate_after r i) = core r"
  by (simp add: core_def ecore_def log_truncate_after_def Let_def)

lemma core_commit [raft_frame]: "core (r\<lparr>r_commit := c\<rparr>) = core r"
  by (simp add: core_def ecore_def)

lemma core_follow_commit [raft_frame]: "core (follow_commit r c) = core r"
  by (simp add: follow_commit_def Let_def raft_frame)

lemma core_app_store_one [raft_frame]: "core (app_store_one r idx e) = core r"
  by (simp add: app_store_one_def Let_def raft_frame split: option.split)

lemma core_app_store [raft_frame]: "core (app_store r idx es) = core r"
  by (induction r idx es rule: app_store.induct) (simp_all add: raft_frame)

lemma core_maybe_advance_commit [raft_frame]: "core (maybe_advance_commit r) = core r"
  by (simp add: maybe_advance_commit_def Let_def raft_frame)

lemma core_compact [raft_frame]: "core (snd (cetcd_raft_compact r i t)) = core r"
  by (simp add: cetcd_raft_compact_def Let_def raft_frame)
     (simp add: core_def ecore_def log_append_def log_grow_def Let_def)

lemma coreD: "core r' = core r \<Longrightarrow> ecore r' = ecore r \<and> r_pending_msgs r' = r_pending_msgs r"
  by (simp add: core_def)

section \<open>How one step moves the election state\<close>

text \<open>
  The five ways a step can touch term, vote, role and collected votes. Every
  handler makes one of these moves.
\<close>

inductive election_move :: "cetcd_msg \<Rightarrow> cetcd_raft \<Rightarrow> cetcd_raft \<Rightarrow> bool" where
  quiet: "r_term r' = r_term r \<Longrightarrow> r_vote r' = r_vote r \<Longrightarrow>
     r_role r' = r_role r \<and> r_votes_granted r' = r_votes_granted r \<or>
     r_role r' = ROLE_FOLLOWER \<or> r_role r' = ROLE_PRE_CANDIDATE \<Longrightarrow>
     election_move m r r'"
| step_down: "r_term r < r_term r' \<Longrightarrow> r_vote r' = 0 \<Longrightarrow> r_role r' = ROLE_FOLLOWER \<Longrightarrow>
     election_move m r r'"
| grant: "m_type m = CETCD_MSG_VOTE \<Longrightarrow> r_term r' = m_term m \<Longrightarrow> r_vote r' = m_from m \<Longrightarrow>
     r_term r < m_term m \<and> r_role r' = ROLE_FOLLOWER \<or>
     r_term r = m_term m \<and> (r_vote r = 0 \<or> r_vote r = m_from m) \<and>
       r_role r' = r_role r \<and> r_votes_granted r' = r_votes_granted r \<Longrightarrow>
     election_move m r r'"
| campaign: "r_term r' = r_term r + 1 \<Longrightarrow> r_vote r' = r_id r \<Longrightarrow> r_votes_granted r' = [r_id r] \<Longrightarrow>
     r_role r' = ROLE_CANDIDATE \<or> r_role r' = ROLE_LEADER \<and> vote_quorum_ok r' \<Longrightarrow>
     election_move m r r'"
| count: "m_type m = CETCD_MSG_VOTE_RESP \<Longrightarrow> m_reject m = 0 \<Longrightarrow> m_term m \<le> r_term r \<Longrightarrow>
     r_role r = ROLE_CANDIDATE \<Longrightarrow> r_term r' = r_term r \<Longrightarrow> r_vote r' = r_vote r \<Longrightarrow>
     set (r_votes_granted r') \<subseteq> insert (m_from m) (set (r_votes_granted r)) \<Longrightarrow>
     r_role r' = ROLE_CANDIDATE \<or> r_role r' = ROLE_LEADER \<and> vote_quorum_ok r' \<Longrightarrow>
     election_move m r r'"

definition fresh_msgs :: "cetcd_msg \<Rightarrow> cetcd_raft \<Rightarrow> cetcd_raft \<Rightarrow> bool" where
  "fresh_msgs m r r' \<longleftrightarrow>
     (\<exists>M. r_pending_msgs r' = r_pending_msgs r @ M \<and>
          (\<forall>x \<in> set M. m_from x = r_id r \<and>
             (m_type x = CETCD_MSG_VOTE_RESP \<and> m_reject x = 0 \<longrightarrow>
                m_type m = CETCD_MSG_VOTE \<and> m_to x = m_from m \<and> m_term x = r_term r' \<and>
                r_vote r' = m_from m)))"

definition node_move :: "cetcd_msg \<Rightarrow> cetcd_raft \<Rightarrow> cetcd_raft \<Rightarrow> bool" where
  "node_move m r r' \<longleftrightarrow>
     fst (ecore r') = fst (ecore r) \<and> election_move m r r' \<and> fresh_msgs m r r'"

lemma config_cong:
  assumes "fst (ecore r') = fst (ecore r)"
  shows "incoming_voters r' = incoming_voters r" "r_outgoing r' = r_outgoing r" "r_id r' = r_id r"
proof -
  have f: "r_peers r' = r_peers r" "r_peer_learner r' = r_peer_learner r"
    using assms by (simp_all add: ecore_def)
  show "incoming_voters r' = incoming_voters r"
    unfolding incoming_voters_def n_peers_def peer_is_learner_def f by (rule refl)
  show "r_outgoing r' = r_outgoing r" "r_id r' = r_id r"
    using assms by (simp_all add: ecore_def)
qed

lemma vote_quorum_ok_votes:
  assumes "fst (ecore r') = fst (ecore r)" and "r_votes_granted r' = r_votes_granted r"
  shows "vote_quorum_ok r' = vote_quorum_ok r"
proof -
  have "vote_from r' = vote_from r"
    by (rule ext) (simp add: vote_from_def assms(2))
  then show ?thesis
    by (simp add: vote_quorum_ok_def config_cong [OF assms(1)])
qed

lemma vote_quorum_ok_cong: "ecore r' = ecore r \<Longrightarrow> vote_quorum_ok r' = vote_quorum_ok r"
  by (rule vote_quorum_ok_votes) (simp, rule ecoreD)

lemma election_move_cong:
  assumes "ecore r2 = ecore r1"
  shows "election_move m r r2 = election_move m r r1"
  by (simp add: election_move.simps ecoreD [OF assms] vote_quorum_ok_cong [OF assms])

lemma fresh_msgsI:
  assumes "r_pending_msgs r' = r_pending_msgs r @ M"
    and "\<And>x. x \<in> set M \<Longrightarrow> m_from x = r_id r \<and> m_type x \<noteq> CETCD_MSG_VOTE_RESP"
  shows "fresh_msgs m r r'"
  using assms unfolding fresh_msgs_def by blast

lemma fresh_msgs_none: "r_pending_msgs r' = r_pending_msgs r \<Longrightarrow> fresh_msgs m r r'"
  by (rule fresh_msgsI [where M = "[]"]) simp_all

lemma node_move_refl: "node_move m r r"
  by (simp add: node_move_def election_move.quiet fresh_msgs_none)

lemma node_move_sends:
  assumes "sends P r r'" and "\<And>x. P x \<Longrightarrow> m_from x = r_id r \<and> m_type x \<noteq> CETCD_MSG_VOTE_RESP"
  shows "node_move m r r'"
proof -
  from assms(1) obtain M where "r_pending_msgs r' = r_pending_msgs r @ M" "\<forall>x \<in> set M. P x"
    by (rule sends_msgs)
  with assms(2) have "fresh_msgs m r r'" by (intro fresh_msgsI) auto
  then show ?thesis
    by (simp add: node_move_def ecore_sends [OF assms(1)] election_move.quiet sends_fields [OF assms(1)])
qed

text \<open>A move followed by work that only sends leader traffic or touches log and commit.\<close>

lemma node_move_core:
  assumes "node_move m r r1" and "core r2 = core r1"
  shows "node_move m r r2"
proof -
  from assms(2) have e: "ecore r2 = ecore r1" and p: "r_pending_msgs r2 = r_pending_msgs r1"
    by (simp_all add: core_def)
  have "election_move m r r2"
    using assms(1) by (simp add: node_move_def election_move_cong [OF e])
  with assms(1) show ?thesis
    by (simp add: node_move_def e p fresh_msgs_def ecoreD [OF e])
qed

lemma node_move_then_sends:
  assumes "node_move m r r1" and s: "sends P r1 r2"
    and P: "\<And>x. P x \<Longrightarrow> m_from x = r_id r1 \<and> m_type x \<noteq> CETCD_MSG_VOTE_RESP"
  shows "node_move m r r2"
proof -
  have e: "ecore r2 = ecore r1" by (rule ecore_sends [OF s])
  have i: "r_id r1 = r_id r" using assms(1) by (simp add: node_move_def ecore_def)
  have "election_move m r r2"
    using assms(1) by (simp add: node_move_def election_move_cong [OF e])
  moreover have "fresh_msgs m r r2"
  proof -
    from s obtain M where M: "r_pending_msgs r2 = r_pending_msgs r1 @ M" "\<forall>x \<in> set M. P x"
      by (rule sends_msgs)
    from assms(1) obtain N where N: "r_pending_msgs r1 = r_pending_msgs r @ N"
      "\<forall>x \<in> set N. m_from x = r_id r \<and>
             (m_type x = CETCD_MSG_VOTE_RESP \<and> m_reject x = 0 \<longrightarrow>
                m_type m = CETCD_MSG_VOTE \<and> m_to x = m_from m \<and> m_term x = r_term r1 \<and>
                r_vote r1 = m_from m)"
      unfolding node_move_def fresh_msgs_def by blast
    show ?thesis
      unfolding fresh_msgs_def
      by (rule exI [of _ "N @ M"]) (use M N P i in \<open>auto simp: ecoreD [OF e]\<close>)
  qed
  ultimately show ?thesis using assms(1) by (simp add: node_move_def e)
qed

lemma leader_msg_not_vote_resp:
  "leader_msg i t x \<Longrightarrow> m_from x = i \<and> m_type x \<noteq> CETCD_MSG_VOTE_RESP"
  by (auto simp: leader_msg_def)

lemma node_move_queue:
  assumes "fst (ecore r1) = fst (ecore r)" and "election_move m r r1"
    and "r_pending_msgs r1 = r_pending_msgs r" and "m_from x = r_id r"
    and "m_type x = CETCD_MSG_VOTE_RESP \<Longrightarrow> m_reject x = 0 \<Longrightarrow>
           m_type m = CETCD_MSG_VOTE \<and> m_to x = m_from m \<and> m_term x = r_term r1 \<and> r_vote r1 = m_from m"
  shows "node_move m r (queue_msg r1 x)"
proof -
  have e: "ecore (queue_msg r1 x) = ecore r1" by (simp add: ecore_def queue_msg_def)
  have "fresh_msgs m r (queue_msg r1 x)"
    unfolding fresh_msgs_def using assms(3-) by (intro exI [of _ "[x]"]) (auto simp: queue_msg_def)
  with assms show ?thesis by (simp add: node_move_def e election_move_cong [OF e])
qed

lemma become_follower_fields [simp]:
  "ecore (become_follower r t l) = (fst (ecore r), if t > r_term r then t else r_term r,
     if t > r_term r then 0 else r_vote r, ROLE_FOLLOWER, r_votes_granted r)"
  "r_pending_msgs (become_follower r t l) = r_pending_msgs r"
  by (auto simp: become_follower_def Let_def ecore_def)

lemma become_follower_sel [simp]:
  "r_term (become_follower r t l) = (if t > r_term r then t else r_term r)"
  "r_vote (become_follower r t l) = (if t > r_term r then 0 else r_vote r)"
  "r_role (become_follower r t l) = ROLE_FOLLOWER"
  "r_id (become_follower r t l) = r_id r"
  "r_peers (become_follower r t l) = r_peers r"
  "r_peer_learner (become_follower r t l) = r_peer_learner r"
  "r_peers_cap (become_follower r t l) = r_peers_cap r"
  "r_outgoing (become_follower r t l) = r_outgoing r"
  "r_votes_granted (become_follower r t l) = r_votes_granted r"
  by (auto simp: become_follower_def Let_def)

lemma node_move_follower: "node_move m r (become_follower r t l)"
proof -
  have "election_move m r (become_follower r t l)"
  proof (cases "r_term r < t")
    case True
    then show ?thesis by (intro election_move.step_down) simp_all
  next
    case False
    then show ?thesis by (intro election_move.quiet) simp_all
  qed
  then show ?thesis by (simp add: node_move_def fresh_msgs_none)
qed

lemma node_move_follower_hs: "node_move m r (queue_hard_state (become_follower r t l))"
  by (rule node_move_core [OF node_move_follower]) (rule core_queue_hard_state)

lemma handle_vote_move:
  assumes "m_type msg = CETCD_MSG_VOTE"
  shows "node_move msg r (handle_vote r msg)"
proof (cases "m_term msg < r_term r")
  case True
  then show ?thesis
    unfolding handle_vote_def by (auto intro!: node_move_queue election_move.quiet)
next
  case False
  define r1 where "r1 = (if m_term msg > r_term r
                 then queue_hard_state (become_follower r (m_term msg) 0) else r)"
  have c1: "core r1 = (if m_term msg > r_term r then core (become_follower r (m_term msg) 0) else core r)"
    by (simp add: r1_def raft_frame)
  then have r1: "fst (ecore r1) = fst (ecore r)" "r_pending_msgs r1 = r_pending_msgs r"
    "r_id r1 = r_id r" "r_term r1 = m_term msg" "r_votes_granted r1 = r_votes_granted r"
    "m_term msg > r_term r \<Longrightarrow> r_role r1 = ROLE_FOLLOWER \<and> r_vote r1 = 0"
    "\<not> m_term msg > r_term r \<Longrightarrow> r_role r1 = r_role r \<and> r_vote r1 = r_vote r"
    using False by (auto simp: core_def ecore_def split: if_splits)
  define r2 where "r2 = queue_hard_state (r1\<lparr>r_vote := m_from msg, r_elapsed_ticks := 0\<rparr>)"
  have r2: "fst (ecore r2) = fst (ecore r1)" "r_pending_msgs r2 = r_pending_msgs r1"
    "r_term r2 = r_term r1" "r_vote r2 = m_from msg" "r_role r2 = r_role r1"
    "r_votes_granted r2 = r_votes_granted r1"
    by (simp_all add: r2_def queue_hard_state_def ecore_def)
  have "election_move msg r r2" if "r_vote r1 = 0 \<or> r_vote r1 = m_from msg"
  proof (rule election_move.grant)
    show "r_term r < m_term msg \<and> r_role r2 = ROLE_FOLLOWER \<or>
      r_term r = m_term msg \<and> (r_vote r = 0 \<or> r_vote r = m_from msg) \<and>
        r_role r2 = r_role r \<and> r_votes_granted r2 = r_votes_granted r"
      using False that r1 r2 by (cases "r_term r < m_term msg") auto
  qed (use assms r1 r2 in simp_all)
  moreover have "election_move msg r r1"
    using r1 False by (cases "m_term msg > r_term r")
      (auto intro: election_move.step_down election_move.quiet)
  ultimately show ?thesis
    using False assms r1 r2 unfolding handle_vote_def r1_def [symmetric]
    by (auto simp: Let_def r2_def [symmetric] intro!: node_move_queue)
qed

lemma accept_leader_move: "node_move msg r (accept_leader r msg)"
proof -
  define r1 where "r1 = (if m_term msg > r_term r
               then queue_hard_state (become_follower r (m_term msg) (m_from msg)) else r)"
  define r2 where "r2 = (if r_role r1 \<noteq> ROLE_FOLLOWER then become_follower r1 (m_term msg) (m_from msg) else r1)"
  have c: "core (accept_leader r msg) = core r2"
    by (simp add: accept_leader_def Let_def r1_def [symmetric] r2_def [symmetric] core_def ecore_def)
  have "node_move msg r r2"
  proof (cases "m_term msg > r_term r")
    case True
    then have "r2 = queue_hard_state (become_follower r (m_term msg) (m_from msg))"
      by (simp add: r2_def r1_def queue_hard_state_def)
    then show ?thesis by (simp add: node_move_follower_hs)
  next
    case False
    then show ?thesis by (simp add: r2_def r1_def node_move_follower node_move_refl)
  qed
  then show ?thesis by (rule node_move_core) (rule c)
qed

lemma node_move_then_queue:
  assumes "node_move m r r1" and "m_from x = r_id r1" and "m_type x \<noteq> CETCD_MSG_VOTE_RESP"
  shows "node_move m r (queue_msg r1 x)"
  by (rule node_move_then_sends [OF assms(1) sends_queue_msg [where P = "\<lambda>y. y = x"]])
    (use assms in auto)

lemma handle_app_move: "node_move msg r (handle_app r msg)"
proof -
  define r1 where "r1 = accept_leader r msg"
  define r2 where "r2 = follow_commit (app_store r1 (m_index msg + 1) (m_entries msg)) (m_commit msg)"
  have 1: "node_move msg r r1" unfolding r1_def by (rule accept_leader_move)
  have 2: "node_move msg r r2"
    by (rule node_move_core [OF 1]) (simp add: r2_def raft_frame)
  show ?thesis
    unfolding handle_app_def Let_def r1_def [symmetric] r2_def [symmetric]
    by (auto intro!: node_move_then_queue 1 2 node_move_refl)
qed

lemma handle_heartbeat_move: "node_move msg r (handle_heartbeat r msg)"
proof -
  define r1 where "r1 = accept_leader r msg"
  have 1: "node_move msg r r1" unfolding r1_def by (rule accept_leader_move)
  have 2: "node_move msg r (follow_commit r1 (m_commit msg))"
    by (rule node_move_core [OF 1]) (simp add: raft_frame)
  show ?thesis
    unfolding handle_heartbeat_def Let_def r1_def [symmetric]
    by (auto intro!: node_move_then_queue 2 node_move_refl)
qed

lemma handle_pre_vote_move: "node_move msg r (handle_pre_vote r msg)"
  unfolding handle_pre_vote_def Let_def by (intro node_move_then_queue node_move_refl) simp_all

text \<open>Work after a move that keeps it a move.\<close>

lemma node_move_hs: "node_move m r r1 \<Longrightarrow> node_move m r (queue_hard_state r1)"
  by (erule node_move_core) (rule core_queue_hard_state)

lemma node_move_commit: "node_move m r r1 \<Longrightarrow> node_move m r (maybe_advance_commit r1)"
  by (erule node_move_core) (rule core_maybe_advance_commit)

lemma node_move_progress: "node_move m r r1 \<Longrightarrow> node_move m r (set_progress r1 i f)"
  by (erule node_move_then_sends [OF _ sends_set_progress [where P = "\<lambda>x. False"]]) simp

lemma node_move_leader_msgs:
  "node_move m r r1 \<Longrightarrow> sends (leader_msg (r_id r1) (r_term r1)) r1 r2 \<Longrightarrow> node_move m r r2"
  by (erule (1) node_move_then_sends) (rule leader_msg_not_vote_resp)

lemmas node_move_app = node_move_leader_msgs [OF _ sends_maybe_send_app]
lemmas node_move_snap = node_move_leader_msgs [OF _ sends_maybe_send_snap]
lemmas node_move_heartbeats = node_move_leader_msgs [OF _ sends_heartbeats]
lemmas node_move_broadcast = node_move_leader_msgs [OF _ sends_broadcast_app]

lemma node_move_if:
  "(c \<Longrightarrow> node_move m r a) \<Longrightarrow> (\<not> c \<Longrightarrow> node_move m r b) \<Longrightarrow> node_move m r (if c then a else b)"
  by simp

lemma node_move_option:
  "node_move m r a \<Longrightarrow> (\<And>x. node_move m r (f x)) \<Longrightarrow>
   node_move m r (case y of None \<Rightarrow> a | Some x \<Rightarrow> f x)"
  by (cases y) simp_all

lemmas node_move_intros = node_move_if node_move_option node_move_hs node_move_commit
  node_move_progress node_move_app node_move_snap node_move_heartbeats node_move_broadcast

lemma become_leader_sel [simp]:
  "ecore (become_leader r) = (fst (ecore r), r_term r, r_vote r, ROLE_LEADER, r_votes_granted r)"
  "r_pending_msgs (become_leader r) = r_pending_msgs r"
  "r_term (become_leader r) = r_term r" "r_vote (become_leader r) = r_vote r"
  "r_role (become_leader r) = ROLE_LEADER" "r_votes_granted (become_leader r) = r_votes_granted r"
  by (simp_all add: become_leader_def ecore_def)

lemma vote_quorum_ok_leader [simp]: "vote_quorum_ok (become_leader r) = vote_quorum_ok r"
  by (rule vote_quorum_ok_votes) simp_all

lemma become_candidate_move:
  assumes "fst (ecore r0) = fst (ecore r)" and "r_term r0 = r_term r"
    and "r_pending_msgs r0 = r_pending_msgs r"
  shows "node_move m r (become_candidate r0)"
proof -
  define c where "c = r0\<lparr>r_role := ROLE_CANDIDATE, r_leader_id := 0, r_term := r_term r0 + 1,
                r_vote := r_id r0, r_elapsed_ticks := 0, r_votes_granted := [r_id r0]\<rparr>"
  have i: "r_id r0 = r_id r" using assms(1) by (simp add: ecore_def)
  have c: "r_term c = r_term r + 1" "r_vote c = r_id r" "r_votes_granted c = [r_id r]"
    "r_role c = ROLE_CANDIDATE" "fst (ecore c) = fst (ecore r)" "r_pending_msgs c = r_pending_msgs r"
    using assms by (simp_all add: c_def i ecore_def)
  have "node_move m r c"
    using c by (auto simp: node_move_def fresh_msgs_none intro: election_move.campaign)
  then have 1: "node_move m r (send_vote_requests c CETCD_MSG_VOTE (r_term c))"
    by (rule node_move_then_sends [OF _ sends_vote_requests]) (simp add: vote_request_def)
  have 2: "node_move m r (become_leader c)" if "vote_quorum_ok c"
    using c that by (auto simp: node_move_def fresh_msgs_none intro!: election_move.campaign)
  show ?thesis
    unfolding become_candidate_def Let_def c_def [symmetric] by (intro node_move_if 1 2)
qed

lemma become_pre_candidate_move: "node_move m r (become_pre_candidate r)"
proof -
  define c where "c = r\<lparr>r_role := ROLE_PRE_CANDIDATE, r_leader_id := 0, r_elapsed_ticks := 0,
                r_votes_granted := [r_id r]\<rparr>"
  have c: "r_term c = r_term r" "r_vote c = r_vote r" "r_role c = ROLE_PRE_CANDIDATE"
    "fst (ecore c) = fst (ecore r)" "r_pending_msgs c = r_pending_msgs r"
    by (simp_all add: c_def ecore_def)
  then have "node_move m r c"
    by (auto simp: node_move_def fresh_msgs_none intro: election_move.quiet)
  then have 1: "node_move m r (send_vote_requests c CETCD_MSG_PRE_VOTE (r_term c + 1))"
    by (rule node_move_then_sends [OF _ sends_vote_requests]) (simp add: vote_request_def)
  have 2: "node_move m r (become_candidate c)" by (rule become_candidate_move) (simp_all add: c)
  show ?thesis
    unfolding become_pre_candidate_def Let_def c_def [symmetric] by (intro node_move_if 1 2)
qed

lemma record_vote_sel:
  "fst (ecore (record_vote r f)) = fst (ecore r)" "r_term (record_vote r f) = r_term r"
  "r_vote (record_vote r f) = r_vote r" "r_role (record_vote r f) = r_role r"
  "r_pending_msgs (record_vote r f) = r_pending_msgs r"
  "set (r_votes_granted (record_vote r f)) \<subseteq> insert f (set (r_votes_granted r))"
  by (auto simp: record_vote_def ecore_def)

lemma handle_vote_resp_move:
  assumes "m_type msg = CETCD_MSG_VOTE_RESP"
  shows "node_move msg r (handle_vote_resp r msg)"
proof -
  define c where "c = record_vote r (m_from msg)"
  note c = record_vote_sel [of r "m_from msg", folded c_def]
  have "node_move msg r c" "vote_quorum_ok c \<Longrightarrow> node_move msg r (become_leader c)"
    if "\<not> m_term msg > r_term r" "r_role r = ROLE_CANDIDATE" "m_reject msg = 0"
    using that assms c by (auto simp: node_move_def fresh_msgs_none intro!: election_move.count)
  then show ?thesis
    unfolding handle_vote_resp_def Let_def c_def [symmetric]
    by (intro node_move_intros node_move_refl node_move_follower) simp_all
qed

lemma handle_pre_vote_resp_move: "node_move msg r (handle_pre_vote_resp r msg)"
proof -
  define c where "c = record_vote r (m_from msg)"
  note c = record_vote_sel [of r "m_from msg", folded c_def]
  have 1: "node_move msg r c" if "r_role r = ROLE_PRE_CANDIDATE"
    using that c by (auto simp: node_move_def fresh_msgs_none intro!: election_move.quiet)
  have 2: "node_move msg r (become_candidate c)" by (rule become_candidate_move) (simp_all add: c)
  show ?thesis
    unfolding handle_pre_vote_resp_def Let_def c_def [symmetric]
    by (intro node_move_intros node_move_refl node_move_follower 2) (simp add: 1)
qed

lemma node_move_id: "node_move m r r1 \<Longrightarrow> r_id r1 = r_id r"
  by (simp add: node_move_def ecore_def)

lemma handle_snap_move: "node_move msg r (handle_snap r msg)"
proof -
  define r1 where "r1 = (if m_term msg > r_term r
                    then queue_hard_state (become_follower r (m_term msg) (m_from msg)) else r)"
  define r2 where "r2 = (if r_role r1 \<noteq> ROLE_FOLLOWER then become_follower r1 (r_term r1) (m_from msg) else r1)
    \<lparr>r_leader_id := m_from msg, r_elapsed_ticks := 0\<rparr>"
  define r3 where "r3 = (if m_snapshot msg > r_log_compacted r2
                          then cetcd_raft_compact r2 (m_snapshot msg) (m_log_term msg) else (0, r2))"
  define r4 where "r4 = (if m_snapshot msg > r_commit (snd r3)
                    then queue_hard_state ((snd r3)\<lparr>r_commit := m_snapshot msg\<rparr>) else snd r3)"
  define r5 where "r5 = (if m_snapshot msg > r_applied r4 then r4\<lparr>r_applied := m_snapshot msg\<rparr> else r4)"
  have 1: "node_move msg r r1"
    unfolding r1_def by (intro node_move_intros node_move_follower node_move_refl)
  have 2: "node_move msg r r2"
  proof (cases "m_term msg > r_term r")
    case True
    then have "r_role r1 = ROLE_FOLLOWER" by (simp add: r1_def queue_hard_state_def)
    then show ?thesis by (intro node_move_core [OF 1]) (simp add: r2_def core_def ecore_def)
  next
    case False
    then have "node_move msg r (if r_role r \<noteq> ROLE_FOLLOWER then become_follower r (r_term r) (m_from msg) else r)"
      by (intro node_move_if node_move_follower node_move_refl)
    then show ?thesis
      by (rule node_move_core) (simp add: r2_def r1_def False core_def ecore_def)
  qed
  have 3: "node_move msg r (snd r3)"
    by (rule node_move_core [OF 2]) (simp add: r3_def raft_frame)
  have "core r5 = core (snd r3)"
    by (simp add: r5_def r4_def raft_frame) (simp add: core_def ecore_def queue_hard_state_def)
  then have 5: "node_move msg r r5" by (rule node_move_core [OF 3])
  show ?thesis
    unfolding handle_snap_def Let_def r1_def [symmetric] r2_def [symmetric] r3_def [symmetric]
      split_beta r4_def [symmetric] r5_def [symmetric]
    by (intro node_move_if node_move_then_queue node_move_refl 1 3 5)
      (simp_all add: node_move_id [OF 1] node_move_id [OF 3] node_move_id [OF 5])
qed

lemma handle_app_resp_move: "node_move msg r (handle_app_resp r msg)"
  unfolding handle_app_resp_def Let_def
  by (intro node_move_intros node_move_follower node_move_refl)

lemma handle_snap_status_move: "node_move msg r (handle_snap_status r msg)"
  unfolding handle_snap_status_def Let_def
  by (intro node_move_intros node_move_follower node_move_refl)

lemma leader_append_move: "node_move m r (leader_append r typ data)"
proof -
  have "core (log_append (r\<lparr>r_log_last_index := i, r_log_last_term := t\<rparr>) e) = core r" for i t e
    by (simp add: raft_frame) (simp add: core_def ecore_def)
  then have "node_move m r (log_append (r\<lparr>r_log_last_index := i, r_log_last_term := t\<rparr>) e)" for i t e
    by (rule node_move_core [OF node_move_refl])
  moreover have "node_move m r r1 \<Longrightarrow> node_move m r (queue_entry r1 e)" for r1 e
    by (erule node_move_core) (rule core_queue_entry)
  ultimately show ?thesis
    unfolding leader_append_def Let_def by (intro node_move_intros) simp_all
qed

lemma beat_move: "node_move m r (fold beat_peer xs r)"
  by (rule node_move_leader_msgs [OF node_move_refl]) (rule sends_fold, rule sends_beat_peer)

lemma cetcd_raft_step_move: "node_move m r (snd (cetcd_raft_step r m))"
proof (cases "m_type m")
  case CETCD_MSG_HUP
  then show ?thesis
    by (auto simp: cetcd_raft_step_def
        intro!: node_move_intros node_move_refl become_candidate_move become_pre_candidate_move)
next
  case CETCD_MSG_TRANSFER_LEADER
  then show ?thesis
    by (auto simp: cetcd_raft_step_def intro!: node_move_then_queue node_move_refl)
next
  case CETCD_MSG_TIMEOUT_NOW
  then show ?thesis
    by (auto simp: cetcd_raft_step_def intro!: node_move_intros node_move_refl become_candidate_move)
qed (simp_all add: cetcd_raft_step_def node_move_refl handle_vote_move handle_vote_resp_move
    handle_pre_vote_move handle_pre_vote_resp_move handle_app_move handle_app_resp_move
    handle_heartbeat_move handle_snap_move handle_snap_status_move leader_append_move beat_move)

lemma node_move_core_left:
  assumes "core r0 = core r" and "node_move m r0 r1"
  shows "node_move m r r1"
proof -
  from assms(1) have e: "ecore r0 = ecore r" and p: "r_pending_msgs r0 = r_pending_msgs r"
    by (simp_all add: core_def)
  from assms(2) have "election_move m r r1"
    by (simp add: node_move_def election_move.simps ecoreD [OF e])
  with assms(2) show ?thesis
    unfolding node_move_def fresh_msgs_def e p ecoreD [OF e] by blast
qed

lemma cetcd_raft_tick_move: "\<exists>m. m_type m \<in> {CETCD_MSG_HUP, CETCD_MSG_BEAT} \<and> node_move m r (cetcd_raft_tick r)"
proof -
  define t where "t = r\<lparr>r_elapsed_ticks := r_elapsed_ticks r + 1,
                r_heartbeat_elapsed := r_heartbeat_elapsed r + 1\<rparr>"
  define beat where "beat = zero_msg\<lparr>m_type := CETCD_MSG_BEAT, m_from := r_id t\<rparr>"
  define hup where "hup = zero_msg\<lparr>m_type := CETCD_MSG_HUP, m_from := r_id t\<rparr>"
  have c: "core t = core r" "core (t\<lparr>r_heartbeat_elapsed := 0\<rparr>) = core r"
    by (simp_all add: t_def core_def ecore_def)
  have 1: "node_move m r t" for m by (rule node_move_core [OF node_move_refl c(1)])
  have 2: "node_move beat r (snd (cetcd_raft_step (t\<lparr>r_heartbeat_elapsed := 0\<rparr>) beat))"
    by (rule node_move_core_left [OF c(2) cetcd_raft_step_move])
  have 3: "node_move hup r (snd (cetcd_raft_step t hup))"
    by (rule node_move_core_left [OF c(1) cetcd_raft_step_move])
  have "node_move (if r_role t = ROLE_LEADER then beat else hup) r (cetcd_raft_tick r)"
    unfolding cetcd_raft_tick_def Let_def t_def [symmetric] beat_def [symmetric] hup_def [symmetric]
    by (auto intro: 1 2 3)
  moreover have "m_type (if r_role t = ROLE_LEADER then beat else hup) \<in> {CETCD_MSG_HUP, CETCD_MSG_BEAT}"
    by (simp add: beat_def hup_def)
  ultimately show ?thesis by blast
qed

end
