(* ===== verification/Raft_Sample.thy ===== *)
theory Raft_Sample
  imports Raft_Step
begin

text \<open>
  A three-node cluster in its initial state, built by the operations of the model:
  the concrete nodes the examples of the development run on.
\<close>

definition sample_config :: "u64 \<Rightarrow> cetcd_raft_config" where
  "sample_config i = \<lparr>cfg_id = i, cfg_election_tick = 10, cfg_heartbeat_tick = 1,
     cfg_max_size_per_msg = 0, cfg_max_inflight_msgs = 256, cfg_check_quorum = False, cfg_pre_vote = False\<rparr>"

definition sample_node :: "u64 \<Rightarrow> cetcd_raft" where
  "sample_node i = cetcd_raft_apply_conf_change (the (cetcd_raft_new (sample_config i))) [1, 2, 3] []"

end
