(* ===== verification/Raft_Quorum.thy ===== *)
theory Raft_Quorum
  imports Raft_Election Raft_Sample "HOL-Library.Multiset"
begin

text \<open>
  Quorums. The interface \<open>quorum_system\<close> is what an election needs of the vote
  rule: two quorums meet. It is interpreted on the vote rule of
  \<^verbatim>\<open>vote_quorum_ok_\<close> in \<^verbatim>\<open>src/raft/raft.c\<close>, in and out of a joint configuration.
  The second half is about \<^verbatim>\<open>majority_match_ids_\<close>: its exchange sort sorts, and the
  index it returns is the largest one that a majority has reached.
\<close>

section \<open>Quorum systems\<close>

locale quorum_system =
  fixes is_quorum :: "'a set \<Rightarrow> bool"
  assumes intersect: "is_quorum Q \<Longrightarrow> is_quorum Q' \<Longrightarrow> Q \<inter> Q' \<noteq> {}"
begin

lemma unique_winner:
  assumes "is_quorum Q" and "is_quorum Q'"
    and "\<And>v. v \<in> Q \<Longrightarrow> (v, c) \<in> cast" and "\<And>v. v \<in> Q' \<Longrightarrow> (v, c') \<in> cast"
    and "single_valued cast"
  shows "c = c'"
proof -
  from intersect [OF assms(1,2)] obtain v where "v \<in> Q" "v \<in> Q'" by blast
  with assms(3-) show ?thesis by (meson single_valuedD)
qed

lemma quorum_nonempty: "is_quorum Q \<Longrightarrow> Q \<noteq> {}"
  using intersect by blast

end

locale joint_quorum = inc: quorum_system incoming + out: quorum_system outgoing
  for incoming outgoing :: "'a set \<Rightarrow> bool"

sublocale joint_quorum \<subseteq> both: quorum_system "\<lambda>Q. incoming Q \<and> outgoing Q"
  by unfold_locales (use inc.intersect in blast)

section \<open>The vote rule\<close>

definition is_majority :: "u64 list \<Rightarrow> u64 set \<Rightarrow> bool" where
  "is_majority vs Q \<longleftrightarrow> quorum (length vs) \<le> length (filter (\<lambda>p. p \<in> Q) vs)"

definition is_vote_quorum :: "u64 list \<Rightarrow> u64 list \<Rightarrow> u64 set \<Rightarrow> bool" where
  "is_vote_quorum inc out Q \<longleftrightarrow> is_majority inc Q \<and> (out = [] \<or> is_majority out Q)"

lemma length_filter_two:
  "length (filter P xs) + length (filter Q xs) =
   length (filter (\<lambda>x. P x \<and> Q x) xs) + length (filter (\<lambda>x. P x \<or> Q x) xs)"
  by (induction xs) auto

lemma majority_intersect:
  assumes "is_majority vs Q" and "is_majority vs Q'"
  shows "\<exists>v \<in> set vs. v \<in> Q \<and> v \<in> Q'"
proof -
  have "length vs < length (filter (\<lambda>p. p \<in> Q) vs) + length (filter (\<lambda>p. p \<in> Q') vs)"
    using assms by (simp add: is_majority_def quorum_def)
  also have "\<dots> \<le> length (filter (\<lambda>x. x \<in> Q \<and> x \<in> Q') vs) + length vs"
    by (subst length_filter_two) (intro add_left_mono length_filter_le)
  finally have "filter (\<lambda>x. x \<in> Q \<and> x \<in> Q') vs \<noteq> []" by auto
  then show ?thesis by (auto simp: filter_empty_conv)
qed

interpretation mq: quorum_system "is_majority vs" for vs
  by unfold_locales (use majority_intersect in blast)

interpretation jq: joint_quorum "is_majority inc" "is_majority out" for inc out
  by unfold_locales

interpretation vq: quorum_system "is_vote_quorum inc out" for inc out
  by unfold_locales (use mq.intersect in \<open>auto simp: is_vote_quorum_def\<close>)

lemma vote_quorum_ok_iff:
  "vote_quorum_ok r \<longleftrightarrow>
   is_vote_quorum (incoming_voters r) (r_outgoing r) (set (r_votes_granted r))"
  by (simp add: vote_quorum_ok_def is_vote_quorum_def is_majority_def Let_def vote_from_def [abs_def])
    (auto simp: quorum_def)

lemma length_filter_distinct: "distinct xs \<Longrightarrow> length (filter P xs) = card (set xs \<inter> {x. P x})"
  by (metis distinct_card distinct_filter set_filter Collect_conj_eq Collect_mem_eq)

lemma is_majority_perm:
  assumes "distinct vs" and "distinct vs'" and "set vs = set vs'"
  shows "is_majority vs = is_majority vs'"
proof -
  have "length vs = length vs'" using assms by (metis distinct_card)
  then show ?thesis
    using assms by (auto simp: is_majority_def length_filter_distinct fun_eq_iff)
qed

lemma is_majority_mono: "is_majority vs Q \<Longrightarrow> Q \<subseteq> Q' \<Longrightarrow> is_majority vs Q'"
proof -
  assume "is_majority vs Q" and "Q \<subseteq> Q'"
  moreover from \<open>Q \<subseteq> Q'\<close> have "length (filter (\<lambda>p. p \<in> Q) vs) \<le> length (filter (\<lambda>p. p \<in> Q') vs)"
    by (induction vs) auto
  ultimately show ?thesis by (simp add: is_majority_def)
qed

section \<open>The exchange sort\<close>

lemma swap_if_less_mset:
  "i < length s \<Longrightarrow> j < length s \<Longrightarrow> mset (swap_if_less i j s) = mset s"
  by (simp add: swap_if_less_def mset_swap)

lemma swap_if_less_length [simp]: "length (swap_if_less i j s) = length s"
  by (simp add: swap_if_less_def)

lemma inner_loop:
  assumes "i < k" and "k \<le> length s"
  defines "t \<equiv> fold (swap_if_less i) [Suc i..<k] s"
  shows "length t = length s \<and> mset t = mset s \<and> (\<forall>j<i. t ! j = s ! j) \<and>
         (\<forall>j. i < j \<and> j < k \<longrightarrow> t ! j \<le> t ! i)"
  using assms(1,2) unfolding t_def
proof (induction k)
  case (Suc k)
  show ?case
  proof (cases "i < k")
    case True
    define u where "u = fold (swap_if_less i) [Suc i..<k] s"
    have u: "length u = length s" "mset u = mset s" "\<forall>j<i. u ! j = s ! j"
      "\<forall>j. i < j \<and> j < k \<longrightarrow> u ! j \<le> u ! i"
      using Suc True by (simp_all add: u_def)
    have "mset (swap_if_less i k u) = mset s"
      using True Suc.prems u by (simp add: swap_if_less_mset)
    moreover have "\<forall>j<i. swap_if_less i k u ! j = s ! j"
      using u True by (simp add: swap_if_less_def)
    moreover have "swap_if_less i k u ! j \<le> swap_if_less i k u ! i" if "i < j" "j < Suc k" for j
      using u that True Suc.prems
      by (cases "j = k") (auto simp: swap_if_less_def nth_list_update intro: less_imp_le order_trans)
    ultimately show ?thesis
      using True u by (simp add: u_def [symmetric])
  next
    case False
    with Suc.prems have "k = i" by simp
    then show ?thesis by auto
  qed
qed simp

lemma set_drop_eq:
  assumes "mset t = mset s" and "\<forall>j<i. t ! j = s ! j"
  shows "set (drop i t) = set (drop i s)"
proof -
  have "length t = length s" using assms(1) by (rule mset_eq_length)
  then have "take i t = take i s"
    using assms(2) by (intro nth_equalityI) simp_all
  moreover have "mset (take i t) + mset (drop i t) = mset (take i s) + mset (drop i s)"
    using assms(1) by (metis append_take_drop_id mset_append)
  ultimately have "mset (drop i t) = mset (drop i s)" by simp
  then show ?thesis by (rule mset_eq_setD)
qed

lemma outer_loop:
  assumes "k \<le> length s"
  defines "t \<equiv> fold (\<lambda>i s. fold (\<lambda>j s. swap_if_less i j s) [Suc i..<length s] s) [0..<k] s"
  shows "length t = length s \<and> mset t = mset s \<and> (\<forall>a b. a < k \<and> a < b \<and> b < length s \<longrightarrow> t ! b \<le> t ! a)"
  using assms(1) unfolding t_def
proof (induction k)
  case (Suc k)
  define u where "u = fold (\<lambda>i s. fold (\<lambda>j s. swap_if_less i j s) [Suc i..<length s] s) [0..<k] s"
  have u: "length u = length s" "mset u = mset s"
    "\<forall>a b. a < k \<and> a < b \<and> b < length s \<longrightarrow> u ! b \<le> u ! a"
    using Suc by (simp_all add: u_def)
  define t where "t = fold (swap_if_less k) [Suc k..<length u] u"
  have t: "length t = length u" "mset t = mset u" "\<forall>j<k. t ! j = u ! j"
    "\<forall>j. k < j \<and> j < length u \<longrightarrow> t ! j \<le> t ! k"
    using inner_loop [of k "length u" u] Suc.prems u by (simp_all add: t_def)
  have "t ! b \<le> t ! a" if "a < Suc k" "a < b" "b < length s" for a b
  proof (cases "a = k \<or> b < k")
    case True
    then show ?thesis using t u that by (auto simp: less_Suc_eq)
  next
    case False
    then have "t ! b = drop k t ! (b - k)" "b - k < length (drop k t)"
      using that t u by (simp_all add: less_diff_conv)
    then have "t ! b \<in> set (drop k t)" by (metis nth_mem)
    then have "t ! b \<in> set (drop k u)" using set_drop_eq [OF t(2,3)] by simp
    then obtain c where "c < length u - k" "t ! b = u ! (k + c)"
      by (auto simp: in_set_conv_nth)
    then show ?thesis using u t that False by auto
  qed
  then show ?case using t u by (simp add: u_def [symmetric] t_def)
qed simp

lemma exchange_sort_sorted:
  "mset (exchange_sort s) = mset s" "sorted_wrt (\<ge>) (exchange_sort s)"
  using outer_loop [of "length s" s] unfolding exchange_sort_def
  by (auto simp: sorted_wrt_iff_nth_less)

lemma length_filter_mset: "mset xs = mset ys \<Longrightarrow> length (filter P xs) = length (filter P ys)"
  by (metis mset_filter size_mset)

lemma length_filter_ge_nth:
  fixes t :: "'a :: linorder list"
  assumes "sorted_wrt (\<ge>) t" and "k < length t"
  shows "Suc k \<le> length (filter (\<lambda>x. t ! k \<le> x) t)"
proof -
  have "filter (\<lambda>x. t ! k \<le> x) (take (Suc k) t) = take (Suc k) t"
    using assms by (auto simp: filter_id_conv in_set_conv_nth sorted_wrt_iff_nth_less less_Suc_eq)
  then have "Suc k = length (filter (\<lambda>x. t ! k \<le> x) (take (Suc k) t))"
    using assms(2) by simp
  also have "\<dots> \<le> length (filter (\<lambda>x. t ! k \<le> x) (take (Suc k) t @ drop (Suc k) t))"
    unfolding filter_append length_append by simp
  finally show ?thesis by simp
qed

lemma length_filter_gt_nth:
  fixes t :: "'a :: linorder list"
  assumes "sorted_wrt (\<ge>) t" and "k < length t" and "t ! k < v"
  shows "length (filter (\<lambda>x. v \<le> x) t) \<le> k"
proof -
  have "x < v" if x: "x \<in> set (drop k t)" for x
  proof -
    from x obtain j where "j < length t - k" "x = t ! (k + j)"
      by (auto simp: in_set_conv_nth)
    then have "x \<le> t ! k" using assms(1,2) by (cases j) (auto simp: sorted_wrt_iff_nth_less)
    with assms(3) show ?thesis by simp
  qed
  then have "filter (\<lambda>x. v \<le> x) (drop k t) = []" by (auto simp: filter_empty_conv not_le)
  then have "length (filter (\<lambda>x. v \<le> x) (take k t @ drop k t)) = length (filter (\<lambda>x. v \<le> x) (take k t))"
    unfolding filter_append by simp
  also have "\<dots> \<le> length (take k t)" by (rule length_filter_le)
  also have "\<dots> \<le> k" by simp
  finally show ?thesis by simp
qed

lemma majority_match_count:
  assumes "ids \<noteq> []"
  shows "is_majority (take MAX_PEERS ids) {p. majority_match_ids r ids \<le> match_of r p}"
    and "majority_match_ids r ids < v \<Longrightarrow> \<not> is_majority (take MAX_PEERS ids) {p. v \<le> match_of r p}"
proof -
  define vs where "vs = take MAX_PEERS ids"
  define t where "t = exchange_sort (map (match_of r) vs)"
  define k where "k = length vs div 2"
  have vs: "vs \<noteq> []" using assms by (simp add: vs_def MAX_PEERS_def)
  have m: "mset t = mset (map (match_of r) vs)" and srt: "sorted_wrt (\<ge>) t"
    unfolding t_def by (rule exchange_sort_sorted)+
  have len: "length t = length vs" using mset_eq_length [OF m] by simp
  have k: "k < length t" using vs by (cases vs) (simp_all add: k_def len)
  have res: "majority_match_ids r ids = t ! k"
    using assms by (simp add: majority_match_ids_def Let_def t_def vs_def k_def quorum_def)
  have cnt: "length (filter (\<lambda>p. P (match_of r p)) vs) = length (filter P t)" for P
    using length_filter_mset [OF m, of P] by (simp add: filter_map comp_def)
  have q: "quorum (length vs) = Suc k" by (simp add: quorum_def k_def)
  show "is_majority (take MAX_PEERS ids) {p. majority_match_ids r ids \<le> match_of r p}"
    unfolding vs_def [symmetric] res is_majority_def q mem_Collect_eq
    using length_filter_ge_nth [OF srt k] by (simp add: cnt [of "\<lambda>x. _ \<le> x"])
  show "\<not> is_majority (take MAX_PEERS ids) {p. v \<le> match_of r p}" if "majority_match_ids r ids < v"
    using that length_filter_gt_nth [OF srt k]
    unfolding vs_def [symmetric] res is_majority_def q mem_Collect_eq
    by (simp add: cnt [of "\<lambda>x. _ \<le> x"] not_le less_Suc_eq_le)
qed

lemma majority_match_mono:
  "c \<le> majority_match_ids r ids \<Longrightarrow> ids \<noteq> [] \<Longrightarrow>
   is_majority (take MAX_PEERS ids) {p. c \<le> match_of r p}"
  by (rule is_majority_mono [OF majority_match_count(1) [of ids r]]) auto

lemma incoming_voters_take [simp]: "take MAX_PEERS (incoming_voters r) = incoming_voters r"
  by (simp add: incoming_voters_def)

text \<open>
  C5. The index \<^verbatim>\<open>majority_match_ids_\<close> returns for a non-empty list of voters is the
  commit index of the Raft paper: a majority of the (at most 16) voters counted
  has a match index at least as large, and no larger index has a majority.
\<close>

theorem majority_match_ids_correct:
  assumes "ids \<noteq> []"
  shows "is_majority (take MAX_PEERS ids) {p. majority_match_ids r ids \<le> match_of r p} \<and>
         (\<forall>v. majority_match_ids r ids < v \<longrightarrow>
              \<not> is_majority (take MAX_PEERS ids) {p. v \<le> match_of r p})"
  using majority_match_count [OF assms] by blast

definition sample_leader :: cetcd_raft where
  "sample_leader = (sample_node 1)\<lparr>r_role := ROLE_LEADER, r_log_last_index := 7,
     r_progress := (\<lambda>i. zero_progress\<lparr>match_idx := 5 * of_nat i\<rparr>)\<rparr>"

theorem majority_match_ids_correct_witness:
  "([1, 2, 3] :: u64 list) \<noteq> [] \<and> majority_match_ids sample_leader [1, 2, 3] = 7 \<and>
   is_majority (take MAX_PEERS [1, 2, 3]) {p. 7 \<le> match_of sample_leader p} \<and>
   \<not> is_majority (take MAX_PEERS [1, 2, 3]) {p. 8 \<le> match_of sample_leader p}"
proof -
  have "majority_match_ids sample_leader [1, 2, 3] = 7" by code_simp
  with majority_match_ids_correct [of "[1, 2, 3]" sample_leader] show ?thesis by simp
qed

text \<open>
  C6. The leader's commit rule: \<^verbatim>\<open>maybe_advance_commit_\<close> changes nothing, or the node
  is a leader and its commit index rises to an index at which its own log has an entry of its term and which the match
  indices it keeps (its own last index, and for another voter the largest index that voter acknowledged) have reached for a
  majority of the incoming voters, and in a joint configuration for a majority
  of the outgoing voters too. That is bookkeeping of the leader: what an acknowledged index says about
  the follower's log is the subject of \<open>ack_covers_leftover\<close>.
\<close>

theorem commit_needs_quorum:
  "maybe_advance_commit r = r \<or>
   r_role r = ROLE_LEADER \<and> r_commit r < r_commit (maybe_advance_commit r) \<and>
   log_term_at r (r_commit (maybe_advance_commit r)) = r_term r \<and>
   is_vote_quorum (incoming_voters r) (take MAX_PEERS (r_outgoing r))
     {p. r_commit (maybe_advance_commit r) \<le> match_of r p}"
proof -
  define c where "c = (if r_outgoing r \<noteq> [] then
      (if majority_match_ids r (r_outgoing r) < majority_match_ids r (incoming_voters r)
       then majority_match_ids r (r_outgoing r) else majority_match_ids r (incoming_voters r))
     else majority_match_ids r (incoming_voters r))"
  have le: "c \<le> majority_match_ids r (incoming_voters r)"
    "r_outgoing r \<noteq> [] \<longrightarrow> c \<le> majority_match_ids r (r_outgoing r)"
    by (auto simp: c_def not_less intro: less_imp_le)
  then have "is_vote_quorum (incoming_voters r) (take MAX_PEERS (r_outgoing r)) {p. c \<le> match_of r p}"
    if "incoming_voters r \<noteq> []"
    using majority_match_mono [of c r "incoming_voters r"] majority_match_mono [of c r "r_outgoing r"] that
    by (auto simp: is_vote_quorum_def)
  moreover have "maybe_advance_commit r = r \<or> r_role r = ROLE_LEADER \<and> incoming_voters r \<noteq> [] \<and>
      c > r_commit r \<and> log_term_at r c = r_term r \<and> r_commit (maybe_advance_commit r) = c"
    unfolding maybe_advance_commit_def Let_def c_def [symmetric]
    by (auto simp: queue_hard_state_def)
  ultimately show ?thesis by metis
qed

end
