(* ===== verification/Raft_Persist.thy ===== *)
theory Raft_Persist
  imports Raft_Election
begin

text \<open>
  The hard state of a node: the term, vote and commit index that
  \<^verbatim>\<open>process_ready_\<close> writes to the WAL before it sends anything. \<open>durable r r'\<close> says
  that a call took the node from \<open>r\<close> to \<open>r'\<close> without lowering the commit index, and
  that the hard state of \<open>r'\<close> is queued for the WAL unless nothing of it changed.
\<close>

definition hs_same :: "cetcd_raft \<Rightarrow> cetcd_raft \<Rightarrow> bool" where
  "hs_same r r' \<longleftrightarrow> r_pending_hs r' = r_pending_hs r \<and> hard_state r' = hard_state r"

definition durable :: "cetcd_raft \<Rightarrow> cetcd_raft \<Rightarrow> bool" where
  "durable r r' \<longleftrightarrow> r_commit r \<le> r_commit r' \<and>
     (r_pending_hs r' = Some (hard_state r') \<or> hs_same r r')"

lemma hs_same_refl [simp]: "hs_same r r"
  by (simp add: hs_same_def)

lemma hs_same_trans: "hs_same r r' \<Longrightarrow> hs_same r' r'' \<Longrightarrow> hs_same r r''"
  by (simp add: hs_same_def)

lemma hs_same_commit: "hs_same r r' \<Longrightarrow> r_commit r' = r_commit r"
  by (simp add: hs_same_def hard_state_def)

lemma durable_refl [simp]: "durable r r"
  by (simp add: durable_def)

lemma durable_same: "durable r r1 \<Longrightarrow> hs_same r1 r2 \<Longrightarrow> durable r r2"
  by (auto simp: durable_def hs_same_def hard_state_def)

lemma durable_queue: "r_commit r \<le> r_commit x \<Longrightarrow> durable r (queue_hard_state x)"
  by (simp add: durable_def queue_hard_state_def hard_state_def)

lemma hs_same_sends: "sends P r r' \<Longrightarrow> hs_same r r'"
  by (simp add: hs_same_def hard_state_def sends_fields)

lemma hs_same_simps [simp]:
  "hs_same r (log_append x e) = hs_same r x"
  "hs_same r (queue_entry x e) = hs_same r x"
  "hs_same r (log_truncate_after x i) = hs_same r x"
  "hs_same r (queue_msg x m) = hs_same r x"
  "hs_same r (record_vote x i) = hs_same r x"
  "hs_same r (become_leader x) = hs_same r x"
  by (simp_all add: hs_same_def hard_state_def log_append_def log_grow_def queue_entry_def Let_def
      log_truncate_after_def queue_msg_def record_vote_def become_leader_def)

lemma hs_same_app_store_one [simp]: "hs_same r (app_store_one x idx e) = hs_same r x"
  by (simp add: app_store_one_def Let_def split: option.split)

lemma hs_same_app_store [simp]: "hs_same r (app_store x idx es) = hs_same r x"
  by (induction x idx es rule: app_store.induct) simp_all

lemma hs_same_become_follower: "t \<le> r_term r \<Longrightarrow> hs_same r (become_follower r t l)"
  by (auto simp: hs_same_def hard_state_def become_follower_def Let_def)

lemma hs_same_compact: "hs_same r (snd (cetcd_raft_compact r i t))"
  by (simp add: cetcd_raft_compact_def Let_def hs_same_def hard_state_def log_append_def log_grow_def)

text \<open>What may follow a durable change.\<close>

lemma durable_if: "(c \<Longrightarrow> durable r a) \<Longrightarrow> (\<not> c \<Longrightarrow> durable r b) \<Longrightarrow> durable r (if c then a else b)"
  by simp

lemma durable_option:
  "durable r a \<Longrightarrow> (\<And>x. durable r (f x)) \<Longrightarrow> durable r (case y of None \<Rightarrow> a | Some x \<Rightarrow> f x)"
  by (cases y) simp_all

lemma durable_requeue: "durable r x \<Longrightarrow> durable r (queue_hard_state x)"
  by (rule durable_queue) (simp add: durable_def)

lemma durable_raise:
  "durable r x \<Longrightarrow> r_commit x < c \<Longrightarrow> durable r (queue_hard_state (x\<lparr>r_commit := c\<rparr>))"
  by (rule durable_queue) (auto simp: durable_def intro: order_trans less_imp_le)

lemma durable_maybe_advance_commit: "durable r r1 \<Longrightarrow> durable r (maybe_advance_commit r1)"
  unfolding maybe_advance_commit_def Let_def
  by (intro durable_if durable_raise) auto

lemma durable_follow_commit: "durable r r1 \<Longrightarrow> durable r (follow_commit r1 c)"
  unfolding follow_commit_def Let_def
  by (intro durable_if durable_raise) auto

lemma durable_queue_msg: "durable r r1 \<Longrightarrow> durable r (queue_msg r1 x)"
  by (erule durable_same) simp

lemma durable_record_vote: "durable r r1 \<Longrightarrow> durable r (record_vote r1 i)"
  by (erule durable_same) simp

lemma durable_queue_entry: "durable r r1 \<Longrightarrow> durable r (queue_entry r1 e)"
  by (erule durable_same) simp

lemma durable_app_store: "durable r r1 \<Longrightarrow> durable r (app_store r1 i es)"
  by (erule durable_same) simp

lemmas durable_app = durable_same [OF _ hs_same_sends [OF sends_maybe_send_app]]
lemmas durable_snap = durable_same [OF _ hs_same_sends [OF sends_maybe_send_snap]]
lemmas durable_heartbeats = durable_same [OF _ hs_same_sends [OF sends_heartbeats]]
lemmas durable_broadcast = durable_same [OF _ hs_same_sends [OF sends_broadcast_app]]
lemmas durable_progress = durable_same [OF _ hs_same_sends [OF sends_set_progress [where P = "\<lambda>x. True"]]]

lemmas durable_intros = durable_if durable_option durable_maybe_advance_commit durable_follow_commit
  durable_queue_msg durable_app durable_snap durable_heartbeats durable_broadcast durable_progress
  durable_record_vote durable_queue_entry durable_app_store

lemma commit_become_follower [simp]: "r_commit (become_follower r t l) = r_commit r"
  by (simp add: become_follower_def Let_def)

lemma commit_record_vote [simp]: "r_commit (record_vote r i) = r_commit r"
  by (simp add: record_vote_def)

lemma commit_become_leader [simp]: "r_commit (become_leader r) = r_commit r"
  by (simp add: become_leader_def)

lemma commit_become_candidate [simp]: "r_commit (become_candidate r) = r_commit r"
  by (simp add: become_candidate_def Let_def sends_fields [OF sends_vote_requests])

lemma commit_become_pre_candidate [simp]: "r_commit (become_pre_candidate r) = r_commit r"
  by (simp add: become_pre_candidate_def Let_def sends_fields [OF sends_vote_requests])

lemma durable_become_follower: "durable r (queue_hard_state (become_follower r t l))"
  by (rule durable_queue) simp

lemma durable_accept_leader: "durable r (accept_leader r msg)"
proof -
  define r1 where "r1 = (if m_term msg > r_term r
               then queue_hard_state (become_follower r (m_term msg) (m_from msg)) else r)"
  define r2 where "r2 = (if r_role r1 \<noteq> ROLE_FOLLOWER then become_follower r1 (m_term msg) (m_from msg) else r1)"
  have 1: "durable r r1" unfolding r1_def by (intro durable_if durable_become_follower durable_refl)
  have "m_term msg \<le> r_term r1" by (auto simp: r1_def queue_hard_state_def)
  then have "hs_same r1 r2" by (simp add: r2_def hs_same_become_follower)
  moreover have "hs_same r2 (accept_leader r msg)"
    by (simp add: accept_leader_def Let_def r1_def [symmetric] r2_def [symmetric] hs_same_def hard_state_def)
  ultimately show ?thesis using 1 by (blast intro: durable_same)
qed

lemma durable_handle_vote: "durable r (handle_vote r msg)"
  unfolding handle_vote_def Let_def
  by (intro durable_intros durable_queue durable_become_follower durable_refl)
    (simp_all add: queue_hard_state_def)

lemma durable_handle_snap: "durable r (handle_snap r msg)"
proof -
  define r1 where "r1 = (if m_term msg > r_term r
                    then queue_hard_state (become_follower r (m_term msg) (m_from msg)) else r)"
  define r2 where "r2 = (if r_role r1 \<noteq> ROLE_FOLLOWER then become_follower r1 (r_term r1) (m_from msg) else r1)
    \<lparr>r_leader_id := m_from msg, r_elapsed_ticks := 0\<rparr>"
  define r3 where "r3 = (if m_snapshot msg > r_log_compacted r2
                          then cetcd_raft_compact r2 (m_snapshot msg) (m_log_term msg) else (0, r2))"
  define r4 where "r4 = (if m_snapshot msg > r_commit (snd r3)
                    then queue_hard_state ((snd r3)\<lparr>r_commit := m_snapshot msg\<rparr>) else snd r3)"
  define r5 where "r5 = (if m_snapshot msg > r_applied r4 then r4\<lparr>r_applied := m_snapshot msg\<rparr> else r4)"
  have 1: "durable r r1" unfolding r1_def by (intro durable_if durable_become_follower durable_refl)
  have "hs_same r1 (if r_role r1 \<noteq> ROLE_FOLLOWER then become_follower r1 (r_term r1) (m_from msg) else r1)"
    by (simp add: hs_same_become_follower)
  then have "hs_same r1 r2" by (simp add: r2_def hs_same_def hard_state_def)
  then have "hs_same r1 (snd r3)"
    by (auto simp: r3_def intro: hs_same_trans hs_same_compact)
  with 1 have 3: "durable r (snd r3)" by (rule durable_same)
  then have 4: "durable r r4" unfolding r4_def
    by (intro durable_if durable_raise) auto
  have "hs_same r4 r5" by (simp add: r5_def hs_same_def hard_state_def)
  with 4 have 5: "durable r r5" by (rule durable_same)
  show ?thesis
    unfolding handle_snap_def Let_def r1_def [symmetric] r2_def [symmetric] r3_def [symmetric]
      split_beta r4_def [symmetric] r5_def [symmetric]
    by (intro durable_if durable_queue_msg durable_refl 1 3 5)
qed

lemma durable_leader_append: "durable r (leader_append r typ data)"
proof -
  have "hs_same r (log_append (r\<lparr>r_log_last_index := i, r_log_last_term := t\<rparr>) e)" for i t e
    by simp (simp add: hs_same_def hard_state_def)
  then have "durable r (log_append (r\<lparr>r_log_last_index := i, r_log_last_term := t\<rparr>) e)" for i t e
    by (rule durable_same [OF durable_refl])
  then show ?thesis
    unfolding leader_append_def Let_def by (intro durable_intros durable_requeue) simp_all
qed

lemma durable_step: "durable r (snd (cetcd_raft_step r m))"
proof (cases "m_type m")
  case CETCD_MSG_VOTE_RESP
  then show ?thesis
    unfolding cetcd_raft_step_def handle_vote_resp_def Let_def
    by (auto intro!: durable_intros durable_queue)
next
  case CETCD_MSG_PRE_VOTE_RESP
  then show ?thesis
    unfolding cetcd_raft_step_def handle_pre_vote_resp_def Let_def
    by (auto intro!: durable_intros durable_queue)
next
  case CETCD_MSG_APP
  then show ?thesis
    unfolding cetcd_raft_step_def handle_app_def Let_def
    by (auto intro!: durable_intros durable_accept_leader)
next
  case CETCD_MSG_HEARTBEAT
  then show ?thesis
    unfolding cetcd_raft_step_def handle_heartbeat_def Let_def
    by (auto intro!: durable_intros durable_accept_leader)
next
  case CETCD_MSG_APP_RESP
  then show ?thesis
    unfolding cetcd_raft_step_def handle_app_resp_def Let_def
    by simp (intro durable_intros durable_become_follower durable_refl conjI impI)
next
  case CETCD_MSG_SNAP_STATUS
  then show ?thesis
    unfolding cetcd_raft_step_def handle_snap_status_def Let_def
    by simp (intro durable_intros durable_refl conjI impI)
next
  case CETCD_MSG_BEAT
  then show ?thesis
    unfolding cetcd_raft_step_def
    by (auto intro!: durable_same [OF durable_refl hs_same_sends] sends_fold sends_beat_peer)
qed (simp_all add: cetcd_raft_step_def durable_handle_vote durable_handle_snap durable_leader_append
      durable_queue handle_pre_vote_def Let_def durable_queue_msg)

lemma durable_same_left: "hs_same r r0 \<Longrightarrow> durable r0 r1 \<Longrightarrow> durable r r1"
  by (auto simp: durable_def hs_same_def hard_state_def)

lemma durable_tick: "durable r (cetcd_raft_tick r)"
proof -
  define t where "t = r\<lparr>r_elapsed_ticks := r_elapsed_ticks r + 1,
                r_heartbeat_elapsed := r_heartbeat_elapsed r + 1\<rparr>"
  have "hs_same r t" "hs_same r (t\<lparr>r_heartbeat_elapsed := 0\<rparr>)"
    by (simp_all add: t_def hs_same_def hard_state_def)
  then show ?thesis
    unfolding cetcd_raft_tick_def Let_def t_def [symmetric]
    by (auto intro: durable_step durable_same_left durable_same [OF durable_refl])
qed

lemma durable_propose_conf_change: "durable r (snd (cetcd_raft_propose_conf_change r data))"
  by (simp add: cetcd_raft_propose_conf_change_def durable_leader_append)

end
