(* ===== verification/Raft_Cluster.thy ===== *)
theory Raft_Cluster
  imports Raft_Quorum Raft_Persist
begin

text \<open>
  A cluster of nodes that crash and restart. Each node runs the functions of
  \<^verbatim>\<open>src/raft/raft.c\<close>; \<^verbatim>\<open>process_ready_\<close> and \<^verbatim>\<open>replay_wal_\<close> of
  \<^verbatim>\<open>src/server/server.c\<close> connect it to its write-ahead log and to the network. The
  network is a growing set of messages: it may lose, delay, reorder and duplicate
  them. Membership is fixed; the voters may form a joint configuration.

  The invariant \<open>cluster_inv\<close> is stated with the set of votes that have become
  visible outside their voter. Every step of the cluster keeps it, and it implies
  that two leaders of the same term are the same node.
\<close>

section \<open>WAL replay and Ready processing\<close>

text \<open>
  The WAL as the list of its decoded records, in the order they were written, and
  the replay loop of \<^verbatim>\<open>replay_wal_\<close>: the last hard state wins and is restored at the end.
\<close>

datatype wal_rec = W_ENTRY cetcd_entry | W_STATE cetcd_hard_state | W_SNAPSHOT u64 u64

definition replay_rec :: "wal_rec \<Rightarrow> cetcd_raft \<times> cetcd_hard_state option \<Rightarrow> cetcd_raft \<times> cetcd_hard_state option" where
  "replay_rec w s =
     (case w of
        W_ENTRY e \<Rightarrow> (snd (cetcd_raft_restore_entry (fst s) e), snd s)
      | W_STATE hs \<Rightarrow> (fst s, Some hs)
      | W_SNAPSHOT idx t \<Rightarrow> (if idx > 0 then snd (cetcd_raft_compact (fst s) idx t) else fst s, snd s))"

definition replay_wal :: "wal_rec list \<Rightarrow> cetcd_raft \<Rightarrow> cetcd_raft" where
  "replay_wal ws r =
     (let (r, last_hs) = fold replay_rec ws (r, None)
      in case last_hs of Some hs \<Rightarrow> cetcd_raft_restore_hard_state r hs | None \<Rightarrow> r)"

definition ready_records :: "cetcd_ready \<Rightarrow> wal_rec list" where
  "ready_records rd = map W_ENTRY (rd_entries rd) @
     (case rd_hard_state rd of Some hs \<Rightarrow> [W_STATE hs] | None \<Rightarrow> [])"

text \<open>
  The part of \<^verbatim>\<open>process_ready_\<close> that persists and sends. The records of a Ready are
  its entries and then its hard state. \<open>failed\<close> is \<open>None\<close> when every write and the
  final sync succeed, and \<open>Some n\<close> when only the first \<open>n\<close> records were written before
  an error: then nothing is sent and the Ready is not acknowledged.
\<close>

definition process_ready ::
    "nat option \<Rightarrow> wal_rec list \<Rightarrow> cetcd_raft \<Rightarrow> wal_rec list \<times> cetcd_msg list \<times> cetcd_raft" where
  "process_ready failed wal r =
     (let (rd, r) = cetcd_raft_ready r
      in case failed of
           None \<Rightarrow> (wal @ ready_records rd, rd_messages rd, cetcd_raft_advance r rd)
         | Some n \<Rightarrow> (wal @ take n (ready_records rd), [], r))"

section \<open>The cluster\<close>

text \<open>
  The state of the cluster: the nodes, each node's WAL, and every message sent so
  far. A vote response is \<open>on_time\<close> for a node when its term is not older than the
  node's; with \<open>strict\<close> set the network delivers only vote responses that are on time.
  Terms are 64-bit and a node in the last term takes no further steps.
\<close>

record cluster =
  c_nodes :: "u64 \<Rightarrow> cetcd_raft option"
  c_wal :: "u64 \<Rightarrow> wal_rec list"
  c_net :: "cetcd_msg set"

definition on_time :: "cetcd_raft \<Rightarrow> cetcd_msg \<Rightarrow> bool" where
  "on_time r m \<longleftrightarrow> m_type m \<noteq> CETCD_MSG_VOTE_RESP \<or> r_term r \<le> m_term m"

definition set_node :: "cluster \<Rightarrow> u64 \<Rightarrow> cetcd_raft \<Rightarrow> cluster" where
  "set_node s i r = s\<lparr>c_nodes := (c_nodes s)(i \<mapsto> r)\<rparr>"

inductive cluster_step :: "bool \<Rightarrow> (u64 \<Rightarrow> cetcd_raft option) \<Rightarrow> cluster \<Rightarrow> cluster \<Rightarrow> bool"
  for strict :: bool and boot :: "u64 \<Rightarrow> cetcd_raft option" where
  deliver: "c_nodes s i = Some r \<Longrightarrow> r_term r \<noteq> - 1 \<Longrightarrow> m \<in> c_net s \<Longrightarrow> m_to m = i \<Longrightarrow>
    strict \<longrightarrow> on_time r m \<Longrightarrow>
    cluster_step strict boot s (set_node s i (snd (cetcd_raft_step r m)))"
| local: "c_nodes s i = Some r \<Longrightarrow> r_term r \<noteq> - 1 \<Longrightarrow>
    m_type m \<in> {CETCD_MSG_HUP, CETCD_MSG_PROP, CETCD_MSG_BEAT, CETCD_MSG_TRANSFER_LEADER} \<Longrightarrow>
    cluster_step strict boot s (set_node s i (snd (cetcd_raft_step r m)))"
| tick: "c_nodes s i = Some r \<Longrightarrow> r_term r \<noteq> - 1 \<Longrightarrow>
    cluster_step strict boot s (set_node s i (cetcd_raft_tick r))"
| conf_change: "c_nodes s i = Some r \<Longrightarrow> r_term r \<noteq> - 1 \<Longrightarrow>
    cluster_step strict boot s (set_node s i (snd (cetcd_raft_propose_conf_change r data)))"
| compact: "c_nodes s i = Some r \<Longrightarrow> r_term r \<noteq> - 1 \<Longrightarrow>
    cluster_step strict boot s (set_node s i (snd (cetcd_raft_compact r idx t)))"
| ready: "c_nodes s i = Some r \<Longrightarrow> process_ready None (c_wal s i) r = (wal, msgs, r') \<Longrightarrow>
    cluster_step strict boot s
      ((set_node s i r')\<lparr>c_wal := (c_wal s)(i := wal), c_net := c_net s \<union> set msgs\<rparr>)"
| restart: "c_nodes s i = Some r \<Longrightarrow> boot i = Some r0 \<Longrightarrow>
    cluster_step strict boot s (set_node s i (replay_wal (c_wal s i) r0))"

inductive cluster_reach :: "bool \<Rightarrow> (u64 \<Rightarrow> cetcd_raft option) \<Rightarrow> cluster \<Rightarrow> bool"
  for strict boot where
  init: "cluster_reach strict boot \<lparr>c_nodes = boot, c_wal = (\<lambda>_. []), c_net = {}\<rparr>"
| step: "cluster_reach strict boot s \<Longrightarrow> cluster_step strict boot s s' \<Longrightarrow> cluster_reach strict boot s'"

text \<open>
  A node as it starts: no term, no vote, no messages, the incoming voters \<open>V\<close> and
  the outgoing voters \<open>W\<close> (empty outside a joint configuration).
\<close>

definition zero_hard_state :: cetcd_hard_state where
  "zero_hard_state = \<lparr>hs_term = 0, hs_vote = 0, hs_commit = 0\<rparr>"

definition booted :: "u64 set \<Rightarrow> u64 set \<Rightarrow> u64 \<Rightarrow> cetcd_raft \<Rightarrow> bool" where
  "booted V W i r \<longleftrightarrow> r_id r = i \<and> i \<noteq> 0 \<and> hard_state r = zero_hard_state \<and>
     r_role r = ROLE_FOLLOWER \<and> r_votes_granted r = [] \<and> r_pending_hs r = None \<and> r_pending_msgs r = [] \<and>
     distinct (incoming_voters r) \<and> set (incoming_voters r) = V \<and>
     distinct (r_outgoing r) \<and> set (r_outgoing r) = W"

section \<open>The invariant\<close>

definition wal_hs :: "wal_rec list \<Rightarrow> cetcd_hard_state" where
  "wal_hs ws = fold (\<lambda>w hs. case w of W_STATE h \<Rightarrow> h | _ \<Rightarrow> hs) ws zero_hard_state"

type_synonym votes = "((u64 \<times> u64) \<times> u64) set"

definition grants :: "cetcd_msg \<Rightarrow> bool" where
  "grants x \<longleftrightarrow> m_type x = CETCD_MSG_VOTE_RESP \<and> m_reject x = 0"

definition pledge :: "cetcd_msg \<Rightarrow> (u64 \<times> u64) \<times> u64" where
  "pledge x = ((m_from x, m_term x), m_to x)"

text \<open>A set of votes that a term and a vote account for.\<close>

definition covers :: "u64 \<Rightarrow> u64 \<Rightarrow> u64 \<Rightarrow> votes \<Rightarrow> bool" where
  "covers i t v P \<longleftrightarrow> (\<forall>u c. ((i, u), c) \<in> P \<longrightarrow> u \<le> t \<and> c \<noteq> 0 \<and> (u = t \<longrightarrow> c = v))"

definition pending_votes :: "cetcd_raft \<Rightarrow> votes" where
  "pending_votes r = pledge ` {x \<in> set (r_pending_msgs r). grants x}"

definition node_inv :: "votes \<Rightarrow> wal_rec list \<Rightarrow> cetcd_raft \<Rightarrow> u64 \<Rightarrow> cetcd_raft \<Rightarrow> bool" where
  "node_inv P ws r0 i r \<longleftrightarrow>
     fst (ecore r) = fst (ecore r0) \<and>
     (\<forall>x \<in> set (r_pending_msgs r). m_from x = i) \<and>
     covers i (r_term r) (r_vote r) (P \<union> pending_votes r) \<and>
     single_valued (P \<union> pending_votes r) \<and>
     covers i (hs_term (wal_hs ws)) (hs_vote (wal_hs ws)) P \<and>
     hard_state r = (case r_pending_hs r of None \<Rightarrow> wal_hs ws | Some h \<Rightarrow> h) \<and>
     (r_role r = ROLE_CANDIDATE \<or> r_role r = ROLE_LEADER \<longrightarrow>
        r_vote r = i \<and> (\<forall>v \<in> set (r_votes_granted r). v = i \<or> ((v, r_term r), i) \<in> P)) \<and>
     (r_role r = ROLE_LEADER \<longrightarrow> vote_quorum_ok r)"

definition cluster_inv :: "(u64 \<Rightarrow> cetcd_raft option) \<Rightarrow> votes \<Rightarrow> cluster \<Rightarrow> bool" where
  "cluster_inv boot P s \<longleftrightarrow>
     dom (c_nodes s) = dom boot \<and> single_valued P \<and>
     (\<forall>x \<in> c_net s. m_from x \<in> dom boot \<and> (grants x \<longrightarrow> pledge x \<in> P)) \<and>
     (\<forall>i r r0. c_nodes s i = Some r \<longrightarrow> boot i = Some r0 \<longrightarrow> node_inv P (c_wal s i) r0 i r)"

lemma word_less_plus_one: "(x :: u64) \<noteq> - 1 \<Longrightarrow> x < x + 1"
  by (simp add: less_add_one_iff)

lemma election_move_vote_once:
  assumes "election_move m r r'" and "r_term r \<noteq> - 1"
  shows "r_term r < r_term r' \<or> r_term r' = r_term r \<and> (r_vote r' = r_vote r \<or> r_vote r = 0)"
  using assms by cases (auto simp: word_less_plus_one)

lemma covers_move:
  assumes old: "covers i (r_term r) (r_vote r) P"
    and once: "r_term r < r_term r' \<or> r_term r' = r_term r \<and> (r_vote r' = r_vote r \<or> r_vote r = 0)"
  shows "covers i (r_term r') (r_vote r') P"
  unfolding covers_def
proof (intro allI impI)
  fix u c assume "((i, u), c) \<in> P"
  with old have c: "u \<le> r_term r" "c \<noteq> 0" "u = r_term r \<longrightarrow> c = r_vote r"
    unfolding covers_def by blast+
  from once show "u \<le> r_term r' \<and> c \<noteq> 0 \<and> (u = r_term r' \<longrightarrow> c = r_vote r')"
  proof
    assume "r_term r < r_term r'"
    with c(1) have "u < r_term r'" by (rule le_less_trans)
    with c(2) show ?thesis by auto
  qed (use c in auto)
qed

lemma pending_votes_move:
  assumes "fresh_msgs m r r'" and "r_id r = i"
  shows "pending_votes r' \<subseteq> pending_votes r \<union>
    (if m_type m = CETCD_MSG_VOTE then {((i, r_term r'), r_vote r')} else {})"
proof -
  from assms(1) obtain M where M: "r_pending_msgs r' = r_pending_msgs r @ M"
    "\<forall>x \<in> set M. m_from x = r_id r \<and>
             (m_type x = CETCD_MSG_VOTE_RESP \<and> m_reject x = 0 \<longrightarrow>
                m_type m = CETCD_MSG_VOTE \<and> m_to x = m_from m \<and> m_term x = r_term r' \<and>
                r_vote r' = m_from m)"
    unfolding fresh_msgs_def by blast
  then show ?thesis
    using assms(2) by (auto simp: pending_votes_def grants_def pledge_def)
qed

lemma node_inv_move:
  assumes inv: "node_inv P ws r0 i r" and mv: "node_move m r r'" and dur: "durable r r'"
    and ids: "r_id r0 = i" "i \<noteq> 0" and t: "r_term r \<noteq> - 1"
    and vote: "m_type m = CETCD_MSG_VOTE \<Longrightarrow> m_from m \<noteq> 0"
    and resp: "grants m \<Longrightarrow> m_to m = i \<and> r_term r \<le> m_term m \<and> pledge m \<in> P"
  shows "node_inv P ws r0 i r'"
proof -
  from mv have em: "election_move m r r'" and fm: "fresh_msgs m r r'"
    and cfg: "fst (ecore r') = fst (ecore r)" by (simp_all add: node_move_def)
  have id: "r_id r = i" using inv ids by (simp add: node_inv_def ecore_def)
  note once = election_move_vote_once [OF em t]
  have old: "covers i (r_term r') (r_vote r') (P \<union> pending_votes r)"
    using covers_move [OF _ once] inv unfolding node_inv_def by blast
  have sub: "pending_votes r' \<subseteq> pending_votes r \<union> {((i, r_term r'), r_vote r')}"
    using pending_votes_move [OF fm id] by (auto split: if_splits)
  have new: "((i, u), c) \<in> pending_votes r' \<Longrightarrow> ((i, u), c) \<in> pending_votes r \<or> c \<noteq> 0" for u c
  proof -
    from fm obtain M where M: "r_pending_msgs r' = r_pending_msgs r @ M"
      "\<forall>x \<in> set M. grants x \<longrightarrow> m_type m = CETCD_MSG_VOTE \<and> m_to x = m_from m"
      unfolding fresh_msgs_def grants_def by blast
    then show "((i, u), c) \<in> pending_votes r' \<Longrightarrow> ?thesis"
      using vote by (auto simp: pending_votes_def pledge_def)
  qed
  have cov: "covers i (r_term r') (r_vote r') (P \<union> pending_votes r')"
    using old sub new unfolding covers_def by blast
  have "single_valued (P \<union> pending_votes r)" using inv by (simp add: node_inv_def)
  then have sv: "single_valued (P \<union> pending_votes r')"
    using cov sub unfolding single_valued_def covers_def by blast
  have frm: "\<forall>x \<in> set (r_pending_msgs r'). m_from x = i"
    using inv fm id by (auto simp: node_inv_def fresh_msgs_def)
  have hs: "hard_state r' = (case r_pending_hs r' of None \<Rightarrow> wal_hs ws | Some h \<Rightarrow> h)"
    using dur inv by (auto simp: durable_def hs_same_def node_inv_def)
  have q: "r_votes_granted r' = r_votes_granted r \<Longrightarrow> vote_quorum_ok r' = vote_quorum_ok r"
    by (rule vote_quorum_ok_votes [OF cfg])
  have role: "(r_role r' = ROLE_CANDIDATE \<or> r_role r' = ROLE_LEADER \<longrightarrow>
        r_vote r' = i \<and> (\<forall>v \<in> set (r_votes_granted r'). v = i \<or> ((v, r_term r'), i) \<in> P)) \<and>
     (r_role r' = ROLE_LEADER \<longrightarrow> vote_quorum_ok r')"
    using em
  proof cases
    case quiet
    then show ?thesis using inv q by (auto simp: node_inv_def)
  next
    case grant
    then show ?thesis using inv q ids by (auto simp: node_inv_def)
  next
    case campaign
    then show ?thesis using id by auto
  next
    case count
    then have "m_term m = r_term r" "((m_from m, r_term r), i) \<in> P"
      using resp by (auto simp: grants_def pledge_def)
    then show ?thesis using count inv by (auto simp: node_inv_def)
  qed simp_all
  show ?thesis
    using inv cfg frm cov sv hs role by (simp add: node_inv_def)
qed

section \<open>The steps keep it\<close>

lemma wal_hs_append:
  "wal_hs (ws @ ready_records rd) = (case rd_hard_state rd of None \<Rightarrow> wal_hs ws | Some h \<Rightarrow> h)"
proof -
  have "fold (\<lambda>w hs. case w of W_STATE h \<Rightarrow> h | _ \<Rightarrow> hs) (map W_ENTRY es) h = h" for es h
    by (induction es) auto
  then show ?thesis by (simp add: wal_hs_def ready_records_def split: option.split)
qed

lemma process_ready_node:
  assumes "node_inv P ws r0 i r" and "process_ready None ws r = (ws', msgs, r')"
  shows "node_inv (P \<union> pending_votes r) ws' r0 i r'" and "msgs = r_pending_msgs r"
proof -
  have e: "ws' = ws @ ready_records (fst (cetcd_raft_ready r))"
    "msgs = r_pending_msgs r" "r_pending_msgs r' = []" "r_pending_hs r' = None" "ecore r' = ecore r"
    "hard_state r' = hard_state r"
    using assms(2)
    by (auto simp: process_ready_def cetcd_raft_ready_def cetcd_raft_advance_def ecore_def hard_state_def)
  have w: "wal_hs ws' = hard_state r"
    using assms(1) by (simp add: e wal_hs_append cetcd_raft_ready_def node_inv_def)
  have h: "hs_term (wal_hs ws') = r_term r" "hs_vote (wal_hs ws') = r_vote r" "hard_state r' = wal_hs ws'"
    by (simp_all add: w e(6)) (simp_all add: hard_state_def)
  have p: "pending_votes r' = {}" by (simp add: pending_votes_def e)
  show "node_inv (P \<union> pending_votes r) ws' r0 i r'"
    using assms(1)
    by (auto simp: node_inv_def h e(3-5) p ecoreD [OF e(5)] vote_quorum_ok_cong [OF e(5)])
  show "msgs = r_pending_msgs r" by (rule e(2))
qed

lemma node_inv_other:
  assumes "node_inv P ws r0 i r" and "\<And>v c. (v, c) \<in> N \<Longrightarrow> fst v = j" and "i \<noteq> j"
    and "single_valued (P \<union> N)"
  shows "node_inv (P \<union> N) ws r0 i r"
proof -
  have frm: "\<forall>x \<in> set (r_pending_msgs r). m_from x = i" using assms(1) by (simp add: node_inv_def)
  then have own: "fst v = i" if "(v, c) \<in> pending_votes r" for v c
    using that by (auto simp: pending_votes_def pledge_def)
  have "single_valued (P \<union> pending_votes r)" using assms(1) by (simp add: node_inv_def)
  then have "single_valued (P \<union> N \<union> pending_votes r)"
    using assms(2-) own unfolding single_valued_def by (metis Un_iff)
  moreover have "covers i t u (P \<union> N \<union> X) = covers i t u (P \<union> X)" "covers i t u (P \<union> N) = covers i t u P" for t u X
    using assms(2,3) unfolding covers_def by fastforce+
  ultimately show ?thesis using assms(1) by (auto simp: node_inv_def)
qed

lemma replay_fold:
  "core (fst (fold replay_rec ws s)) = core (fst s) \<and> hs_same (fst s) (fst (fold replay_rec ws s)) \<and>
   (case snd (fold replay_rec ws s) of None \<Rightarrow> h0 | Some h \<Rightarrow> h) =
     fold (\<lambda>w hs. case w of W_STATE h \<Rightarrow> h | _ \<Rightarrow> hs) ws (case snd s of None \<Rightarrow> h0 | Some h \<Rightarrow> h)"
proof (induction ws arbitrary: s)
  case (Cons w ws)
  have "core (fst (replay_rec w s)) = core (fst s)" "hs_same (fst s) (fst (replay_rec w s))"
    by (auto simp: replay_rec_def cetcd_raft_restore_entry_def Let_def raft_frame hs_same_compact
        split: wal_rec.split)
  then show ?case
    using Cons.IH [of "replay_rec w s"]
    by (auto intro: hs_same_trans simp: replay_rec_def split: wal_rec.split)
qed simp

lemma replay_wal_state:
  assumes "booted V W i r0"
  shows "ecore (replay_wal ws r0) =
      (fst (ecore r0), hs_term (wal_hs ws), hs_vote (wal_hs ws), ROLE_FOLLOWER, [])"
    and "r_pending_msgs (replay_wal ws r0) = []" and "r_pending_hs (replay_wal ws r0) = None"
    and "hard_state (replay_wal ws r0) = wal_hs ws"
proof -
  obtain r1 h where f: "fold replay_rec ws (r0, None) = (r1, h)" by force
  from replay_fold [of ws "(r0, None)" zero_hard_state] f
  have r1: "core r1 = core r0" "hs_same r0 r1" "wal_hs ws = (case h of None \<Rightarrow> zero_hard_state | Some h \<Rightarrow> h)"
    by (simp_all add: wal_hs_def)
  have r0: "r_role r1 = ROLE_FOLLOWER" "r_votes_granted r1 = []" "r_pending_msgs r1 = []"
    "r_pending_hs r1 = None" "hard_state r1 = zero_hard_state" "fst (ecore r1) = fst (ecore r0)"
    using r1(1,2) assms by (auto simp: core_def ecore_def booted_def hs_same_def)
  show "ecore (replay_wal ws r0) =
      (fst (ecore r0), hs_term (wal_hs ws), hs_vote (wal_hs ws), ROLE_FOLLOWER, [])"
    and "r_pending_msgs (replay_wal ws r0) = []" and "r_pending_hs (replay_wal ws r0) = None"
    and "hard_state (replay_wal ws r0) = wal_hs ws"
    using r0 unfolding replay_wal_def f r1(3)
    by (auto simp: cetcd_raft_restore_hard_state_def ecore_def hard_state_def zero_hard_state_def
        split: option.split)
qed

lemma node_inv_restart:
  assumes b: "booted V W i r0" and "single_valued P"
    and "covers i (hs_term (wal_hs ws)) (hs_vote (wal_hs ws)) P"
  shows "node_inv P ws r0 i (replay_wal ws r0)"
proof -
  note st = replay_wal_state [OF b, of ws]
  have "r_term (replay_wal ws r0) = hs_term (wal_hs ws)" "r_vote (replay_wal ws r0) = hs_vote (wal_hs ws)"
    "r_role (replay_wal ws r0) = ROLE_FOLLOWER" "fst (ecore (replay_wal ws r0)) = fst (ecore r0)"
    using st(1) by (auto simp: ecore_def)
  moreover have "pending_votes (replay_wal ws r0) = {}" by (simp add: pending_votes_def st(2))
  ultimately show ?thesis
    using assms(2,3) st by (simp add: node_inv_def)
qed

lemma covers_empty [simp]: "covers i t v {}"
  by (simp add: covers_def)

lemma node_inv_init:
  assumes "booted V W i r0"
  shows "node_inv {} [] r0 i r0"
  using assms by (simp add: node_inv_def booted_def pending_votes_def wal_hs_def)

lemma cluster_inv_set_node:
  assumes inv: "cluster_inv boot P s" and "c_nodes s i = Some r"
    and "\<And>r0. boot i = Some r0 \<Longrightarrow> node_inv P (c_wal s i) r0 i r \<Longrightarrow> node_inv P (c_wal s i) r0 i r'"
  shows "cluster_inv boot P (set_node s i r')"
  using assms by (auto simp: cluster_inv_def set_node_def)

lemma cluster_inv_ready:
  assumes inv: "cluster_inv boot P s" and r: "c_nodes s i = Some r"
    and pr: "process_ready None (c_wal s i) r = (wal, msgs, r')"
  shows "\<exists>P'. cluster_inv boot P'
    ((set_node s i r')\<lparr>c_wal := (c_wal s)(i := wal), c_net := c_net s \<union> set msgs\<rparr>)"
proof -
  from inv r obtain r0 where r0: "boot i = Some r0" by (force simp: cluster_inv_def)
  with inv r have ni: "node_inv P (c_wal s i) r0 i r" by (simp add: cluster_inv_def)
  note own = process_ready_node [OF ni pr]
  have voter: "fst v = i" if "(v, c) \<in> pending_votes r" for v c
    using that ni by (auto simp: pending_votes_def pledge_def node_inv_def)
  have sv: "single_valued (P \<union> pending_votes r)" using ni by (simp add: node_inv_def)
  have "node_inv (P \<union> pending_votes r) (c_wal s j) rj0 j rj"
    if "j \<noteq> i" "c_nodes s j = Some rj" "boot j = Some rj0" for j rj rj0
    by (rule node_inv_other [OF _ voter that(1) sv]) (use inv that in \<open>auto simp: cluster_inv_def\<close>)
  moreover have "m_from x \<in> dom boot \<and> (grants x \<longrightarrow> pledge x \<in> P \<union> pending_votes r)"
    if "x \<in> c_net s \<union> set msgs" for x
    using that inv ni r0 own(2) by (auto simp: cluster_inv_def node_inv_def pending_votes_def)
  ultimately have "cluster_inv boot (P \<union> pending_votes r)
    ((set_node s i r')\<lparr>c_wal := (c_wal s)(i := wal), c_net := c_net s \<union> set msgs\<rparr>)"
    using inv own(1) r0 r sv by (auto simp: cluster_inv_def set_node_def)
  then show ?thesis by blast
qed

lemma cluster_inv_move:
  assumes inv: "cluster_inv boot P s" and boot: "\<forall>i r. boot i = Some r \<longrightarrow> booted V W i r"
    and r: "c_nodes s i = Some r" "r_term r \<noteq> - 1"
    and mv: "node_move m r r'" and dur: "durable r r'"
    and src: "m_type m \<notin> {CETCD_MSG_VOTE, CETCD_MSG_VOTE_RESP} \<or>
              m \<in> c_net s \<and> m_to m = i \<and> on_time r m"
  shows "cluster_inv boot P (set_node s i r')"
proof (rule cluster_inv_set_node [OF inv r(1)])
  fix r0 assume "boot i = Some r0" and ni: "node_inv P (c_wal s i) r0 i r"
  then have ids: "r_id r0 = i" "i \<noteq> 0" using boot by (auto simp: booted_def)
  have "m_from x \<noteq> 0" if "x \<in> c_net s" for x
  proof -
    from that inv have "m_from x \<in> dom boot" by (simp add: cluster_inv_def)
    then show ?thesis using boot by (auto simp: booted_def)
  qed
  then show "node_inv P (c_wal s i) r0 i r'"
    using src inv
    by (intro node_inv_move [OF ni mv dur ids r(2)]) (auto simp: cluster_inv_def grants_def on_time_def)
qed

lemma cluster_inv_step:
  assumes inv: "cluster_inv boot P s" and boot: "\<forall>i r. boot i = Some r \<longrightarrow> booted V W i r"
    and st: "cluster_step True boot s s'"
  shows "\<exists>P'. cluster_inv boot P' s'"
  using st
proof cases
  case (deliver i r m)
  then show ?thesis
    using cluster_inv_move [OF inv boot _ _ cetcd_raft_step_move durable_step] by blast
next
  case (local i r m)
  then show ?thesis
    using cluster_inv_move [OF inv boot local(2,3) cetcd_raft_step_move durable_step, of m] by auto
next
  case (tick i r)
  obtain m where "m_type m \<in> {CETCD_MSG_HUP, CETCD_MSG_BEAT}" "node_move m r (cetcd_raft_tick r)"
    using cetcd_raft_tick_move by blast
  then show ?thesis
    using cluster_inv_move [OF inv boot tick(2,3) _ durable_tick, of m] tick(1) by auto
next
  case (conf_change i r data)
  have "node_move m' r (snd (cetcd_raft_propose_conf_change r data))" for m'
    by (simp add: cetcd_raft_propose_conf_change_def leader_append_move node_move_refl)
  from cluster_inv_move [OF inv boot conf_change(2,3) this durable_propose_conf_change,
      of "zero_msg\<lparr>m_type := CETCD_MSG_PROP\<rparr>"] conf_change(1)
  show ?thesis by auto
next
  case (compact i r idx t)
  have "node_move m' r (snd (cetcd_raft_compact r idx t))" for m'
    by (rule node_move_core [OF node_move_refl core_compact])
  from cluster_inv_move [OF inv boot compact(2,3) this durable_same [OF durable_refl hs_same_compact],
      of "zero_msg\<lparr>m_type := CETCD_MSG_BEAT\<rparr>"] compact(1)
  show ?thesis by auto
next
  case (ready i r wal msgs r')
  then show ?thesis using cluster_inv_ready [OF inv] by blast
next
  case (restart i r r0)
  have b: "booted V W i r0" using boot restart by simp
  have sv: "single_valued P" using inv by (simp add: cluster_inv_def)
  have "node_inv P ws r0 i r \<Longrightarrow> node_inv P ws r0 i (replay_wal ws r0)" for ws
    by (rule node_inv_restart [OF b sv]) (simp add: node_inv_def)
  then have "cluster_inv boot P s'"
    unfolding restart(1) using restart(3) by (intro cluster_inv_set_node [OF inv restart(2)]) simp
  then show ?thesis by blast
qed

lemma cluster_inv_reach:
  assumes "cluster_reach True boot s" and "\<forall>i r. boot i = Some r \<longrightarrow> booted V W i r"
  shows "\<exists>P. cluster_inv boot P s"
  using assms(1)
proof induction
  case init
  have "cluster_inv boot {} \<lparr>c_nodes = boot, c_wal = (\<lambda>_. []), c_net = {}\<rparr>"
    using assms(2) by (auto simp: cluster_inv_def intro: node_inv_init)
  then show ?case by blast
next
  case (step s s')
  then show ?case using cluster_inv_step assms(2) by blast
qed

lemma is_vote_quorum_perm:
  assumes "distinct vs" "distinct vs'" "set vs = set vs'" "distinct ws" "distinct ws'" "set ws = set ws'"
  shows "is_vote_quorum vs ws = is_vote_quorum vs' ws'"
proof -
  have "ws = [] \<longleftrightarrow> ws' = []" using assms by auto
  then show ?thesis
    using is_majority_perm [OF assms(1-3)] is_majority_perm [OF assms(4-6)]
    by (simp add: is_vote_quorum_def fun_eq_iff)
qed

lemma leaders_agree:
  assumes inv: "cluster_inv boot P s" and boot: "\<forall>i r. boot i = Some r \<longrightarrow> booted V W i r"
    and i: "c_nodes s i = Some ri" "r_role ri = ROLE_LEADER"
    and j: "c_nodes s j = Some rj" "r_role rj = ROLE_LEADER"
    and t: "r_term ri = r_term rj"
  shows "i = j"
proof -
  define cast where "cast = {(v, c). ((v, r_term ri), c) \<in> P} \<union> {(i, i), (j, j)}"
  from inv i j obtain i0 j0 where b: "boot i = Some i0" "boot j = Some j0"
    by (force simp: cluster_inv_def)
  with inv i j have ni: "node_inv P (c_wal s i) i0 i ri" "node_inv P (c_wal s j) j0 j rj"
    by (auto simp: cluster_inv_def)
  from b boot have bi: "booted V W i i0" and bj: "booted V W j j0" by auto
  have cfg: "fst (ecore ri) = fst (ecore i0)" "fst (ecore rj) = fst (ecore j0)"
    using ni by (auto simp: node_inv_def)
  have q: "vote_quorum_ok ri" "vote_quorum_ok rj" using ni i j by (auto simp: node_inv_def)
  have "is_vote_quorum (incoming_voters rj) (r_outgoing rj) = is_vote_quorum (incoming_voters ri) (r_outgoing ri)"
    using bi bj by (intro is_vote_quorum_perm)
      (simp_all add: config_cong [OF cfg(1)] config_cong [OF cfg(2)] booted_def)
  then have Q: "is_vote_quorum (incoming_voters ri) (r_outgoing ri) (set (r_votes_granted ri))"
    "is_vote_quorum (incoming_voters ri) (r_outgoing ri) (set (r_votes_granted rj))"
    using q by (simp_all add: vote_quorum_ok_iff)
  have "(v, i) \<in> cast" if "v \<in> set (r_votes_granted ri)" for v
    using that ni i by (auto simp: node_inv_def cast_def)
  moreover have "(v, j) \<in> cast" if "v \<in> set (r_votes_granted rj)" for v
    using that ni j t by (auto simp: node_inv_def cast_def)
  moreover have "single_valued cast"
  proof -
    have "((i, r_term ri), c) \<in> P \<Longrightarrow> c = i" "((j, r_term ri), c) \<in> P \<Longrightarrow> c = j" for c
      using ni i j t by (auto simp: node_inv_def covers_def)
    moreover have "single_valued P" using inv by (simp add: cluster_inv_def)
    ultimately show ?thesis unfolding single_valued_def cast_def by blast
  qed
  ultimately show "i = j"
    by (rule vq.unique_winner [OF Q])
qed

end
