(* ===== verification/Raft_Safety.thy ===== *)
theory Raft_Safety
  imports Raft_Cluster Raft_Sample
begin

text \<open>
  The properties of the cluster and of single nodes, with executable runs of the
  cluster as their examples.
\<close>

section \<open>Running a cluster\<close>

datatype cluster_op = Deliver cetcd_msg | Local u64 cetcd_msg | Ready u64 | Restart u64

definition exec_op :: "bool \<Rightarrow> (u64 \<Rightarrow> cetcd_raft option) \<Rightarrow> cluster_op \<Rightarrow> cluster \<Rightarrow> cluster option" where
  "exec_op strict boot op s =
     (case op of
        Deliver m \<Rightarrow>
          (case c_nodes s (m_to m) of
             None \<Rightarrow> None
           | Some r \<Rightarrow> if r_term r \<noteq> - 1 \<and> m \<in> c_net s \<and> (strict \<longrightarrow> on_time r m)
                       then Some (set_node s (m_to m) (snd (cetcd_raft_step r m))) else None)
      | Local i m \<Rightarrow>
          (case c_nodes s i of
             None \<Rightarrow> None
           | Some r \<Rightarrow> if r_term r \<noteq> - 1 \<and>
                m_type m \<in> {CETCD_MSG_HUP, CETCD_MSG_PROP, CETCD_MSG_BEAT, CETCD_MSG_TRANSFER_LEADER}
                       then Some (set_node s i (snd (cetcd_raft_step r m))) else None)
      | Ready i \<Rightarrow>
          (case c_nodes s i of
             None \<Rightarrow> None
           | Some r \<Rightarrow> (case process_ready None (c_wal s i) r of (wal, msgs, r') \<Rightarrow>
               Some ((set_node s i r')\<lparr>c_wal := (c_wal s)(i := wal), c_net := c_net s \<union> set msgs\<rparr>)))
      | Restart i \<Rightarrow>
          (case (c_nodes s i, boot i) of
             (Some r, Some r0) \<Rightarrow> Some (set_node s i (replay_wal (c_wal s i) r0))
           | _ \<Rightarrow> None))"

fun exec :: "bool \<Rightarrow> (u64 \<Rightarrow> cetcd_raft option) \<Rightarrow> cluster_op list \<Rightarrow> cluster \<Rightarrow> cluster option" where
  "exec strict boot [] s = Some s"
| "exec strict boot (op # ops) s =
     (case exec_op strict boot op s of None \<Rightarrow> None | Some s' \<Rightarrow> exec strict boot ops s')"

definition start :: "(u64 \<Rightarrow> cetcd_raft option) \<Rightarrow> cluster" where
  "start boot = \<lparr>c_nodes = boot, c_wal = (\<lambda>_. []), c_net = {}\<rparr>"

lemma exec_op_step: "exec_op strict boot op s = Some s' \<Longrightarrow> cluster_step strict boot s s'"
  by (auto simp: exec_op_def split: cluster_op.splits option.splits if_splits prod.splits
      intro: cluster_step.intros)

lemma exec_reach:
  "cluster_reach strict boot s \<Longrightarrow> exec strict boot ops s = Some s' \<Longrightarrow> cluster_reach strict boot s'"
proof (induction ops arbitrary: s)
  case (Cons op ops)
  then obtain s1 where "exec_op strict boot op s = Some s1" "exec strict boot ops s1 = Some s'"
    by (auto split: option.splits)
  with Cons show ?case by (metis exec_op_step cluster_reach.step)
qed simp

lemma exec_start: "exec strict boot ops (start boot) = Some s \<Longrightarrow> cluster_reach strict boot s"
  by (rule exec_reach [OF _]) (simp_all add: start_def cluster_reach.init)

definition sample_boot :: "u64 \<Rightarrow> cetcd_raft option" where
  "sample_boot i = (if i = 1 \<or> i = 2 \<or> i = 3 then Some (sample_node i) else None)"

lemma sample_booted: "\<forall>i r. sample_boot i = Some r \<longrightarrow> booted {1, 2, 3} {} i r"
proof -
  have "booted {1, 2, 3} {} 1 (sample_node 1)" by code_simp
  moreover have "booted {1, 2, 3} {} 2 (sample_node 2)" by code_simp
  moreover have "booted {1, 2, 3} {} 3 (sample_node 3)" by code_simp
  ultimately show ?thesis by (auto simp: sample_boot_def)
qed

definition hup :: cetcd_msg where "hup = zero_msg\<lparr>m_type := CETCD_MSG_HUP\<rparr>"

definition vote_req :: "u64 \<Rightarrow> u64 \<Rightarrow> u64 \<Rightarrow> cetcd_msg" where
  "vote_req i j t = zero_msg\<lparr>m_type := CETCD_MSG_VOTE, m_from := i, m_to := j, m_term := t\<rparr>"

definition vote_ack :: "u64 \<Rightarrow> u64 \<Rightarrow> u64 \<Rightarrow> cetcd_msg" where
  "vote_ack i j t = zero_msg\<lparr>m_type := CETCD_MSG_VOTE_RESP, m_from := i, m_to := j, m_term := t\<rparr>"

definition leads :: "cluster \<Rightarrow> u64 \<Rightarrow> u64 \<Rightarrow> bool" where
  "leads s i t = (case c_nodes s i of None \<Rightarrow> False | Some r \<Rightarrow> r_role r = ROLE_LEADER \<and> r_term r = t)"

lemma exec_leads:
  assumes "case exec strict boot ops (start boot) of None \<Rightarrow> False | Some s \<Rightarrow> Q s"
  obtains s where "cluster_reach strict boot s" and "Q s"
  using assms by (auto split: option.splits dest: exec_start)

section \<open>Election safety\<close>

text \<open>
  C1. Election safety, with crashes: in every cluster reachable from booted nodes
  that share their voters (and their outgoing voters, in a joint configuration),
  whatever the network does with the messages and however often nodes crash and
  replay their WAL, two nodes that lead in the same term are the same node. Vote
  responses older than the receiver's term are not delivered; terms stay below the
  largest 64-bit value.
\<close>

theorem election_safety:
  assumes "\<forall>i r. boot i = Some r \<longrightarrow> booted V W i r"
    and "cluster_reach True boot s"
    and "leads s i t" and "leads s j t"
  shows "i = j"
proof -
  from cluster_inv_reach [OF assms(2,1)] obtain P where inv: "cluster_inv boot P s" ..
  from assms(3,4) obtain ri rj where
    "c_nodes s i = Some ri" "r_role ri = ROLE_LEADER" "c_nodes s j = Some rj" "r_role rj = ROLE_LEADER"
    "r_term ri = r_term rj"
    by (auto simp: leads_def split: option.splits)
  then show ?thesis by (rule leaders_agree [OF inv assms(1)])
qed

text \<open>
  The example: node 1 campaigns, node 2 votes, crashes after its response was
  persisted and sent, and replays; node 1 then leads in term 1 and node 2 does not.
\<close>

definition crash_run :: "cluster_op list" where
  "crash_run = [Local 1 hup, Ready 1, Deliver (vote_req 1 2 1), Ready 2, Restart 2, Deliver (vote_ack 2 1 1)]"

theorem election_safety_witness:
  "\<exists>s. cluster_reach True sample_boot s \<and> leads s 1 1 \<and> \<not> leads s 2 1"
proof -
  have "case exec True sample_boot crash_run (start sample_boot) of None \<Rightarrow> False | Some s \<Rightarrow> leads s 1 1"
    by code_simp
  then obtain s where s: "cluster_reach True sample_boot s" "leads s 1 1"
    by (rule exec_leads)
  moreover have "\<not> leads s 2 1"
    using election_safety [OF sample_booted s, of 2] by auto
  ultimately show ?thesis by blast
qed

definition stale_run :: "cluster_op list" where
  "stale_run = [Local 1 hup, Ready 1, Deliver (vote_req 1 2 1), Ready 2, Local 1 hup, Ready 1,
     Local 3 hup, Local 3 hup, Ready 3, Deliver (vote_req 3 2 2), Ready 2,
     Deliver (vote_ack 2 3 2), Deliver (vote_ack 2 1 1)]"

text \<open>
  C2. The delivery condition of the previous property is needed, because
  \<^verbatim>\<open>handle_vote_resp_\<close> does not compare the response's term with the candidate's: a
  response granted in term 1 is counted in the election of term 2. In the same
  three-node cluster, with such a response delivered late, nodes 1 and 3 both lead
  in term 2.
\<close>

theorem stale_vote_two_leaders:
  "\<exists>s. cluster_reach False sample_boot s \<and> leads s 1 2 \<and> leads s 3 2"
proof -
  have "case exec False sample_boot stale_run (start sample_boot) of None \<Rightarrow> False
        | Some s \<Rightarrow> leads s 1 2 \<and> leads s 3 2"
    by code_simp
  then show ?thesis by (rule exec_leads) blast
qed

section \<open>Single nodes\<close>

text \<open>
  C3. One call of \<^verbatim>\<open>cetcd_raft_step\<close> never lowers the node's term, and within a term a
  vote once given is never changed (for terms below the largest 64-bit value, where
  a campaign would wrap around).
\<close>

theorem step_votes_once:
  assumes "r_term r \<noteq> - 1"
  shows "r_term r < r_term (snd (cetcd_raft_step r m)) \<or>
         r_term (snd (cetcd_raft_step r m)) = r_term r \<and>
         (r_vote (snd (cetcd_raft_step r m)) = r_vote r \<or> r_vote r = 0)"
proof (rule election_move_vote_once [OF _ assms])
  show "election_move m r (snd (cetcd_raft_step r m))"
    using cetcd_raft_step_move [of m r] by (simp add: node_move_def)
qed

theorem step_votes_once_witness:
  "r_term (sample_node 2) \<noteq> - 1 \<and>
   (r_term (sample_node 2) < r_term (snd (cetcd_raft_step (sample_node 2) (vote_req 1 2 1))) \<or>
    r_term (snd (cetcd_raft_step (sample_node 2) (vote_req 1 2 1))) = r_term (sample_node 2) \<and>
    (r_vote (snd (cetcd_raft_step (sample_node 2) (vote_req 1 2 1))) = r_vote (sample_node 2) \<or>
     r_vote (sample_node 2) = 0)) \<and>
   r_vote (snd (cetcd_raft_step (sample_node 2) (vote_req 1 2 1))) = 1"
proof -
  have "r_term (sample_node 2) \<noteq> - 1" by code_simp
  moreover have "r_vote (snd (cetcd_raft_step (sample_node 2) (vote_req 1 2 1))) = 1" by code_simp
  ultimately show ?thesis using step_votes_once [of "sample_node 2" "vote_req 1 2 1"] by blast
qed

text \<open>
  C4. What a step must persist is queued: after \<^verbatim>\<open>cetcd_raft_step\<close> either term, vote and
  commit index are what they were and the queued hard state is untouched, or the hard
  state queued for the next Ready is exactly the node's new one; and the commit index
  never goes down.
\<close>

theorem step_queues_hard_state:
  "r_commit r \<le> r_commit (snd (cetcd_raft_step r m)) \<and>
   (r_pending_hs (snd (cetcd_raft_step r m)) = Some (hard_state (snd (cetcd_raft_step r m))) \<or>
    r_pending_hs (snd (cetcd_raft_step r m)) = r_pending_hs r \<and>
    hard_state (snd (cetcd_raft_step r m)) = hard_state r)"
  using durable_step [of r m] by (simp add: durable_def hs_same_def)

end
