(* ===== verification/Raft_Replication.thy ===== *)
theory Raft_Replication
  imports Raft_Election Raft_Sample
begin

text \<open>
  The replicated log. The array of \<^verbatim>\<open>src/raft/raft.c\<close> with its capacity is abstracted
  to a list of entries, and the log primitives, the loop of \<^verbatim>\<open>handle_app_\<close> and the
  messages of \<^verbatim>\<open>maybe_send_app_\<close> are related to operations on that list.
\<close>

section \<open>The array and the list\<close>

text \<open>The last index lies inside the array.\<close>

definition log_fits :: "cetcd_raft \<Rightarrow> bool" where
  "log_fits r \<longleftrightarrow> unat (r_log_last_index r) < unat (r_log_cap r)"

definition log_list :: "cetcd_raft \<Rightarrow> cetcd_entry list" where
  "log_list r = map (\<lambda>k. r_log r (of_nat (Suc k))) [0..<unat (r_log_last_index r)]"

lemma length_log_list [simp]: "length (log_list r) = unat (r_log_last_index r)"
  by (simp add: log_list_def)

lemma nth_log_list: "k < unat (r_log_last_index r) \<Longrightarrow> log_list r ! k = r_log r (of_nat (Suc k))"
  by (simp add: log_list_def)

lemma unat_of_nat_Suc:
  fixes n :: u64
  assumes "k < unat n"
  shows "unat (of_nat (Suc k) :: u64) = Suc k"
proof -
  have "unat n < 2 ^ LENGTH(64)" by (rule unsigned_less)
  with assms show ?thesis by (simp add: unat_of_nat del: of_nat_Suc)
qed

lemma unat_ucast_u32 [simp]: "unat (ucast (x :: u32) :: u64) = unat x"
proof -
  have "unat x < 2 ^ LENGTH(32)" by (rule unsigned_less)
  then show ?thesis by (simp add: unsigned_ucast_eq take_bit_eq_mod)
qed

lemma log_new_cap_ge: "0 < c \<Longrightarrow> needed \<le> log_new_cap c needed \<and> c \<le> log_new_cap c needed"
proof (induction c needed rule: log_new_cap.induct)
  case (1 c needed)
  show ?case
  proof (cases "c < needed \<and> c \<le> 0xFFFFFFFF div 2")
    case True
    then have le: "unat c \<le> 2147483647" by (simp add: word_le_nat_alt)
    then have d: "unat (c * 2) = unat c * 2"
      by (subst unat_mult_lem [THEN iffD1]) simp_all
    have "0 < c * 2" "c \<le> c * 2"
      using 1(2) d by (simp_all add: word_less_nat_alt word_le_nat_alt)
    with 1 True show ?thesis
      by (subst (1 2) log_new_cap.simps) (auto simp: not_less intro: order_trans)
  next
    case False
    then show ?thesis
      using 1(2) by (subst (1 2) log_new_cap.simps) (auto simp: not_le not_less)
  qed
qed

lemma log_grow_cap:
  assumes "unat needed < 2 ^ 32"
  shows "unat needed \<le> unat (r_log_cap (log_grow r needed))"
    and "unat (r_log_cap r) \<le> unat (r_log_cap (log_grow r needed))"
proof -
  have n: "unat (ucast needed :: u32) = unat needed"
    using assms by (simp add: unsigned_ucast_eq take_bit_eq_mod)
  define c where "c = (if r_log_cap r \<noteq> 0 then r_log_cap r else 64)"
  have c: "0 < c" "r_log_cap r \<le> c" by (auto simp: c_def word_gt_0)
  have g: "ucast needed \<le> log_new_cap c (ucast needed)" "r_log_cap r \<le> log_new_cap c (ucast needed)"
    using log_new_cap_ge [OF c(1), of "ucast needed"] c(2) by auto
  show "unat needed \<le> unat (r_log_cap (log_grow r needed))"
    using g(1) n by (auto simp: log_grow_def Let_def c_def [symmetric] word_le_nat_alt word_less_nat_alt)
  show "unat (r_log_cap r) \<le> unat (r_log_cap (log_grow r needed))"
    using g(2) by (auto simp: log_grow_def Let_def c_def [symmetric] word_le_nat_alt)
qed

lemma log_grow_log: "unat i < unat (r_log_cap r) \<Longrightarrow> r_log (log_grow r needed) i = r_log r i"
  by (auto simp: log_grow_def Let_def word_le_nat_alt)

lemma log_grow_last [simp]: "r_log_last_index (log_grow r needed) = r_log_last_index r"
  by (simp add: log_grow_def Let_def)

lemma log_append_log:
  assumes "log_fits r" and "i \<le> r_log_last_index r \<or> i = e_index e"
  shows "r_log (log_append r e) i = (if i = e_index e then e else r_log r i)"
  using assms log_grow_log [of i r]
  by (auto simp: log_append_def Let_def log_fits_def word_le_nat_alt)

lemma log_append_last:
  "r_log_last_index (log_append r e) = (if e_index e > r_log_last_index r then e_index e else r_log_last_index r)"
  by (simp add: log_append_def Let_def)

lemma log_append_fits:
  assumes "log_fits r" and "unat (e_index e) + 1 < 2 ^ 32"
  shows "log_fits (log_append r e)"
proof -
  have "unat (e_index e) + 1 < 2 ^ 64" using assms(2) by simp
  then have n: "unat (e_index e + 1) = unat (e_index e) + 1"
    by (simp add: unat_word_ariths)
  have c: "r_log_cap (log_append r e) = r_log_cap (log_grow r (e_index e + 1))"
    by (simp add: log_append_def Let_def)
  show ?thesis
    using assms log_grow_cap [of "e_index e + 1" r] n
    by (auto simp: log_fits_def c log_append_last)
qed

text \<open>Storing an entry inside the log or right behind it.\<close>

definition put_entry :: "cetcd_entry list \<Rightarrow> nat \<Rightarrow> cetcd_entry \<Rightarrow> cetcd_entry list" where
  "put_entry L k e = (if k < length L then L[k := e] else L @ [e])"

lemma log_list_append:
  assumes f: "log_fits r" and "0 < unat (e_index e)" and "unat (e_index e) \<le> Suc (unat (r_log_last_index r))"
  shows "log_list (log_append r e) = put_entry (log_list r) (unat (e_index e) - 1) e"
proof (rule nth_equalityI)
  show len: "length (log_list (log_append r e)) = length (put_entry (log_list r) (unat (e_index e) - 1) e)"
    using assms by (auto simp: put_entry_def log_append_last word_less_nat_alt)
  fix k assume k: "k < length (log_list (log_append r e))"
  then have k': "k < unat (r_log_last_index (log_append r e))" by simp
  then have u: "unat (of_nat (Suc k) :: u64) = Suc k" by (rule unat_of_nat_Suc)
  then have i: "(of_nat (Suc k) = e_index e) = (Suc k = unat (e_index e))"
    by (simp add: word_unat_eq_iff del: of_nat_Suc)
  show "log_list (log_append r e) ! k = put_entry (log_list r) (unat (e_index e) - 1) e ! k"
  proof (cases "Suc k = unat (e_index e)")
    case True
    then have "log_list (log_append r e) ! k = e"
      using i f by (simp add: nth_log_list [OF k'] log_append_log del: of_nat_Suc)
    moreover have "put_entry (log_list r) k e ! k = e"
      using True assms(3) by (auto simp: put_entry_def nth_append)
    moreover have "unat (e_index e) - 1 = k" using True by simp
    ultimately show ?thesis by simp
  next
    case False
    then have k2: "k < unat (r_log_last_index r)"
      using k' assms(2,3) by (auto simp: log_append_last word_less_nat_alt split: if_splits)
    then have "of_nat (Suc k) \<le> r_log_last_index r"
      by (simp add: word_le_nat_alt u del: of_nat_Suc)
    then have "log_list (log_append r e) ! k = log_list r ! k"
      using i False f by (simp add: nth_log_list [OF k'] nth_log_list [OF k2] log_append_log del: of_nat_Suc)
    then show ?thesis
      using False k2 assms(2) by (auto simp: put_entry_def nth_append)
  qed
qed

lemma log_truncate_last:
  "r_log_last_index (log_truncate_after r i) = (if i < r_log_last_index r then i else r_log_last_index r)"
  by (auto simp: log_truncate_after_def Let_def)

lemma log_truncate_log:
  assumes "j \<le> i"
  shows "r_log (log_truncate_after r i) j = r_log r j"
proof (cases "i < r_log_last_index r")
  case True
  then have "\<not> i + 1 \<le> j"
    using assms unat_add_one [OF True] by (simp add: word_le_nat_alt)
  then show ?thesis by (simp add: log_truncate_after_def Let_def)
qed (simp add: log_truncate_after_def)

lemma log_truncate_fits: "log_fits r \<Longrightarrow> log_fits (log_truncate_after r i)"
  by (auto simp: log_fits_def log_truncate_after_def Let_def word_less_nat_alt not_le)

lemma log_list_truncate: "log_list (log_truncate_after r i) = take (unat i) (log_list r)"
proof (rule nth_equalityI)
  fix k assume "k < length (log_list (log_truncate_after r i))"
  then have k: "k < unat (r_log_last_index (log_truncate_after r i))" by simp
  then have u: "unat (of_nat (Suc k) :: u64) = Suc k" by (rule unat_of_nat_Suc)
  show "log_list (log_truncate_after r i) ! k = take (unat i) (log_list r) ! k"
  proof (cases "i < r_log_last_index r")
    case True
    then have "of_nat (Suc k) \<le> i" "k < unat (r_log_last_index r)" "k < unat i"
      using k u by (auto simp: word_le_nat_alt word_less_nat_alt log_truncate_last simp del: of_nat_Suc)
    then show ?thesis
      by (simp add: nth_log_list [OF k] nth_log_list log_truncate_log del: of_nat_Suc)
  next
    case False
    then show ?thesis by (simp add: log_truncate_after_def not_less word_le_nat_alt)
  qed
qed (auto simp: log_truncate_last word_less_nat_alt min_def)

section \<open>Accepting entries\<close>

text \<open>
  The abstract append of the Raft paper: an entry that agrees in term with the one
  at its place replaces it and keeps what follows; an entry that does not drops the
  whole tail first.
\<close>

definition accept_entry :: "cetcd_entry list \<Rightarrow> nat \<Rightarrow> cetcd_entry \<Rightarrow> cetcd_entry list" where
  "accept_entry L k e =
     (if k < length L \<and> e_term (L ! k) = e_term e then L[k := e] else take k L @ [e])"

fun accept_entries :: "cetcd_entry list \<Rightarrow> nat \<Rightarrow> cetcd_entry list \<Rightarrow> cetcd_entry list" where
  "accept_entries L k [] = L"
| "accept_entries L k (e # es) =
     accept_entries (accept_entry L k (e\<lparr>e_index := of_nat (Suc k)\<rparr>)) (Suc k) es"

lemma log_term_at_list:
  assumes "0 < idx" "idx \<le> r_log_last_index r" "r_log_compacted r \<le> idx"
  shows "log_term_at r idx = e_term (log_list r ! (unat idx - 1))"
proof -
  have "0 < unat idx" using assms(1) by (simp add: word_less_nat_alt)
  then have "of_nat (Suc (unat idx - 1)) = idx" by simp
  moreover have "unat idx - 1 < unat (r_log_last_index r)"
    using assms(1,2) by (simp add: word_less_nat_alt word_le_nat_alt)
  ultimately have "log_list r ! (unat idx - 1) = r_log r idx" by (simp add: nth_log_list del: of_nat_Suc)
  then show ?thesis
    using assms by (auto simp: log_term_at_def log_at_def not_less)
qed

lemma queue_entry_sel [simp]:
  "log_list (queue_entry r e) = log_list r" "log_fits (queue_entry r e) = log_fits r"
  "r_log_compacted (queue_entry r e) = r_log_compacted r"
  "r_log_last_index (queue_entry r e) = r_log_last_index r"
  by (simp_all add: queue_entry_def log_list_def log_fits_def)

lemma compacted_log [simp]:
  "r_log_compacted (log_append r e) = r_log_compacted r"
  "r_log_compacted (log_truncate_after r i) = r_log_compacted r"
  by (simp_all add: log_append_def log_truncate_after_def log_grow_def Let_def)

lemma app_store_one_refines:
  fixes e :: cetcd_entry
  assumes f: "log_fits r" and i: "0 < idx" "unat idx \<le> Suc (unat (r_log_last_index r))" "unat idx + 1 < 2 ^ 32"
    and c: "r_log_compacted r \<le> idx"
  defines "r' \<equiv> app_store_one r idx e"
  shows "log_list r' = accept_entry (log_list r) (unat idx - 1) (e\<lparr>e_index := idx\<rparr>)"
    and "log_fits r'" and "r_log_compacted r' = r_log_compacted r" and "unat idx \<le> unat (r_log_last_index r')"
proof -
  define r1 where "r1 = (if idx \<le> r_log_last_index r \<and> log_term_at r idx \<noteq> e_term e
               then log_truncate_after r (idx - 1) else r)"
  define r2 where "r2 = log_append r1 (e\<lparr>e_index := idx\<rparr>)"
  have r': "log_list r' = log_list r2" "log_fits r' = log_fits r2" "r_log_compacted r' = r_log_compacted r2"
     "r_log_last_index r' = r_log_last_index r2"
    by (auto simp: r'_def app_store_one_def Let_def r1_def [symmetric] r2_def [symmetric] split: option.split)
  have n: "0 < unat idx" using i(1) by (simp add: word_less_nat_alt)
  have p: "unat (idx - 1) = unat idx - 1" using i(1) by (simp add: unat_minus_one word_gt_0)
  have f1: "log_fits r1" using f by (simp add: r1_def log_truncate_fits)
  have l1: "unat idx \<le> Suc (unat (r_log_last_index r1))"
    using i(2) p n by (auto simp: r1_def log_truncate_last word_less_nat_alt)
  have l2: "log_list r2 = put_entry (log_list r1) (unat idx - 1) (e\<lparr>e_index := idx\<rparr>)"
    unfolding r2_def using f1 n l1 by (subst log_list_append) simp_all
  show "log_list r' = accept_entry (log_list r) (unat idx - 1) (e\<lparr>e_index := idx\<rparr>)"
  proof (cases "idx \<le> r_log_last_index r")
    case True
    then have "log_term_at r idx = e_term (log_list r ! (unat idx - 1))"
      using i(1) c by (simp add: log_term_at_list)
    then show ?thesis
      using True n p
      by (auto simp: r' l2 r1_def accept_entry_def put_entry_def log_list_truncate log_truncate_last
          word_le_nat_alt word_less_nat_alt)
  next
    case False
    then show ?thesis
      using i(2) n by (auto simp: r' l2 r1_def accept_entry_def put_entry_def word_le_nat_alt)
  qed
  show "log_fits r'" using f1 i(3) by (simp add: r' r2_def log_append_fits)
  show "r_log_compacted r' = r_log_compacted r" by (simp add: r' r2_def r1_def)
  show "unat idx \<le> unat (r_log_last_index r')"
    by (auto simp: r' r2_def log_append_last word_less_nat_alt)
qed

lemma app_store_refines:
  assumes "log_fits r" and "0 < idx" and "unat idx \<le> Suc (unat (r_log_last_index r))"
    and "unat idx + length es < 2 ^ 32" and "r_log_compacted r \<le> idx"
  shows "log_list (app_store r idx es) = accept_entries (log_list r) (unat idx - 1) es \<and>
         log_fits (app_store r idx es) \<and> r_log_compacted (app_store r idx es) = r_log_compacted r"
  using assms
proof (induction r idx es rule: app_store.induct)
  case (2 r idx e es)
  have idx: "0 < unat idx" using 2(3) by (simp add: word_less_nat_alt)
  have "unat idx + 1 < 2 ^ 64" using "2.prems"(4) by simp
  then have u: "unat (idx + 1) = Suc (unat idx)" by (simp add: unat_word_ariths)
  note one = app_store_one_refines [OF 2(2) 2(3) 2(4) _ 2(6), of e]
  have b: "unat idx + 1 < 2 ^ 32" using "2.prems"(4) by simp
  have s: "of_nat (Suc (unat idx - 1)) = idx" using idx by simp
  have "0 < idx + 1" using u by (simp add: word_less_nat_alt)
  moreover have "r_log_compacted (app_store_one r idx e) \<le> idx + 1"
    using one(3) [OF b] "2.prems"(5) u by (simp add: word_le_nat_alt)
  ultimately have IH: "log_list (app_store (app_store_one r idx e) (idx + 1) es) =
      accept_entries (log_list (app_store_one r idx e)) (unat (idx + 1) - 1) es \<and>
    log_fits (app_store (app_store_one r idx e) (idx + 1) es) \<and>
    r_log_compacted (app_store (app_store_one r idx e) (idx + 1) es) = r_log_compacted (app_store_one r idx e)"
    using one [OF b] u "2.prems"(4) by (intro "2.IH") simp_all
  then show ?case
    using one [OF b] u s idx by (simp del: of_nat_Suc)
qed simp

lemma accept_entry_props:
  assumes "k \<le> length L"
  shows "k < length (accept_entry L k e)" "accept_entry L k e ! k = e"
    "take k (accept_entry L k e) = take k L"
  using assms by (auto simp: accept_entry_def nth_append)

lemma accept_entries_props:
  assumes "k \<le> length L"
  shows "k + length es \<le> length (accept_entries L k es)" (is ?A)
    and "take k (accept_entries L k es) = take k L" (is ?B)
    and "j < length es \<Longrightarrow> accept_entries L k es ! (k + j) = (es ! j)\<lparr>e_index := of_nat (Suc (k + j))\<rparr>"
proof -
  have "?A \<and> ?B \<and> (\<forall>j < length es.
      accept_entries L k es ! (k + j) = (es ! j)\<lparr>e_index := of_nat (Suc (k + j))\<rparr>)"
    using assms
  proof (induction L k es rule: accept_entries.induct)
    case (2 L k e es)
    define L' where "L' = accept_entry L k (e\<lparr>e_index := of_nat (Suc k)\<rparr>)"
    have L': "k < length L'" "L' ! k = e\<lparr>e_index := of_nat (Suc k)\<rparr>" "take k L' = take k L"
      using accept_entry_props [OF "2.prems"] by (simp_all add: L'_def del: of_nat_Suc)
    then have IH: "Suc k + length es \<le> length (accept_entries L' (Suc k) es)"
      "take (Suc k) (accept_entries L' (Suc k) es) = take (Suc k) L'"
      "\<forall>j < length es. accept_entries L' (Suc k) es ! (Suc k + j) = (es ! j)\<lparr>e_index := of_nat (Suc (Suc k + j))\<rparr>"
      using "2.IH" by (simp_all add: L'_def del: of_nat_Suc)
    have "take k (accept_entries L' (Suc k) es) = take k (take (Suc k) (accept_entries L' (Suc k) es))"
      by simp
    then have t: "take k (accept_entries L' (Suc k) es) = take k L"
      using IH(2) L'(3) by simp
    have z: "accept_entries L' (Suc k) es ! k = e\<lparr>e_index := of_nat (Suc k)\<rparr>"
      using IH(2) L'(2) by (metis lessI nth_take)
    have "accept_entries L' (Suc k) es ! (k + j) = ((e # es) ! j)\<lparr>e_index := of_nat (Suc (k + j))\<rparr>"
      if "j < length (e # es)" for j
      using that z IH(3) by (cases j) (simp_all del: of_nat_Suc)
    then show ?case
      using IH(1) t by (simp add: L'_def [symmetric] del: of_nat_Suc)
  qed simp
  then show ?A ?B "j < length es \<Longrightarrow>
      accept_entries L k es ! (k + j) = (es ! j)\<lparr>e_index := of_nat (Suc (k + j))\<rparr>"
    by blast+
qed

section \<open>The follower\<close>

definition log_view :: "cetcd_raft \<Rightarrow> (u64 \<Rightarrow> cetcd_entry) \<times> u32 \<times> u64 \<times> u64" where
  "log_view r = (r_log r, r_log_cap r, r_log_last_index r, r_log_compacted r)"

lemma log_view_cong:
  assumes "log_view r' = log_view r"
  shows "log_list r' = log_list r" "log_fits r' = log_fits r" "r_log_last_index r' = r_log_last_index r"
    "r_log_compacted r' = r_log_compacted r" "log_at r' = log_at r" "log_term_at r' = log_term_at r"
  using assms by (auto simp: log_view_def log_list_def log_fits_def log_at_def log_term_at_def fun_eq_iff)

lemma log_view_queue [simp]:
  "log_view (queue_hard_state r) = log_view r" "log_view (queue_msg r m) = log_view r"
  "log_view (r\<lparr>r_commit := c\<rparr>) = log_view r"
  by (simp_all add: log_view_def queue_hard_state_def queue_msg_def)

lemma log_view_follow [simp]:
  "log_view (follow_commit r c) = log_view r" "log_view (become_follower r t l) = log_view r"
  by (simp_all add: follow_commit_def Let_def) (simp_all add: become_follower_def log_view_def Let_def)

lemma log_view_accept_leader [simp]: "log_view (accept_leader r msg) = log_view r"
proof -
  have "log_view (r\<lparr>r_leader_id := l, r_elapsed_ticks := t\<rparr>) = log_view r" for r l t
    by (simp add: log_view_def)
  then show ?thesis by (simp add: accept_leader_def Let_def)
qed

text \<open>The three outcomes of \<^verbatim>\<open>handle_app_\<close> after the term check.\<close>

definition prev_matches :: "cetcd_raft \<Rightarrow> cetcd_msg \<Rightarrow> bool" where
  "prev_matches r msg \<longleftrightarrow> m_index msg = 0 \<or>
     m_index msg \<le> r_log_last_index r \<and> log_term_at r (m_index msg) = m_log_term msg"

lemma handle_app_accepts:
  assumes "\<not> m_term msg < r_term r" and "prev_matches r msg"
  shows "log_view (handle_app r msg) =
      log_view (app_store (accept_leader r msg) (m_index msg + 1) (m_entries msg))"
    and "\<exists>m. last (r_pending_msgs (handle_app r msg)) = m \<and> m_type m = CETCD_MSG_APP_RESP \<and> m_reject m = 0 \<and>
           m_to m = m_from msg \<and> m_index m = r_log_last_index (handle_app r msg)"
proof -
  note v = log_view_cong [OF log_view_accept_leader [of r msg]]
  define r2 where "r2 = follow_commit (app_store (accept_leader r msg) (m_index msg + 1) (m_entries msg)) (m_commit msg)"
  have e: "handle_app r msg = queue_msg r2 (zero_msg\<lparr>m_type := CETCD_MSG_APP_RESP, m_to := m_from msg,
      m_from := r_id r2, m_term := r_term r2, m_index := r_log_last_index r2, m_reject := 0\<rparr>)"
    using assms by (auto simp: handle_app_def Let_def v prev_matches_def r2_def not_less)
  show "log_view (handle_app r msg) =
      log_view (app_store (accept_leader r msg) (m_index msg + 1) (m_entries msg))"
    by (simp add: e r2_def)
  show "\<exists>m. last (r_pending_msgs (handle_app r msg)) = m \<and> m_type m = CETCD_MSG_APP_RESP \<and> m_reject m = 0 \<and>
           m_to m = m_from msg \<and> m_index m = r_log_last_index (handle_app r msg)"
    by (simp add: e) (simp add: queue_msg_def)
qed

lemma handle_app_rejects:
  assumes "\<not> prev_matches r msg"
  shows "log_view (handle_app r msg) = log_view r"
    and "\<exists>m. last (r_pending_msgs (handle_app r msg)) = m \<and> m_type m = CETCD_MSG_APP_RESP \<and> m_reject m = 1 \<and>
           m_to m = m_from msg"
proof -
  note v = log_view_cong [OF log_view_accept_leader [of r msg]]
  have "\<exists>r2 x. handle_app r msg = queue_msg r2 x \<and> log_view r2 = log_view r \<and>
      m_type x = CETCD_MSG_APP_RESP \<and> m_reject x = 1 \<and> m_to x = m_from msg"
    using assms log_view_accept_leader [of r msg] unfolding prev_matches_def handle_app_def Let_def v
    by (auto simp: not_le word_gt_0 intro!: exI)
  then obtain r2 x where x: "handle_app r msg = queue_msg r2 x" "log_view r2 = log_view r"
      "m_type x = CETCD_MSG_APP_RESP" "m_reject x = 1" "m_to x = m_from msg" by blast
  then show "log_view (handle_app r msg) = log_view r"
    and "\<exists>m. last (r_pending_msgs (handle_app r msg)) = m \<and> m_type m = CETCD_MSG_APP_RESP \<and> m_reject m = 1 \<and>
           m_to m = m_from msg"
    by simp (simp add: x queue_msg_def)
qed

lemma handle_app_refines:
  assumes "\<not> m_term msg < r_term r" and "prev_matches r msg" and "log_fits r"
    and "r_log_compacted r \<le> m_index msg"
    and "unat (m_index msg) + length (m_entries msg) + 1 < 2 ^ 32"
  shows "log_list (handle_app r msg) = accept_entries (log_list r) (unat (m_index msg)) (m_entries msg)"
    and "log_fits (handle_app r msg)" and "r_log_compacted (handle_app r msg) = r_log_compacted r"
proof -
  note v = log_view_cong [OF log_view_accept_leader [of r msg]]
  note h = log_view_cong [OF handle_app_accepts(1) [OF assms(1,2)]]
  have "unat (m_index msg) + 1 < 2 ^ 64" using assms(5) by simp
  then have u: "unat (m_index msg + 1) = Suc (unat (m_index msg))" by (simp add: unat_word_ariths)
  have "0 < m_index msg + 1" "r_log_compacted r \<le> m_index msg + 1"
    using u assms(4) by (simp_all add: word_less_nat_alt word_le_nat_alt)
  moreover have "unat (m_index msg) \<le> unat (r_log_last_index r)"
    using assms(2) by (auto simp: prev_matches_def word_le_nat_alt)
  ultimately have "log_list (app_store (accept_leader r msg) (m_index msg + 1) (m_entries msg)) =
        accept_entries (log_list (accept_leader r msg)) (unat (m_index msg + 1) - 1) (m_entries msg) \<and>
      log_fits (app_store (accept_leader r msg) (m_index msg + 1) (m_entries msg)) \<and>
      r_log_compacted (app_store (accept_leader r msg) (m_index msg + 1) (m_entries msg)) =
        r_log_compacted (accept_leader r msg)"
    using assms u by (intro app_store_refines) (simp_all add: v)
  then show "log_list (handle_app r msg) = accept_entries (log_list r) (unat (m_index msg)) (m_entries msg)"
    and "log_fits (handle_app r msg)" and "r_log_compacted (handle_app r msg) = r_log_compacted r"
    by (simp_all add: h v u)
qed

section \<open>The leader\<close>

lemma those_nth:
  "those (map f [a..<b]) = Some es \<Longrightarrow> length es = b - a \<and> (\<forall>k < b - a. f (a + k) = Some (es ! k))"
proof (induction "b - a" arbitrary: a es)
  case (Suc n)
  then have ab: "a < b" "[a..<b] = a # [Suc a..<b]" by (simp_all add: upt_conv_Cons)
  with Suc.prems obtain e es' where e: "f a = Some e" "those (map f [Suc a..<b]) = Some es'" "es = e # es'"
    by (auto split: option.splits)
  have "n = b - Suc a" using Suc.hyps(2) by simp
  from Suc.hyps(1) [OF this e(2)] have IH: "length es' = b - Suc a"
    "\<forall>k < b - Suc a. f (Suc a + k) = Some (es' ! k)" by simp_all
  have "f (a + k) = Some (es ! k)" if "k < b - a" for k
    using that e IH by (cases k) auto
  then show ?case using IH(1) e(3) ab by auto
qed auto

lemma app_count_le: "app_count r sz fuel idx n bytes \<le> n + fuel"
  by (induction r sz fuel idx n bytes rule: app_count.induct)
    (auto simp: Let_def split: option.split intro: order_trans)

text \<open>An append message that describes a segment of the sender's log.\<close>

definition log_segment :: "cetcd_raft \<Rightarrow> cetcd_msg \<Rightarrow> bool" where
  "log_segment r m \<longleftrightarrow>
     m_from m = r_id r \<and> m_term m = r_term r \<and> m_commit m = r_commit r \<and>
     r_log_compacted r \<le> m_index m \<and> m_log_term m = log_term_at r (m_index m) \<and>
     m_entries m \<noteq> [] \<and> length (m_entries m) \<le> 256 \<and>
     (\<forall>k < length (m_entries m). log_at r (m_index m + 1 + of_nat k) = Some (m_entries m ! k))"

lemma maybe_send_app_segment:
  "sends (\<lambda>m. m_type m = CETCD_MSG_SNAP \<or> m_type m = CETCD_MSG_APP \<and> log_segment r m) r (maybe_send_app r i)"
  (is "sends ?P r _")
proof -
  define nx where "nx = (if next_idx (r_progress r i) = 0 then 1 else next_idx (r_progress r i))"
  have snap: "sends ?P r (maybe_send_snap r i)"
    unfolding maybe_send_snap_def Let_def by (intro sends_if sends_refl sends_queue_progress) simp
  have n0: "nx \<noteq> 0" by (simp add: nx_def)
  have seg: "log_segment r (zero_msg\<lparr>m_type := CETCD_MSG_APP, m_to := p, m_from := r_id r,
                     m_term := r_term r, m_index := nx - 1, m_log_term := log_term_at r (nx - 1),
                     m_commit := r_commit r, m_entries := es\<rparr>)"
    if "\<not> (r_log_compacted r > 0 \<and> nx \<le> r_log_compacted r)" "n \<noteq> 0" "n \<le> 256"
      "those (map (\<lambda>k. log_at r (nx + of_nat k)) [0..<n]) = Some es" for p es n
  proof -
    have "r_log_compacted r \<le> nx - 1"
    proof (cases "r_log_compacted r = 0")
      case False
      then have "r_log_compacted r < nx" using that(1) by (auto simp: word_gt_0 not_le)
      then show ?thesis using n0
        by (simp add: word_less_nat_alt word_le_nat_alt unat_minus_one)
    qed simp
    moreover have "length es = n" "\<forall>k<n. log_at r (nx + of_nat k) = Some (es ! k)"
      using those_nth [OF that(4)] by simp_all
    ultimately show ?thesis
      using that(2,3) by (auto simp: log_segment_def)
  qed
  have cnt: "app_count r sz 256 nx 0 0 \<le> 256" for sz using app_count_le [of r sz 256 nx 0 0] by simp
  show ?thesis
    unfolding maybe_send_app_def Let_def nx_def [symmetric]
    by (auto intro!: sends_queue_progress snap seg cnt split: option.split)
qed

lemma log_view_sends: "sends P r r' \<Longrightarrow> log_view r' = log_view r"
  by (simp add: log_view_def sends_fields)

lemma log_view_advance_commit [simp]: "log_view (maybe_advance_commit r) = log_view r"
  by (simp add: maybe_advance_commit_def Let_def)

lemma log_view_queue_entry [simp]: "log_view (queue_entry r e) = log_view r"
  by (simp add: log_view_def queue_entry_def)

lemma leader_append_view:
  "log_view (leader_append r tp data) =
   log_view (log_append (r\<lparr>r_log_last_index := r_log_last_index r + 1, r_log_last_term := r_term r\<rparr>)
     \<lparr>e_term = r_term r, e_index = r_log_last_index r + 1, e_type = tp, e_data = data\<rparr>)"
  by (simp add: leader_append_def Let_def log_view_sends [OF sends_broadcast_app] split: option.split)

lemma leader_append_refines:
  assumes f: "log_fits r" and b: "unat (r_log_last_index r) + 2 < 2 ^ 32"
  shows "log_list (leader_append r tp data) =
      log_list r @ [\<lparr>e_term = r_term r, e_index = r_log_last_index r + 1, e_type = tp, e_data = data\<rparr>]"
    and "log_fits (leader_append r tp data)"
proof -
  define e where "e = \<lparr>e_term = r_term r, e_index = r_log_last_index r + 1, e_type = tp, e_data = data\<rparr>"
  define r1 where "r1 = r\<lparr>r_log_last_index := r_log_last_index r + 1, r_log_last_term := r_term r\<rparr>"
  define g where "g = log_grow r1 (e_index e + 1)"
  have "unat (r_log_last_index r) + 2 < 2 ^ 64" using b by simp
  then have u: "unat (r_log_last_index r + 1) = Suc (unat (r_log_last_index r))"
    "unat (e_index e + 1) = unat (r_log_last_index r) + 2"
    by (simp_all add: unat_word_ariths e_def)
  note v = log_view_cong [OF leader_append_view [of r tp data, folded e_def r1_def]]
  have a: "r_log (log_append r1 e) = (r_log g)(e_index e := e)" "r_log_cap (log_append r1 e) = r_log_cap g"
    "r_log_last_index (log_append r1 e) = r_log_last_index r + 1"
    by (simp_all add: log_append_def g_def [symmetric] Let_def) (simp_all add: g_def e_def r1_def)
  have old: "r_log g (of_nat (Suc k)) = r_log r (of_nat (Suc k))" if "k < unat (r_log_last_index r)" for k
    unfolding g_def using that f
    by (subst log_grow_log) (simp_all add: r1_def log_fits_def unat_of_nat_Suc [OF that] del: of_nat_Suc)
  have new: "(of_nat (Suc k) = e_index e) = (k = unat (r_log_last_index r))" if "k < Suc (unat (r_log_last_index r))" for k
    using unat_of_nat_Suc [of k "r_log_last_index r + 1"] that u
    by (simp add: word_unat_eq_iff e_def del: of_nat_Suc)
  show "log_list (leader_append r tp data) = log_list r @ [e]"
    unfolding v
  proof (rule nth_equalityI)
    fix k assume "k < length (log_list (log_append r1 e))"
    then have k: "k < Suc (unat (r_log_last_index r))" by (simp add: a u)
    then have "log_list (log_append r1 e) ! k = (if k = unat (r_log_last_index r) then e else r_log g (of_nat (Suc k)))"
      using new [OF k] by (simp add: nth_log_list a u del: of_nat_Suc)
    with k old show "log_list (log_append r1 e) ! k = (log_list r @ [e]) ! k"
      by (auto simp: nth_append nth_log_list less_Suc_eq simp del: of_nat_Suc)
  qed (simp add: a u)
  show "log_fits (leader_append r tp data)"
    unfolding v using log_grow_cap(1) [of "e_index e + 1" r1] b u by (simp add: log_fits_def a g_def)
qed

lemma unat_of_nat_u64: "n < 2 ^ 64 \<Longrightarrow> unat (of_nat n :: u64) = n"
  by (simp add: unat_of_nat)

lemma segment_list:
  assumes "log_segment l m" and "unat (m_index m) + length (m_entries m) + 1 < 2 ^ 32"
    and "k < length (m_entries m)"
  shows "m_entries m ! k = log_list l ! (unat (m_index m) + k)"
    and "unat (m_index m) + k < length (log_list l)"
proof -
  define i where "i = m_index m + 1 + of_nat k"
  have b: "unat (m_index m) + 1 + k < 2 ^ 64" using assms(2,3) by simp
  have i': "i = of_nat (unat (m_index m) + 1 + k)" by (simp add: i_def)
  then have u: "unat i = unat (m_index m) + 1 + k" using unat_of_nat_u64 [OF b] by (simp only:)
  have s: "of_nat (Suc (unat (m_index m) + k)) = i" by (simp add: i')
  have "log_at l i = Some (m_entries m ! k)"
    using assms(1,3) by (simp add: log_segment_def i_def)
  then have i: "i \<le> r_log_last_index l" "m_entries m ! k = r_log l i"
    by (auto simp: log_at_def split: if_splits)
  then show l: "unat (m_index m) + k < length (log_list l)" using u by (simp add: word_le_nat_alt)
  show "m_entries m ! k = log_list l ! (unat (m_index m) + k)"
    using l s i(2) by (simp add: nth_log_list del: of_nat_Suc)
qed

text \<open>Entries carry their own index.\<close>

definition log_indexed :: "cetcd_entry list \<Rightarrow> bool" where
  "log_indexed L \<longleftrightarrow> (\<forall>k < length L. e_index (L ! k) = of_nat (Suc k))"

lemma accept_segment_matches:
  assumes seg: "log_segment l m" "log_indexed (log_list l)"
    and b: "unat (m_index m) + length (m_entries m) + 1 < 2 ^ 32"
    and L: "unat (m_index m) \<le> length L" "take (unat (m_index m)) L = take (unat (m_index m)) (log_list l)"
  shows "take (unat (m_index m) + length (m_entries m)) (accept_entries L (unat (m_index m)) (m_entries m)) =
         take (unat (m_index m) + length (m_entries m)) (log_list l)"
proof -
  define n where "n = unat (m_index m)"
  define es where "es = m_entries m"
  note s = segment_list [OF seg(1) b, folded n_def es_def]
  note p = accept_entries_props [OF L(1), where es = es, folded n_def]
  have len: "n + length es \<le> length (log_list l)"
  proof (cases es rule: rev_cases)
    case Nil
    with seg(1) show ?thesis by (simp add: log_segment_def es_def)
  next
    case (snoc es' e)
    then show ?thesis using s(2) [of "length es'"] by simp
  qed
  have "accept_entries L n es ! (n + j) = log_list l ! (n + j)" if "j < length es" for j
  proof -
    have "e_index (es ! j) = of_nat (Suc (n + j))"
      using that s seg(2) by (simp add: log_indexed_def del: of_nat_Suc)
    then show ?thesis using p(3) [OF that] s(1) [OF that] by (simp del: of_nat_Suc)
  qed
  moreover have "accept_entries L n es ! k = log_list l ! k" if "k < n" for k
    using p(2) L(2) that unfolding n_def [symmetric] by (metis nth_take)
  ultimately have "accept_entries L n es ! k = log_list l ! k" if "k < n + length es" for k
    using that by (metis add_diff_inverse_nat nat_add_left_cancel_less)
  then show ?thesis
    unfolding n_def [symmetric] es_def [symmetric]
    using p(1) len by (intro nth_equalityI) simp_all
qed

section \<open>Properties\<close>

definition sample_lead :: cetcd_raft where
  "sample_lead = leader_append ((sample_node 1)\<lparr>r_role := ROLE_LEADER, r_term := 1\<rparr>) CETCD_ENTRY_NORMAL [7]"

definition sample_app :: cetcd_msg where
  "sample_app = zero_msg\<lparr>m_type := CETCD_MSG_APP, m_from := 1, m_to := 2, m_term := 1,
     m_entries := [\<lparr>e_term = 1, e_index = 1, e_type = CETCD_ENTRY_NORMAL, e_data = [7]\<rparr>]\<rparr>"

lemma sample_app_segment: "log_segment sample_lead sample_app"
  by code_simp

text \<open>
  C8. An append that passes the consistency check is stored, and stored as the Raft
  paper says: the follower's log becomes \<open>accept_entries\<close> of its old log, so the entries
  up to the previous index stay, every entry of the message is at its place, and the
  array still holds the log. The indices involved must fit the 32-bit capacity of the
  array and the previous entry must not have been compacted away.
\<close>

theorem append_stored:
  assumes "\<not> m_term msg < r_term r" and "prev_matches r msg" and "log_fits r"
    and "r_log_compacted r \<le> m_index msg"
    and "unat (m_index msg) + length (m_entries msg) + 1 < 2 ^ 32"
  shows "log_list (handle_app r msg) = accept_entries (log_list r) (unat (m_index msg)) (m_entries msg) \<and>
    log_fits (handle_app r msg) \<and>
    take (unat (m_index msg)) (log_list (handle_app r msg)) = take (unat (m_index msg)) (log_list r) \<and>
    (\<forall>j < length (m_entries msg). log_list (handle_app r msg) ! (unat (m_index msg) + j) =
       (m_entries msg ! j)\<lparr>e_index := of_nat (Suc (unat (m_index msg) + j))\<rparr>)"
proof -
  have "unat (m_index msg) \<le> length (log_list r)"
    using assms(2) by (auto simp: prev_matches_def word_le_nat_alt)
  then show ?thesis
    using handle_app_refines [OF assms] accept_entries_props by (simp del: of_nat_Suc)
qed

theorem append_stored_witness:
  "log_list (handle_app (sample_node 2) sample_app) = m_entries sample_app"
proof -
  have "log_list (handle_app (sample_node 2) sample_app) =
      accept_entries (log_list (sample_node 2)) (unat (m_index sample_app)) (m_entries sample_app)"
  proof -
    have "\<not> m_term sample_app < r_term (sample_node 2)" by code_simp
    moreover have "prev_matches (sample_node 2) sample_app" by code_simp
    moreover have "log_fits (sample_node 2)" by code_simp
    moreover have "r_log_compacted (sample_node 2) \<le> m_index sample_app" by code_simp
    moreover have "unat (m_index sample_app) + length (m_entries sample_app) + 1 < 2 ^ 32" by (simp add: sample_app_def zero_msg_def)
    ultimately show ?thesis using append_stored [of sample_app "sample_node 2"] by blast
  qed
  also have "\<dots> = m_entries sample_app" by code_simp
  finally show ?thesis .
qed

text \<open>
  An append whose previous entry is missing or has another term is refused: the log
  is untouched and the last message queued is a rejecting response to the sender.
\<close>

theorem append_rejected:
  assumes "\<not> prev_matches r msg"
  shows "log_list (handle_app r msg) = log_list r \<and>
    m_type (last (r_pending_msgs (handle_app r msg))) = CETCD_MSG_APP_RESP \<and>
    m_reject (last (r_pending_msgs (handle_app r msg))) = 1 \<and>
    m_to (last (r_pending_msgs (handle_app r msg))) = m_from msg"
  using handle_app_rejects [OF assms] log_view_cong(1) by blast

theorem append_rejected_witness:
  "\<not> prev_matches (sample_node 2) (sample_app\<lparr>m_index := 4\<rparr>) \<and>
   m_reject (last (r_pending_msgs (handle_app (sample_node 2) (sample_app\<lparr>m_index := 4\<rparr>)))) = 1"
proof -
  have "\<not> prev_matches (sample_node 2) (sample_app\<lparr>m_index := 4\<rparr>)" by code_simp
  then show ?thesis using append_rejected by blast
qed

text \<open>
  C7. Log matching, one replication step: when a leader's append message is a segment of
  its log (which is all \<^verbatim>\<open>maybe_send_app_\<close> sends) and a follower whose log agrees with the
  leader's up to the previous index accepts it, the follower's log agrees with the
  leader's up to the last entry sent.
\<close>

theorem replication_extends_match:
  assumes "log_segment l m" and "log_indexed (log_list l)"
    and "\<not> m_term m < r_term r" and "prev_matches r m" and "log_fits r"
    and "r_log_compacted r \<le> m_index m"
    and "unat (m_index m) + length (m_entries m) + 1 < 2 ^ 32"
    and "take (unat (m_index m)) (log_list r) = take (unat (m_index m)) (log_list l)"
  shows "take (unat (m_index m) + length (m_entries m)) (log_list (handle_app r m)) =
         take (unat (m_index m) + length (m_entries m)) (log_list l)"
proof -
  have "unat (m_index m) \<le> length (log_list r)"
    using assms(4) by (auto simp: prev_matches_def word_le_nat_alt)
  then show ?thesis
    using accept_segment_matches [OF assms(1,2,7) _ assms(8)] handle_app_refines(1) [OF assms(3-7)] by simp
qed

theorem replication_extends_match_witness:
  "take 1 (log_list (handle_app (sample_node 2) sample_app)) = take 1 (log_list sample_lead)"
proof -
  have "log_indexed (log_list sample_lead)" by code_simp
  moreover have "\<not> m_term sample_app < r_term (sample_node 2)" by code_simp
  moreover have "prev_matches (sample_node 2) sample_app" by code_simp
  moreover have "log_fits (sample_node 2)" by code_simp
  moreover have "r_log_compacted (sample_node 2) \<le> m_index sample_app" by code_simp
  moreover have "unat (m_index sample_app) + length (m_entries sample_app) + 1 < 2 ^ 32" by (simp add: sample_app_def zero_msg_def)
  moreover have "take (unat (m_index sample_app)) (log_list (sample_node 2)) =
      take (unat (m_index sample_app)) (log_list sample_lead)" by code_simp
  moreover have "unat (m_index sample_app) + length (m_entries sample_app) = 1" by code_simp
  ultimately show ?thesis
    using replication_extends_match [OF sample_app_segment, of "sample_node 2"] by simp
qed

text \<open>
  What a leader sends a follower: \<^verbatim>\<open>maybe_send_app_\<close> queues at most one message, for
  that follower, and it is a snapshot message or an append message that describes a
  segment of the leader's log: one to 256 consecutive entries starting above the
  compacted index, with the term of the entry before them.
\<close>

theorem leader_sends_segment:
  "r_pending_msgs (maybe_send_app r i) = r_pending_msgs r \<or>
   (\<exists>m. r_pending_msgs (maybe_send_app r i) = r_pending_msgs r @ [m] \<and> m_to m = r_peers r ! i \<and>
      (m_type m = CETCD_MSG_SNAP \<or> m_type m = CETCD_MSG_APP \<and> log_segment r m))"
proof -
  obtain M where M: "r_pending_msgs (maybe_send_app r i) = r_pending_msgs r @ M"
    "\<forall>m \<in> set M. m_type m = CETCD_MSG_SNAP \<or> m_type m = CETCD_MSG_APP \<and> log_segment r m"
    using sends_msgs [OF maybe_send_app_segment] .
  have q: "r_pending_msgs (set_progress (queue_msg r m) j f) = r_pending_msgs r @ [m]" for m j f
    by (simp add: set_progress_def queue_msg_def)
  have snap: "r_pending_msgs (maybe_send_snap r i) = r_pending_msgs r \<or>
     (\<exists>m. r_pending_msgs (maybe_send_snap r i) = r_pending_msgs r @ [m] \<and> m_to m = r_peers r ! i)"
    by (auto simp: maybe_send_snap_def Let_def q)
  have "r_pending_msgs (maybe_send_app r i) = r_pending_msgs r \<or>
     (\<exists>m. r_pending_msgs (maybe_send_app r i) = r_pending_msgs r @ [m] \<and> m_to m = r_peers r ! i)"
    unfolding maybe_send_app_def Let_def using snap by (auto simp: q split: option.split)
  with M show ?thesis by auto
qed

text \<open>
  A proposal: a node that does not lead refuses it and does not change; a leader
  appends exactly one entry of its own term behind its log and changes nothing before it.
\<close>

theorem propose_appends:
  assumes "log_fits r" and "unat (r_log_last_index r) + 2 < 2 ^ 32"
  shows "cetcd_raft_propose r data =
      (if r_role r = ROLE_LEADER then (0, leader_append r CETCD_ENTRY_NORMAL data) else (- 1, r)) \<and>
    log_list (leader_append r CETCD_ENTRY_NORMAL data) =
      log_list r @ [\<lparr>e_term = r_term r, e_index = r_log_last_index r + 1,
                     e_type = CETCD_ENTRY_NORMAL, e_data = data\<rparr>] \<and>
    log_fits (leader_append r CETCD_ENTRY_NORMAL data)"
proof -
  have "cetcd_raft_propose r data =
      (if r_role r = ROLE_LEADER then (0, leader_append r CETCD_ENTRY_NORMAL data) else (- 1, r))"
    by (simp add: cetcd_raft_propose_def cetcd_raft_step_def zero_msg_def)
  then show ?thesis using leader_append_refines [OF assms] by blast
qed

theorem propose_appends_witness:
  "log_list (snd (cetcd_raft_propose sample_lead [9])) =
   log_list sample_lead @ [\<lparr>e_term = 1, e_index = 2, e_type = CETCD_ENTRY_NORMAL, e_data = [9]\<rparr>]"
proof -
  have "r_role sample_lead = ROLE_LEADER" by code_simp
  moreover have "r_term sample_lead = 1" by code_simp
  moreover have l: "r_log_last_index sample_lead = 1" by code_simp
  moreover have "log_fits sample_lead" by code_simp
  moreover have "unat (r_log_last_index sample_lead) + 2 < 2 ^ 32" by (simp add: l)
  ultimately show ?thesis using propose_appends [of sample_lead "[9]"] by simp
qed

end
