(* ===== verification/Raft_Findings.thy ===== *)
theory Raft_Findings
  imports Raft_Safety Raft_Replication
begin

text \<open>
  Runs of the model in which the node's code departs from the Raft protocol. Each is a
  closed execution of the functions of \<^verbatim>\<open>src/raft/raft.c\<close>.
\<close>

definition prop_msg :: "bytes \<Rightarrow> cetcd_msg" where
  "prop_msg d = zero_msg\<lparr>m_type := CETCD_MSG_PROP, m_context := d\<rparr>"

definition beat :: cetcd_msg where "beat = zero_msg\<lparr>m_type := CETCD_MSG_BEAT\<rparr>"

definition entry_of :: "u64 \<Rightarrow> u64 \<Rightarrow> bytes \<Rightarrow> cetcd_entry" where
  "entry_of t i d = \<lparr>e_term = t, e_index = i, e_type = CETCD_ENTRY_NORMAL, e_data = d\<rparr>"

definition app_msg :: "u64 \<Rightarrow> u64 \<Rightarrow> u64 \<Rightarrow> cetcd_entry list \<Rightarrow> cetcd_msg" where
  "app_msg i j t es = zero_msg\<lparr>m_type := CETCD_MSG_APP, m_from := i, m_to := j, m_term := t, m_entries := es\<rparr>"

definition app_ack :: "u64 \<Rightarrow> u64 \<Rightarrow> u64 \<Rightarrow> u64 \<Rightarrow> cetcd_msg" where
  "app_ack i j t idx = zero_msg\<lparr>m_type := CETCD_MSG_APP_RESP, m_from := i, m_to := j, m_term := t, m_index := idx\<rparr>"

definition heartbeat :: "u64 \<Rightarrow> u64 \<Rightarrow> u64 \<Rightarrow> u64 \<Rightarrow> cetcd_msg" where
  "heartbeat i j t c = zero_msg\<lparr>m_type := CETCD_MSG_HEARTBEAT, m_from := i, m_to := j, m_term := t, m_commit := c\<rparr>"

text \<open>
  Three nodes and messages that have been sent in some reachable state. Each rule is a
  step of one node followed by its Ready.
\<close>

definition drained :: "cetcd_raft \<Rightarrow> cetcd_raft" where
  "drained r = snd (snd (process_ready None [] r))"

definition at_state :: "(u64 \<Rightarrow> cetcd_raft option) \<Rightarrow> cetcd_msg set \<Rightarrow> bool" where
  "at_state N M \<longleftrightarrow> (\<exists>s. cluster_reach True sample_boot s \<and> c_nodes s = N \<and> M \<subseteq> c_net s)"

definition input_ok :: "cetcd_msg set \<Rightarrow> u64 \<Rightarrow> cetcd_raft \<Rightarrow> cetcd_msg \<Rightarrow> bool" where
  "input_ok M i r m \<longleftrightarrow> r_term r \<noteq> - 1 \<and>
     (m_type m \<in> {CETCD_MSG_HUP, CETCD_MSG_PROP, CETCD_MSG_BEAT, CETCD_MSG_TRANSFER_LEADER} \<or>
      m \<in> M \<and> m_to m = i \<and> on_time r m)"

definition turn :: "cetcd_raft \<Rightarrow> cetcd_msg \<Rightarrow> cetcd_raft" where
  "turn r m = drained (snd (cetcd_raft_step r m))"

definition sent :: "cetcd_raft \<Rightarrow> cetcd_msg \<Rightarrow> cetcd_msg list" where
  "sent r m = r_pending_msgs (snd (cetcd_raft_step r m))"

lemma process_ready_drained: "\<exists>w. process_ready None ws r = (w, r_pending_msgs r, drained r)"
  by (auto simp: drained_def process_ready_def cetcd_raft_ready_def)

lemma at_state_turn:
  assumes "at_state N M" and n: "N i = Some r" and ok: "input_ok M i r m"
  shows "at_state (N(i \<mapsto> turn r m)) (M \<union> set (sent r m))"
proof -
  from assms(1) obtain s where s: "cluster_reach True sample_boot s" "c_nodes s = N" "M \<subseteq> c_net s"
    by (auto simp: at_state_def)
  have ns: "c_nodes s i = Some r" by (simp add: s n)
  define s1 where "s1 = set_node s i (snd (cetcd_raft_step r m))"
  have "cluster_step True sample_boot s s1"
  proof (cases "m \<in> M \<and> m_to m = i \<and> on_time r m")
    case True
    then show ?thesis
      unfolding s1_def using ok s(3) by (intro cluster_step.deliver [OF ns]) (auto simp: input_ok_def)
  next
    case False
    then show ?thesis
      unfolding s1_def using ok by (intro cluster_step.local [OF ns]) (auto simp: input_ok_def)
  qed
  with s(1) have r1: "cluster_reach True sample_boot s1" by (rule cluster_reach.step)
  have n1: "c_nodes s1 i = Some (snd (cetcd_raft_step r m))" by (simp add: s1_def set_node_def)
  obtain w where w: "process_ready None (c_wal s1 i) (snd (cetcd_raft_step r m)) = (w, sent r m, turn r m)"
    using process_ready_drained by (auto simp: sent_def turn_def)
  define s2 where "s2 = (set_node s1 i (turn r m))\<lparr>c_wal := (c_wal s1)(i := w), c_net := c_net s1 \<union> set (sent r m)\<rparr>"
  have "cluster_reach True sample_boot s2"
    unfolding s2_def by (rule cluster_reach.step [OF r1 cluster_step.ready [OF n1 w]])
  moreover have "c_nodes s2 = N(i \<mapsto> turn r m)" "M \<union> set (sent r m) \<subseteq> c_net s2"
    using s by (auto simp: s2_def s1_def set_node_def)
  ultimately show ?thesis by (auto simp: at_state_def)
qed

lemma at_state_init: "at_state sample_boot {}"
  unfolding at_state_def using cluster_reach.init [of True sample_boot] by force

definition a1 where "a1 = turn (sample_node 1) hup"
definition b1 where "b1 = turn (sample_node 2) (vote_req 1 2 1)"
definition a2 where "a2 = turn a1 (vote_ack 2 1 1)"
definition a3 where "a3 = turn a2 (prop_msg [1])"
definition b2 where "b2 = turn b1 hup"
definition c1 where "c1 = turn (sample_node 3) (vote_req 2 3 2)"
definition b3 where "b3 = turn b2 (vote_ack 3 2 2)"
definition b4 where "b4 = turn b3 (prop_msg [2])"
definition c2 where "c2 = turn c1 (app_msg 2 3 2 [entry_of 2 1 [2]])"
definition b5 where "b5 = turn b4 (app_ack 3 2 2 1)"
definition b6 where "b6 = turn b5 beat"
definition a4 where "a4 = turn a3 (heartbeat 2 1 2 1)"

lemma at_state_send:
  assumes "at_state N M" and "N i = Some r" and "input_ok M i r m" and "x \<in> set (sent r m)"
  shows "at_state (N(i \<mapsto> turn r m)) (insert x M)"
  using at_state_turn [OF assms(1-3)] assms(4) by (auto simp: at_state_def)

lemma at_state_quiet:
  assumes "at_state N M" and "N i = Some r" and "input_ok M i r m"
  shows "at_state (N(i \<mapsto> turn r m)) M"
  using at_state_turn [OF assms] by (auto simp: at_state_def)

lemma run_sent:
  "vote_req 1 2 1 \<in> set (sent (sample_node 1) hup)"
  "vote_ack 2 1 1 \<in> set (sent (sample_node 2) (vote_req 1 2 1))"
  "vote_req 2 3 2 \<in> set (sent b1 hup)"
  "vote_ack 3 2 2 \<in> set (sent (sample_node 3) (vote_req 2 3 2))"
  "app_msg 2 3 2 [entry_of 2 1 [2]] \<in> set (sent b3 (prop_msg [2]))"
  "app_ack 3 2 2 1 \<in> set (sent c1 (app_msg 2 3 2 [entry_of 2 1 [2]]))"
  "heartbeat 2 1 2 1 \<in> set (sent b5 beat)"
  by code_simp+

lemma run_terms:
  "r_term (sample_node 1) = 0" "r_term (sample_node 2) = 0" "r_term (sample_node 3) = 0"
  "r_term a1 = 1" "r_term a2 = 1" "r_term a3 = 1" "r_term b1 = 1" "r_term b2 = 2" "r_term b3 = 2"
  "r_term b4 = 2" "r_term b5 = 2" "r_term c1 = 2"
  by code_simp+

lemma run_boot: "sample_boot 1 = Some (sample_node 1)" "sample_boot 2 = Some (sample_node 2)"
  "sample_boot 3 = Some (sample_node 3)"
  by (simp_all add: sample_boot_def)

lemmas run_inputs = input_ok_def on_time_def run_terms hup_def vote_req_def vote_ack_def prop_msg_def
  app_msg_def app_ack_def beat_def heartbeat_def zero_msg_def

lemma diverge_state:
  "\<exists>s. cluster_reach True sample_boot s \<and> c_nodes s 1 = Some a4 \<and> c_nodes s 2 = Some b6"
proof -
  have 1: "at_state (sample_boot(1 \<mapsto> a1)) {vote_req 1 2 1}"
    unfolding a1_def by (rule at_state_send [OF at_state_init _ _ run_sent(1)]) (simp_all add: run_boot run_inputs)
  have 2: "at_state (sample_boot(1 \<mapsto> a1, 2 \<mapsto> b1)) {vote_ack 2 1 1, vote_req 1 2 1}"
    unfolding b1_def by (rule at_state_send [OF 1 _ _ run_sent(2)]) (simp_all add: run_boot run_inputs)
  have 3: "at_state (sample_boot(1 \<mapsto> a1, 2 \<mapsto> b1, 1 \<mapsto> a2)) {vote_ack 2 1 1, vote_req 1 2 1}"
    unfolding a2_def by (rule at_state_quiet [OF 2]) (simp_all add: run_boot run_inputs)
  have 4: "at_state (sample_boot(1 \<mapsto> a1, 2 \<mapsto> b1, 1 \<mapsto> a2, 1 \<mapsto> a3)) {vote_ack 2 1 1, vote_req 1 2 1}"
    unfolding a3_def by (rule at_state_quiet [OF 3]) (simp_all add: run_boot run_inputs)
  have 5: "at_state (sample_boot(1 \<mapsto> a1, 2 \<mapsto> b1, 1 \<mapsto> a2, 1 \<mapsto> a3, 2 \<mapsto> b2)) {vote_req 2 3 2, vote_ack 2 1 1, vote_req 1 2 1}"
    unfolding b2_def by (rule at_state_send [OF 4 _ _ run_sent(3)]) (simp_all add: run_boot run_inputs)
  have 6: "at_state (sample_boot(1 \<mapsto> a1, 2 \<mapsto> b1, 1 \<mapsto> a2, 1 \<mapsto> a3, 2 \<mapsto> b2, 3 \<mapsto> c1)) {vote_ack 3 2 2, vote_req 2 3 2, vote_ack 2 1 1, vote_req 1 2 1}"
    unfolding c1_def by (rule at_state_send [OF 5 _ _ run_sent(4)]) (simp_all add: run_boot run_inputs)
  have 7: "at_state (sample_boot(1 \<mapsto> a1, 2 \<mapsto> b1, 1 \<mapsto> a2, 1 \<mapsto> a3, 2 \<mapsto> b2, 3 \<mapsto> c1, 2 \<mapsto> b3)) {vote_ack 3 2 2, vote_req 2 3 2, vote_ack 2 1 1, vote_req 1 2 1}"
    unfolding b3_def by (rule at_state_quiet [OF 6]) (simp_all add: run_boot run_inputs)
  have 8: "at_state (sample_boot(1 \<mapsto> a1, 2 \<mapsto> b1, 1 \<mapsto> a2, 1 \<mapsto> a3, 2 \<mapsto> b2, 3 \<mapsto> c1, 2 \<mapsto> b3, 2 \<mapsto> b4)) {app_msg 2 3 2 [entry_of 2 1 [2]], vote_ack 3 2 2, vote_req 2 3 2, vote_ack 2 1 1, vote_req 1 2 1}"
    unfolding b4_def by (rule at_state_send [OF 7 _ _ run_sent(5)]) (simp_all add: run_boot run_inputs)
  have 9: "at_state (sample_boot(1 \<mapsto> a1, 2 \<mapsto> b1, 1 \<mapsto> a2, 1 \<mapsto> a3, 2 \<mapsto> b2, 3 \<mapsto> c1, 2 \<mapsto> b3, 2 \<mapsto> b4, 3 \<mapsto> c2)) {app_ack 3 2 2 1, app_msg 2 3 2 [entry_of 2 1 [2]], vote_ack 3 2 2, vote_req 2 3 2, vote_ack 2 1 1, vote_req 1 2 1}"
    unfolding c2_def by (rule at_state_send [OF 8 _ _ run_sent(6)]) (simp_all add: run_boot run_inputs)
  have 10: "at_state (sample_boot(1 \<mapsto> a1, 2 \<mapsto> b1, 1 \<mapsto> a2, 1 \<mapsto> a3, 2 \<mapsto> b2, 3 \<mapsto> c1, 2 \<mapsto> b3, 2 \<mapsto> b4, 3 \<mapsto> c2, 2 \<mapsto> b5)) {app_ack 3 2 2 1, app_msg 2 3 2 [entry_of 2 1 [2]], vote_ack 3 2 2, vote_req 2 3 2, vote_ack 2 1 1, vote_req 1 2 1}"
    unfolding b5_def by (rule at_state_quiet [OF 9]) (simp_all add: run_boot run_inputs)
  have 11: "at_state (sample_boot(1 \<mapsto> a1, 2 \<mapsto> b1, 1 \<mapsto> a2, 1 \<mapsto> a3, 2 \<mapsto> b2, 3 \<mapsto> c1, 2 \<mapsto> b3, 2 \<mapsto> b4, 3 \<mapsto> c2, 2 \<mapsto> b5, 2 \<mapsto> b6)) {heartbeat 2 1 2 1, app_ack 3 2 2 1, app_msg 2 3 2 [entry_of 2 1 [2]], vote_ack 3 2 2, vote_req 2 3 2, vote_ack 2 1 1, vote_req 1 2 1}"
    unfolding b6_def by (rule at_state_send [OF 10 _ _ run_sent(7)]) (simp_all add: run_boot run_inputs)
  have 12: "at_state (sample_boot(1 \<mapsto> a1, 2 \<mapsto> b1, 1 \<mapsto> a2, 1 \<mapsto> a3, 2 \<mapsto> b2, 3 \<mapsto> c1, 2 \<mapsto> b3, 2 \<mapsto> b4, 3 \<mapsto> c2, 2 \<mapsto> b5, 2 \<mapsto> b6, 1 \<mapsto> a4)) {heartbeat 2 1 2 1, app_ack 3 2 2 1, app_msg 2 3 2 [entry_of 2 1 [2]], vote_ack 3 2 2, vote_req 2 3 2, vote_ack 2 1 1, vote_req 1 2 1}"
    unfolding a4_def by (rule at_state_quiet [OF 11]) (simp_all add: run_boot run_inputs)
  then show ?thesis by (auto simp: at_state_def)
qed

definition committed_entry :: "cluster \<Rightarrow> u64 \<Rightarrow> u64 \<Rightarrow> cetcd_entry option" where
  "committed_entry s i idx =
     (case c_nodes s i of None \<Rightarrow> None
      | Some r \<Rightarrow> if idx \<le> r_commit r then log_at r idx else None)"

text \<open>
  C9. A heartbeat carries the leader's commit index whatever the receiver is known to
  hold, and \<^verbatim>\<open>handle_heartbeat_\<close> commits up to the end of the receiver's own log. In a
  three-node cluster, with no crash and no late vote response, node 1 commits an entry
  of term 1 at index 1 while node 2 has committed another one there.
\<close>

theorem heartbeat_commits_divergent:
  "\<exists>s. cluster_reach True sample_boot s \<and>
     committed_entry s 1 1 = Some (entry_of 1 1 [1]) \<and> committed_entry s 2 1 = Some (entry_of 2 1 [2])"
proof -
  obtain s where s: "cluster_reach True sample_boot s" "c_nodes s 1 = Some a4" "c_nodes s 2 = Some b6"
    using diverge_state by blast
  have "r_commit a4 = 1 \<and> log_at a4 1 = Some (entry_of 1 1 [1])" by code_simp
  moreover have "r_commit b6 = 1 \<and> log_at b6 1 = Some (entry_of 2 1 [2])" by code_simp
  ultimately show ?thesis using s by (auto simp: committed_entry_def)
qed

section \<open>Single nodes\<close>

definition first_app :: cetcd_msg where
  "first_app = app_msg 1 2 1 [entry_of 1 1 [5]]"

definition compacted_follower :: cetcd_raft where
  "compacted_follower =
     snd (cetcd_raft_compact
       (snd (cetcd_raft_step (snd (cetcd_raft_step (sample_node 2) first_app))
          ((app_msg 1 2 1 [entry_of 1 2 [6], entry_of 1 3 [7]])\<lparr>m_index := 1, m_log_term := 1, m_commit := 3\<rparr>)))
       3 1)"
text \<open>
  The terms of compacted entries read as 0, so a late copy of the first append, whose
  entries start at index 1, conflicts with a compacted log: \<^verbatim>\<open>handle_app_\<close> then cuts the log
  down below its commit index. Here a follower has stored, committed and compacted three
  entries; the second delivery of the message that brought the first of them leaves it
  with one entry and commit index 3.
\<close>

theorem late_append_truncates:
  "r_commit compacted_follower = 3 \<and> r_log_last_index compacted_follower = 3 \<and>
   r_commit (snd (cetcd_raft_step compacted_follower first_app)) = 3 \<and>
   r_log_last_index (snd (cetcd_raft_step compacted_follower first_app)) = 1"
  by code_simp

definition short_app :: cetcd_msg where
  "short_app = (app_msg 1 2 2 [entry_of 1 1 [5]])"

definition stale_follower :: cetcd_raft where
  "stale_follower = snd (cetcd_raft_step (sample_node 2) (app_msg 3 2 1 [entry_of 1 1 [5], entry_of 1 2 [6]]))"

definition new_leader :: cetcd_raft where
  "new_leader = leader_append ((sample_node 1)\<lparr>r_role := ROLE_LEADER, r_term := 2, r_log_last_index := 1,
     r_log_last_term := 1, r_log := (\<lambda>_. entry_of 1 1 [5])\<rparr>) CETCD_ENTRY_NORMAL [9]"

text \<open>
  The accepting response to an append reports the follower's last index and not the
  last index the message covered. A follower with a leftover second entry of term 1 that
  accepts an append covering index 1 answers 2; the leader, whose own second entry is of
  term 2 and is on no other node, counts it as replicated and commits it.
\<close>

lemma ack_covers_leftover:
  "(let f = snd (cetcd_raft_step stale_follower short_app);
        ack = last (r_pending_msgs f);
        l = snd (cetcd_raft_step new_leader ack)
    in m_index ack = 2 \<and> m_reject ack = 0 \<and> log_term_at f 2 = 1 \<and> log_term_at l 2 = 2 \<and> r_commit l = 2)"
  by code_simp

text \<open>
  Growth of the log array truncates the needed size to 32 bits: a snapshot at index
  \<open>2 ^ 32\<close> installed on an empty log is written to slot \<open>2 ^ 32\<close> of an array that has 64
  slots, and the last index then lies outside the array.
\<close>

lemma log_index_exceeds_array:
  "r_log_cap (snd (cetcd_raft_compact (sample_node 2) 0x100000000 1)) = 64 \<and>
   r_log_last_index (snd (cetcd_raft_compact (sample_node 2) 0x100000000 1)) = 0x100000000"
  by code_simp

definition overwrite_1 :: cetcd_raft where
  "overwrite_1 = snd (cetcd_raft_step (sample_node 2) (app_msg 1 2 1 [entry_of 1 1 [5], entry_of 1 2 [6]]))"

definition overwrite_2 :: cetcd_raft where
  "overwrite_2 = snd (cetcd_raft_step (drained overwrite_1) (app_msg 3 2 2 [entry_of 2 1 [7]]))"

definition overwrite_wal :: "wal_rec list" where
  "overwrite_wal = fst (process_ready None (fst (process_ready None [] overwrite_1)) overwrite_2)"

text \<open>
  Replaying the WAL does not repeat the truncation of conflicting entries, since
  \<^verbatim>\<open>cetcd_raft_restore_entry\<close> only stores: a follower whose two entries of term 1 were
  replaced by one entry of term 2 comes back from a restart with the replaced second
  entry in its log again.
\<close>

theorem replay_revives_entry:
  "r_log_last_index overwrite_2 = 1 \<and>
   r_log_last_index (replay_wal overwrite_wal (sample_node 2)) = 2 \<and>
   log_at (replay_wal overwrite_wal (sample_node 2)) 2 = Some (entry_of 1 2 [6])"
  by code_simp

end
