(* ===== verification/Wire.thy ===== *)
theory Wire
  imports Prelude
begin

text \<open>
  Integers on disk and on the wire. The base-128 varint of protocol buffers is written by
  \<^verbatim>\<open>wbuf_write_varint\<close> (\<^verbatim>\<open>src/wal/encoder.c\<close>) and by \<^verbatim>\<open>wire_u64_\<close>, \<^verbatim>\<open>wire_u32_\<close>
  (\<^verbatim>\<open>src/raft/raft.c\<close>) with the same loop, and read by \<^verbatim>\<open>read_varint\<close> (\<^verbatim>\<open>src/wal/decoder.c\<close>),
  which rejects a value that is cut off or too long, and by \<^verbatim>\<open>dec_u64_\<close>, \<^verbatim>\<open>dec_u32_\<close>, which
  do not. Fixed-width integers are little endian (\<^verbatim>\<open>write_le64_\<close>, \<^verbatim>\<open>read_le64_\<close> of
  \<^verbatim>\<open>src/mvcc/mvcc.c\<close> and \<^verbatim>\<open>src/lease/lease.c\<close>).

  A reader takes the bytes from its position to the end of the buffer and returns the
  bytes behind what it read. A C shift by the width of the type or more, which
  \<^verbatim>\<open>dec_u64_\<close> can make on a malformed value, is undefined; here it gives 0.
\<close>

section \<open>Varints\<close>

function varint :: "'a::len word \<Rightarrow> bytes" where
  "varint v =
     (let b = ucast (v AND 0x7F) :: byte; v' = drop_bit 7 v in
      if v' \<noteq> 0 then (b OR 0x80) # varint v' else [b])"
  by auto

lemma unat_drop_bit_less: "drop_bit 7 (v :: 'a::len word) \<noteq> 0 \<Longrightarrow> unat (drop_bit 7 v) < unat v"
proof -
  assume "drop_bit 7 v \<noteq> 0"
  then have "v \<noteq> 0" by auto
  then have "0 < unat v" using unat_eq_0 by fastforce
  moreover have "unat (drop_bit 7 v) = unat v div 128"
    by (simp only: unat_drop_bit_eq drop_bit_nat_def) simp
  ultimately show ?thesis by simp
qed

termination varint
  by (relation "measure unat") (auto simp: unat_drop_bit_less)

declare varint.simps [simp del]

fun read_varint_loop :: "u64 \<Rightarrow> nat \<Rightarrow> bytes \<Rightarrow> (u64 \<times> bytes) option" where
  "read_varint_loop v shift [] = None"
| "read_varint_loop v shift (b # bs) =
     (if shift \<ge> 64 then None
      else let v' = v OR push_bit shift (ucast (b AND 0x7F)) in
        if b AND 0x80 = 0 then Some (v', bs) else read_varint_loop v' (shift + 7) bs)"

definition read_varint :: "bytes \<Rightarrow> (u64 \<times> bytes) option" where
  "read_varint bs = read_varint_loop 0 0 bs"

text \<open>The loop of \<^verbatim>\<open>dec_u64_\<close> and \<^verbatim>\<open>dec_u32_\<close>, at the width of the result.\<close>

fun dec_loop :: "'a::len word \<Rightarrow> nat \<Rightarrow> bytes \<Rightarrow> 'a word \<times> bytes" where
  "dec_loop val shift [] = (val, [])"
| "dec_loop val shift (b # bs) =
     (let val' = val OR push_bit shift (ucast (b AND 0x7F)) in
      if b AND 0x80 = 0 then (val', bs) else dec_loop val' (shift + 7) bs)"

definition wire_u64 :: "u64 \<Rightarrow> bytes" where "wire_u64 val = varint val"
definition wire_u32 :: "u32 \<Rightarrow> bytes" where "wire_u32 val = varint val"
definition dec_u64 :: "bytes \<Rightarrow> u64 \<times> bytes" where "dec_u64 bs = dec_loop 0 0 bs"
definition dec_u32 :: "bytes \<Rightarrow> u32 \<times> bytes" where "dec_u32 bs = dec_loop 0 0 bs"

lemma bit_0x80: "bit (0x80 :: int) n \<longleftrightarrow> n = 7"
  using bit_exp_iff [of 7 n, where 'a = int] by auto

lemma bit_0x7F: "bit (0x7F :: int) n \<longleftrightarrow> n < 7"
  using bit_mask_iff [of 7 n, where 'a = int] by (simp add: mask_eq_exp_minus_1)

lemma low_byte_bits:
  "((ucast (v AND 0x7F) :: byte) OR 0x80) AND 0x7F = ucast (v AND 0x7F)"
  "((ucast (v AND 0x7F) :: byte) OR 0x80) AND 0x80 \<noteq> 0"
  "(ucast (v AND 0x7F) :: byte) AND 0x7F = ucast (v AND 0x7F)"
  "(ucast (v AND 0x7F) :: byte) AND 0x80 = 0"
proof -
  show "((ucast (v AND 0x7F) :: byte) OR 0x80) AND 0x7F = ucast (v AND 0x7F)"
    by (rule bit_word_eqI) (auto simp: bit_simps bit_0x80 bit_0x7F)
  show "(ucast (v AND 0x7F) :: byte) AND 0x7F = ucast (v AND 0x7F)"
    by (rule bit_word_eqI) (auto simp: bit_simps bit_0x80 bit_0x7F)
  show "(ucast (v AND 0x7F) :: byte) AND 0x80 = 0"
    by (rule bit_word_eqI) (auto simp: bit_simps bit_0x80 bit_0x7F)
  have "bit (((ucast (v AND 0x7F) :: byte) OR 0x80) AND 0x80) 7"
    by (simp add: bit_simps bit_0x80)
  then show "((ucast (v AND 0x7F) :: byte) OR 0x80) AND 0x80 \<noteq> 0" by auto
qed

lemma low_bits_back: "ucast (ucast (v AND 0x7F) :: byte) = (v AND 0x7F :: 'a::len word)"
  by (rule bit_word_eqI) (auto simp: bit_simps bit_0x7F)

lemma push_split:
  "push_bit s (v AND 0x7F) OR push_bit (s + 7) (drop_bit 7 v) = push_bit s (v :: 'a::len word)"
proof (rule bit_word_eqI)
  fix n
  assume "n < LENGTH('a)"
  moreover have "s + 7 \<le> n \<Longrightarrow> 7 + (n - (s + 7)) = n - s" by simp
  ultimately show "bit (push_bit s (v AND 0x7F) OR push_bit (s + 7) (drop_bit 7 v)) n = bit (push_bit s v) n"
    by (cases "s + 7 \<le> n") (auto simp: bit_simps bit_0x7F)
qed

text \<open>A value of at most \<open>n\<close> bits.\<close>

definition fits :: "nat \<Rightarrow> 'a::len word \<Rightarrow> bool" where
  "fits n v \<longleftrightarrow> drop_bit n v = 0"

lemma fits_mono: "fits m v \<Longrightarrow> m \<le> n \<Longrightarrow> fits n v"
proof -
  assume "fits m v" "m \<le> n"
  then have "drop_bit n v = drop_bit (n - m) (drop_bit m v)" by (simp add: drop_bit_drop_bit)
  with \<open>fits m v\<close> show "fits n v" by (simp add: fits_def)
qed

lemma fits_drop: "fits n v \<Longrightarrow> fits (n - 7) (drop_bit 7 v)"
  using fits_mono [of n v "n - 7 + 7"] by (simp add: fits_def drop_bit_drop_bit)

lemma fits_width: "LENGTH('a) \<le> n \<Longrightarrow> fits n (v :: 'a::len word)"
  unfolding fits_def by (rule bit_word_eqI) (auto simp: bit_simps dest: bit_imp_le_length)

lemma varint_last:
  assumes "drop_bit 7 w = 0"
  shows "varint w = [ucast w]" and "(ucast w :: byte) AND 0x80 = 0" and "ucast ((ucast w :: byte) AND 0x7F) = w"
proof -
  have "w AND 0x7F = w" using push_split [of 0 w] assms by simp
  then show "varint w = [ucast w]" "(ucast w :: byte) AND 0x80 = 0" "ucast ((ucast w :: byte) AND 0x7F) = w"
    using assms low_byte_bits(3,4) [of w] low_bits_back [of w] by (auto simp: varint.simps [of w] Let_def)
qed

lemma varint_more:
  assumes "drop_bit 7 w \<noteq> 0"
  obtains b :: byte where "varint w = b # varint (drop_bit 7 w)" and "b AND 0x80 \<noteq> 0"
    and "ucast (b AND 0x7F) = w AND 0x7F"
proof
  show "varint w = (ucast (w AND 0x7F) OR 0x80) # varint (drop_bit 7 w)"
    using assms by (simp add: varint.simps [of w] Let_def)
  show "(ucast (w AND 0x7F) OR 0x80 :: byte) AND 0x80 \<noteq> 0" by (rule low_byte_bits)
  show "ucast ((ucast (w AND 0x7F) OR 0x80 :: byte) AND 0x7F) = w AND 0x7F"
    by (simp only: low_byte_bits(1) low_bits_back)
qed

lemma read_varint_loop_varint:
  "s < 64 \<Longrightarrow> fits (64 - s) w \<Longrightarrow>
   read_varint_loop v s (varint w @ rest) = Some (v OR push_bit s w, rest)"
proof (induction w arbitrary: v s rule: varint.induct)
  case (1 w)
  show ?case
  proof (cases "drop_bit 7 w = 0")
    case True
    with 1 show ?thesis by (simp add: varint_last Let_def)
  next
    case False
    obtain b :: byte where b: "varint w = b # varint (drop_bit 7 w)" "b AND 0x80 \<noteq> 0"
      "ucast (b AND 0x7F) = w AND 0x7F" using False by (rule varint_more)
    have "s + 7 < 64"
    proof (rule ccontr)
      assume "\<not> s + 7 < 64"
      then have "fits 7 w" using fits_mono [OF 1(3), of 7] by simp
      with False show False by (simp add: fits_def)
    qed
    moreover have "fits (64 - (s + 7)) (drop_bit 7 w)" using fits_drop [OF 1(3)] by simp
    ultimately show ?thesis
      using 1(1) [OF refl refl False, of "s + 7"] 1(2) b push_split [of s w]
      by (simp add: Let_def or.assoc)
  qed
qed

lemma dec_loop_varint: "dec_loop v s (varint w @ rest) = (v OR push_bit s w, rest)"
proof (induction w arbitrary: v s rule: varint.induct)
  case (1 w)
  show ?case
  proof (cases "drop_bit 7 w = 0")
    case True
    then show ?thesis by (simp add: varint_last Let_def)
  next
    case False
    obtain b :: byte where b: "varint w = b # varint (drop_bit 7 w)" "b AND 0x80 \<noteq> 0"
      "ucast (b AND 0x7F) = w AND 0x7F" using False by (rule varint_more)
    then show ?thesis
      using 1 [OF refl refl False, of _ "s + 7"] push_split [of s w]
      by (simp add: Let_def or.assoc)
  qed
qed

lemma read_varint_varint [codec_simps]: "read_varint (varint w @ rest) = Some (w, rest)"
  using read_varint_loop_varint [of 0 w 0 rest] fits_width [of 64 w] by (simp add: read_varint_def)

lemma dec_wire [codec_simps]:
  "dec_u64 (wire_u64 v @ rest) = (v, rest)" "dec_u32 (wire_u32 w @ rest) = (w, rest)"
  by (simp_all add: dec_u64_def wire_u64_def dec_u32_def wire_u32_def dec_loop_varint)

lemma varint_small: "unat w < 128 \<Longrightarrow> varint w = [ucast w]"
proof -
  assume "unat w < 128"
  then have "unat (drop_bit 7 w) = 0" by (simp only: unat_drop_bit_eq drop_bit_nat_def) simp
  then show ?thesis using varint_last(1) [of w] by (simp only: unat_eq_0)
qed

lemma length_varint: "fits (7 * Suc k) w \<Longrightarrow> length (varint w) \<le> Suc k"
proof (induction k arbitrary: w)
  case 0
  then show ?case by (simp add: fits_def varint_last(1))
next
  case (Suc k)
  show ?case
  proof (cases "drop_bit 7 w = 0")
    case True
    then show ?thesis by (simp add: varint_last(1))
  next
    case False
    then obtain b :: byte where "varint w = b # varint (drop_bit 7 w)" by (rule varint_more)
    moreover have "length (varint (drop_bit 7 w)) \<le> Suc k"
      by (rule Suc.IH) (use fits_drop [OF Suc.prems] in simp)
    ultimately show ?thesis by simp
  qed
qed

lemma length_varint_u64: "length (varint (v :: u64)) \<le> 10"
  using length_varint [of 9 v] fits_width [of 70 v] by simp

lemma length_varint_u32: "length (varint (v :: u32)) \<le> 5"
  using length_varint [of 4 v] fits_width [of 35 v] by simp

lemma ucast_u32 [simp]: "ucast (ucast (x :: u32) :: u64) = x"
  by (rule bit_word_eqI) (auto simp: bit_simps)

section \<open>Little-endian integers\<close>

definition write_le64 :: "u64 \<Rightarrow> bytes" where
  "write_le64 v = [ucast v, ucast (drop_bit 8 v), ucast (drop_bit 16 v), ucast (drop_bit 24 v),
     ucast (drop_bit 32 v), ucast (drop_bit 40 v), ucast (drop_bit 48 v), ucast (drop_bit 56 v)]"

definition read_le64 :: "bytes \<Rightarrow> u64" where
  "read_le64 p = ucast (p ! 0) OR push_bit 8 (ucast (p ! 1)) OR push_bit 16 (ucast (p ! 2))
     OR push_bit 24 (ucast (p ! 3)) OR push_bit 32 (ucast (p ! 4)) OR push_bit 40 (ucast (p ! 5))
     OR push_bit 48 (ucast (p ! 6)) OR push_bit 56 (ucast (p ! 7))"

lemma length_write_le64 [simp]: "length (write_le64 v) = 8"
  by (simp add: write_le64_def)

lemma le_join:
  "push_bit s (ucast (ucast (drop_bit s v) :: byte)) OR push_bit (s + 8) (drop_bit (s + 8) v) =
     push_bit s (drop_bit s (v :: u64))"
proof (rule bit_word_eqI)
  fix n
  assume "n < LENGTH(64)"
  then show "bit (push_bit s (ucast (ucast (drop_bit s v) :: byte)) OR push_bit (s + 8) (drop_bit (s + 8) v)) n
      = bit (push_bit s (drop_bit s v)) n"
    by (cases "s + 8 \<le> n") (auto simp: bit_simps)
qed

lemma read_write_le64 [simp, codec_simps]: "read_le64 (write_le64 v @ rest) = v"
proof -
  have "drop_bit 64 v = 0" using fits_width [of 64 v] by (simp add: fits_def)
  then show ?thesis
    using le_join [of 0 v] le_join [of 8 v] le_join [of 16 v] le_join [of 24 v] le_join [of 32 v]
      le_join [of 40 v] le_join [of 48 v] le_join [of 56 v]
    by (simp add: read_le64_def write_le64_def or.assoc)
qed

lemma read_write_le64_exact [simp]: "read_le64 (write_le64 v) = v"
  using read_write_le64 [of v "[]"] by simp

end
