(* ===== verification/Checksum.thy ===== *)
theory Checksum
  imports Prelude
begin

text \<open>
  Hash and checksum routines: FNV-1a and the table-driven CRC-32C of
  \<^verbatim>\<open>src/base/hash.c\<close>, and the bitwise CRC-32C that \<^verbatim>\<open>src/wal/encoder.c\<close> and
  \<^verbatim>\<open>src/wal/decoder.c\<close> carry. The lazily built table is the function
  \<open>crc32c_table\<close> of its index.
\<close>

definition CETCD_FNV1A64_OFFSET :: u64 where
  "CETCD_FNV1A64_OFFSET = 0xcbf29ce484222325"

definition CETCD_FNV1A64_PRIME :: u64 where
  "CETCD_FNV1A64_PRIME = 0x100000001b3"

fun fnv1a64_loop :: "u64 \<Rightarrow> bytes \<Rightarrow> u64" where
  "fnv1a64_loop h [] = h"
| "fnv1a64_loop h (b # p) = fnv1a64_loop ((h XOR ucast b) * CETCD_FNV1A64_PRIME) p"

definition cetcd_hash_fnv1a64_seed :: "bytes \<Rightarrow> u64 \<Rightarrow> u64" where
  "cetcd_hash_fnv1a64_seed data seed =
     fnv1a64_loop (if seed \<noteq> 0 then seed else CETCD_FNV1A64_OFFSET) data"

definition cetcd_hash_fnv1a64 :: "bytes \<Rightarrow> u64" where
  "cetcd_hash_fnv1a64 data = cetcd_hash_fnv1a64_seed data CETCD_FNV1A64_OFFSET"

text \<open>One bit of the reflected division, the body of the inner loop of every variant.\<close>

definition crc_bit :: "u32 \<Rightarrow> u32" where
  "crc_bit c = (if c AND 1 \<noteq> 0 then 0x82F63B78 XOR drop_bit 1 c else drop_bit 1 c)"

definition crc32c_table :: "u32 \<Rightarrow> u32" where
  "crc32c_table i = (crc_bit ^^ 8) i"

fun crc32c_table_loop :: "u32 \<Rightarrow> bytes \<Rightarrow> u32" where
  "crc32c_table_loop c [] = c"
| "crc32c_table_loop c (b # p) =
     crc32c_table_loop (crc32c_table ((c XOR ucast b) AND 0xFF) XOR drop_bit 8 c) p"

definition cetcd_crc32c :: "u32 \<Rightarrow> bytes \<Rightarrow> u32" where
  "cetcd_crc32c crc data = crc32c_table_loop (crc XOR 0xFFFFFFFF) data XOR 0xFFFFFFFF"

fun crc32c_bit_loop :: "u32 \<Rightarrow> bytes \<Rightarrow> u32" where
  "crc32c_bit_loop c [] = c"
| "crc32c_bit_loop c (b # p) = crc32c_bit_loop ((crc_bit ^^ 8) (c XOR ucast b)) p"

definition wal_crc32c :: "u32 \<Rightarrow> bytes \<Rightarrow> u32" where
  "wal_crc32c crc buf = NOT (crc32c_bit_loop (NOT crc) buf)"

section \<open>The table-driven and the bitwise checksum agree\<close>

lemma crc_bit_xor_even:
  assumes "\<not> bit y 0"
  shows "crc_bit (x XOR y) = crc_bit x XOR drop_bit 1 y"
proof -
  from assms have "even y" by (simp add: bit_0)
  then have "(x XOR y) AND 1 \<noteq> 0 \<longleftrightarrow> x AND 1 \<noteq> 0"
    by (simp add: and_one_eq mod2_eq_if even_xor_iff)
  then show ?thesis
    by (simp add: crc_bit_def drop_bit_xor ac_simps)
qed

lemma crc_bits_xor_low_clear:
  assumes "\<forall>i < k. \<not> bit y i"
  shows "(crc_bit ^^ k) (x XOR y) = (crc_bit ^^ k) x XOR drop_bit k y"
  using assms
proof (induction k arbitrary: x y)
  case (Suc k)
  have "(crc_bit ^^ Suc k) (x XOR y) = (crc_bit ^^ k) (crc_bit x XOR drop_bit 1 y)"
    using Suc.prems by (simp add: funpow_Suc_right crc_bit_xor_even del: funpow.simps)
  also have "\<dots> = (crc_bit ^^ k) (crc_bit x) XOR drop_bit k (drop_bit 1 y)"
    by (rule Suc.IH) (use Suc.prems in \<open>auto simp: bit_simps\<close>)
  finally show ?case
    by (simp add: funpow_Suc_right del: funpow.simps)
qed simp

lemma crc_table_step:
  "crc32c_table (x AND 0xFF) XOR drop_bit 8 x = (crc_bit ^^ 8) x"
proof -
  have ff: "(0xFF::u32) = mask 8" by (simp add: mask_eq_exp_minus_1)
  have "x = (x AND 0xFF) XOR (x AND NOT 0xFF)"
    by (rule bit_word_eqI) (auto simp: bit_simps)
  then have "(crc_bit ^^ 8) x = (crc_bit ^^ 8) ((x AND 0xFF) XOR (x AND NOT 0xFF))"
    by simp
  also have "\<dots> = (crc_bit ^^ 8) (x AND 0xFF) XOR drop_bit 8 (x AND NOT 0xFF)"
    by (rule crc_bits_xor_low_clear) (auto simp: ff bit_simps)
  also have "drop_bit 8 (x AND NOT 0xFF) = drop_bit 8 x"
    by (rule bit_word_eqI) (auto simp: ff bit_simps dest: bit_imp_le_length)
  finally show ?thesis by (simp add: crc32c_table_def)
qed

lemma drop_bit_8_byte: "drop_bit 8 (ucast (b::byte) :: u32) = 0"
  by (rule bit_word_eqI) (auto simp: bit_simps dest: bit_imp_le_length)

lemma crc_loops_eq: "crc32c_table_loop c p = crc32c_bit_loop c p"
proof (induction p arbitrary: c)
  case (Cons b p)
  have "crc32c_table ((c XOR ucast b) AND 0xFF) XOR drop_bit 8 c
          = (crc_bit ^^ 8) (c XOR ucast b)"
    using crc_table_step [of "c XOR ucast b"] by (simp add: drop_bit_xor drop_bit_8_byte)
  with Cons.IH show ?case by simp
qed simp

text \<open>
  The table-driven CRC-32C of \<^verbatim>\<open>src/base/hash.c\<close> and the bitwise CRC-32C of the
  write-ahead log compute the same checksum, for every start value and every input.
\<close>

theorem crc32c_agree: "cetcd_crc32c crc data = wal_crc32c crc data"
proof -
  have "(0xFFFFFFFF::u32) = - 1" by simp
  then have ff: "x XOR 0xFFFFFFFF = NOT (x::u32)" for x
    by (metis bit.xor_one_right)
  show ?thesis
    by (simp add: cetcd_crc32c_def wal_crc32c_def crc_loops_eq ff)
qed

section \<open>Detection of a corrupted byte\<close>

lemma bit_crc_bit_31: "bit (crc_bit c) 31 \<longleftrightarrow> bit c 0"
proof -
  have "bit (0x82F63B78::u32) 31" by simp
  moreover have "\<not> bit (drop_bit 1 c) 31"
    by (auto simp: bit_simps dest: bit_imp_le_length)
  moreover have "c AND 1 \<noteq> 0 \<longleftrightarrow> bit c 0"
    by (simp add: and_one_eq mod2_eq_if bit_0)
  ultimately show ?thesis
    by (simp add: crc_bit_def bit_xor_iff)
qed

lemma inj_crc_bit: "inj crc_bit"
proof (rule injI)
  fix x y assume eq: "crc_bit x = crc_bit y"
  then have 0: "bit x 0 = bit y 0" by (metis bit_crc_bit_31)
  have and1: "c AND 1 \<noteq> 0 \<longleftrightarrow> bit c 0" for c :: u32
    by (simp add: and_one_eq mod2_eq_if bit_0)
  from eq 0 have "drop_bit 1 x = drop_bit 1 y"
    by (auto simp: crc_bit_def and1 split: if_splits)
  then have "bit (drop_bit 1 x) n = bit (drop_bit 1 y) n" for n by simp
  then have "bit x (Suc n) = bit y (Suc n)" for n by (simp add: bit_simps)
  with 0 show "x = y"
    by (intro bit_word_eqI) (metis not0_implies_Suc)
qed

lemma inj_crc_byte: "inj (crc_bit ^^ k)"
  by (rule inj_fn) (rule inj_crc_bit)

lemma crc32c_bit_loop_append:
  "crc32c_bit_loop c (p @ q) = crc32c_bit_loop (crc32c_bit_loop c p) q"
  by (induction p arbitrary: c) auto

lemma crc32c_bit_loop_inj: "crc32c_bit_loop c p = crc32c_bit_loop d p \<Longrightarrow> c = d"
proof (induction p arbitrary: c d)
  case (Cons b p)
  then have "(crc_bit ^^ 8) (c XOR ucast b) = (crc_bit ^^ 8) (d XOR ucast b)"
    by simp
  then have "c XOR ucast b = d XOR ucast b"
    by (rule injD [OF inj_crc_byte])
  then show ?case by simp
qed simp

lemma wal_crc32c_one_byte:
  assumes "x \<noteq> y"
  shows "wal_crc32c crc (p @ x # q) \<noteq> wal_crc32c crc (p @ y # q)"
proof
  assume "wal_crc32c crc (p @ x # q) = wal_crc32c crc (p @ y # q)"
  then have "crc32c_bit_loop (NOT crc) (p @ x # q) = crc32c_bit_loop (NOT crc) (p @ y # q)"
    by (simp add: wal_crc32c_def)
  moreover define c where "c = crc32c_bit_loop (NOT crc) p"
  ultimately have "(crc_bit ^^ 8) (c XOR ucast x) = (crc_bit ^^ 8) (c XOR ucast y)"
    by (auto simp: crc32c_bit_loop_append dest: crc32c_bit_loop_inj)
  then have "c XOR ucast x = c XOR ucast y"
    by (rule injD [OF inj_crc_byte])
  with assms show False by simp
qed

end
