(* ===== verification/Wal.thy ===== *)
theory Wal
  imports Raft_Cluster Wire Checksum
begin

text \<open>
  The write-ahead log on disk, \<^verbatim>\<open>src/wal/encoder.c\<close> and \<^verbatim>\<open>src/wal/decoder.c\<close>. A record is a
  protocol-buffer message (type, checksum, data) in a frame: an eight-byte header with
  the length and the padding, the message, and zeros up to a multiple of eight.

  A file is the list of its bytes. The encoder functions return the bytes they append
  when every \<^verbatim>\<open>fwrite\<close> succeeds; a crash or a failed write leaves a prefix of them. The
  decoder functions take the bytes from the current position.
\<close>

section \<open>Records\<close>

datatype cetcd_wal_rec_type =
    CETCD_WAL_METADATA
  | CETCD_WAL_ENTRY
  | CETCD_WAL_STATE
  | CETCD_WAL_CRC
  | CETCD_WAL_SNAPSHOT
  | CETCD_WAL_OTHER u32

fun wal_type_code :: "cetcd_wal_rec_type \<Rightarrow> u32" where
  "wal_type_code CETCD_WAL_METADATA = 1"
| "wal_type_code CETCD_WAL_ENTRY = 2"
| "wal_type_code CETCD_WAL_STATE = 3"
| "wal_type_code CETCD_WAL_CRC = 4"
| "wal_type_code CETCD_WAL_SNAPSHOT = 5"
| "wal_type_code (CETCD_WAL_OTHER c) = c"

definition wal_code_type :: "u32 \<Rightarrow> cetcd_wal_rec_type" where
  "wal_code_type c =
     (if c = 1 then CETCD_WAL_METADATA else if c = 2 then CETCD_WAL_ENTRY
      else if c = 3 then CETCD_WAL_STATE else if c = 4 then CETCD_WAL_CRC
      else if c = 5 then CETCD_WAL_SNAPSHOT else CETCD_WAL_OTHER c)"

record cetcd_wal_record =
  wr_type :: cetcd_wal_rec_type
  wr_crc :: u32
  wr_data :: bytes

definition cetcd_wal_record_init :: cetcd_wal_record where
  "cetcd_wal_record_init = \<lparr>wr_type = CETCD_WAL_METADATA, wr_crc = 0, wr_data = []\<rparr>"

section \<open>Encoding\<close>

definition wbuf_write_varint :: "u64 \<Rightarrow> bytes" where
  "wbuf_write_varint v = varint v"

definition cetcd_wal_write_frame :: "bytes \<Rightarrow> nat \<Rightarrow> bytes" where
  "cetcd_wal_write_frame buf pad =
     (let header = of_nat (length buf) AND 0x00FFFFFFFFFFFFFF :: u64;
          header = (if pad > 0 then header OR push_bit 56 (0x80 OR of_nat pad) else header)
      in write_le64 header @ buf @ replicate pad 0)"

text \<open>The record with its checksum filled in, and the bytes written.\<close>

definition wal_message :: "cetcd_wal_record \<Rightarrow> bytes" where
  "wal_message rec =
     [0x08] @ wbuf_write_varint (ucast (wal_type_code (wr_type rec))) @
     [0x10] @ wbuf_write_varint (ucast (wr_crc rec)) @
     [0x1a] @ wbuf_write_varint (of_nat (length (wr_data rec))) @
     wr_data rec"

definition cetcd_wal_encode :: "cetcd_wal_record \<Rightarrow> cetcd_wal_record \<times> bytes" where
  "cetcd_wal_encode rec =
     (let rec = (if length (wr_data rec) > 0 \<and> wr_crc rec = 0
                 then rec\<lparr>wr_crc := wal_crc32c 0 (wr_data rec)\<rparr> else rec);
          w = wal_message rec;
          pad = (8 - length w mod 8) mod 8
      in (rec, cetcd_wal_write_frame w pad))"

definition cetcd_wal_encode_metadata :: "bytes \<Rightarrow> bytes" where
  "cetcd_wal_encode_metadata data =
     snd (cetcd_wal_encode \<lparr>wr_type = CETCD_WAL_METADATA, wr_crc = 0, wr_data = data\<rparr>)"

fun entry_type_code :: "cetcd_entry_type \<Rightarrow> u32" where
  "entry_type_code CETCD_ENTRY_NORMAL = 0"
| "entry_type_code CETCD_ENTRY_CONF_CHANGE = 1"
| "entry_type_code CETCD_ENTRY_CONF_CHANGE_V2 = 2"
| "entry_type_code (CETCD_ENTRY_OTHER c) = c"

definition entry_code_type :: "u32 \<Rightarrow> cetcd_entry_type" where
  "entry_code_type c =
     (if c = 0 then CETCD_ENTRY_NORMAL else if c = 1 then CETCD_ENTRY_CONF_CHANGE
      else if c = 2 then CETCD_ENTRY_CONF_CHANGE_V2 else CETCD_ENTRY_OTHER c)"

definition wal_entry_data :: "cetcd_entry \<Rightarrow> bytes" where
  "wal_entry_data e =
     [0x08] @ wbuf_write_varint (e_term e) @
     [0x10] @ wbuf_write_varint (e_index e) @
     [0x18] @ wbuf_write_varint (ucast (entry_type_code (e_type e))) @
     [0x22] @ wbuf_write_varint (of_nat (length (e_data e))) @ e_data e"

definition cetcd_wal_encode_entry :: "cetcd_entry \<Rightarrow> bytes" where
  "cetcd_wal_encode_entry e =
     (let w = wal_entry_data e
      in snd (cetcd_wal_encode \<lparr>wr_type = CETCD_WAL_ENTRY, wr_crc = wal_crc32c 0 w, wr_data = w\<rparr>))"

definition wal_hard_state_data :: "cetcd_hard_state \<Rightarrow> bytes" where
  "wal_hard_state_data hs =
     [0x08] @ wbuf_write_varint (hs_term hs) @
     [0x10] @ wbuf_write_varint (hs_vote hs) @
     [0x18] @ wbuf_write_varint (hs_commit hs)"

definition cetcd_wal_encode_hard_state :: "cetcd_hard_state \<Rightarrow> bytes" where
  "cetcd_wal_encode_hard_state hs =
     (let w = wal_hard_state_data hs
      in snd (cetcd_wal_encode \<lparr>wr_type = CETCD_WAL_STATE, wr_crc = wal_crc32c 0 w, wr_data = w\<rparr>))"

definition wal_snapshot_data :: "u64 \<Rightarrow> u64 \<Rightarrow> bytes" where
  "wal_snapshot_data idx t = [0x08] @ wbuf_write_varint idx @ [0x10] @ wbuf_write_varint t"

definition cetcd_wal_encode_snapshot :: "u64 \<Rightarrow> u64 \<Rightarrow> bytes option" where
  "cetcd_wal_encode_snapshot idx t =
     (if idx = 0 then None
      else let w = wal_snapshot_data idx t
        in Some (snd (cetcd_wal_encode \<lparr>wr_type = CETCD_WAL_SNAPSHOT, wr_crc = wal_crc32c 0 w, wr_data = w\<rparr>)))"

section \<open>Releasing the log\<close>

text \<open>
  \<^verbatim>\<open>cetcd_wal_encoder_release\<close> writes a snapshot record and a hard state to the file with suffix \<^verbatim>\<open>.new\<close> and
  renames it over the log. The regular files of the directory are a function from names to contents. What
  the calls of the C library return is the argument \<open>io\<close>: whether the two calls of \<^verbatim>\<open>remove\<close>, the calls of \<^verbatim>\<open>fopen\<close>,
  \<^verbatim>\<open>fsync\<close> and \<^verbatim>\<open>rename\<close> succeed, and how many of the bytes written get to the file. The two results of \<^verbatim>\<open>remove\<close> are
  ignored by the code, so a file \<^verbatim>\<open>.new\<close> left over from before can stay, and is then opened for appending.
\<close>

type_synonym files = "string \<Rightarrow> bytes option"

record release_io =
  io_remove :: bool
  io_open_new :: bool
  io_written :: nat
  io_sync :: bool
  io_rename :: bool
  io_remove_again :: bool
  io_reopen :: bool

definition remove_file :: "bool \<Rightarrow> string \<Rightarrow> files \<Rightarrow> files" where
  "remove_file ok p fs = (if ok then fs(p := None) else fs)"

text \<open>The return code, the files and whether the encoder still has an open file.\<close>

definition cetcd_wal_encoder_release ::
    "release_io \<Rightarrow> string \<Rightarrow> u64 \<Rightarrow> u64 \<Rightarrow> cetcd_hard_state \<Rightarrow> files \<Rightarrow> int \<times> files \<times> bool" where
  "cetcd_wal_encoder_release io path snap_index snap_term hs fs =
     (let tmp = path @ ''.new'' in
      if path = [] \<or> snap_index = 0 \<or> length tmp \<ge> 1040 then (- 1, fs, True)
      else
        let fs = remove_file (io_remove io) tmp fs in
        if \<not> io_open_new io then (- 1, fs, True)
        else case cetcd_wal_encode_snapshot snap_index snap_term of
            None \<Rightarrow> (- 1, fs, True)
          | Some s \<Rightarrow>
              let fresh = s @ cetcd_wal_encode_hard_state hs;
                  start = (case fs tmp of Some old \<Rightarrow> old | None \<Rightarrow> []);
                  fs = fs(tmp \<mapsto> start @ take (io_written io) fresh)
              in if io_written io < length fresh \<or> \<not> io_sync io then (- 1, remove_file (io_remove_again io) tmp fs, True)
                 else if \<not> io_rename io then (- 1, remove_file (io_remove_again io) tmp fs, io_reopen io)
                 else
                   let fs = fs(path := fs tmp, tmp := None) in
                   if \<not> io_reopen io then (- 1, fs, False) else (0, fs, True))"

section \<open>Decoding\<close>

lemma read_varint_loop_shorter:
  "read_varint_loop v s bs = Some (x, rest) \<Longrightarrow> length rest < length bs"
  by (induction v s bs rule: read_varint_loop.induct) (auto simp: Let_def split: if_splits)

lemma read_varint_shorter: "read_varint bs = Some (x, rest) \<Longrightarrow> length rest < length bs"
  unfolding read_varint_def by (rule read_varint_loop_shorter)

text \<open>
  The field loop of \<^verbatim>\<open>cetcd_wal_decode\<close> over the rest of the frame; \<open>None\<close> is
  \<^verbatim>\<open>malformed\<close>.
\<close>

function wal_parse :: "bytes \<Rightarrow> cetcd_wal_record \<Rightarrow> cetcd_wal_record option" where
  "wal_parse bs tmp =
     (if bs = [] then Some tmp
      else case read_varint bs of None \<Rightarrow> None | Some (tag, r) \<Rightarrow>
        let field = drop_bit 3 tag; wire = tag AND 0x07 in
        if field = 1 \<and> wire = 0 then
          (case read_varint r of None \<Rightarrow> None | Some (val, r2) \<Rightarrow>
             wal_parse r2 (tmp\<lparr>wr_type := wal_code_type (ucast val)\<rparr>))
        else if field = 2 \<and> wire = 0 then
          (case read_varint r of None \<Rightarrow> None | Some (val, r2) \<Rightarrow>
             wal_parse r2 (tmp\<lparr>wr_crc := ucast val\<rparr>))
        else if field = 3 \<and> wire = 2 then
          (case read_varint r of None \<Rightarrow> None | Some (l, r2) \<Rightarrow>
             if unat l > length r2 then None
             else wal_parse (drop (unat l) r2) (tmp\<lparr>wr_data := take (unat l) r2\<rparr>))
        else if wire = 0 then
          (case read_varint r of None \<Rightarrow> None | Some (v, r2) \<Rightarrow> wal_parse r2 tmp)
        else if wire = 1 then (if length r < 8 then None else wal_parse (drop 8 r) tmp)
        else if wire = 2 then
          (case read_varint r of None \<Rightarrow> None | Some (l, r2) \<Rightarrow>
             if unat l > length r2 then None else wal_parse (drop (unat l) r2) tmp)
        else if wire = 5 then (if length r < 4 then None else wal_parse (drop 4 r) tmp)
        else None)"
  by pat_completeness auto
termination wal_parse
  by (relation "measure (length \<circ> fst)") (auto dest!: read_varint_shorter)

declare wal_parse.simps [simp del]

text \<open>
  One call of \<^verbatim>\<open>cetcd_wal_decode\<close>: the return code, the record it stores, and the rest of
  the file.
\<close>

definition cetcd_wal_decode :: "bytes \<Rightarrow> int \<times> cetcd_wal_record option \<times> bytes" where
  "cetcd_wal_decode fp =
     (let hdr = take 8 fp; fp = drop 8 fp in
      if length hdr = 0 then (- 1, None, fp)
      else if length hdr \<noteq> 8 then (- 1, None, fp)
      else
        let header = read_le64 hdr;
            plen = unat (header AND 0x00FFFFFFFFFFFFFF);
            has_pad = header AND push_bit 63 1 \<noteq> 0;
            pad = (if has_pad then unat (drop_bit 56 header AND 0x7F) else 0)
        in if plen > 0 then
             (let frame = take plen fp; fp = drop plen fp in
              if length frame \<noteq> plen then (- 1, None, fp)
              else
                let fp = (if has_pad \<and> pad > 0 then drop pad fp else fp) in
                case wal_parse frame cetcd_wal_record_init of
                  None \<Rightarrow> (- 3, None, fp)
                | Some tmp \<Rightarrow>
                    if length (wr_data tmp) > 0 \<and> wal_crc32c 0 (wr_data tmp) \<noteq> wr_crc tmp
                    then (- 2, Some tmp, fp) else (0, Some tmp, fp))
           else (- 1, None, fp))"

function cetcd_wal_decode_entry_loop :: "bytes \<Rightarrow> cetcd_entry \<Rightarrow> cetcd_entry option" where
  "cetcd_wal_decode_entry_loop bs out =
     (if bs = [] then Some out
      else case read_varint bs of None \<Rightarrow> None | Some (tag, r) \<Rightarrow>
        let field = drop_bit 3 tag; wire = tag AND 0x07 in
        if field = 1 \<and> wire = 0 then
          (case read_varint r of None \<Rightarrow> None | Some (v, r2) \<Rightarrow>
             cetcd_wal_decode_entry_loop r2 (out\<lparr>e_term := v\<rparr>))
        else if field = 2 \<and> wire = 0 then
          (case read_varint r of None \<Rightarrow> None | Some (v, r2) \<Rightarrow>
             cetcd_wal_decode_entry_loop r2 (out\<lparr>e_index := v\<rparr>))
        else if field = 3 \<and> wire = 0 then
          (case read_varint r of None \<Rightarrow> None | Some (v, r2) \<Rightarrow>
             cetcd_wal_decode_entry_loop r2 (out\<lparr>e_type := entry_code_type (ucast v)\<rparr>))
        else if field = 4 \<and> wire = 2 then
          (case read_varint r of None \<Rightarrow> None | Some (l, r2) \<Rightarrow>
             if unat l > length r2 then None
             else cetcd_wal_decode_entry_loop (drop (unat l) r2)
               (if l > 0 then out\<lparr>e_data := take (unat l) r2\<rparr> else out))
        else if wire = 0 then
          (case read_varint r of None \<Rightarrow> None | Some (v, r2) \<Rightarrow> cetcd_wal_decode_entry_loop r2 out)
        else if wire = 2 then
          (case read_varint r of None \<Rightarrow> None | Some (l, r2) \<Rightarrow>
             if unat l > length r2 then None else cetcd_wal_decode_entry_loop (drop (unat l) r2) out)
        else None)"
  by pat_completeness auto
termination cetcd_wal_decode_entry_loop
  by (relation "measure (length \<circ> fst)") (auto dest!: read_varint_shorter)

declare cetcd_wal_decode_entry_loop.simps [simp del]

definition cetcd_wal_decode_entry :: "bytes \<Rightarrow> cetcd_entry option" where
  "cetcd_wal_decode_entry data = cetcd_wal_decode_entry_loop data zero_entry"

text \<open>
  \<^verbatim>\<open>cetcd_wal_decode_hard_state\<close> and \<^verbatim>\<open>cetcd_wal_decode_snapshot\<close> read a sequence of integer
  fields; \<open>asg\<close> is the assignment to the field of the result. The result is whether they return 0, and the
  output with the fields read so far.
\<close>

function wal_decode_ints :: "(u64 \<Rightarrow> u64 \<Rightarrow> 'a \<Rightarrow> 'a) \<Rightarrow> bytes \<Rightarrow> 'a \<Rightarrow> bool \<times> 'a" where
  "wal_decode_ints asg bs out =
     (if bs = [] then (True, out)
      else case read_varint bs of None \<Rightarrow> (False, out) | Some (tag, r) \<Rightarrow>
        let field = drop_bit 3 tag; wire = tag AND 0x07 in
        if wire \<noteq> 0 then (False, out)
        else case read_varint r of None \<Rightarrow> (False, out) | Some (v, r2) \<Rightarrow>
          wal_decode_ints asg r2 (asg field v out))"
  by pat_completeness auto
termination wal_decode_ints
  by (relation "measure (length \<circ> fst \<circ> snd)") (auto dest!: read_varint_shorter)

declare wal_decode_ints.simps [simp del]

definition set_hard_state :: "u64 \<Rightarrow> u64 \<Rightarrow> cetcd_hard_state \<Rightarrow> cetcd_hard_state" where
  "set_hard_state field v out =
     (if field = 1 then out\<lparr>hs_term := v\<rparr>
      else if field = 2 then out\<lparr>hs_vote := v\<rparr>
      else if field = 3 then out\<lparr>hs_commit := v\<rparr> else out)"

definition cetcd_wal_decode_hard_state :: "bytes \<Rightarrow> bool \<times> cetcd_hard_state" where
  "cetcd_wal_decode_hard_state data =
     wal_decode_ints set_hard_state data \<lparr>hs_term = 0, hs_vote = 0, hs_commit = 0\<rparr>"

definition set_snapshot :: "u64 \<Rightarrow> u64 \<Rightarrow> u64 \<times> u64 \<Rightarrow> u64 \<times> u64" where
  "set_snapshot field v out =
     (if field = 1 then (v, snd out) else if field = 2 then (fst out, v) else out)"

definition cetcd_wal_decode_snapshot :: "bytes \<Rightarrow> bool \<times> u64 \<times> u64" where
  "cetcd_wal_decode_snapshot data = wal_decode_ints set_snapshot data (0, 0)"

section \<open>Replay of a file\<close>

text \<open>
  The loop of \<^verbatim>\<open>replay_wal_\<close> (\<^verbatim>\<open>src/server/server.c\<close>): the records up to the first call of
  the decoder that does not return 0, each decoded by its type. Records of other types
  and entries and snapshots whose payload does not decode are skipped. A hard state whose payload does not decode
  still overwrites \<^verbatim>\<open>last_hs\<close> with the fields read so far, which is used when \<open>have_hs\<close>, an earlier one, did decode.
\<close>

definition wal_rec_of :: "bool \<Rightarrow> cetcd_wal_record \<Rightarrow> wal_rec option" where
  "wal_rec_of have_hs rec =
     (if wr_type rec = CETCD_WAL_ENTRY \<and> length (wr_data rec) > 0 then
        map_option W_ENTRY (cetcd_wal_decode_entry (wr_data rec))
      else if wr_type rec = CETCD_WAL_STATE \<and> length (wr_data rec) > 0 then
        (case cetcd_wal_decode_hard_state (wr_data rec) of
           (ok, hs) \<Rightarrow> if ok \<or> have_hs then Some (W_STATE hs) else None)
      else if wr_type rec = CETCD_WAL_SNAPSHOT \<and> length (wr_data rec) > 0 then
        (case cetcd_wal_decode_snapshot (wr_data rec) of
           (ok, idx, t) \<Rightarrow> if ok then Some (W_SNAPSHOT idx t) else None)
      else None)"

fun is_state :: "wal_rec \<Rightarrow> bool" where
  "is_state (W_STATE hs) = True"
| "is_state _ = False"

lemma cetcd_wal_decode_shorter:
  "cetcd_wal_decode fp = (0, r, rest) \<Longrightarrow> length rest < length fp"
  by (auto simp: cetcd_wal_decode_def Let_def split: if_splits option.splits)

function wal_read :: "bool \<Rightarrow> bytes \<Rightarrow> wal_rec list" where
  "wal_read have_hs fp =
     (case cetcd_wal_decode fp of
        (rc, r, rest) \<Rightarrow>
          if rc \<noteq> 0 then []
          else case r of None \<Rightarrow> []
            | Some rec \<Rightarrow>
                (case wal_rec_of have_hs rec of
                   None \<Rightarrow> wal_read have_hs rest
                 | Some w \<Rightarrow> w # wal_read (have_hs \<or> is_state w) rest))"
  by pat_completeness auto
termination wal_read
  by (relation "measure (length \<circ> snd)") (auto dest!: cetcd_wal_decode_shorter [OF sym])

declare wal_read.simps [simp del]

definition wal_read_all :: "bytes \<Rightarrow> wal_rec list" where
  "wal_read_all fp = wal_read False fp"

definition replay_wal_file :: "bytes \<Rightarrow> cetcd_raft \<Rightarrow> cetcd_raft" where
  "replay_wal_file file r = replay_wal (wal_read_all file) r"

section \<open>Frames\<close>

lemma mask_56: "(0x00FFFFFFFFFFFFFF :: u64) = mask 56"
  by (simp add: mask_eq_exp_minus_1)

definition frame_header :: "nat \<Rightarrow> nat \<Rightarrow> u64" where
  "frame_header n pad = (let header = of_nat n AND 0x00FFFFFFFFFFFFFF :: u64 in
     if pad > 0 then header OR push_bit 56 (0x80 OR of_nat pad) else header)"

lemma write_frame_eq:
  "cetcd_wal_write_frame buf pad = write_le64 (frame_header (length buf) pad) @ buf @ replicate pad 0"
  by (simp add: cetcd_wal_write_frame_def frame_header_def Let_def)

lemma take_bit_of_nat_small:
  assumes "n < 2 ^ k" and "k < 64"
  shows "take_bit k (of_nat n :: u64) = of_nat n"
proof -
  have "n < 2 ^ 64" using assms power_strict_increasing [of k 64 "2::nat"] by simp
  then have "unat (take_bit k (of_nat n :: u64)) = unat (of_nat n :: u64)"
    using assms by (simp add: unsigned_take_bit_eq take_bit_nat_def unat_of_nat)
  then show ?thesis by (simp only: word_unat_eq_iff)
qed

lemma frame_header_split:
  obtains c :: u64 where "frame_header n pad = take_bit 56 (of_nat n) OR push_bit 56 c"
    and "c = (if pad > 0 then 0x80 OR of_nat pad else 0)"
  by (simp add: frame_header_def Let_def mask_56 take_bit_eq_mask)

lemma frame_header_fields:
  assumes n: "n < 2 ^ 56" and pad: "pad < 8"
  shows "unat (frame_header n pad AND 0x00FFFFFFFFFFFFFF) = n"
    and "frame_header n pad AND push_bit 63 1 \<noteq> 0 \<longleftrightarrow> pad > 0"
    and "unat (drop_bit 56 (frame_header n pad) AND 0x7F) = pad"
proof -
  obtain c :: u64 where h: "frame_header n pad = take_bit 56 (of_nat n) OR push_bit 56 c"
    and c_def: "c = (if pad > 0 then 0x80 OR of_nat pad else 0)" by (rule frame_header_split)
  have "take_bit 56 (frame_header n pad) = take_bit 56 (of_nat n)"
    unfolding h by (rule bit_word_eqI) (auto simp: bit_simps)
  then show "unat (frame_header n pad AND 0x00FFFFFFFFFFFFFF) = n"
    unfolding mask_56 using n by (simp add: take_bit_of_nat_small unat_of_nat flip: take_bit_eq_mask)
  have d: "drop_bit 56 (frame_header n pad) = take_bit 8 c"
    unfolding h by (rule bit_word_eqI) (auto simp: bit_simps)
  have pads: "pad \<in> {0, 1, 2, 3, 4, 5, 6, 7}" using pad by auto
  then show "unat (drop_bit 56 (frame_header n pad) AND 0x7F) = pad"
    unfolding d by (auto simp: c_def)
  have "frame_header n pad AND push_bit 63 1 \<noteq> 0 \<longleftrightarrow> bit (frame_header n pad) 63"
    by (metis and_exp_eq_0_iff_not_bit push_bit_eq_mult mult_1)
  also have "\<dots> \<longleftrightarrow> bit (drop_bit 56 (frame_header n pad)) 7" by (simp add: bit_simps)
  also have "\<dots> \<longleftrightarrow> pad > 0" unfolding d using pads by (auto simp: c_def)
  finally show "frame_header n pad AND push_bit 63 1 \<noteq> 0 \<longleftrightarrow> pad > 0" .
qed

text \<open>What the decoder does with the message of a frame.\<close>

definition wal_checked :: "bytes \<Rightarrow> int \<times> cetcd_wal_record option" where
  "wal_checked w =
     (case wal_parse w cetcd_wal_record_init of
        None \<Rightarrow> (- 3, None)
      | Some tmp \<Rightarrow>
          if length (wr_data tmp) > 0 \<and> wal_crc32c 0 (wr_data tmp) \<noteq> wr_crc tmp
          then (- 2, Some tmp) else (0, Some tmp))"

lemma decode_frame:
  assumes "0 < length w" and "length w < 2 ^ 56" and "pad < 8"
  shows "cetcd_wal_decode (write_le64 (frame_header (length w) pad) @ w @ tail) =
    (fst (wal_checked w), snd (wal_checked w), drop pad tail)"
proof -
  note f = frame_header_fields [OF assms(2,3)]
  show ?thesis
    unfolding cetcd_wal_decode_def wal_checked_def Let_def
    using assms(1) f
    by (cases "pad > 0") (auto split: option.splits)
qed

lemma decode_frame_torn:
  assumes "length w < 2 ^ 56" and "pad < 8" and "k < 8 + length w"
  shows "fst (cetcd_wal_decode (take k (write_le64 (frame_header (length w) pad) @ w @ tail))) = - 1"
proof (cases "k < 8")
  case True
  then show ?thesis by (auto simp: cetcd_wal_decode_def Let_def)
next
  case False
  then show ?thesis
    unfolding cetcd_wal_decode_def Let_def
    using assms(3) frame_header_fields [OF assms(1,2)] by auto
qed

section \<open>Messages\<close>

lemma read_varint_byte: "b AND 0x80 = 0 \<Longrightarrow> read_varint (b # bs) = Some (ucast (b AND 0x7F), bs)"
  by (simp add: read_varint_def)

lemma unat_of_length: "length (xs :: bytes) < 2 ^ 56 \<Longrightarrow> unat (of_nat (length xs) :: u64) = length xs"
  by (simp add: unat_of_nat)

lemma wal_type_code_code: "wal_code_type (wal_type_code t) = t" if "t \<in> range wal_code_type"
  using that by (auto simp: wal_code_type_def)

definition wal_record_ok :: "cetcd_wal_record \<Rightarrow> bool" where
  "wal_record_ok rec \<longleftrightarrow> wr_type rec \<in> range wal_code_type \<and> length (wr_data rec) < 2 ^ 55"

lemma wal_parse_message:
  assumes "wal_record_ok rec"
  shows "wal_parse (wal_message rec) tmp = Some rec"
proof -
  have len: "length (wr_data rec) < 2 ^ 56" and ty: "wal_code_type (wal_type_code (wr_type rec)) = wr_type rec"
    using assms wal_type_code_code by (auto simp: wal_record_ok_def)
  let ?d = "wr_data rec"
  have 3: "wal_parse ([0x1a] @ wbuf_write_varint (of_nat (length ?d)) @ ?d) tmp' = Some (tmp'\<lparr>wr_data := ?d\<rparr>)" for tmp'
    using len by (subst wal_parse.simps)
      (simp add: read_varint_byte wbuf_write_varint_def codec_simps unat_of_length, simp add: wal_parse.simps)
  have 2: "wal_parse ([0x10] @ wbuf_write_varint (ucast (wr_crc rec)) @ bs) tmp' = wal_parse bs (tmp'\<lparr>wr_crc := wr_crc rec\<rparr>)" for tmp' bs
    by (subst wal_parse.simps) (simp add: read_varint_byte wbuf_write_varint_def codec_simps)
  have 1: "wal_parse ([0x08] @ wbuf_write_varint (ucast (wal_type_code (wr_type rec))) @ bs) tmp'
      = wal_parse bs (tmp'\<lparr>wr_type := wr_type rec\<rparr>)" for tmp' bs
    by (subst wal_parse.simps) (simp add: read_varint_byte wbuf_write_varint_def codec_simps ty)
  show ?thesis unfolding wal_message_def by (simp only: 1 2 3) simp
qed

lemma decode_entry_data:
  assumes "e_type e \<in> range entry_code_type" and len: "length (e_data e) < 2 ^ 56"
  shows "cetcd_wal_decode_entry (wal_entry_data e) = Some e"
proof -
  have ty: "entry_code_type (entry_type_code (e_type e)) = e_type e"
    using assms(1) by (auto simp: entry_code_type_def)
  let ?L = cetcd_wal_decode_entry_loop
  have nil: "?L [] out = Some out" for out by (subst cetcd_wal_decode_entry_loop.simps) simp
  have 4: "?L ([0x22] @ wbuf_write_varint (of_nat (length (e_data e))) @ e_data e) out = Some (out\<lparr>e_data := e_data e\<rparr>)"
    if "e_data out = []" for out
  proof -
    have "(of_nat (length (e_data e)) :: u64) = 0 \<longleftrightarrow> e_data e = []"
      using unat_of_length [OF len] unat_eq_0 [of "of_nat (length (e_data e)) :: u64"] by (simp del: unat_eq_0)
    then show ?thesis
      using len that by (subst cetcd_wal_decode_entry_loop.simps)
        (auto simp: read_varint_byte wbuf_write_varint_def codec_simps unat_of_length word_gt_0 nil)
  qed
  have 3: "?L ([0x18] @ wbuf_write_varint (ucast (entry_type_code (e_type e))) @ bs) out = ?L bs (out\<lparr>e_type := e_type e\<rparr>)" for out bs
    by (subst cetcd_wal_decode_entry_loop.simps) (simp add: read_varint_byte wbuf_write_varint_def codec_simps ty)
  have 2: "?L ([0x10] @ wbuf_write_varint v @ bs) out = ?L bs (out\<lparr>e_index := v\<rparr>)" for out bs v
    by (subst cetcd_wal_decode_entry_loop.simps) (simp add: read_varint_byte wbuf_write_varint_def codec_simps)
  have 1: "?L ([0x08] @ wbuf_write_varint v @ bs) out = ?L bs (out\<lparr>e_term := v\<rparr>)" for out bs v
    by (subst cetcd_wal_decode_entry_loop.simps) (simp add: read_varint_byte wbuf_write_varint_def codec_simps)
  show ?thesis
    unfolding cetcd_wal_decode_entry_def wal_entry_data_def by (simp only: 1 2 3) (subst 4, simp_all add: zero_entry_def)
qed

lemma decode_ints_field:
  "wal_decode_ints asg ([0x08] @ wbuf_write_varint v @ bs) out = wal_decode_ints asg bs (asg 1 v out)"
  "wal_decode_ints asg ([0x10] @ wbuf_write_varint v @ bs) out = wal_decode_ints asg bs (asg 2 v out)"
  "wal_decode_ints asg ([0x18] @ wbuf_write_varint v @ bs) out = wal_decode_ints asg bs (asg 3 v out)"
  "wal_decode_ints asg [] out = (True, out)"
  by (subst wal_decode_ints.simps, simp add: read_varint_byte wbuf_write_varint_def codec_simps; fail)+

lemma decode_hard_state_data: "cetcd_wal_decode_hard_state (wal_hard_state_data hs) = (True, hs)"
proof -
  have "wal_hard_state_data hs = [0x08] @ wbuf_write_varint (hs_term hs) @ [0x10] @ wbuf_write_varint (hs_vote hs) @
      [0x18] @ wbuf_write_varint (hs_commit hs) @ []"
    by (simp add: wal_hard_state_data_def)
  then show ?thesis
    by (simp only: cetcd_wal_decode_hard_state_def decode_ints_field) (simp add: set_hard_state_def)
qed

lemma decode_snapshot_data: "cetcd_wal_decode_snapshot (wal_snapshot_data idx t) = (True, idx, t)"
proof -
  have "wal_snapshot_data idx t = [0x08] @ wbuf_write_varint idx @ [0x10] @ wbuf_write_varint t @ []"
    by (simp add: wal_snapshot_data_def)
  then show ?thesis
    by (simp only: cetcd_wal_decode_snapshot_def decode_ints_field) (simp add: set_snapshot_def)
qed

section \<open>Records on disk\<close>

definition wal_pad :: "bytes \<Rightarrow> nat" where
  "wal_pad w = (8 - length w mod 8) mod 8"

lemma wal_pad_less: "wal_pad w < 8"
  by (simp add: wal_pad_def)

definition wal_sealed :: "cetcd_wal_record \<Rightarrow> cetcd_wal_record" where
  "wal_sealed rec = (if length (wr_data rec) > 0 \<and> wr_crc rec = 0
     then rec\<lparr>wr_crc := wal_crc32c 0 (wr_data rec)\<rparr> else rec)"

lemma cetcd_wal_encode_eq:
  "cetcd_wal_encode rec = (wal_sealed rec,
     (let w = wal_message (wal_sealed rec)
      in write_le64 (frame_header (length w) (wal_pad w)) @ w @ replicate (wal_pad w) 0))"
  by (simp add: cetcd_wal_encode_def wal_sealed_def write_frame_eq wal_pad_def Let_def)

lemma wal_message_length:
  assumes "wal_record_ok rec"
  shows "0 < length (wal_message rec)" and "length (wal_message rec) < 2 ^ 56"
proof -
  have "length (wr_data rec) < 2 ^ 55" using assms by (simp add: wal_record_ok_def)
  then show "length (wal_message rec) < 2 ^ 56" "0 < length (wal_message rec)"
    using length_varint_u64 [of "ucast (wal_type_code (wr_type rec))"] length_varint_u64 [of "ucast (wr_crc rec)"]
      length_varint_u64 [of "of_nat (length (wr_data rec))"]
    by (simp_all add: wal_message_def wbuf_write_varint_def)
qed

lemma wal_sealed_ok: "wal_record_ok rec \<Longrightarrow> wal_record_ok (wal_sealed rec)"
  by (simp add: wal_record_ok_def wal_sealed_def)

lemma decode_encode:
  assumes ok: "wal_record_ok rec" and crc: "wr_crc rec = 0 \<or> wr_crc rec = wal_crc32c 0 (wr_data rec)"
  shows "cetcd_wal_decode (snd (cetcd_wal_encode rec) @ rest) = (0, Some (wal_sealed rec), rest)"
proof -
  let ?w = "wal_message (wal_sealed rec)"
  note len = wal_message_length [OF wal_sealed_ok [OF ok]]
  have "wal_checked ?w = (0, Some (wal_sealed rec))"
    using wal_parse_message [OF wal_sealed_ok [OF ok]] crc
    by (auto simp: wal_checked_def wal_sealed_def)
  then show ?thesis
    using decode_frame [OF len wal_pad_less [of ?w], of "replicate (wal_pad ?w) 0 @ rest"]
    by (simp add: cetcd_wal_encode_eq Let_def)
qed

fun wal_bytes :: "wal_rec \<Rightarrow> bytes" where
  "wal_bytes (W_ENTRY e) = cetcd_wal_encode_entry e"
| "wal_bytes (W_STATE hs) = cetcd_wal_encode_hard_state hs"
| "wal_bytes (W_SNAPSHOT idx t) = (case cetcd_wal_encode_snapshot idx t of Some b \<Rightarrow> b | None \<Rightarrow> [])"

text \<open>Records the code writes: known entry types, a payload below \<open>2 ^ 54\<close> bytes, a snapshot index above 0.\<close>

fun wal_rec_ok :: "wal_rec \<Rightarrow> bool" where
  "wal_rec_ok (W_ENTRY e) \<longleftrightarrow> e_type e \<in> range entry_code_type \<and> length (e_data e) < 2 ^ 54"
| "wal_rec_ok (W_STATE hs) \<longleftrightarrow> True"
| "wal_rec_ok (W_SNAPSHOT idx t) \<longleftrightarrow> 0 < idx"

fun wal_payload :: "wal_rec \<Rightarrow> cetcd_wal_record" where
  "wal_payload (W_ENTRY e) = (let w = wal_entry_data e in \<lparr>wr_type = CETCD_WAL_ENTRY, wr_crc = wal_crc32c 0 w, wr_data = w\<rparr>)"
| "wal_payload (W_STATE hs) = (let w = wal_hard_state_data hs in \<lparr>wr_type = CETCD_WAL_STATE, wr_crc = wal_crc32c 0 w, wr_data = w\<rparr>)"
| "wal_payload (W_SNAPSHOT idx t) = (let w = wal_snapshot_data idx t in \<lparr>wr_type = CETCD_WAL_SNAPSHOT, wr_crc = wal_crc32c 0 w, wr_data = w\<rparr>)"

lemma wal_payload_spec:
  assumes "wal_rec_ok w"
  shows "wal_bytes w = snd (cetcd_wal_encode (wal_payload w))" and "wal_record_ok (wal_payload w)"
    and "wr_crc (wal_payload w) = wal_crc32c 0 (wr_data (wal_payload w))"
    and "wal_rec_of h (wal_payload w) = Some w"
proof -
  have codes: "CETCD_WAL_ENTRY \<in> range wal_code_type" "CETCD_WAL_STATE \<in> range wal_code_type"
    "CETCD_WAL_SNAPSHOT \<in> range wal_code_type"
    by (rule range_eqI [of _ _ 2] range_eqI [of _ _ 3] range_eqI [of _ _ 5], simp add: wal_code_type_def)+
  have "wal_bytes w = snd (cetcd_wal_encode (wal_payload w)) \<and> wal_record_ok (wal_payload w) \<and>
    wr_crc (wal_payload w) = wal_crc32c 0 (wr_data (wal_payload w)) \<and> wal_rec_of h (wal_payload w) = Some w"
  proof (cases w)
    case (W_ENTRY e)
    have "length (wal_entry_data e) < 2 ^ 55"
      using assms W_ENTRY length_varint_u64 [of "e_term e"] length_varint_u64 [of "e_index e"]
        length_varint_u64 [of "ucast (entry_type_code (e_type e))"] length_varint_u64 [of "of_nat (length (e_data e))"]
      by (simp add: wal_entry_data_def wbuf_write_varint_def)
    moreover have "wal_entry_data e \<noteq> []" by (simp add: wal_entry_data_def)
    ultimately show ?thesis
      using W_ENTRY assms codes decode_entry_data [of e]
      by (simp add: Let_def cetcd_wal_encode_entry_def wal_record_ok_def wal_rec_of_def)
  next
    case (W_STATE hs)
    have "length (wal_hard_state_data hs) < 2 ^ 55" "wal_hard_state_data hs \<noteq> []"
      using length_varint_u64 [of "hs_term hs"] length_varint_u64 [of "hs_vote hs"] length_varint_u64 [of "hs_commit hs"]
      by (simp_all add: wal_hard_state_data_def wbuf_write_varint_def)
    then show ?thesis
      using W_STATE codes decode_hard_state_data [of hs]
      by (simp add: Let_def cetcd_wal_encode_hard_state_def wal_record_ok_def wal_rec_of_def)
  next
    case (W_SNAPSHOT idx t)
    have "length (wal_snapshot_data idx t) < 2 ^ 55" "wal_snapshot_data idx t \<noteq> []"
      using length_varint_u64 [of idx] length_varint_u64 [of t]
      by (simp_all add: wal_snapshot_data_def wbuf_write_varint_def)
    then show ?thesis
      using W_SNAPSHOT assms codes decode_snapshot_data [of idx t]
      by (simp add: Let_def cetcd_wal_encode_snapshot_def wal_record_ok_def wal_rec_of_def word_gt_0)
  qed
  then show "wal_bytes w = snd (cetcd_wal_encode (wal_payload w))" "wal_record_ok (wal_payload w)"
    "wr_crc (wal_payload w) = wal_crc32c 0 (wr_data (wal_payload w))" "wal_rec_of h (wal_payload w) = Some w"
    by blast+
qed

lemma wal_sealed_payload:
  "wr_crc rec = wal_crc32c 0 (wr_data rec) \<Longrightarrow> wal_sealed rec = rec"
  by (simp add: wal_sealed_def)

lemma wal_read_record:
  assumes "wal_rec_ok w"
  shows "wal_read h (wal_bytes w @ rest) = w # wal_read (h \<or> is_state w) rest"
  using decode_encode [OF wal_payload_spec(2) [OF assms], of rest] wal_payload_spec [OF assms]
  by (subst wal_read.simps) (simp add: wal_sealed_payload)

lemma wal_read_records:
  "\<forall>w \<in> set ws. wal_rec_ok w \<Longrightarrow>
     wal_read h (concat (map wal_bytes ws) @ rest) = ws @ wal_read (h \<or> list_ex is_state ws) rest"
  by (induction ws arbitrary: h) (simp_all add: wal_read_record disj_assoc)

lemma wal_read_nil: "wal_read h [] = []"
  by (subst wal_read.simps) (simp add: cetcd_wal_decode_def)

lemma wal_bytes_frame:
  assumes "wal_rec_ok w"
  shows "wal_bytes w = (let b = wal_message (wal_payload w)
    in write_le64 (frame_header (length b) (wal_pad b)) @ b @ replicate (wal_pad b) 0)"
  using wal_payload_spec [OF assms] by (simp add: cetcd_wal_encode_eq wal_sealed_payload Let_def)

lemma wal_read_torn:
  assumes "wal_rec_ok w"
  shows "wal_read h (take k (wal_bytes w)) = (if k < 8 + length (wal_message (wal_payload w)) then [] else [w])"
proof -
  let ?b = "wal_message (wal_payload w)"
  note len = wal_message_length [OF wal_payload_spec(2) [OF assms]]
  have bytes: "wal_bytes w = write_le64 (frame_header (length ?b) (wal_pad ?b)) @ ?b @ replicate (wal_pad ?b) 0"
    using wal_bytes_frame [OF assms] by (simp add: Let_def)
  show ?thesis
  proof (cases "k < 8 + length ?b")
    case True
    have "fst (cetcd_wal_decode (take k (wal_bytes w))) = - 1"
      unfolding bytes by (rule decode_frame_torn [OF len(2) wal_pad_less True])
    then show ?thesis
      using True by (subst wal_read.simps) (auto split: prod.splits)
  next
    case False
    let ?tail = "take (k - (8 + length ?b)) (replicate (wal_pad ?b) (0 :: byte))"
    have "take k (wal_bytes w) = write_le64 (frame_header (length ?b) (wal_pad ?b)) @ ?b @ ?tail"
      using False by (simp add: bytes)
    moreover have "wal_checked ?b = (0, Some (wal_payload w))"
      using wal_payload_spec(2,3) [OF assms] by (simp add: wal_checked_def wal_parse_message)
    moreover have "drop (wal_pad ?b) ?tail = []" by simp
    ultimately have "cetcd_wal_decode (take k (wal_bytes w)) = (0, Some (wal_payload w), [])"
      using decode_frame [OF len wal_pad_less [of ?b], of ?tail] by simp
    then show ?thesis
      using False wal_payload_spec(4) [OF assms] by (subst wal_read.simps) (simp add: wal_read_nil)
  qed
qed

section \<open>Properties of the log on disk\<close>

definition sample_records :: "wal_rec list" where
  "sample_records =
     [W_ENTRY \<lparr>e_term = 1, e_index = 1, e_type = CETCD_ENTRY_NORMAL, e_data = [7, 8, 9]\<rparr>,
      W_STATE \<lparr>hs_term = 1, hs_vote = 2, hs_commit = 1\<rparr>, W_SNAPSHOT 300 2]"

lemma sample_records_ok: "\<forall>w \<in> set sample_records. wal_rec_ok w"
  by (auto simp: sample_records_def intro!: range_eqI [of _ _ 0] simp: entry_code_type_def)

text \<open>
  C13. The write-ahead log round-trips: reading back a file that holds the encodings of
  any sequence of entries, hard states and snapshot marks returns that sequence, so a
  restart replays exactly what was written.
\<close>

theorem wal_roundtrip:
  assumes "\<forall>w \<in> set ws. wal_rec_ok w"
  shows "wal_read_all (concat (map wal_bytes ws)) = ws \<and>
    replay_wal_file (concat (map wal_bytes ws)) r = replay_wal ws r"
  using wal_read_records [OF assms, of False "[]"] by (simp add: wal_read_nil replay_wal_file_def wal_read_all_def)

theorem wal_roundtrip_witness: "wal_read_all (concat (map wal_bytes sample_records)) = sample_records"
  using wal_roundtrip [OF sample_records_ok] by blast

text \<open>
  A crash while a record is appended leaves a prefix of its bytes. Whatever the
  prefix, reading the file returns every earlier record, and the last one exactly when
  only padding is missing.
\<close>

theorem wal_torn_tail:
  assumes "\<forall>w \<in> set ws. wal_rec_ok w" and "wal_rec_ok w"
  shows "wal_read_all (concat (map wal_bytes ws) @ take k (wal_bytes w)) =
    (if k < 8 + length (wal_message (wal_payload w)) then ws else ws @ [w])"
  using wal_read_records [OF assms(1)] wal_read_torn [OF assms(2)] by (simp add: wal_read_all_def)

theorem wal_torn_tail_witness:
  "wal_read_all (concat (map wal_bytes sample_records) @ take 9 (wal_bytes (W_SNAPSHOT 5 1))) = sample_records"
proof -
  have "9 < 8 + length (wal_message (wal_payload (W_SNAPSHOT 5 1)))"
    by (simp add: wal_message_def Let_def)
  with wal_torn_tail [OF sample_records_ok, of "W_SNAPSHOT 5 1" 9] show ?thesis by simp
qed

lemma decode_one_byte:
  assumes "wal_rec_ok w" and "i < length (wr_data (wal_payload w))" and "y \<noteq> wr_data (wal_payload w) ! i"
    and "off = 8 + length (wal_message (wal_payload w)) - length (wr_data (wal_payload w))"
  shows "fst (cetcd_wal_decode ((wal_bytes w)[off + i := y] @ rest)) = - 2"
proof -
  let ?p = "wal_payload w" and ?d = "wr_data (wal_payload w)"
  let ?bad = "?p\<lparr>wr_data := ?d[i := y]\<rparr>"
  let ?h = "write_le64 (frame_header (length (wal_message ?p)) (wal_pad (wal_message ?p)))"
  let ?z = "replicate (wal_pad (wal_message ?p)) (0 :: byte)"
  obtain m where m: "wal_message ?p = m @ ?d" "wal_message ?bad = m @ ?d[i := y]"
    by (simp add: wal_message_def)
  have bytes: "wal_bytes w = ?h @ wal_message ?p @ ?z"
    using wal_bytes_frame [OF assms(1)] by (simp add: Let_def)
  have "off = 8 + length m" using assms(4) m(1) by simp
  then have bad: "(wal_bytes w)[off + i := y] = ?h @ wal_message ?bad @ ?z"
    unfolding bytes m using assms(2) by (simp add: list_update_append)
  have ok: "wal_record_ok ?p" by (rule wal_payload_spec(2) [OF assms(1)])
  then have "wal_record_ok ?bad" by (simp add: wal_record_ok_def)
  moreover have "wal_crc32c 0 (?d[i := y]) \<noteq> wal_crc32c 0 ?d"
    using wal_crc32c_one_byte [OF assms(3), of 0 "take i ?d" "drop (Suc i) ?d"] assms(2)
    by (simp add: id_take_nth_drop [symmetric] upd_conv_take_nth_drop)
  ultimately have "fst (wal_checked (wal_message ?bad)) = - 2"
    using assms(2) wal_payload_spec(3) [OF assms(1)] by (auto simp: wal_checked_def wal_parse_message)
  moreover have "length (wal_message ?bad) = length (wal_message ?p)" by (simp add: m)
  ultimately show ?thesis
    unfolding bad using decode_frame [OF wal_message_length [OF ok, folded \<open>length (wal_message ?bad) = _\<close>]
        wal_pad_less [of "wal_message ?p"], of "?z @ rest"] by simp
qed

lemma decode_checksum:
  assumes "cetcd_wal_decode fp = (0, Some rec, rest)" and "wr_data rec \<noteq> []"
  shows "wal_crc32c 0 (wr_data rec) = wr_crc rec"
  using assms by (auto simp: cetcd_wal_decode_def Let_def split: if_splits option.splits)

text \<open>
  C14. Corruption is detected by the checksum. Whatever the bytes of the file, the decoder returns no record whose
  data, if there is any, does not have the checksum stored with it; and when any one byte of the data of a
  written record has changed on disk, it returns the checksum error.
\<close>

theorem wal_detects_corruption:
  assumes "wal_rec_ok w" and "i < length (wr_data (wal_payload w))" and "y \<noteq> wr_data (wal_payload w) ! i"
    and "off = 8 + length (wal_message (wal_payload w)) - length (wr_data (wal_payload w))"
  shows "fst (cetcd_wal_decode ((wal_bytes w)[off + i := y] @ rest)) = - 2 \<and>
    (cetcd_wal_decode fp = (0, Some rec, fp') \<longrightarrow> wr_data rec = [] \<or> wal_crc32c 0 (wr_data rec) = wr_crc rec)"
  using decode_one_byte [OF assms] decode_checksum by blast

lemma sample_snapshot_data: "wr_data (wal_payload (W_SNAPSHOT 5 1)) = [8, 5, 16, 1]"
  by (simp add: Let_def wal_snapshot_data_def wbuf_write_varint_def varint_small)

theorem wal_detects_corruption_witness:
  "fst (cetcd_wal_decode ((wal_bytes (W_SNAPSHOT 5 1))
     [8 + length (wal_message (wal_payload (W_SNAPSHOT 5 1))) - 4 + 1 := 6] @ [])) = - 2"
  by (rule wal_detects_corruption [THEN conjunct1]) (simp_all add: sample_snapshot_data del: wal_payload.simps wal_bytes.simps)

text \<open>The bytes of the new log.\<close>

definition released :: "u64 \<Rightarrow> u64 \<Rightarrow> cetcd_hard_state \<Rightarrow> bytes" where
  "released idx t hs = concat (map wal_bytes [W_SNAPSHOT idx t, W_STATE hs])"

definition left_over :: "release_io \<Rightarrow> string \<Rightarrow> files \<Rightarrow> bytes" where
  "left_over io path fs = (if io_remove io then [] else case fs (path @ ''.new'') of Some old \<Rightarrow> old | None \<Rightarrow> [])"

lemma release_cases:
  assumes "cetcd_wal_encoder_release io path idx t hs fs = (rc, fs', opened)"
  shows "(\<forall>p. p \<noteq> path \<longrightarrow> p \<noteq> path @ ''.new'' \<longrightarrow> fs' p = fs p) \<and>
    (fs' path = fs path \<and> rc = - 1 \<or>
     fs' path = Some (left_over io path fs @ released idx t hs) \<and> idx \<noteq> 0 \<and> (rc = 0 \<and> opened \<or> rc = - 1 \<and> \<not> opened))"
proof -
  have ne: "path \<noteq> path @ ''.new''" by simp
  show ?thesis
    using assms unfolding cetcd_wal_encoder_release_def Let_def
    by (auto simp: remove_file_def released_def left_over_def cetcd_wal_encode_snapshot_def Let_def ne [symmetric] split: if_splits option.splits)
qed

text \<open>
  C15. Releasing the log replaces it as a whole or not at all, whatever calls of the file system fail: the log has
  its old contents and the encoder reports failure, or it has exactly the contents of the new file, and the encoder
  reports success or, when only reopening the log failed, failure. No other file changes besides the one with
  suffix \<^verbatim>\<open>.new\<close>. The new contents are the snapshot mark and the hard state alone, provided no file
  with that suffix was left over or it could be removed; otherwise its bytes stand in front of them, because
  the failure to remove it is ignored.
\<close>

theorem wal_release_atomic:
  assumes "cetcd_wal_encoder_release io path idx t hs fs = (rc, fs', opened)" and "fs path = Some old"
  shows "(\<forall>p. p \<noteq> path \<longrightarrow> p \<noteq> path @ ''.new'' \<longrightarrow> fs' p = fs p) \<and>
    (fs' path = Some old \<and> rc \<noteq> 0 \<or>
     (\<exists>new. fs' path = Some (left_over io path fs @ new) \<and> wal_read_all new = [W_SNAPSHOT idx t, W_STATE hs] \<and>
        (rc = 0 \<longleftrightarrow> opened))) \<and>
    (io_remove io \<or> fs (path @ ''.new'') = None \<longrightarrow> left_over io path fs = [])"
proof -
  have read: "wal_read_all (released idx t hs) = [W_SNAPSHOT idx t, W_STATE hs]" if "idx \<noteq> 0"
    using wal_read_records [of "[W_SNAPSHOT idx t, W_STATE hs]" False "[]"] that
    by (simp add: released_def wal_read_all_def wal_read_nil word_gt_0)
  have "io_remove io \<or> fs (path @ ''.new'') = None \<longrightarrow> left_over io path fs = []" by (auto simp: left_over_def)
  moreover have "fs' path = Some old \<and> rc \<noteq> 0 \<or> (\<exists>new. fs' path = Some (left_over io path fs @ new) \<and>
      wal_read_all new = [W_SNAPSHOT idx t, W_STATE hs] \<and> (rc = 0 \<longleftrightarrow> opened))"
    using release_cases [OF assms(1), THEN conjunct2]
  proof
    assume "fs' path = fs path \<and> rc = - 1"
    then show ?thesis using assms(2) by simp
  next
    assume "fs' path = Some (left_over io path fs @ released idx t hs) \<and> idx \<noteq> 0 \<and> (rc = 0 \<and> opened \<or> rc = - 1 \<and> \<not> opened)"
    then show ?thesis using read by force
  qed
  ultimately show ?thesis using release_cases [OF assms(1), THEN conjunct1] by blast
qed

theorem wal_release_atomic_witness:
  "\<exists>fs' new. cetcd_wal_encoder_release
       \<lparr>io_remove = True, io_open_new = True, io_written = length (the (cetcd_wal_encode_snapshot 5 1) @ cetcd_wal_encode_hard_state \<lparr>hs_term = 1, hs_vote = 1, hs_commit = 5\<rparr>),
          io_sync = True, io_rename = True, io_remove_again = True, io_reopen = True\<rparr>
       ''wal'' 5 1 \<lparr>hs_term = 1, hs_vote = 1, hs_commit = 5\<rparr> [''wal'' \<mapsto> [1, 2], ''wal.new'' \<mapsto> [3]] = (0, fs', True) \<and>
     fs' ''wal'' = Some new \<and> wal_read_all new = [W_SNAPSHOT 5 1, W_STATE \<lparr>hs_term = 1, hs_vote = 1, hs_commit = 5\<rparr>]"
proof -
  let ?io = "\<lparr>io_remove = True, io_open_new = True, io_written = length (the (cetcd_wal_encode_snapshot 5 1) @ cetcd_wal_encode_hard_state \<lparr>hs_term = 1, hs_vote = 1, hs_commit = 5\<rparr>),
          io_sync = True, io_rename = True, io_remove_again = True, io_reopen = True\<rparr>"
  let ?hs = "\<lparr>hs_term = 1, hs_vote = 1, hs_commit = 5\<rparr>" and ?fs = "[''wal'' \<mapsto> [1, 2], ''wal.new'' \<mapsto> [3]]"
  obtain rc fs' op where r: "cetcd_wal_encoder_release ?io ''wal'' 5 1 ?hs ?fs = (rc, fs', op)" by (rule prod_cases3)
  have "rc = 0 \<and> op"
    using r by (simp add: cetcd_wal_encoder_release_def cetcd_wal_encode_snapshot_def Let_def)
  moreover have "left_over ?io ''wal'' ?fs = []" by (simp add: left_over_def)
  ultimately show ?thesis using wal_release_atomic [OF r, of "[1, 2]"] r by fastforce
qed

lemma read_le64_halves:
  "read_le64 (take 4 (write_le64 a) @ take 4 (write_le64 b)) = take_bit 32 a OR push_bit 32 (take_bit 32 b)"
proof -
  let ?c = "take_bit 32 a OR push_bit 32 (take_bit 32 b)"
  have low: "ucast (drop_bit k ?c) = (ucast (drop_bit k a) :: byte)" if "k + 8 \<le> 32" for k
    using that by (intro bit_word_eqI) (auto simp: bit_simps)
  have high: "ucast (drop_bit (32 + k) ?c) = (ucast (drop_bit k b) :: byte)" if "k + 8 \<le> 32" for k
    using that by (intro bit_word_eqI) (auto simp: bit_simps)
  have "write_le64 ?c = take 4 (write_le64 a) @ take 4 (write_le64 b)"
    using low [of 0] low [of 8] low [of 16] low [of 24] high [of 0] high [of 8] high [of 16] high [of 24]
    by (simp add: write_le64_def)
  then show ?thesis by (metis read_write_le64_exact)
qed

lemma frame_header_low:
  assumes "n < 2 ^ 24"
  shows "take_bit 24 (frame_header n pad) = of_nat n"
proof -
  obtain c where "frame_header n pad = take_bit 56 (of_nat n) OR push_bit 56 c"
    by (rule frame_header_split)
  then have "take_bit 24 (frame_header n pad) = take_bit 24 (of_nat n)"
    by (simp only:) (rule bit_word_eqI, auto simp: bit_simps)
  then show ?thesis using take_bit_of_nat_small [OF assms] by simp
qed

lemma wal_bytes_length:
  assumes "wal_rec_ok w"
  shows "length (wal_bytes w) \<le> 48 + length (wr_data (wal_payload w))"
proof -
  let ?p = "wal_payload w"
  have "length (wal_message ?p) \<le> 33 + length (wr_data ?p)"
    using length_varint_u64 [of "ucast (wal_type_code (wr_type ?p))"] length_varint_u64 [of "ucast (wr_crc ?p)"]
      length_varint_u64 [of "of_nat (length (wr_data ?p))"]
    by (simp add: wal_message_def wbuf_write_varint_def)
  then show ?thesis
    using wal_bytes_frame [OF assms] wal_pad_less [of "wal_message ?p"] by (simp add: Let_def)
qed

text \<open>
  The encoder reopens a log for appending and does not cut off a torn tail. When a
  crash has left only the first four bytes of a record, every record appended after the
  restart is lost: the next restart takes them together with the length of the next
  record for one length of at least \<open>2 ^ 32\<close> bytes and stops.
\<close>

theorem append_after_torn_lost:
  assumes "wal_rec_ok w" and "wal_rec_ok w'" and "length (wal_bytes w') < 2 ^ 24"
    and "length (wal_bytes w' @ rest) < 2 ^ 32"
  shows "wal_read_all (take 4 (wal_bytes w) @ wal_bytes w' @ rest) = []"
proof -
  let ?b = "wal_message (wal_payload w)" and ?b' = "wal_message (wal_payload w')"
  define h where "h = frame_header (length ?b) (wal_pad ?b)"
  define h' where "h' = frame_header (length ?b') (wal_pad ?b')"
  obtain t t' where bytes: "wal_bytes w = write_le64 h @ t" "wal_bytes w' = write_le64 h' @ t'"
    and t': "length t' \<ge> length ?b'"
    using wal_bytes_frame [OF assms(1)] wal_bytes_frame [OF assms(2)] by (auto simp: Let_def h_def h'_def)
  define fp where "fp = take 4 (wal_bytes w) @ wal_bytes w' @ rest"
  have hdr: "take 8 fp = take 4 (write_le64 h) @ take 4 (write_le64 h')" "length (drop 8 fp) < 2 ^ 32"
    using assms(4) by (simp_all add: bytes fp_def)
  define plen where "plen = unat ((take_bit 32 h OR push_bit 32 (take_bit 32 h')) AND 0x00FFFFFFFFFFFFFF)"
  have "0 < length ?b'" "length ?b' < 2 ^ 24"
    using wal_message_length(1) [OF wal_payload_spec(2) [OF assms(2)]] assms(3) t' by (auto simp: bytes)
  have "drop_bit 32 ((take_bit 32 h OR push_bit 32 (take_bit 32 h')) AND mask 56) = take_bit 24 h'"
    by (rule bit_word_eqI) (auto simp: bit_simps)
  then have "unat (drop_bit 32 ((take_bit 32 h OR push_bit 32 (take_bit 32 h')) AND mask 56)) = unat (take_bit 24 h')"
    by (rule arg_cong)
  then have "plen div 2 ^ 32 = unat (take_bit 24 h')"
    by (simp only: plen_def mask_56 unat_drop_bit_eq drop_bit_nat_def)
  also have "\<dots> = length ?b'"
    using frame_header_low [OF \<open>length ?b' < 2 ^ 24\<close>, of "wal_pad ?b'"] \<open>length ?b' < 2 ^ 24\<close>
    by (simp add: h'_def unat_of_nat)
  finally have "plen div 2 ^ 32 \<noteq> 0" using \<open>0 < length ?b'\<close> by linarith
  then have "2 ^ 32 \<le> plen" by (rule contrapos_np) simp
  then have "length (take plen (drop 8 fp)) \<noteq> plen" "0 < plen" using hdr(2) by auto
  moreover have "length (take 8 fp) = 8" unfolding hdr(1) by simp
  moreover have "plen = unat (read_le64 (take 8 fp) AND 0x00FFFFFFFFFFFFFF)"
    unfolding hdr(1) read_le64_halves plen_def ..
  ultimately have "fst (cetcd_wal_decode fp) = - 1"
    by (simp only: cetcd_wal_decode_def Let_def if_True if_False fst_conv) simp
  then show ?thesis
    unfolding fp_def [symmetric] wal_read_all_def by (subst wal_read.simps) (auto split: prod.splits)
qed

theorem append_after_torn_lost_witness:
  "wal_read_all (take 4 (wal_bytes (W_SNAPSHOT 5 1)) @ wal_bytes (W_SNAPSHOT 6 1) @ []) = []"
proof -
  have ok: "wal_rec_ok (W_SNAPSHOT 6 1)" by simp
  have "length (wr_data (wal_payload (W_SNAPSHOT 6 1))) = 4"
    by (simp add: Let_def wal_snapshot_data_def wbuf_write_varint_def varint_small)
  then show ?thesis
    using wal_bytes_length [OF ok] by (intro append_after_torn_lost) auto
qed

end
