(* ===== verification/Raft_Wire.thy ===== *)
theory Raft_Wire
  imports Wal
begin

text \<open>
  The peer protocol of the Raft node: \<^verbatim>\<open>cetcd_msg_encode_wire\<close> and \<^verbatim>\<open>cetcd_msg_decode_wire\<close>
  of \<^verbatim>\<open>src/raft/raft.c\<close>. The encoder writes through a pointer into a buffer whose size it
  computes first; here it returns the bytes, and \<open>wire_need\<close> is the size it allocates. The
  decoder walks the bytes from its position to the end.
\<close>

fun msg_type_code :: "cetcd_msg_type \<Rightarrow> u32" where
  "msg_type_code CETCD_MSG_HUP = 0"
| "msg_type_code CETCD_MSG_BEAT = 1"
| "msg_type_code CETCD_MSG_PROP = 2"
| "msg_type_code CETCD_MSG_APP = 3"
| "msg_type_code CETCD_MSG_APP_RESP = 4"
| "msg_type_code CETCD_MSG_VOTE = 5"
| "msg_type_code CETCD_MSG_VOTE_RESP = 6"
| "msg_type_code CETCD_MSG_SNAP = 7"
| "msg_type_code CETCD_MSG_HEARTBEAT = 8"
| "msg_type_code CETCD_MSG_HEARTBEAT_RESP = 9"
| "msg_type_code CETCD_MSG_UNREACHABLE = 10"
| "msg_type_code CETCD_MSG_SNAP_STATUS = 11"
| "msg_type_code CETCD_MSG_CHECK_QUORUM = 12"
| "msg_type_code CETCD_MSG_TRANSFER_LEADER = 13"
| "msg_type_code CETCD_MSG_TIMEOUT_NOW = 14"
| "msg_type_code CETCD_MSG_READ_INDEX = 15"
| "msg_type_code CETCD_MSG_READ_INDEX_RESP = 16"
| "msg_type_code CETCD_MSG_PRE_VOTE = 17"
| "msg_type_code CETCD_MSG_PRE_VOTE_RESP = 18"
| "msg_type_code CETCD_MSG_COMPACT_HASH = 19"
| "msg_type_code (CETCD_MSG_OTHER c) = c"

definition named_msg_types :: "cetcd_msg_type list" where
  "named_msg_types = [CETCD_MSG_HUP, CETCD_MSG_BEAT, CETCD_MSG_PROP, CETCD_MSG_APP, CETCD_MSG_APP_RESP,
     CETCD_MSG_VOTE, CETCD_MSG_VOTE_RESP, CETCD_MSG_SNAP, CETCD_MSG_HEARTBEAT, CETCD_MSG_HEARTBEAT_RESP,
     CETCD_MSG_UNREACHABLE, CETCD_MSG_SNAP_STATUS, CETCD_MSG_CHECK_QUORUM, CETCD_MSG_TRANSFER_LEADER,
     CETCD_MSG_TIMEOUT_NOW, CETCD_MSG_READ_INDEX, CETCD_MSG_READ_INDEX_RESP, CETCD_MSG_PRE_VOTE,
     CETCD_MSG_PRE_VOTE_RESP, CETCD_MSG_COMPACT_HASH]"

definition msg_code_type :: "u32 \<Rightarrow> cetcd_msg_type" where
  "msg_code_type c = (if c < 20 then named_msg_types ! unat c else CETCD_MSG_OTHER c)"

section \<open>Encoding\<close>

definition TAG_U64 :: "byte \<Rightarrow> u64 \<Rightarrow> bytes" where
  "TAG_U64 fnum val = (push_bit 3 fnum OR 0) # wire_u64 val"

definition TAG_U32 :: "byte \<Rightarrow> u32 \<Rightarrow> bytes" where
  "TAG_U32 fnum val = (push_bit 3 fnum OR 0) # wire_u32 val"

definition TAG_BYTES :: "byte \<Rightarrow> bytes \<Rightarrow> bytes" where
  "TAG_BYTES fnum data = (push_bit 3 fnum OR 2) # wire_u32 (of_nat (length data)) @ data"

definition wire_need :: "cetcd_msg \<Rightarrow> nat" where
  "wire_need msg =
     128 + (if m_snapshot msg \<noteq> 0 then 16 else 0)
     + (if length (m_context msg) > 0 then 10 + length (m_context msg) else 0)
     + sum_list (map (\<lambda>e. 1 + 5 + 40 + length (e_data e)) (m_entries msg))"

definition encode_entry_wire :: "cetcd_entry \<Rightarrow> bytes" where
  "encode_entry_wire e =
     TAG_U64 1 (e_term e) @ TAG_U64 2 (e_index e) @ TAG_U32 3 (entry_type_code (e_type e)) @
     (if length (e_data e) > 0 then TAG_BYTES 4 (e_data e) else [])"

definition encode_entry_framed :: "cetcd_entry \<Rightarrow> bytes" where
  "encode_entry_framed e =
     (let eb = encode_entry_wire e; elen = of_nat (length eb) :: u32
      in (push_bit 3 11 OR 2) # wire_u32 elen @ take (unat elen) eb)"

definition cetcd_msg_encode_wire :: "cetcd_msg \<Rightarrow> bytes" where
  "cetcd_msg_encode_wire msg =
     TAG_U32 1 (msg_type_code (m_type msg)) @
     TAG_U64 2 (m_to msg) @ TAG_U64 3 (m_from msg) @ TAG_U64 4 (m_term msg) @
     TAG_U64 5 (m_log_term msg) @ TAG_U64 6 (m_index msg) @ TAG_U64 7 (m_commit msg) @
     TAG_U64 8 (m_reject msg) @
     (if m_snapshot msg \<noteq> 0 then TAG_U64 9 (m_snapshot msg) else []) @
     (if length (m_context msg) > 0 then TAG_BYTES 10 (m_context msg) else []) @
     concat (map encode_entry_framed (m_entries msg))"

section \<open>Decoding\<close>

lemma dec_loop_shorter: "dec_loop v s bs = (x, rest) \<Longrightarrow> length rest \<le> length bs"
  by (induction v s bs rule: dec_loop.induct) (auto simp: Let_def split: if_splits dest: le_SucI)

lemma dec_shorter:
  "dec_u64 bs = (x, rest) \<Longrightarrow> length rest \<le> length bs"
  "dec_u32 bs = (y, rest) \<Longrightarrow> length rest \<le> length bs"
  unfolding dec_u64_def dec_u32_def by (rule dec_loop_shorter, assumption)+

function decode_entry_wire :: "bytes \<Rightarrow> cetcd_entry \<Rightarrow> cetcd_entry" where
  "decode_entry_wire [] e = e"
| "decode_entry_wire (etag # bs) e =
     (let ef = drop_bit 3 etag; ew = etag AND 0x07 in
      if ew = 0 then
        (if ef = 1 then (case dec_u64 bs of (v, r) \<Rightarrow> decode_entry_wire r (e\<lparr>e_term := v\<rparr>))
         else if ef = 2 then (case dec_u64 bs of (v, r) \<Rightarrow> decode_entry_wire r (e\<lparr>e_index := v\<rparr>))
         else if ef = 3 then
           (case dec_u32 bs of (v, r) \<Rightarrow> decode_entry_wire r (e\<lparr>e_type := entry_code_type v\<rparr>))
         else (case dec_u64 bs of (v, r) \<Rightarrow> decode_entry_wire r e))
      else if ew = 2 then
        (case dec_u32 bs of (dlen, r) \<Rightarrow>
           decode_entry_wire (drop (unat dlen) r)
             (if ef = 4 \<and> unat dlen \<le> length r then e\<lparr>e_data := take (unat dlen) r\<rparr> else e))
      else e)"
  by pat_completeness auto
termination decode_entry_wire
  by (relation "measure (length \<circ> fst)") (auto simp: less_Suc_eq_le dest!: dec_shorter [OF sym])

text \<open>The field loop: the message and the entries read so far.\<close>

function decode_msg_loop :: "bytes \<Rightarrow> cetcd_msg \<Rightarrow> cetcd_entry list \<Rightarrow> cetcd_msg \<times> cetcd_entry list" where
  "decode_msg_loop [] msg es = (msg, es)"
| "decode_msg_loop (tag # bs) msg es =
     (let fnum = drop_bit 3 tag; wire = tag AND 0x07 in
      if wire = 0 then
        (if fnum = 1 then
           (case dec_u32 bs of (v, r) \<Rightarrow> decode_msg_loop r (msg\<lparr>m_type := msg_code_type v\<rparr>) es)
         else case dec_u64 bs of (v, r) \<Rightarrow>
           decode_msg_loop r
             (if fnum = 2 then msg\<lparr>m_to := v\<rparr>
              else if fnum = 3 then msg\<lparr>m_from := v\<rparr>
              else if fnum = 4 then msg\<lparr>m_term := v\<rparr>
              else if fnum = 5 then msg\<lparr>m_log_term := v\<rparr>
              else if fnum = 6 then msg\<lparr>m_index := v\<rparr>
              else if fnum = 7 then msg\<lparr>m_commit := v\<rparr>
              else if fnum = 8 then msg\<lparr>m_reject := v\<rparr>
              else if fnum = 9 then msg\<lparr>m_snapshot := v\<rparr>
              else msg) es)
      else if wire = 2 then
        (case dec_u32 bs of (blen, r) \<Rightarrow>
           if unat blen > length r then (msg, es)
           else if fnum = 10 then
             decode_msg_loop (drop (unat blen) r) (msg\<lparr>m_context := take (unat blen) r\<rparr>) es
           else if fnum = 11 \<and> length es < 256 then
             decode_msg_loop (drop (unat blen) r) msg
               (es @ [decode_entry_wire (take (unat blen) r) zero_entry])
           else decode_msg_loop (drop (unat blen) r) msg es)
      else (msg, es))"
  by pat_completeness auto
termination decode_msg_loop
  by (relation "measure (length \<circ> fst)") (auto simp: less_Suc_eq_le dest!: dec_shorter [OF sym])

definition cetcd_msg_decode_wire :: "bytes \<Rightarrow> cetcd_msg option" where
  "cetcd_msg_decode_wire data =
     (if data = [] then None
      else case decode_msg_loop data zero_msg [] of
        (msg, es) \<Rightarrow> Some (if length es > 0 then msg\<lparr>m_entries := es\<rparr> else msg))"

declare decode_entry_wire.simps(2) [simp del] decode_msg_loop.simps(2) [simp del]

section \<open>Bounds of the encoder's buffers\<close>

lemma length_TAG:
  "length (TAG_U64 f v) \<le> 11" "length (TAG_U32 f w) \<le> 6" "length (TAG_BYTES f d) \<le> 6 + length d"
  using length_varint_u64 [of v] length_varint_u32 [of w] length_varint_u32 [of "of_nat (length d)"]
  by (simp_all add: TAG_U64_def TAG_U32_def TAG_BYTES_def wire_u64_def wire_u32_def)

lemma length_entry_wire: "length (encode_entry_wire e) \<le> 40 + length (e_data e)"
  using length_TAG(1) [of 1 "e_term e"] length_TAG(1) [of 2 "e_index e"]
    length_TAG(2) [of 3 "entry_type_code (e_type e)"] length_TAG(3) [of 4 "e_data e"]
  by (simp add: encode_entry_wire_def)

lemma length_entry_framed: "length (encode_entry_framed e) \<le> 1 + 5 + 40 + length (e_data e)"
  using length_entry_wire [of e] length_varint_u32 [of "of_nat (length (encode_entry_wire e))"]
  by (simp add: encode_entry_framed_def Let_def wire_u32_def min_def)

lemma length_entries_framed:
  "length (concat (map encode_entry_framed es)) \<le> sum_list (map (\<lambda>e. 1 + 5 + 40 + length (e_data e)) es)"
proof (induction es)
  case (Cons e es)
  then show ?case using length_entry_framed [of e] by simp
qed simp

text \<open>
  C16. The encoder never writes past its buffers: the bytes of a message fit the size
  computed before the allocation, and those of each entry fit the temporary buffer.
\<close>

theorem msg_encode_within_buffer:
  "length (cetcd_msg_encode_wire msg) \<le> wire_need msg \<and>
   length (encode_entry_wire e) \<le> 40 + length (e_data e)"
proof -
  note t = length_TAG(1) [of 2 "m_to msg"] length_TAG(1) [of 3 "m_from msg"] length_TAG(1) [of 4 "m_term msg"]
    length_TAG(1) [of 5 "m_log_term msg"] length_TAG(1) [of 6 "m_index msg"] length_TAG(1) [of 7 "m_commit msg"]
    length_TAG(1) [of 8 "m_reject msg"] length_TAG(1) [of 9 "m_snapshot msg"]
    length_TAG(2) [of 1 "msg_type_code (m_type msg)"] length_TAG(3) [of 10 "m_context msg"]
  have "length (cetcd_msg_encode_wire msg) \<le> wire_need msg"
    using t length_entries_framed [of "m_entries msg"]
    unfolding cetcd_msg_encode_wire_def wire_need_def by (simp add: length_concat o_def)
  with length_entry_wire show ?thesis by blast
qed

section \<open>Round trip\<close>

lemma entry_step:
  "decode_entry_wire (TAG_U64 1 v @ bs) e = decode_entry_wire bs (e\<lparr>e_term := v\<rparr>)"
  "decode_entry_wire (TAG_U64 2 v @ bs) e = decode_entry_wire bs (e\<lparr>e_index := v\<rparr>)"
  "decode_entry_wire (TAG_U32 3 w @ bs) e = decode_entry_wire bs (e\<lparr>e_type := entry_code_type w\<rparr>)"
  "length d < 2 ^ 32 \<Longrightarrow> decode_entry_wire (TAG_BYTES 4 d) e = e\<lparr>e_data := d\<rparr>"
  by (simp_all add: TAG_U64_def TAG_U32_def TAG_BYTES_def decode_entry_wire.simps(2) codec_simps Let_def unat_of_nat)

definition wire_entry_ok :: "cetcd_entry \<Rightarrow> bool" where
  "wire_entry_ok e \<longleftrightarrow> e_type e \<in> range entry_code_type \<and> length (e_data e) < 2 ^ 31"

lemma decode_encode_entry:
  assumes "wire_entry_ok e"
  shows "decode_entry_wire (encode_entry_wire e) zero_entry = e"
proof -
  have "entry_code_type (entry_type_code (e_type e)) = e_type e"
    using assms by (auto simp: wire_entry_ok_def entry_code_type_def)
  moreover have "length (e_data e) < 2 ^ 32" using assms by (simp add: wire_entry_ok_def)
  ultimately show ?thesis
    unfolding encode_entry_wire_def using entry_step(3) [where bs = "[]"] by (auto simp: entry_step zero_entry_def)
qed

lemma msg_step:
  "decode_msg_loop (TAG_U32 1 w @ bs) m es = decode_msg_loop bs (m\<lparr>m_type := msg_code_type w\<rparr>) es"
  "decode_msg_loop (TAG_U64 2 v @ bs) m es = decode_msg_loop bs (m\<lparr>m_to := v\<rparr>) es"
  "decode_msg_loop (TAG_U64 3 v @ bs) m es = decode_msg_loop bs (m\<lparr>m_from := v\<rparr>) es"
  "decode_msg_loop (TAG_U64 4 v @ bs) m es = decode_msg_loop bs (m\<lparr>m_term := v\<rparr>) es"
  "decode_msg_loop (TAG_U64 5 v @ bs) m es = decode_msg_loop bs (m\<lparr>m_log_term := v\<rparr>) es"
  "decode_msg_loop (TAG_U64 6 v @ bs) m es = decode_msg_loop bs (m\<lparr>m_index := v\<rparr>) es"
  "decode_msg_loop (TAG_U64 7 v @ bs) m es = decode_msg_loop bs (m\<lparr>m_commit := v\<rparr>) es"
  "decode_msg_loop (TAG_U64 8 v @ bs) m es = decode_msg_loop bs (m\<lparr>m_reject := v\<rparr>) es"
  "decode_msg_loop (TAG_U64 9 v @ bs) m es = decode_msg_loop bs (m\<lparr>m_snapshot := v\<rparr>) es"
  "length d < 2 ^ 32 \<Longrightarrow> decode_msg_loop (TAG_BYTES 10 d @ bs) m es = decode_msg_loop bs (m\<lparr>m_context := d\<rparr>) es"
  by (simp_all add: TAG_U64_def TAG_U32_def TAG_BYTES_def decode_msg_loop.simps(2) codec_simps Let_def unat_of_nat)

lemma msg_step_entry:
  assumes "wire_entry_ok e" and "length es < 256"
  shows "decode_msg_loop (encode_entry_framed e @ bs) m es = decode_msg_loop bs m (es @ [e])"
proof -
  have "length (encode_entry_wire e) < 2 ^ 32"
    using length_entry_wire [of e] assms(1) by (simp add: wire_entry_ok_def)
  then show ?thesis
    using assms(2) decode_encode_entry [OF assms(1)]
    by (simp add: encode_entry_framed_def Let_def decode_msg_loop.simps(2) codec_simps unat_of_nat)
qed

lemma msg_step_entries:
  "\<forall>e \<in> set xs. wire_entry_ok e \<Longrightarrow> length es + length xs \<le> 256 \<Longrightarrow>
     decode_msg_loop (concat (map encode_entry_framed xs)) m es = (m, es @ xs)"
  by (induction xs arbitrary: es) (simp_all add: msg_step_entry)

lemma named_msg_codes: "\<forall>t \<in> set named_msg_types. msg_code_type (msg_type_code t) = t"
  by code_simp

lemma msg_code_type_code: "t \<in> range msg_code_type \<Longrightarrow> msg_code_type (msg_type_code t) = t"
proof (elim imageE)
  fix c
  assume t: "t = msg_code_type c"
  show ?thesis
  proof (cases "c < 20")
    case True
    then have "unat c < length named_msg_types" by (simp add: word_less_nat_alt named_msg_types_def)
    with True t have "t \<in> set named_msg_types" by (simp add: msg_code_type_def)
    then show ?thesis using named_msg_codes by blast
  qed (simp add: t msg_code_type_def)
qed

definition wire_msg_ok :: "cetcd_msg \<Rightarrow> bool" where
  "wire_msg_ok msg \<longleftrightarrow> m_type msg \<in> range msg_code_type \<and> length (m_context msg) < 2 ^ 32 \<and>
     length (m_entries msg) \<le> 256 \<and> (\<forall>e \<in> set (m_entries msg). wire_entry_ok e)"

text \<open>
  C17. A Raft message survives the wire: decoding what the encoder wrote returns the same
  message, for messages of at most 256 entries, the most a leader sends in one.
\<close>

theorem msg_wire_roundtrip:
  assumes "wire_msg_ok msg"
  shows "cetcd_msg_decode_wire (cetcd_msg_encode_wire msg) = Some msg"
proof -
  have ok: "msg_code_type (msg_type_code (m_type msg)) = m_type msg" "length (m_context msg) < 2 ^ 32"
    "length (m_entries msg) \<le> 256" "\<forall>e \<in> set (m_entries msg). wire_entry_ok e"
    using assms msg_code_type_code by (auto simp: wire_msg_ok_def)
  have "decode_msg_loop (cetcd_msg_encode_wire msg) zero_msg [] = (msg\<lparr>m_entries := []\<rparr>, m_entries msg)"
    unfolding cetcd_msg_encode_wire_def
    using ok by (cases "m_snapshot msg = 0"; cases "m_context msg = []")
      (simp_all add: msg_step msg_step_entries zero_msg_def)
  moreover have "cetcd_msg_encode_wire msg \<noteq> []" by (simp add: cetcd_msg_encode_wire_def TAG_U32_def)
  ultimately show ?thesis by (simp add: cetcd_msg_decode_wire_def)
qed

definition sample_app :: cetcd_msg where
  "sample_app = zero_msg\<lparr>m_type := CETCD_MSG_APP, m_to := 2, m_from := 1, m_term := 300, m_context := [1, 2],
     m_entries := [\<lparr>e_term = 300, e_index = 1, e_type = CETCD_ENTRY_NORMAL, e_data = [7, 8]\<rparr>]\<rparr>"

theorem msg_wire_roundtrip_witness:
  "cetcd_msg_decode_wire (cetcd_msg_encode_wire sample_app) = Some sample_app"
proof (rule msg_wire_roundtrip)
  have "CETCD_MSG_APP \<in> range msg_code_type"
    by (rule range_eqI [of _ _ 3]) (simp add: msg_code_type_def named_msg_types_def)
  moreover have "CETCD_ENTRY_NORMAL \<in> range entry_code_type"
    by (rule range_eqI [of _ _ 0]) (simp add: entry_code_type_def)
  ultimately show "wire_msg_ok sample_app"
    by (simp add: wire_msg_ok_def wire_entry_ok_def sample_app_def zero_msg_def)
qed

end
