(* ===== verification/Slice.thy ===== *)
theory Slice
  imports Prelude
begin

text \<open>
  Byte slices, \<^verbatim>\<open>src/base/slice.c\<close>: comparison, prefix tests and the
  computation of the exclusive upper bound of a key prefix. A slice is the list
  of its bytes; \<^verbatim>\<open>memcmp\<close> is the C library's, with its result normalised to
  its sign (the callers only test the sign).
\<close>

fun memcmp :: "bytes \<Rightarrow> bytes \<Rightarrow> nat \<Rightarrow> int" where
  "memcmp a b 0 = 0"
| "memcmp (x # a) (y # b) (Suc n) =
     (if x < y then - 1 else if x > y then 1 else memcmp a b n)"
| "memcmp a b (Suc n) = 0"

definition cetcd_slice_equal :: "bytes \<Rightarrow> bytes \<Rightarrow> bool" where
  "cetcd_slice_equal a b =
     (if length a \<noteq> length b then False
      else if length a = 0 then True
      else memcmp a b (length a) = 0)"

definition cetcd_slice_compare :: "bytes \<Rightarrow> bytes \<Rightarrow> int" where
  "cetcd_slice_compare a b =
     (let min_len = (if length a < length b then length a else length b);
          r = (if min_len > 0 then memcmp a b min_len else 0)
      in if r \<noteq> 0 then r
         else if length a < length b then - 1
         else if length a > length b then 1
         else 0)"

definition cetcd_slice_has_prefix :: "bytes \<Rightarrow> bytes \<Rightarrow> bool" where
  "cetcd_slice_has_prefix s prefix =
     (if length prefix > length s then False
      else if length prefix = 0 then True
      else memcmp s prefix (length prefix) = 0)"

definition cetcd_slice_has_suffix :: "bytes \<Rightarrow> bytes \<Rightarrow> bool" where
  "cetcd_slice_has_suffix s suffix =
     (if length suffix > length s then False
      else if length suffix = 0 then True
      else memcmp (drop (length s - length suffix) s) suffix (length suffix) = 0)"

text \<open>
  The loop of \<^verbatim>\<open>cetcd_key_prefix_end\<close> runs \<open>i\<close> from the length of the key
  down to 1 over the copy \<open>out\<close>; reaching 0 means every byte was 0xff.
\<close>

fun prefix_end_loop :: "bytes \<Rightarrow> nat \<Rightarrow> bytes" where
  "prefix_end_loop out 0 = [0]"
| "prefix_end_loop out (Suc idx) =
     (if out ! idx < 0xff then take idx out @ [out ! idx + 1]
      else prefix_end_loop out idx)"

text \<open>The bytes written to \<open>out\<close>; \<open>None\<close> is the return value 0 (buffer too small).\<close>

definition cetcd_key_prefix_end :: "nat \<Rightarrow> bytes \<Rightarrow> bytes option" where
  "cetcd_key_prefix_end out_cap key =
     (if out_cap = 0 then None
      else if length key = 0 then Some [0]
      else if out_cap < length key then None
      else Some (prefix_end_loop key (length key)))"

section \<open>The comparison is the lexicographic order of bytes\<close>

lemma memcmp_zero_iff:
  "n \<le> length a \<Longrightarrow> n \<le> length b \<Longrightarrow> memcmp a b n = 0 \<longleftrightarrow> take n a = take n b"
  by (induction a b n rule: memcmp.induct) auto

lemma cetcd_slice_equal_iff [simp]: "cetcd_slice_equal a b \<longleftrightarrow> a = b"
  by (auto simp: cetcd_slice_equal_def memcmp_zero_iff)

lemma cetcd_slice_has_prefix_iff [simp]:
  "cetcd_slice_has_prefix s p \<longleftrightarrow> (\<exists>t. s = p @ t)"
  by (auto simp: cetcd_slice_has_prefix_def memcmp_zero_iff not_less)
    (metis append_take_drop_id)+

lemma cetcd_slice_has_suffix_iff [simp]:
  "cetcd_slice_has_suffix s p \<longleftrightarrow> (\<exists>t. s = t @ p)"
  by (auto simp: cetcd_slice_has_suffix_def memcmp_zero_iff not_less)
    (metis append_take_drop_id)+

lemma cetcd_slice_compare_Cons:
  "cetcd_slice_compare (x # a) (y # b) =
     (if x < y then - 1 else if y < x then 1 else cetcd_slice_compare a b)"
  by (auto simp: cetcd_slice_compare_def Let_def split: if_splits)

lemma cetcd_slice_compare_Nil:
  "cetcd_slice_compare [] b = (if b = [] then 0 else - 1)"
  "cetcd_slice_compare (x # a) [] = 1"
  by (auto simp: cetcd_slice_compare_def Let_def)

lemma cetcd_slice_compare_lex:
  "cetcd_slice_compare a b = (if a < b then - 1 else if a = b then 0 else 1)"
proof (induction a arbitrary: b)
  case Nil
  then show ?case by (cases b) (auto simp: cetcd_slice_compare_Nil)
next
  case (Cons x a)
  then show ?case
    by (cases b) (auto simp: cetcd_slice_compare_Nil cetcd_slice_compare_Cons)
qed

lemma cetcd_slice_compare_iff [simp]:
  "cetcd_slice_compare a b < 0 \<longleftrightarrow> a < b"
  "cetcd_slice_compare a b = 0 \<longleftrightarrow> a = b"
  "0 < cetcd_slice_compare a b \<longleftrightarrow> b < a"
  "0 \<le> cetcd_slice_compare a b \<longleftrightarrow> b \<le> a"
  by (auto simp: cetcd_slice_compare_lex)

section \<open>The end of a prefix\<close>

lemma append_less_same_iff [simp]:
  fixes p :: "'a::linorder list"
  shows "p @ a < p @ b \<longleftrightarrow> a < b"
  by (induction p) auto

lemma append_le_same_iff [simp]:
  fixes p :: "'a::linorder list"
  shows "p @ a \<le> p @ b \<longleftrightarrow> a \<le> b"
  by (induction p) auto

lemma prefix_end_loop_ff:
  assumes "\<forall>i < n. out ! i = 0xff"
  shows "prefix_end_loop out n = [0]"
  using assms by (induction n) auto

lemma prefix_end_loop_step:
  assumes "k < n" and "out ! k < 0xff" and "\<forall>i. k < i \<and> i < n \<longrightarrow> \<not> out ! i < 0xff"
  shows "prefix_end_loop out n = take k out @ [out ! k + 1]"
  using assms
proof (induction n)
  case (Suc n)
  then show ?case by (cases "k = n") auto
qed simp

lemma byte_not_less_ff: "\<not> (x::byte) < 0xff \<longleftrightarrow> x = 0xff"
proof -
  have "(0xff::byte) = - 1" by simp
  then show ?thesis
    by (metis less_imp_neq_max_word word_order.not_eq_extremum)
qed

lemma last_non_ff:
  assumes "\<exists>x \<in> set key. x \<noteq> (0xff::byte)"
  obtains p b n where "key = p @ b # replicate n 0xff" and "b < 0xff"
  using assms
proof (induction key arbitrary: thesis rule: rev_induct)
  case Nil
  then show ?case by simp
next
  case (snoc x key)
  show ?case
  proof (cases "x = 0xff")
    case False
    then have "x < 0xff" using byte_not_less_ff by blast
    then show ?thesis using snoc.prems(1) [of key x 0] by simp
  next
    case True
    with snoc.prems(2) have "\<exists>x \<in> set key. x \<noteq> 0xff" by auto
    then obtain p b n where "key = p @ b # replicate n 0xff" "b < 0xff"
      using snoc.IH by blast
    with True show ?thesis
      using snoc.prems(1) [of p b "Suc n"] by (simp add: replicate_append_same)
  qed
qed

lemma prefix_end_loop_eq:
  assumes "b < 0xff"
  shows "prefix_end_loop (p @ b # replicate n 0xff) (length (p @ b # replicate n 0xff))
           = p @ [b + 1]"
proof -
  let ?out = "p @ b # replicate n 0xff"
  have "prefix_end_loop ?out (length ?out) = take (length p) ?out @ [?out ! length p + 1]"
    by (rule prefix_end_loop_step) (use assms in \<open>auto simp: nth_append nth_Cons'\<close>)
  then show ?thesis by simp
qed

lemma byte_less_add_one: "b < (0xff::byte) \<Longrightarrow> x < b + 1 \<longleftrightarrow> x \<le> b"
  by (rule less_add_one_iff) (auto dest: less_imp_neq_max_word)

lemma between_append:
  fixes p :: "'a::linorder list"
  assumes "p @ a \<le> k" and "k < p @ c"
  shows "\<exists>r. k = p @ r"
  using assms
proof (induction p arbitrary: k)
  case (Cons x p)
  then show ?case by (cases k) (auto split: if_splits)
qed simp

lemma replicate_ff_le_iff: "replicate n (0xff::byte) \<le> r \<longleftrightarrow> (\<exists>t. r = replicate n 0xff @ t)"
proof (induction n arbitrary: r)
  case (Suc n)
  show ?case
  proof (cases r)
    case (Cons x r')
    then show ?thesis using Suc.IH [of r'] byte_not_less_ff [of x] by (auto simp: not_less)
  qed simp
qed simp

text \<open>
  For a key with a byte other than 0xff, the half-open interval from the key to
  \<^verbatim>\<open>cetcd_key_prefix_end\<close> of it holds exactly the keys that have the key as a prefix
  (so a prefix scan is a range scan).
\<close>

theorem key_prefix_end_range:
  assumes "cetcd_key_prefix_end cap key = Some e" and "\<exists>x \<in> set key. x \<noteq> 0xff"
  shows "cetcd_slice_has_prefix k key \<longleftrightarrow>
           cetcd_slice_compare k key \<ge> 0 \<and> cetcd_slice_compare k e < 0"
proof -
  from assms(2) obtain p b n where key: "key = p @ b # replicate n 0xff" and b: "b < 0xff"
    by (rule last_non_ff)
  from assms(1) key have e: "e = p @ [b + 1]"
    using prefix_end_loop_eq [OF b] by (auto simp: cetcd_key_prefix_end_def split: if_splits)
  have "(\<exists>t. k = key @ t) \<longleftrightarrow> key \<le> k \<and> k < e"
  proof
    assume "\<exists>t. k = key @ t"
    then show "key \<le> k \<and> k < e"
      using b by (auto simp: key e byte_less_add_one replicate_ff_le_iff)
  next
    assume k: "key \<le> k \<and> k < e"
    then obtain r where r: "k = p @ r"
      unfolding key e using between_append by blast
    from k have "b # replicate n 0xff \<le> r" by (simp add: key r)
    then obtain c s where "r = c # s" by (cases r) auto
    with k r b show "\<exists>t. k = key @ t"
      by (auto simp: key e byte_less_add_one replicate_ff_le_iff)
  qed
  then show ?thesis by simp
qed

theorem key_prefix_end_range_witness:
  "cetcd_key_prefix_end 8 [0x61, 0xff] = Some [0x62] \<and>
   cetcd_slice_has_prefix [0x61, 0xff, 7] [0x61, 0xff] \<and>
   cetcd_slice_compare [0x61, 0xff, 7] [0x62] < 0"
proof -
  have e: "cetcd_key_prefix_end 8 [0x61, 0xff] = Some [0x62]"
    by (simp add: cetcd_key_prefix_end_def)
  have "\<exists>x \<in> set [0x61, 0xff]. x \<noteq> (0xff::byte)" by simp
  from key_prefix_end_range [OF e this, of "[0x61, 0xff, 7]"] e show ?thesis by simp
qed

end
