(* ===== verification/Index.thy ===== *)
theory Index
  imports Slice
begin

text \<open>
  The contracts of the two containers keyed by byte strings, the hash table of
  \<^verbatim>\<open>src/base/hashmap.c\<close> and the treap of \<^verbatim>\<open>src/base/treap.c\<close>. A container is a finite map;
  the treap is also ordered. The laws are discharged in the theories of the containers,
  and the store relies on nothing else.
\<close>

datatype 'v index_op = IPut bytes 'v | IDel bytes

fun index_apply ::
  "('t \<Rightarrow> bytes \<Rightarrow> 'v \<Rightarrow> 't) \<Rightarrow> ('t \<Rightarrow> bytes \<Rightarrow> 't) \<Rightarrow> 'v index_op \<Rightarrow> 't \<Rightarrow> 't" where
  "index_apply put del (IPut k v) t = put t k v"
| "index_apply put del (IDel k) t = del t k"

fun map_apply :: "'v index_op \<Rightarrow> (bytes \<rightharpoonup> 'v) \<Rightarrow> (bytes \<rightharpoonup> 'v)" where
  "map_apply (IPut k v) m = m(k \<mapsto> v)"
| "map_apply (IDel k) m = m(k := None)"

text \<open>A finite map; \<open>room\<close> is what a container needs to be able to grow.\<close>

locale map_index =
  fixes ok :: "'t \<Rightarrow> bool"
    and room :: "'t \<Rightarrow> bool"
    and empty :: 't
    and get :: "'t \<Rightarrow> bytes \<Rightarrow> 'v option"
    and put :: "'t \<Rightarrow> bytes \<Rightarrow> 'v \<Rightarrow> 't"
    and del :: "'t \<Rightarrow> bytes \<Rightarrow> 't"
  assumes ok_empty: "ok empty"
    and ok_put: "ok t \<Longrightarrow> room t \<Longrightarrow> ok (put t k v)"
    and ok_del: "ok t \<Longrightarrow> ok (del t k)"
    and get_empty: "get empty k = None"
    and get_put: "ok t \<Longrightarrow> room t \<Longrightarrow> get (put t k v) j = (if j = k then Some v else get t j)"
    and get_del: "ok t \<Longrightarrow> get (del t k) j = (if j = k then None else get t j)"
begin

text \<open>Any run of the container computes the run of the map.\<close>

lemma run_refines:
  assumes "\<And>n. n < length ops \<Longrightarrow> room (fold (index_apply put del) (take n ops) empty)"
  shows "ok (fold (index_apply put del) ops empty) \<and>
    get (fold (index_apply put del) ops empty) = fold map_apply ops Map.empty"
  using assms
proof (induction ops rule: rev_induct)
  case Nil
  show ?case using ok_empty get_empty by auto
next
  case (snoc op ops)
  have "room (fold (index_apply put del) ops empty)" using snoc.prems [of "length ops"] by simp
  moreover have "ok (fold (index_apply put del) ops empty) \<and>
      get (fold (index_apply put del) ops empty) = fold map_apply ops Map.empty"
  proof (rule snoc.IH)
    fix n
    assume "n < length ops"
    then show "room (fold (index_apply put del) (take n ops) empty)" using snoc.prems [of n] by simp
  qed
  ultimately show ?case
    by (cases op) (auto simp: ok_put ok_del get_put get_del fun_eq_iff)
qed

end

text \<open>An ordered map also lists its entries in ascending key order.\<close>

locale ordered_index = map_index ok room empty get put del
  for ok :: "'t \<Rightarrow> bool" and room empty and get :: "'t \<Rightarrow> bytes \<Rightarrow> 'v option" and put del +
  fixes entries :: "'t \<Rightarrow> (bytes \<times> 'v) list"
  assumes entries_sorted: "ok t \<Longrightarrow> sorted_wrt (<) (map fst (entries t))"
    and entries_get: "ok t \<Longrightarrow> get t k = map_of (entries t) k"
begin

lemma entries_distinct: "ok t \<Longrightarrow> distinct (map fst (entries t))"
  using entries_sorted strict_sorted_iff by blast

lemma entries_mem: "ok t \<Longrightarrow> (k, v) \<in> set (entries t) \<longleftrightarrow> get t k = Some v"
  by (simp add: entries_get entries_distinct)

text \<open>The entries are a function of what lookups return, whatever operations built the index.\<close>

lemma entries_spec:
  assumes "ok t"
  shows "entries t = map (\<lambda>k. (k, the (get t k))) (sorted_list_of_set (dom (get t)))"
proof -
  have m: "get t = map_of (entries t)" using entries_get [OF assms] by auto
  have "sorted_list_of_set (dom (get t)) = map fst (entries t)"
    using entries_sorted [OF assms]
    by (simp add: m dom_map_of_conv_image_fst strict_sorted_iff sorted_list_of_set.idem_if_sorted_distinct flip: set_map)
  moreover have "map (\<lambda>k. (k, the (get t k))) (map fst (entries t)) = entries t"
    using entries_distinct [OF assms] by (auto simp: m intro!: map_idI)
  ultimately show ?thesis by simp
qed

lemma entries_length: "ok t \<Longrightarrow> length (entries t) = card (dom (get t))"
  by (simp add: entries_spec)

end

end
