(* ===== verification/Treap.thy ===== *)
theory Treap
  imports Index
begin

text \<open>
  The ordered index of the store, \<^verbatim>\<open>src/base/treap.c\<close>: a binary search tree over byte
  strings that is a heap on priorities, where the priority of a node is a hash of its
  key. Values are opaque pointers in C and a type variable here; the trees are values, so
  the in-place updates of the C code are functional updates and the nodes the code frees
  are the ones that do not occur in the result.

  The treap is an interpretation of the contract of an ordered map (\<open>ordered_index\<close>).
\<close>

datatype 'v cetcd_treap_node =
    is_null: TNull
  | TNode (n_left: "'v cetcd_treap_node") (n_key: bytes) (n_value: 'v) (n_priority: u32)
      (n_right: "'v cetcd_treap_node")

record 'v cetcd_treap =
  t_root :: "'v cetcd_treap_node"
  t_size :: nat

fun treap_prio_loop :: "u32 \<Rightarrow> bytes \<Rightarrow> u32" where
  "treap_prio_loop h [] = h"
| "treap_prio_loop h (b # bs) = treap_prio_loop ((h XOR ucast b) * 0x01000193) bs"

definition treap_prio_from_key :: "bytes \<Rightarrow> u32" where
  "treap_prio_from_key key = treap_prio_loop 0x811c9dc5 key XOR of_nat (length key)"

text \<open>The rotations are only called on a node whose left, or right, child exists.\<close>

fun treap_rotate_right :: "'v cetcd_treap_node \<Rightarrow> 'v cetcd_treap_node" where
  "treap_rotate_right (TNode (TNode a xk xv xp t2) yk yv yp c) =
     TNode a xk xv xp (TNode t2 yk yv yp c)"
| "treap_rotate_right y = y"

fun treap_rotate_left :: "'v cetcd_treap_node \<Rightarrow> 'v cetcd_treap_node" where
  "treap_rotate_left (TNode a xk xv xp (TNode t2 yk yv yp c)) =
     TNode (TNode a xk xv xp t2) yk yv yp c"
| "treap_rotate_left x = x"

fun treap_insert_node ::
  "'v cetcd_treap_node \<Rightarrow> bytes \<Rightarrow> 'v \<Rightarrow> u32 \<Rightarrow> 'v cetcd_treap_node" where
  "treap_insert_node TNull nk nv np = TNode TNull nk nv np TNull"
| "treap_insert_node (TNode l k v p r) nk nv np =
     (if cetcd_slice_compare nk k < 0 then
        let l' = treap_insert_node l nk nv np;
            root = TNode l' k v p r
        in if \<not> is_null l' \<and> n_priority l' > p then treap_rotate_right root else root
      else
        let r' = treap_insert_node r nk nv np;
            root = TNode l k v p r'
        in if \<not> is_null r' \<and> n_priority r' > p then treap_rotate_left root else root)"

text \<open>The new root, \<^verbatim>\<open>*out_found\<close>, and what is stored to \<^verbatim>\<open>*val_out\<close>.\<close>

function treap_delete_node ::
  "'v cetcd_treap_node \<Rightarrow> bytes \<Rightarrow> 'v cetcd_treap_node \<times> bool \<times> 'v option" where
  "treap_delete_node TNull key = (TNull, False, None)"
| "treap_delete_node (TNode l k v p r) key =
     (if cetcd_slice_compare key k < 0 then
        (case treap_delete_node l key of (l', out) \<Rightarrow> (TNode l' k v p r, out))
      else if cetcd_slice_compare key k > 0 then
        (case treap_delete_node r key of (r', out) \<Rightarrow> (TNode l k v p r', out))
      else if is_null l \<and> is_null r then (TNull, True, Some v)
      else if \<not> is_null l \<and> \<not> is_null r then
        if n_priority l > n_priority r then
          (case treap_rotate_right (TNode l k v p r) of
             TNull \<Rightarrow> (TNull, True, Some v)
           | TNode xl xk xv xp xr \<Rightarrow>
               (case treap_delete_node xr key of (r', out) \<Rightarrow> (TNode xl xk xv xp r', out)))
        else
          (case treap_rotate_left (TNode l k v p r) of
             TNull \<Rightarrow> (TNull, True, Some v)
           | TNode yl yk yv yp yr \<Rightarrow>
               (case treap_delete_node yl key of (l', out) \<Rightarrow> (TNode l' yk yv yp yr, out)))
      else ((if \<not> is_null l then l else r), True, Some v))"
  by pat_completeness auto

lemma size_rotate_right:
  "treap_rotate_right (TNode l k v p r) = TNode xl xk xv xp xr \<Longrightarrow> \<not> is_null l \<Longrightarrow>
     size xr < size (TNode l k v p r)"
  by (cases l) auto

lemma size_rotate_left:
  "treap_rotate_left (TNode l k v p r) = TNode yl yk yv yp yr \<Longrightarrow> \<not> is_null r \<Longrightarrow>
     size yl < size (TNode l k v p r)"
  by (cases r) auto

termination treap_delete_node
proof (relation "measure (size \<circ> fst)", goal_cases)
  case 1 then show ?case by simp
next
  case 2 then show ?case by simp
next
  case 3 then show ?case by simp
next
  case 4 then show ?case using size_rotate_right by fastforce
next
  case 5 then show ?case using size_rotate_left by fastforce
qed

definition cetcd_treap_new :: "'v cetcd_treap" where
  "cetcd_treap_new = \<lparr>t_root = TNull, t_size = 0\<rparr>"

definition cetcd_treap_size :: "'v cetcd_treap \<Rightarrow> nat" where
  "cetcd_treap_size t = t_size t"

text \<open>
  The search loop of \<^verbatim>\<open>cetcd_treap_put\<close>: \<open>Some\<close> is the tree with the value of the node
  that has the key replaced, \<open>None\<close> when the search ends at a null pointer.
\<close>

fun treap_put_walk :: "'v cetcd_treap_node \<Rightarrow> bytes \<Rightarrow> 'v \<Rightarrow> 'v cetcd_treap_node option" where
  "treap_put_walk TNull key value = None"
| "treap_put_walk (TNode l k v p r) key value =
     (let cmp = cetcd_slice_compare key k in
      if cmp = 0 then Some (TNode l k value p r)
      else if cmp < 0 then map_option (\<lambda>l'. TNode l' k v p r) (treap_put_walk l key value)
      else map_option (\<lambda>r'. TNode l k v p r') (treap_put_walk r key value))"

definition cetcd_treap_put ::
  "'v cetcd_treap \<Rightarrow> bytes \<Rightarrow> 'v \<Rightarrow> cetcd_status \<times> 'v cetcd_treap" where
  "cetcd_treap_put t key value =
     (case treap_put_walk (t_root t) key value of
        Some root \<Rightarrow> (CETCD_OK, t\<lparr>t_root := root\<rparr>)
      | None \<Rightarrow>
          (CETCD_OK, t\<lparr>t_root := treap_insert_node (t_root t) key value (treap_prio_from_key key),
                       t_size := t_size t + 1\<rparr>))"

fun treap_get_walk :: "'v cetcd_treap_node \<Rightarrow> bytes \<Rightarrow> 'v option" where
  "treap_get_walk TNull key = None"
| "treap_get_walk (TNode l k v p r) key =
     (let cmp = cetcd_slice_compare key k in
      if cmp = 0 then Some v
      else if cmp < 0 then treap_get_walk l key
      else treap_get_walk r key)"

definition cetcd_treap_get :: "'v cetcd_treap \<Rightarrow> bytes \<Rightarrow> 'v option" where
  "cetcd_treap_get t key = treap_get_walk (t_root t) key"

definition cetcd_treap_del ::
  "'v cetcd_treap \<Rightarrow> bytes \<Rightarrow> bool \<times> 'v option \<times> 'v cetcd_treap" where
  "cetcd_treap_del t key =
     (if is_null (t_root t) then (False, None, t)
      else case treap_delete_node (t_root t) key of
        (root, found, val) \<Rightarrow>
          if found then
            (True, val, t\<lparr>t_root := root, t_size := (if t_size t > 0 then t_size t - 1 else t_size t)\<rparr>)
          else (False, val, t\<lparr>t_root := root\<rparr>))"

text \<open>
  Iteration. A callback gets the key, the value and its user data, and returns the new
  user data and whether to go on; a traversal returns the user data and false when the
  callback stopped it.
\<close>

type_synonym ('v, 'u) cetcd_treap_iter_fn = "bytes \<Rightarrow> 'v \<Rightarrow> 'u \<Rightarrow> 'u \<times> bool"

fun treap_inorder_range ::
  "'v cetcd_treap_node \<Rightarrow> bytes \<Rightarrow> bytes \<Rightarrow> ('v, 'u) cetcd_treap_iter_fn \<Rightarrow> 'u \<Rightarrow> 'u \<times> bool" where
  "treap_inorder_range TNull lo hi f u = (u, True)"
| "treap_inorder_range (TNode l k v p r) lo hi f u =
     (case treap_inorder_range l lo hi f u of (u1, go1) \<Rightarrow>
      if \<not> go1 then (u1, False)
      else
        let ok = cetcd_slice_compare k lo \<ge> 0;
            ok = (if ok \<and> length hi > 0 then cetcd_slice_compare k hi < 0 else ok)
        in case (if ok then f k v u1 else (u1, True)) of (u2, go2) \<Rightarrow>
           if \<not> go2 then (u2, False)
           else treap_inorder_range r lo hi f u2)"

fun treap_iter_inorder ::
  "'v cetcd_treap_node \<Rightarrow> ('v, 'u) cetcd_treap_iter_fn \<Rightarrow> 'u \<Rightarrow> 'u \<times> bool" where
  "treap_iter_inorder TNull f u = (u, True)"
| "treap_iter_inorder (TNode l k v p r) f u =
     (case treap_iter_inorder l f u of (u1, go1) \<Rightarrow>
      if \<not> go1 then (u1, False)
      else case f k v u1 of (u2, go2) \<Rightarrow>
        if \<not> go2 then (u2, False)
        else treap_iter_inorder r f u2)"

definition cetcd_treap_iter :: "'v cetcd_treap \<Rightarrow> ('v, 'u) cetcd_treap_iter_fn \<Rightarrow> 'u \<Rightarrow> 'u" where
  "cetcd_treap_iter t f u = fst (treap_iter_inorder (t_root t) f u)"

definition cetcd_treap_range ::
  "'v cetcd_treap \<Rightarrow> bytes \<Rightarrow> bytes \<Rightarrow> ('v, 'u) cetcd_treap_iter_fn \<Rightarrow> 'u \<Rightarrow> 'u" where
  "cetcd_treap_range t lo hi f u = fst (treap_inorder_range (t_root t) lo hi f u)"

section \<open>Search order, heap order and the entries\<close>

fun inorder :: "'v cetcd_treap_node \<Rightarrow> (bytes \<times> 'v) list" where
  "inorder TNull = []"
| "inorder (TNode l k v p r) = inorder l @ (k, v) # inorder r"

definition keys_of :: "'v cetcd_treap_node \<Rightarrow> bytes list" where
  "keys_of n = map fst (inorder n)"

lemma keys_of_simps [simp]:
  "keys_of TNull = []"
  "keys_of (TNode l k v p r) = keys_of l @ k # keys_of r"
  by (simp_all add: keys_of_def)

text \<open>Every child has a priority of at most that of its parent, and priorities are the hashes of the keys.\<close>

fun prio_below :: "u32 \<Rightarrow> 'v cetcd_treap_node \<Rightarrow> bool" where
  "prio_below b TNull = True"
| "prio_below b (TNode l k v p r) = (p \<le> b)"

fun heap :: "'v cetcd_treap_node \<Rightarrow> bool" where
  "heap TNull = True"
| "heap (TNode l k v p r) =
     (p = treap_prio_from_key k \<and> prio_below p l \<and> prio_below p r \<and> heap l \<and> heap r)"

definition bst :: "'v cetcd_treap_node \<Rightarrow> bool" where
  "bst n = sorted_wrt (<) (keys_of n)"

definition treap_ok :: "'v cetcd_treap \<Rightarrow> bool" where
  "treap_ok t \<longleftrightarrow> bst (t_root t) \<and> heap (t_root t) \<and> t_size t = length (inorder (t_root t))"

lemma bst_simps [simp]:
  "bst TNull"
  "bst (TNode l k v p r) \<longleftrightarrow>
     bst l \<and> bst r \<and> (\<forall>x \<in> set (keys_of l). x < k) \<and> (\<forall>x \<in> set (keys_of r). k < x)"
  by (auto simp: bst_def sorted_wrt_append intro: order.strict_trans)

lemma bst_distinct: "bst n \<Longrightarrow> distinct (keys_of n)"
  by (simp add: bst_def strict_sorted_iff)

lemma map_of_inorder_None: "key \<notin> set (keys_of n) \<longleftrightarrow> map_of (inorder n) key = None"
  by (simp add: keys_of_def map_of_eq_None_iff)

lemma map_of_node:
  assumes "bst (TNode l k v p r)"
  shows "map_of (inorder (TNode l k v p r)) key =
    (if key < k then map_of (inorder l) key else if key = k then Some v else map_of (inorder r) key)"
proof -
  have "key \<le> k \<Longrightarrow> map_of (inorder r) key = None" "k \<le> key \<Longrightarrow> map_of (inorder l) key = None"
    using assms by (force simp flip: map_of_inorder_None)+
  then show ?thesis
    by (cases key k rule: linorder_cases) (auto simp: map_add_def split: option.splits)
qed

lemma treap_get_walk_map: "bst n \<Longrightarrow> treap_get_walk n key = map_of (inorder n) key"
proof (induction n key rule: treap_get_walk.induct)
  case (2 l k v p r key)
  then show ?case
    unfolding map_of_node [OF 2(3)] by (auto simp: Let_def)
qed simp

lemma inorder_rotate [simp]:
  "inorder (treap_rotate_right n) = inorder n"
  "inorder (treap_rotate_left n) = inorder n"
proof -
  show "inorder (treap_rotate_right n) = inorder n" by (cases n rule: treap_rotate_right.cases) auto
  show "inorder (treap_rotate_left n) = inorder n" by (cases n rule: treap_rotate_left.cases) auto
qed

lemma is_null_rotate [simp]:
  "is_null (treap_rotate_right n) = is_null n"
  "is_null (treap_rotate_left n) = is_null n"
proof -
  show "is_null (treap_rotate_right n) = is_null n" by (cases n rule: treap_rotate_right.cases) auto
  show "is_null (treap_rotate_left n) = is_null n" by (cases n rule: treap_rotate_left.cases) auto
qed

lemma is_null_insert [simp]: "\<not> is_null (treap_insert_node n nk nv np)"
  by (cases n) (auto simp: Let_def)

lemma keys_of_fst: "(k, v) \<in> set (inorder n) \<Longrightarrow> k \<in> set (keys_of n)"
  by (force simp: keys_of_def)

lemma filter_below:
  assumes "\<forall>x \<in> set (keys_of n). x < k" and "k \<le> key"
  shows "filter (\<lambda>e. fst e < key) (inorder n) = inorder n"
    and "filter (\<lambda>e. key < fst e) (inorder n) = []"
    and "filter (\<lambda>e. fst e \<noteq> key) (inorder n) = inorder n"
  using assms by (fastforce simp: filter_id_conv filter_empty_conv dest: keys_of_fst)+

lemma filter_above:
  assumes "\<forall>x \<in> set (keys_of n). k < x" and "key \<le> k"
  shows "filter (\<lambda>e. fst e < key) (inorder n) = []"
    and "filter (\<lambda>e. key < fst e) (inorder n) = inorder n"
    and "filter (\<lambda>e. fst e \<noteq> key) (inorder n) = inorder n"
  using assms by (fastforce simp: filter_id_conv filter_empty_conv dest: keys_of_fst)+

subsection \<open>Insertion\<close>

lemma inorder_insert:
  assumes "bst n" and "nk \<notin> set (keys_of n)"
  shows "inorder (treap_insert_node n nk nv np) =
    filter (\<lambda>e. fst e < nk) (inorder n) @ (nk, nv) # filter (\<lambda>e. nk < fst e) (inorder n)"
  using assms
proof (induction n nk nv np rule: treap_insert_node.induct)
  case (2 l k v p r nk nv np)
  then consider "nk < k" | "k < nk" by fastforce
  then show ?case
  proof cases
    case 1
    then show ?thesis using 2 by (simp add: Let_def filter_above [of r k nk])
  next
    case 2
    then have "\<not> nk < k" by simp
    then show ?thesis
      using 2 "2.IH" "2.prems" by (simp add: Let_def filter_below [of l k nk])
  qed
qed simp

lemma keys_of_filter:
  "map fst (filter (\<lambda>e. P (fst e)) (inorder n)) = filter P (keys_of n)"
  by (induction n) auto

lemma keys_insert:
  assumes "bst n" and "nk \<notin> set (keys_of n)"
  shows "keys_of (treap_insert_node n nk nv np) =
    filter (\<lambda>k. k < nk) (keys_of n) @ nk # filter (\<lambda>k. nk < k) (keys_of n)"
proof -
  have "keys_of (treap_insert_node n nk nv np) = map fst
      (filter (\<lambda>e. fst e < nk) (inorder n) @ (nk, nv) # filter (\<lambda>e. nk < fst e) (inorder n))"
    by (simp add: keys_of_def [of "treap_insert_node n nk nv np"] inorder_insert [OF assms])
  then show ?thesis
    using keys_of_filter [of "\<lambda>k. k < nk" n] keys_of_filter [of "\<lambda>k. nk < k" n] by simp
qed

lemma bst_insert:
  assumes "bst n" and "nk \<notin> set (keys_of n)"
  shows "bst (treap_insert_node n nk nv np)"
proof -
  have "sorted_wrt (<) (keys_of n)" using assms(1) by (simp add: bst_def)
  then show ?thesis
    unfolding bst_def keys_insert [OF assms]
    by (auto simp: sorted_wrt_append intro: sorted_wrt_filter order.strict_trans)
qed

lemma map_of_filter_key:
  "map_of (filter (\<lambda>e. P (fst e)) xs) k = (if P k then map_of xs k else None)"
  by (induction xs) auto

lemma map_of_insert:
  assumes "bst n" and "nk \<notin> set (keys_of n)"
  shows "map_of (inorder (treap_insert_node n nk nv np)) = (map_of (inorder n))(nk \<mapsto> nv)"
proof
  fix k
  show "map_of (inorder (treap_insert_node n nk nv np)) k = ((map_of (inorder n))(nk \<mapsto> nv)) k"
    using map_of_filter_key [of "\<lambda>k. k < nk" "inorder n" k] map_of_filter_key [of "\<lambda>k. nk < k" "inorder n" k]
    by (cases k nk rule: linorder_cases)
      (auto simp: inorder_insert [OF assms] map_add_def split: option.splits)
qed

lemma length_inorder: "length (inorder n) = length (keys_of n)"
  by (simp add: keys_of_def)

lemma length_filter_sides:
  fixes k :: "'a::linorder"
  shows "k \<notin> set xs \<Longrightarrow> length (filter (\<lambda>x. x < k) xs) + length (filter (\<lambda>x. k < x) xs) = length xs"
  by (induction xs) auto

lemma length_insert:
  assumes "bst n" and "nk \<notin> set (keys_of n)"
  shows "length (inorder (treap_insert_node n nk nv np)) = Suc (length (inorder n))"
  using assms length_filter_sides [of nk "keys_of n"] by (simp add: length_inorder keys_insert)

lemma prio_below_mono: "prio_below b n \<Longrightarrow> b \<le> c \<Longrightarrow> prio_below c n"
  by (cases n) auto

lemma prio_below_node: "prio_below b n \<longleftrightarrow> is_null n \<or> n_priority n \<le> b"
  by (cases n) auto

lemma heap_insert:
  assumes "heap n" and "np = treap_prio_from_key nk"
  shows "heap (treap_insert_node n nk nv np) \<and>
    (\<forall>b. prio_below b n \<longrightarrow>
       prio_below b (n_left (treap_insert_node n nk nv np)) \<and>
       prio_below b (n_right (treap_insert_node n nk nv np)))"
  using assms
proof (induction n nk nv np rule: treap_insert_node.induct)
  case (2 l k v p r nk nv np)
  show ?case
  proof (cases "nk < k")
    case True
    define l' where "l' = treap_insert_node l nk nv np"
    have IH: "heap l'" "prio_below p (n_left l')" "prio_below p (n_right l')"
      using 2 True by (auto simp: l'_def)
    obtain a xk xv xp t2 where l': "l' = TNode a xk xv xp t2"
      using is_null_insert [of l nk nv np] by (cases l') (auto simp flip: l'_def)
    have less: "nk < k \<longleftrightarrow> True" using True by simp
    show ?thesis
      using 2 IH unfolding treap_insert_node.simps(2) cetcd_slice_compare_iff less if_True
        Let_def l'_def [symmetric]
      by (auto simp: l' not_less intro: prio_below_mono order.trans less_imp_le)
  next
    case False
    define r' where "r' = treap_insert_node r nk nv np"
    have IH: "heap r'" "prio_below p (n_left r')" "prio_below p (n_right r')"
      using 2 False by (auto simp: r'_def)
    obtain a yk yv yp t2 where r': "r' = TNode t2 yk yv yp a"
      using is_null_insert [of r nk nv np] by (cases r') (auto simp flip: r'_def)
    have less: "nk < k \<longleftrightarrow> False" using False by simp
    show ?thesis
      using 2 IH unfolding treap_insert_node.simps(2) cetcd_slice_compare_iff less if_False
        Let_def r'_def [symmetric]
      by (auto simp: r' not_less intro: prio_below_mono order.trans less_imp_le)
  qed
qed simp

subsection \<open>Deletion\<close>

lemma delete_root_cases:
  "treap_delete_node (TNode TNull k v p r) k = (r, True, Some v)"
  "treap_delete_node (TNode l k v p TNull) k = (l, True, Some v)"
  "l = TNode xl xk xv xp xr \<Longrightarrow> \<not> is_null r \<Longrightarrow> n_priority r < xp \<Longrightarrow>
     treap_delete_node (TNode l k v p r) k =
       (case treap_delete_node (TNode xr k v p r) k of (r', out) \<Rightarrow> (TNode xl xk xv xp r', out))"
  "r = TNode yl yk yv yp yr \<Longrightarrow> \<not> is_null l \<Longrightarrow> \<not> yp < n_priority l \<Longrightarrow>
     treap_delete_node (TNode l k v p r) k =
       (case treap_delete_node (TNode l k v p yl) k of (l', out) \<Rightarrow> (TNode l' yk yv yp yr, out))"
     apply (cases r; simp)
    apply (cases l; simp)
   apply (subst treap_delete_node.simps(2), simp del: treap_delete_node.simps)
  apply (subst treap_delete_node.simps(2), simp del: treap_delete_node.simps)
  done

lemma delete_root:
  "\<exists>n'. treap_delete_node (TNode l k v p r) k = (n', True, Some v) \<and>
     inorder n' = inorder l @ inorder r \<and>
     (heap l \<and> heap r \<longrightarrow> heap n' \<and> (\<forall>b. prio_below b l \<and> prio_below b r \<longrightarrow> prio_below b n'))"
proof (induction "size l + size r" arbitrary: l r rule: less_induct)
  case less
  show ?case
  proof (cases "is_null l \<or> is_null r")
    case True
    then show ?thesis by (cases l; cases r) (auto simp: delete_root_cases(1,2) simp del: treap_delete_node.simps)
  next
    case False
    then obtain xl xk xv xp xr yl yk yv yp yr
      where l: "l = TNode xl xk xv xp xr" and r: "r = TNode yl yk yv yp yr"
      by (cases l; cases r) auto
    show ?thesis
    proof (cases "yp < xp")
      case True
      have step: "treap_delete_node (TNode l k v p r) k =
          (case treap_delete_node (TNode xr k v p r) k of (r', out) \<Rightarrow> (TNode xl xk xv xp r', out))"
        by (rule delete_root_cases(3)) (use True in \<open>auto simp: l r\<close>)
      obtain n' where "treap_delete_node (TNode xr k v p r) k = (n', True, Some v)"
        "inorder n' = inorder xr @ inorder r"
        "heap xr \<and> heap r \<longrightarrow> heap n' \<and> (\<forall>b. prio_below b xr \<and> prio_below b r \<longrightarrow> prio_below b n')"
        using less [of xr r] by (auto simp: l)
      with True show ?thesis unfolding step by (auto simp: l r)
    next
      case False
      have step: "treap_delete_node (TNode l k v p r) k =
          (case treap_delete_node (TNode l k v p yl) k of (l', out) \<Rightarrow> (TNode l' yk yv yp yr, out))"
        by (rule delete_root_cases(4)) (use False in \<open>auto simp: l r\<close>)
      obtain n' where "treap_delete_node (TNode l k v p yl) k = (n', True, Some v)"
        "inorder n' = inorder l @ inorder yl"
        "heap l \<and> heap yl \<longrightarrow> heap n' \<and> (\<forall>b. prio_below b l \<and> prio_below b yl \<longrightarrow> prio_below b n')"
        using less [of l yl] by (auto simp: r)
      with False show ?thesis unfolding step by (auto simp: l r)
    qed
  qed
qed

lemma delete_sides:
  "key < k \<Longrightarrow> treap_delete_node (TNode l k v p r) key =
     (case treap_delete_node l key of (l', out) \<Rightarrow> (TNode l' k v p r, out))"
  "k < key \<Longrightarrow> treap_delete_node (TNode l k v p r) key =
     (case treap_delete_node r key of (r', out) \<Rightarrow> (TNode l k v p r', out))"
  by (auto simp: not_less_iff_gr_or_eq)

declare treap_delete_node.simps(2) [simp del]

lemma inorder_delete:
  assumes "bst n"
  shows "\<exists>n'. treap_delete_node n key = (n', map_of (inorder n) key \<noteq> None, map_of (inorder n) key) \<and>
    inorder n' = filter (\<lambda>e. fst e \<noteq> key) (inorder n)"
  using assms
proof (induction n)
  case (TNode l k v p r)
  note node = map_of_node [OF TNode.prems, of key]
  consider "key < k" | "k < key" | "key = k" by fastforce
  then show ?case
  proof cases
    case 1
    then show ?thesis
      using TNode unfolding node by (auto simp: delete_sides filter_above [of r k key])
  next
    case 2
    then show ?thesis
      using TNode unfolding node by (auto simp: delete_sides filter_below [of l k key])
  next
    case 3
    have "filter (\<lambda>e. fst e \<noteq> key) (inorder l) = inorder l"
      "filter (\<lambda>e. fst e \<noteq> key) (inorder r) = inorder r"
      using 3 TNode.prems filter_below(3) [of l k key] filter_above(3) [of r k key] by auto
    then show ?thesis
      using delete_root [of l k v p r] 3 unfolding node by auto
  qed
qed simp

lemma delete_heap:
  "heap n \<Longrightarrow> heap (fst (treap_delete_node n key)) \<and>
     (\<forall>b. prio_below b n \<longrightarrow> prio_below b (fst (treap_delete_node n key)))"
proof (induction n)
  case (TNode l k v p r)
  consider "key < k" | "k < key" | "key = k" by fastforce
  then show ?case
  proof cases
    case 3
    have "prio_below b l \<and> prio_below b r" if "p \<le> b" for b
      using TNode.prems that prio_below_mono by auto
    then show ?thesis
      using TNode.prems delete_root [of l k v p r] 3 by auto
  qed (use TNode in \<open>auto simp: delete_sides split: prod.splits\<close>)
qed simp

subsection \<open>Replacing a value\<close>

lemma put_walk_cases:
  "key < k \<Longrightarrow> treap_put_walk (TNode l k v p r) key value =
     map_option (\<lambda>l'. TNode l' k v p r) (treap_put_walk l key value)"
  "k < key \<Longrightarrow> treap_put_walk (TNode l k v p r) key value =
     map_option (\<lambda>r'. TNode l k v p r') (treap_put_walk r key value)"
  "treap_put_walk (TNode l k v p r) k value = Some (TNode l k value p r)"
  by (auto simp: Let_def)

lemma put_walk_None: "bst n \<Longrightarrow> treap_put_walk n key value = None \<longleftrightarrow> key \<notin> set (keys_of n)"
proof (induction n)
  case (TNode l k v p r)
  then show ?case by (cases key k rule: linorder_cases) (auto simp: put_walk_cases simp del: treap_put_walk.simps)
qed simp

lemma put_walk_Some:
  assumes "bst n"
  shows "treap_put_walk n key value = Some n' \<Longrightarrow>
    inorder n' = map (\<lambda>e. if fst e = key then (key, value) else e) (inorder n) \<and>
    (heap n \<longrightarrow> heap n') \<and> (\<forall>b. prio_below b n' = prio_below b n)"
  using assms
proof (induction n arbitrary: n')
  case (TNode l k v p r)
  have other: "map (\<lambda>e. if fst e = key then (key, value) else e) (inorder m) = inorder m"
    if "key \<notin> set (keys_of m)" for m :: "'a cetcd_treap_node"
    using that by (auto intro!: map_idI dest: keys_of_fst)
  let ?upd = "map (\<lambda>e. if fst e = key then (key, value) else e)"
  consider "key < k" | "k < key" | "key = k" by fastforce
  then show ?case
  proof cases
    case 1
    then obtain l' where l': "treap_put_walk l key value = Some l'" "n' = TNode l' k v p r"
      using TNode.prems(1) by (auto simp: put_walk_cases simp del: treap_put_walk.simps)
    have "key \<notin> set (keys_of r)" using 1 TNode.prems(2) by auto
    from other [OF this] TNode.IH(1) [OF l'(1)] TNode.prems(2) 1 show ?thesis
      by (auto simp: l'(2))
  next
    case 2
    then obtain r' where r': "treap_put_walk r key value = Some r'" "n' = TNode l k v p r'"
      using TNode.prems(1) by (auto simp: put_walk_cases simp del: treap_put_walk.simps)
    have "key \<notin> set (keys_of l)" using 2 TNode.prems(2) by auto
    from other [OF this] TNode.IH(2) [OF r'(1)] TNode.prems(2) 2 show ?thesis
      by (auto simp: r'(2))
  next
    case 3
    have "key \<notin> set (keys_of l)" "key \<notin> set (keys_of r)" using 3 TNode.prems(2) by auto
    from this [THEN other] TNode.prems(1) 3 show ?thesis by (auto simp: put_walk_cases simp del: treap_put_walk.simps)
  qed
qed simp

section \<open>The operations on the whole treap\<close>

definition treap_entries :: "'v cetcd_treap \<Rightarrow> (bytes \<times> 'v) list" where
  "treap_entries t = inorder (t_root t)"

lemma treap_new_ok: "treap_ok cetcd_treap_new" "treap_entries cetcd_treap_new = []"
  by (simp_all add: treap_ok_def treap_entries_def cetcd_treap_new_def)

lemma treap_get_entries: "treap_ok t \<Longrightarrow> cetcd_treap_get t k = map_of (treap_entries t) k"
  by (simp add: cetcd_treap_get_def treap_ok_def treap_entries_def treap_get_walk_map)

lemma map_of_update_entries:
  "k \<in> fst ` set xs \<Longrightarrow> map_of (map (\<lambda>e. if fst e = k then (k, v) else e) xs) = (map_of xs)(k \<mapsto> v)"
proof (induction xs)
  case (Cons x xs)
  have other: "k \<notin> fst ` set xs \<Longrightarrow> map (\<lambda>e. if fst e = k then (k, v) else e) xs = xs" for xs :: "('a \<times> 'b) list"
    by (force intro!: map_idI)
  show ?case
    using Cons other [of xs] by (cases "k \<in> fst ` set xs"; cases x) auto
qed simp

lemma treap_put_ok:
  assumes "treap_ok t"
  shows "fst (cetcd_treap_put t k v) = CETCD_OK" and "treap_ok (snd (cetcd_treap_put t k v))"
    and "map_of (treap_entries (snd (cetcd_treap_put t k v))) = (map_of (treap_entries t))(k \<mapsto> v)"
proof -
  let ?n = "t_root t"
  have t: "bst ?n" "heap ?n" "t_size t = length (inorder ?n)"
    using assms by (simp_all add: treap_ok_def)
  consider n' where "treap_put_walk ?n k v = Some n'" | "treap_put_walk ?n k v = None" by (cases "treap_put_walk ?n k v") auto
  then have "fst (cetcd_treap_put t k v) = CETCD_OK \<and> treap_ok (snd (cetcd_treap_put t k v)) \<and>
    map_of (treap_entries (snd (cetcd_treap_put t k v))) = (map_of (treap_entries t))(k \<mapsto> v)"
  proof cases
    case 1
    then have n': "inorder n' = map (\<lambda>e. if fst e = k then (k, v) else e) (inorder ?n)" "heap n'"
      using put_walk_Some [OF t(1)] t(2) by auto
    have "keys_of n' = map fst (map (\<lambda>e. if fst e = k then (k, v) else e) (inorder ?n))"
      by (simp add: keys_of_def n'(1))
    also have "\<dots> = keys_of ?n" by (auto simp: keys_of_def)
    finally have "keys_of n' = keys_of ?n" .
    moreover have "k \<in> fst ` set (inorder ?n)"
      using put_walk_None [OF t(1), of k v] 1 by (simp add: keys_of_def)
    ultimately show ?thesis
      using 1 n' t by (simp add: cetcd_treap_put_def treap_ok_def treap_entries_def bst_def map_of_update_entries)
  next
    case 2
    then have "k \<notin> set (keys_of ?n)" using put_walk_None [OF t(1)] by auto
    with 2 show ?thesis
      using t heap_insert [OF t(2) refl, of k v]
      by (simp add: cetcd_treap_put_def treap_ok_def treap_entries_def bst_insert map_of_insert length_insert)
  qed
  then show "fst (cetcd_treap_put t k v) = CETCD_OK" "treap_ok (snd (cetcd_treap_put t k v))"
    "map_of (treap_entries (snd (cetcd_treap_put t k v))) = (map_of (treap_entries t))(k \<mapsto> v)"
    by auto
qed

lemma length_filter_one:
  assumes "distinct (map fst xs)"
  shows "length (filter (\<lambda>e. fst e \<noteq> k) xs) = length xs - (if map_of xs k = None then 0 else 1)"
  using assms
proof (induction xs)
  case (Cons x xs)
  show ?case
  proof (cases "fst x = k")
    case True
    then have "filter (\<lambda>e. fst e \<noteq> k) xs = xs" using Cons.prems by (auto simp: filter_id_conv image_iff)
    with True show ?thesis by (cases x) auto
  next
    case False
    have "map_of xs k \<noteq> None \<Longrightarrow> length xs \<noteq> 0" by (cases xs) auto
    with False Cons show ?thesis by (cases x) (auto simp: Suc_diff_le)
  qed
qed simp

lemma treap_del_ok:
  assumes "treap_ok t"
  shows "fst (cetcd_treap_del t k) \<longleftrightarrow> map_of (treap_entries t) k \<noteq> None"
    and "fst (snd (cetcd_treap_del t k)) = map_of (treap_entries t) k"
    and "treap_ok (snd (snd (cetcd_treap_del t k)))"
    and "treap_entries (snd (snd (cetcd_treap_del t k))) = filter (\<lambda>e. fst e \<noteq> k) (treap_entries t)"
proof -
  let ?n = "t_root t"
  have t: "bst ?n" "heap ?n" "t_size t = length (inorder ?n)"
    using assms by (simp_all add: treap_ok_def)
  obtain n' where n': "treap_delete_node ?n k = (n', map_of (inorder ?n) k \<noteq> None, map_of (inorder ?n) k)"
    "inorder n' = filter (\<lambda>e. fst e \<noteq> k) (inorder ?n)"
    using inorder_delete [OF t(1)] by blast
  have "heap n'" using delete_heap [OF t(2), of k] n'(1) by simp
  moreover have "bst n'"
    using t(1) keys_of_filter [of "\<lambda>x. x \<noteq> k" ?n] n'(2)
    by (simp add: bst_def keys_of_def [of n'] sorted_wrt_filter)
  moreover have "length (inorder n') = length (inorder ?n) - (if map_of (inorder ?n) k = None then 0 else 1)"
    unfolding n'(2) by (rule length_filter_one) (use bst_distinct [OF t(1)] in \<open>simp add: keys_of_def\<close>)
  ultimately show "fst (cetcd_treap_del t k) \<longleftrightarrow> map_of (treap_entries t) k \<noteq> None"
    "fst (snd (cetcd_treap_del t k)) = map_of (treap_entries t) k"
    "treap_ok (snd (snd (cetcd_treap_del t k)))"
    "treap_entries (snd (snd (cetcd_treap_del t k))) = filter (\<lambda>e. fst e \<noteq> k) (treap_entries t)"
    using t n' by (cases ?n; auto simp: cetcd_treap_del_def treap_ok_def treap_entries_def)+
qed

section \<open>Iteration\<close>

text \<open>The callback applied to a list of entries in order, until it stops.\<close>

fun walk :: "('v, 'u) cetcd_treap_iter_fn \<Rightarrow> (bytes \<times> 'v) list \<Rightarrow> 'u \<Rightarrow> 'u \<times> bool" where
  "walk f [] u = (u, True)"
| "walk f ((k, v) # es) u = (case f k v u of (u', go) \<Rightarrow> if \<not> go then (u', False) else walk f es u')"

lemma walk_append:
  "walk f (xs @ ys) u = (case walk f xs u of (u', go) \<Rightarrow> if \<not> go then (u', False) else walk f ys u')"
  by (induction f xs u rule: walk.induct) (auto split: prod.splits)

definition in_bounds :: "bytes \<Rightarrow> bytes \<Rightarrow> bytes \<Rightarrow> bool" where
  "in_bounds lo hi k \<longleftrightarrow> lo \<le> k \<and> (hi = [] \<or> k < hi)"

lemma treap_iter_inorder_walk: "treap_iter_inorder n f u = walk f (inorder n) u"
  by (induction n arbitrary: u) (auto simp: walk_append split: prod.splits)

lemma treap_inorder_range_walk:
  "treap_inorder_range n lo hi f u = walk f (filter (\<lambda>e. in_bounds lo hi (fst e)) (inorder n)) u"
proof (induction n arbitrary: u)
  case (TNode l k v p r)
  have ok: "(if 0 \<le> cetcd_slice_compare k lo \<and> 0 < length hi then cetcd_slice_compare k hi < 0
      else 0 \<le> cetcd_slice_compare k lo) = in_bounds lo hi k"
    by (auto simp: in_bounds_def)
  show ?case
    unfolding treap_inorder_range.simps Let_def ok
    by (cases "in_bounds lo hi k") (simp_all add: TNode.IH walk_append split: prod.splits)
qed simp

lemma cetcd_treap_range_walk:
  "cetcd_treap_range t lo hi f u = fst (walk f (filter (\<lambda>e. in_bounds lo hi (fst e)) (treap_entries t)) u)"
  by (simp add: cetcd_treap_range_def treap_inorder_range_walk treap_entries_def)

section \<open>The treap is an ordered map\<close>

interpretation ti: ordered_index treap_ok "\<lambda>_. True" cetcd_treap_new cetcd_treap_get
  "\<lambda>t k v. snd (cetcd_treap_put t k v)" "\<lambda>t k. snd (snd (cetcd_treap_del t k))" treap_entries
proof
  fix t :: "'a cetcd_treap" and k j :: bytes and v :: 'a
  show "treap_ok cetcd_treap_new" by (rule treap_new_ok)
  show "cetcd_treap_get cetcd_treap_new k = None"
    by (simp add: cetcd_treap_get_def cetcd_treap_new_def)
  assume ok: "treap_ok t"
  note put = treap_put_ok(2,3) [OF ok, of k v] and del = treap_del_ok(3,4) [OF ok, of k]
  show "treap_ok (snd (cetcd_treap_put t k v))" "treap_ok (snd (snd (cetcd_treap_del t k)))"
    by (rule put del)+
  show "cetcd_treap_get (snd (cetcd_treap_put t k v)) j = (if j = k then Some v else cetcd_treap_get t j)"
    by (simp add: treap_get_entries put ok)
  show "cetcd_treap_get (snd (snd (cetcd_treap_del t k))) j = (if j = k then None else cetcd_treap_get t j)"
    using map_of_filter_key [of "\<lambda>x. x \<noteq> k" "treap_entries t" j] by (simp add: treap_get_entries del ok)
  show "sorted_wrt (<) (map fst (treap_entries t))"
    using ok by (simp add: treap_ok_def bst_def keys_of_def treap_entries_def)
  show "cetcd_treap_get t k = map_of (treap_entries t) k" by (rule treap_get_entries [OF ok])
qed

section \<open>Runs of the treap\<close>

definition treap_apply :: "'v index_op \<Rightarrow> 'v cetcd_treap \<Rightarrow> 'v cetcd_treap" where
  "treap_apply = index_apply (\<lambda>t k v. snd (cetcd_treap_put t k v)) (\<lambda>t k. snd (snd (cetcd_treap_del t k)))"

lemma treap_run_refines:
  "treap_ok (fold treap_apply ops cetcd_treap_new) \<and>
   cetcd_treap_get (fold treap_apply ops cetcd_treap_new) = fold map_apply ops Map.empty"
  unfolding treap_apply_def by (rule ti.run_refines) simp

lemma walk_collect: "walk (\<lambda>k v acc. (acc @ [(k, v)], True)) es u = (u @ es, True)"
  by (induction es arbitrary: u) auto

text \<open>
  C10. The treap is a finite map whatever sequence of puts and deletes built it: lookups
  agree with the map, the size is the number of keys, and the tree is a search tree that
  is heap ordered on the hashes of its keys.
\<close>

theorem treap_refines_map:
  "cetcd_treap_get (fold treap_apply ops cetcd_treap_new) = fold map_apply ops Map.empty \<and>
   cetcd_treap_size (fold treap_apply ops cetcd_treap_new) = card (dom (fold map_apply ops Map.empty)) \<and>
   bst (t_root (fold treap_apply ops cetcd_treap_new)) \<and> heap (t_root (fold treap_apply ops cetcd_treap_new))"
proof -
  let ?t = "fold treap_apply ops cetcd_treap_new"
  have ok: "treap_ok ?t" and get: "cetcd_treap_get ?t = fold map_apply ops Map.empty"
    using treap_run_refines by auto
  have "card (dom (cetcd_treap_get ?t)) = length (treap_entries ?t)"
    by (rule ti.entries_length [OF ok, symmetric])
  then show ?thesis
    using ok get by (simp add: treap_ok_def treap_entries_def cetcd_treap_size_def)
qed

text \<open>
  A range scan of the treap visits exactly the entries whose key is at least the lower
  bound and below the upper bound, an empty upper bound meaning none, each once and in
  ascending key order.
\<close>

theorem treap_range_sorted:
  "cetcd_treap_range (fold treap_apply ops cetcd_treap_new) lo hi (\<lambda>k v acc. (acc @ [(k, v)], True)) [] =
     map (\<lambda>k. (k, the (fold map_apply ops Map.empty k)))
       (filter (\<lambda>k. cetcd_slice_compare k lo \<ge> 0 \<and> (hi = [] \<or> cetcd_slice_compare k hi < 0))
         (sorted_list_of_set (dom (fold map_apply ops Map.empty))))"
proof -
  let ?t = "fold treap_apply ops cetcd_treap_new"
  have "treap_ok ?t" and get: "cetcd_treap_get ?t = fold map_apply ops Map.empty"
    using treap_run_refines by auto
  then show ?thesis
    by (simp add: cetcd_treap_range_walk walk_collect ti.entries_spec filter_map o_def in_bounds_def)
qed

end
