(* ===== verification/Backend.thy ===== *)
theory Backend
  imports Treap
begin

text \<open>
  The LMDB wrapper of \<^verbatim>\<open>src/backend/backend.c\<close>. LMDB itself is the third-party library the
  wrapper calls and a parameter of the model: a record of the calls the wrapper makes, on
  an environment of type \<open>'e\<close> and transactions of type \<open>'t\<close>. What the code relies on is
  the documented behaviour of those calls, collected in the locale \<open>lmdb_laws\<close>; the
  wrapper then satisfies the contract \<open>kv_backend\<close> of a store of named buckets with
  all-or-nothing writes. Aborting a transaction leaves the environment as it was, so an
  abort is the environment the transaction began with.

  A reference environment in memory, \<open>mem_lmdb\<close>, satisfies the laws. Opening, closing,
  statistics and defragmentation of the database file are not modelled.
\<close>

section \<open>The calls of LMDB\<close>

datatype mdb_rc = MDB_SUCCESS | MDB_NOTFOUND | MDB_FAILED

record ('e, 't) lmdb =
  mdb_txn_begin :: "'e \<Rightarrow> bool \<Rightarrow> 't option"
  mdb_txn_commit :: "'e \<Rightarrow> 't \<Rightarrow> mdb_rc \<times> 'e"
  mdb_dbi_open :: "'t \<Rightarrow> string \<Rightarrow> bool \<Rightarrow> mdb_rc \<times> 't"
  mdb_put :: "'t \<Rightarrow> string \<Rightarrow> bytes \<Rightarrow> bytes \<Rightarrow> mdb_rc \<times> 't"
  mdb_get :: "'t \<Rightarrow> string \<Rightarrow> bytes \<Rightarrow> bytes option"
  mdb_del :: "'t \<Rightarrow> string \<Rightarrow> bytes \<Rightarrow> mdb_rc \<times> 't"
  mdb_cursor :: "'t \<Rightarrow> string \<Rightarrow> ((bytes \<times> bytes) list \<times> mdb_rc) option"

text \<open>
  \<open>mdb_get\<close> is \<open>None\<close> when the key is not in the bucket; the other code that is documented for it, an invalid
  parameter, is returned for keys that no bucket can hold, and the wrapper does not tell the two apart.
  \<open>mdb_cursor\<close> stands for \<^verbatim>\<open>mdb_cursor_open\<close> (\<open>None\<close> when it fails) and the calls of
  \<^verbatim>\<open>mdb_cursor_get\<close> with \<^verbatim>\<open>MDB_FIRST\<close> and then \<^verbatim>\<open>MDB_NEXT\<close>: the pairs they return before the first
  call that does not succeed, and the code of that call. The code is \<open>MDB_NOTFOUND\<close> at the end of the bucket.
\<close>

section \<open>The wrapper\<close>

definition lmdb_error :: "mdb_rc \<Rightarrow> cetcd_status" where
  "lmdb_error rc = (if rc = MDB_SUCCESS then CETCD_OK else CETCD_ERR_IO)"

definition cetcd_txn_begin :: "('e, 't) lmdb \<Rightarrow> 'e \<Rightarrow> bool \<Rightarrow> 't option" where
  "cetcd_txn_begin L be read_only = mdb_txn_begin L be read_only"

definition cetcd_txn_commit :: "('e, 't) lmdb \<Rightarrow> 'e \<Rightarrow> 't \<Rightarrow> cetcd_status \<times> 'e" where
  "cetcd_txn_commit L be txn = (case mdb_txn_commit L be txn of (rc, be') \<Rightarrow> (lmdb_error rc, be'))"

text \<open>Opening a bucket, creating it when it is missing: the return value 0 is \<open>True\<close>.\<close>

definition get_dbi :: "('e, 't) lmdb \<Rightarrow> 't \<Rightarrow> string \<Rightarrow> bool \<times> 't" where
  "get_dbi L txn bucket = (case mdb_dbi_open L txn bucket True of (rc, txn') \<Rightarrow> (rc = MDB_SUCCESS, txn'))"

definition put_internal ::
  "('e, 't) lmdb \<Rightarrow> 't \<Rightarrow> string \<Rightarrow> bytes \<Rightarrow> bytes \<Rightarrow> cetcd_status \<times> 't" where
  "put_internal L txn bucket key val =
     (case get_dbi L txn bucket of (ok, txn) \<Rightarrow>
        if ok then (case mdb_put L txn bucket key val of (rc, txn) \<Rightarrow> (lmdb_error rc, txn))
        else (CETCD_ERR_IO, txn))"

definition get_internal ::
  "('e, 't) lmdb \<Rightarrow> 't \<Rightarrow> string \<Rightarrow> bytes \<Rightarrow> cetcd_status \<times> bytes option" where
  "get_internal L txn bucket key =
     (case get_dbi L txn bucket of (ok, txn) \<Rightarrow>
        if ok then
          (case mdb_get L txn bucket key of
             None \<Rightarrow> (CETCD_ERR_NOTFOUND, None)
           | Some v \<Rightarrow> (CETCD_OK, Some v))
        else (CETCD_ERR_IO, None))"

text \<open>The write operations return the status and the environment.\<close>

definition cetcd_backend_put ::
  "('e, 't) lmdb \<Rightarrow> 'e \<Rightarrow> string \<Rightarrow> bytes \<Rightarrow> bytes \<Rightarrow> cetcd_status \<times> 'e" where
  "cetcd_backend_put L be bucket key val =
     (case cetcd_txn_begin L be False of
        None \<Rightarrow> (CETCD_ERR_IO, be)
      | Some txn \<Rightarrow>
          (case put_internal L txn bucket key val of (rc, txn) \<Rightarrow>
             if rc = CETCD_OK then cetcd_txn_commit L be txn else (rc, be)))"

definition cetcd_backend_get ::
  "('e, 't) lmdb \<Rightarrow> 'e \<Rightarrow> string \<Rightarrow> bytes \<Rightarrow> cetcd_status \<times> bytes option" where
  "cetcd_backend_get L be bucket key =
     (case cetcd_txn_begin L be True of
        None \<Rightarrow> (CETCD_ERR_IO, None)
      | Some txn \<Rightarrow> get_internal L txn bucket key)"

definition cetcd_backend_del ::
  "('e, 't) lmdb \<Rightarrow> 'e \<Rightarrow> string \<Rightarrow> bytes \<Rightarrow> cetcd_status \<times> 'e" where
  "cetcd_backend_del L be bucket key =
     (case cetcd_txn_begin L be False of
        None \<Rightarrow> (CETCD_ERR_IO, be)
      | Some txn \<Rightarrow>
          (case get_dbi L txn bucket of (ok, txn) \<Rightarrow>
             if ok then
               (case mdb_del L txn bucket key of (r, txn) \<Rightarrow>
                  (lmdb_error r, snd (cetcd_txn_commit L be txn)))
             else (CETCD_ERR_IO, be)))"

text \<open>\<^verbatim>\<open>cetcd_backend_put2\<close>; \<open>val1 = None\<close> is the null pointer, which deletes the first key.\<close>

definition cetcd_backend_put2 ::
  "('e, 't) lmdb \<Rightarrow> 'e \<Rightarrow> string \<Rightarrow> bytes \<Rightarrow> bytes option \<Rightarrow> string \<Rightarrow> bytes \<Rightarrow> bytes \<Rightarrow> cetcd_status \<times> 'e" where
  "cetcd_backend_put2 L be bucket1 key1 val1 bucket2 key2 val2 =
     (case cetcd_txn_begin L be False of
        None \<Rightarrow> (CETCD_ERR_IO, be)
      | Some txn \<Rightarrow>
          (case (case val1 of
                   Some v \<Rightarrow> put_internal L txn bucket1 key1 v
                 | None \<Rightarrow>
                     (case get_dbi L txn bucket1 of (ok, txn) \<Rightarrow>
                        if \<not> ok then (CETCD_ERR_IO, txn)
                        else case mdb_del L txn bucket1 key1 of (r, txn) \<Rightarrow>
                          (if r = MDB_SUCCESS \<or> r = MDB_NOTFOUND then CETCD_OK else CETCD_ERR_IO, txn))) of
             (rc, txn) \<Rightarrow>
               if rc \<noteq> CETCD_OK then (rc, be)
               else case put_internal L txn bucket2 key2 val2 of (rc, txn) \<Rightarrow>
                 if rc = CETCD_OK then cetcd_txn_commit L be txn else (rc, be)))"

fun del_n_loop :: "('e, 't) lmdb \<Rightarrow> 't \<Rightarrow> string \<Rightarrow> bytes list \<Rightarrow> 't option" where
  "del_n_loop L txn bucket [] = Some txn"
| "del_n_loop L txn bucket (k # ks) =
     (if length k = 0 then del_n_loop L txn bucket ks
      else case get_dbi L txn bucket of (ok, txn) \<Rightarrow>
        if \<not> ok then None
        else case mdb_del L txn bucket k of (r, txn) \<Rightarrow>
          if r \<noteq> MDB_SUCCESS \<and> r \<noteq> MDB_NOTFOUND then None
          else del_n_loop L txn bucket ks)"

definition cetcd_backend_del_n ::
  "('e, 't) lmdb \<Rightarrow> 'e \<Rightarrow> string \<Rightarrow> bytes list \<Rightarrow> string \<Rightarrow> bytes \<Rightarrow> bytes \<Rightarrow> cetcd_status \<times> 'e" where
  "cetcd_backend_del_n L be bucket keys meta_bucket meta_key meta_val =
     (case cetcd_txn_begin L be False of
        None \<Rightarrow> (CETCD_ERR_IO, be)
      | Some txn \<Rightarrow>
          (case del_n_loop L txn bucket keys of
             None \<Rightarrow> (CETCD_ERR_IO, be)
           | Some txn \<Rightarrow>
               (case put_internal L txn meta_bucket meta_key meta_val of (rc, txn) \<Rightarrow>
                  if rc = CETCD_OK then cetcd_txn_commit L be txn else (rc, be))))"

text \<open>Operations inside a transaction the caller began.\<close>

definition cetcd_txn_put ::
  "('e, 't) lmdb \<Rightarrow> 't \<Rightarrow> string \<Rightarrow> bytes \<Rightarrow> bytes \<Rightarrow> cetcd_status \<times> 't" where
  "cetcd_txn_put L txn bucket key val =
     (case get_dbi L txn bucket of (ok, txn) \<Rightarrow>
        if \<not> ok then (CETCD_ERR_IO, txn)
        else case mdb_put L txn bucket key val of (rc, txn) \<Rightarrow> (lmdb_error rc, txn))"

definition cetcd_txn_get ::
  "('e, 't) lmdb \<Rightarrow> 't \<Rightarrow> string \<Rightarrow> bytes \<Rightarrow> cetcd_status \<times> bytes option" where
  "cetcd_txn_get L txn bucket key =
     (case get_dbi L txn bucket of (ok, txn) \<Rightarrow>
        if \<not> ok then (CETCD_ERR_IO, None)
        else case mdb_get L txn bucket key of
          None \<Rightarrow> (CETCD_ERR_NOTFOUND, None)
        | Some v \<Rightarrow> (CETCD_OK, Some v))"

definition cetcd_txn_del ::
  "('e, 't) lmdb \<Rightarrow> 't \<Rightarrow> string \<Rightarrow> bytes \<Rightarrow> cetcd_status \<times> 't" where
  "cetcd_txn_del L txn bucket key =
     (case get_dbi L txn bucket of (ok, txn) \<Rightarrow>
        if ok then (case mdb_del L txn bucket key of (rc, txn) \<Rightarrow> (lmdb_error rc, txn))
        else (CETCD_ERR_IO, txn))"

text \<open>
  Iteration over a bucket in key order, until the callback returns false or the cursor returns no pair. The code
  that ends the iteration is ignored: \<^verbatim>\<open>CETCD_OK\<close> is returned at the end of the bucket and after an error alike.
\<close>

definition cetcd_backend_foreach ::
  "('e, 't) lmdb \<Rightarrow> 'e \<Rightarrow> string \<Rightarrow> (bytes, 'u) cetcd_treap_iter_fn \<Rightarrow> 'u \<Rightarrow> cetcd_status \<times> 'u" where
  "cetcd_backend_foreach L be bucket f u =
     (case cetcd_txn_begin L be True of
        None \<Rightarrow> (CETCD_ERR_IO, u)
      | Some txn \<Rightarrow>
          (case mdb_dbi_open L txn bucket False of (rc, txn) \<Rightarrow>
             if rc = MDB_NOTFOUND then (CETCD_OK, u)
             else if rc \<noteq> MDB_SUCCESS then (CETCD_ERR_IO, u)
             else case mdb_cursor L txn bucket of
               None \<Rightarrow> (CETCD_ERR_IO, u)
             | Some (kvs, _) \<Rightarrow> (CETCD_OK, fst (walk f kvs u))))"

text \<open>The cursor of such an iteration gets to the end of the bucket.\<close>

definition full_scan :: "('e, 't) lmdb \<Rightarrow> 'e \<Rightarrow> string \<Rightarrow> bool" where
  "full_scan L be bucket =
     (case mdb_txn_begin L be True of
        None \<Rightarrow> True
      | Some txn \<Rightarrow>
          (case mdb_cursor L (snd (mdb_dbi_open L txn bucket False)) bucket of
             None \<Rightarrow> True
           | Some (_, rc) \<Rightarrow> rc = MDB_NOTFOUND))"

section \<open>The contract of the wrapper\<close>

type_synonym view = "string \<Rightarrow> bytes \<Rightarrow> bytes option"

definition vset :: "view \<Rightarrow> string \<Rightarrow> bytes \<Rightarrow> bytes option \<Rightarrow> view" where
  "vset v b k x = v(b := (v b)(k := x))"

fun vdels :: "view \<Rightarrow> string \<Rightarrow> bytes list \<Rightarrow> view" where
  "vdels v b [] = v"
| "vdels v b (k # ks) = vdels (if k = [] then v else vset v b k None) b ks"

lemma vset_apply [simp]: "vset v b k x b' k' = (if b' = b \<and> k' = k then x else v b' k')"
  by (simp add: vset_def)

lemma vdels_apply:
  "vdels v b ks b' k' = (if b' = b \<and> k' \<noteq> [] \<and> k' \<in> set ks then None else v b' k')"
  by (induction ks arbitrary: v) auto

locale kv_backend =
  fixes view :: "'e \<Rightarrow> view"
    and put :: "'e \<Rightarrow> string \<Rightarrow> bytes \<Rightarrow> bytes \<Rightarrow> cetcd_status \<times> 'e"
    and put2 :: "'e \<Rightarrow> string \<Rightarrow> bytes \<Rightarrow> bytes option \<Rightarrow> string \<Rightarrow> bytes \<Rightarrow> bytes \<Rightarrow> cetcd_status \<times> 'e"
    and del :: "'e \<Rightarrow> string \<Rightarrow> bytes \<Rightarrow> cetcd_status \<times> 'e"
    and del_n :: "'e \<Rightarrow> string \<Rightarrow> bytes list \<Rightarrow> string \<Rightarrow> bytes \<Rightarrow> bytes \<Rightarrow> cetcd_status \<times> 'e"
    and get :: "'e \<Rightarrow> string \<Rightarrow> bytes \<Rightarrow> cetcd_status \<times> bytes option"
  assumes put_view: "put e b k x = (rc, e') \<Longrightarrow>
      view e' = (if rc = CETCD_OK then vset (view e) b k (Some x) else view e)"
    and put2_view: "put2 e b1 k1 x1 b2 k2 x2 = (rc, e') \<Longrightarrow>
      view e' = (if rc = CETCD_OK then vset (vset (view e) b1 k1 x1) b2 k2 (Some x2) else view e)"
    and del_view: "del e b k = (rc, e') \<Longrightarrow> view e' = view e \<or> view e' = vset (view e) b k None"
    and del_missing: "view e b k = None \<Longrightarrow> fst (del e b k) \<noteq> CETCD_OK"
    and del_n_view: "del_n e b ks b2 k2 x2 = (rc, e') \<Longrightarrow>
      view e' = (if rc = CETCD_OK then vset (vdels (view e) b ks) b2 k2 (Some x2) else view e)"
    and get_view: "get e b k = (rc, y) \<Longrightarrow>
      (rc = CETCD_OK \<longrightarrow> view e b k = y \<and> y \<noteq> None) \<and> (rc = CETCD_ERR_NOTFOUND \<longrightarrow> view e b k = None)"
begin

text \<open>A write is all or nothing, and what was written is what a successful read returns.\<close>

lemma put2_atomic:
  assumes "put2 e b1 k1 x1 b2 k2 x2 = (rc, e')" and "(b1, k1) \<noteq> (b2, k2)"
  shows "view e' b1 k1 = x1 \<and> view e' b2 k2 = Some x2 \<or> view e' = view e"
  using put2_view [OF assms(1)] assms(2) by (auto split: if_splits)

lemma put_get:
  assumes "put e b k x = (CETCD_OK, e')" and "get e' b k = (CETCD_OK, y)"
  shows "y = Some x"
  using put_view [OF assms(1)] get_view [OF assms(2)] by simp

lemma del_n_gone:
  assumes "del_n e b ks b2 k2 x2 = (CETCD_OK, e')" and "b \<noteq> b2" and "k \<in> set ks" and "k \<noteq> []"
  shows "view e' b k = None"
  using del_n_view [OF assms(1)] assms(2-) by (simp add: vdels_apply)

end

text \<open>The documented behaviour of the LMDB calls, on the contents of an environment and a transaction.\<close>

locale lmdb_laws =
  fixes L :: "('e, 't) lmdb" and env_view :: "'e \<Rightarrow> view" and txn_view :: "'t \<Rightarrow> view"
  assumes begin_view: "mdb_txn_begin L e ro = Some t \<Longrightarrow> txn_view t = env_view e"
    and open_view: "mdb_dbi_open L t b c = (rc, t') \<Longrightarrow> txn_view t' = txn_view t"
    and open_missing: "mdb_dbi_open L t b False = (MDB_NOTFOUND, t') \<Longrightarrow> txn_view t b = Map.empty"
    and mdb_put_view: "mdb_put L t b k x = (MDB_SUCCESS, t') \<Longrightarrow> txn_view t' = vset (txn_view t) b k (Some x)"
    and mdb_del_view: "mdb_del L t b k = (MDB_SUCCESS, t') \<Longrightarrow>
      txn_view t' = vset (txn_view t) b k None \<and> txn_view t b k \<noteq> None"
    and mdb_del_none: "mdb_del L t b k = (MDB_NOTFOUND, t') \<Longrightarrow> txn_view t' = txn_view t \<and> txn_view t b k = None"
    and mdb_del_failed: "mdb_del L t b k = (MDB_FAILED, t') \<Longrightarrow> txn_view t' = txn_view t"
    and mdb_get_view: "mdb_get L t b k = txn_view t b k"
    and cursor_view: "mdb_cursor L t b = Some (kvs, rc) \<Longrightarrow> sorted_wrt (<) (map fst kvs) \<and> map_of kvs \<subseteq>\<^sub>m txn_view t b"
    and cursor_end: "mdb_cursor L t b = Some (kvs, MDB_NOTFOUND) \<Longrightarrow> map_of kvs = txn_view t b"
    and commit_view: "mdb_txn_commit L e t = (MDB_SUCCESS, e') \<Longrightarrow> env_view e' = txn_view t"
    and commit_failed: "mdb_txn_commit L e t = (rc, e') \<Longrightarrow> rc \<noteq> MDB_SUCCESS \<Longrightarrow> env_view e' = env_view e"
begin

lemma get_dbi_view: "get_dbi L t b = (ok, t') \<Longrightarrow> txn_view t' = txn_view t"
  by (auto simp: get_dbi_def open_view split: prod.splits)

lemma put_internal_view:
  "put_internal L t b k x = (CETCD_OK, t') \<Longrightarrow> txn_view t' = vset (txn_view t) b k (Some x)"
  by (auto simp: put_internal_def lmdb_error_def get_dbi_view dest!: mdb_put_view split: prod.splits if_splits)

lemma txn_commit_view:
  "cetcd_txn_commit L e t = (rc, e') \<Longrightarrow> env_view e' = (if rc = CETCD_OK then txn_view t else env_view e)"
  by (auto simp: cetcd_txn_commit_def lmdb_error_def commit_view commit_failed split: prod.splits if_splits)

lemma del_n_loop_view: "del_n_loop L t b ks = Some t' \<Longrightarrow> txn_view t' = vdels (txn_view t) b ks"
proof (induction ks arbitrary: t)
  case (Cons k ks)
  show ?case
  proof (cases "k = []")
    case False
    then obtain t1 r t2 where d: "get_dbi L t b = (True, t1)" "mdb_del L t1 b k = (r, t2)"
      "r = MDB_SUCCESS \<or> r = MDB_NOTFOUND" "del_n_loop L t2 b ks = Some t'"
      using Cons.prems by (auto split: prod.splits if_splits)
    have "txn_view t2 = vset (txn_view t) b k None"
      using d(1,2,3) mdb_del_view mdb_del_none get_dbi_view by (fastforce simp: vset_def fun_eq_iff)
    with Cons.IH [OF d(4)] False show ?thesis by (simp del: vset_apply)
  qed (use Cons in simp)
qed simp

end

sublocale lmdb_laws \<subseteq> be: kv_backend env_view "cetcd_backend_put L" "cetcd_backend_put2 L"
  "cetcd_backend_del L" "cetcd_backend_del_n L" "cetcd_backend_get L"
proof
  fix e e' b k rc b1 k1 b2 k2 ks y and x x2 :: bytes and x1 :: "bytes option"
  show "env_view e' = (if rc = CETCD_OK then vset (env_view e) b k (Some x) else env_view e)"
    if "cetcd_backend_put L e b k x = (rc, e')"
    using that
    by (auto simp: cetcd_backend_put_def cetcd_txn_begin_def dest!: begin_view txn_commit_view put_internal_view
        split: option.splits prod.splits if_splits)
  show "env_view e' = (if rc = CETCD_OK then vset (vset (env_view e) b1 k1 x1) b2 k2 (Some x2) else env_view e)"
    if "cetcd_backend_put2 L e b1 k1 x1 b2 k2 x2 = (rc, e')"
  proof (cases x1)
    case None
    have set_none: "view b1 k1 = None \<Longrightarrow> vset view b1 k1 None = view" for view
      by (auto simp: vset_def fun_eq_iff)
    show ?thesis
      using that None
      by (auto simp: cetcd_backend_put2_def cetcd_txn_begin_def set_none simp del: vset_apply
          dest!: begin_view txn_commit_view put_internal_view get_dbi_view mdb_del_view mdb_del_none
          split: option.splits prod.splits if_splits)
  next
    case (Some v)
    show ?thesis
      using that Some
      by (auto simp: cetcd_backend_put2_def cetcd_txn_begin_def simp del: vset_apply
          dest!: begin_view txn_commit_view put_internal_view
          split: option.splits prod.splits if_splits)
  qed
  have del: "env_view e' = env_view e \<or> env_view e' = vset (env_view e) b k None" "rc = CETCD_OK \<Longrightarrow> env_view e b k \<noteq> None"
    if d: "cetcd_backend_del L e b k = (rc, e')" for e e' b k rc
  proof -
    consider "rc = CETCD_ERR_IO" "e' = e" | t t1 r t2 where "mdb_txn_begin L e False = Some t" "get_dbi L t b = (True, t1)"
      "mdb_del L t1 b k = (r, t2)" "rc = lmdb_error r" "e' = snd (cetcd_txn_commit L e t2)"
      using d by (auto simp: cetcd_backend_del_def cetcd_txn_begin_def split: option.splits prod.splits if_splits)
    then have "(env_view e' = env_view e \<or> env_view e' = vset (env_view e) b k None) \<and> (rc = CETCD_OK \<longrightarrow> env_view e b k \<noteq> None)"
    proof cases
      case 2
      have t1: "txn_view t1 = env_view e" using begin_view [OF 2(1)] get_dbi_view [OF 2(2)] by simp
      have "env_view e' = env_view e \<or> env_view e' = txn_view t2"
        using 2(5) txn_commit_view by (metis prod.collapse)
      then show ?thesis
        using mdb_del_view [of t1 b k t2] mdb_del_none [of t1 b k t2] mdb_del_failed [of t1 b k t2] 2(3,4) t1
        by (cases r) (auto simp: lmdb_error_def)
    qed auto
    then show "env_view e' = env_view e \<or> env_view e' = vset (env_view e) b k None" "rc = CETCD_OK \<Longrightarrow> env_view e b k \<noteq> None"
      by auto
  qed
  show "env_view e' = env_view e \<or> env_view e' = vset (env_view e) b k None"
    if "cetcd_backend_del L e b k = (rc, e')"
    by (rule del(1) [OF that])
  show "fst (cetcd_backend_del L e b k) \<noteq> CETCD_OK" if "env_view e b k = None"
    using del(2) that by (metis prod.collapse)
  show "env_view e' = (if rc = CETCD_OK then vset (vdels (env_view e) b ks) b2 k2 (Some x2) else env_view e)"
    if "cetcd_backend_del_n L e b ks b2 k2 x2 = (rc, e')"
    using that
    by (auto simp: cetcd_backend_del_n_def cetcd_txn_begin_def dest!: begin_view txn_commit_view put_internal_view del_n_loop_view
        split: option.splits prod.splits if_splits)
  show "(rc = CETCD_OK \<longrightarrow> env_view e b k = y \<and> y \<noteq> None) \<and> (rc = CETCD_ERR_NOTFOUND \<longrightarrow> env_view e b k = None)"
    if "cetcd_backend_get L e b k = (rc, y)"
    using that
    by (auto simp: cetcd_backend_get_def cetcd_txn_begin_def get_internal_def mdb_get_view dest!: begin_view get_dbi_view
        split: option.splits prod.splits if_splits intro: sym)
qed

section \<open>A reference environment\<close>

text \<open>
  Buckets in memory, as association lists with the newest binding first. Keys are of 1 to
  511 bytes, LMDB's limits; a longer or empty key is refused.
\<close>

type_synonym mem_env = "string \<Rightarrow> (bytes \<times> bytes) list option"

definition mem_view :: "mem_env \<Rightarrow> view" where
  "mem_view e b = (case e b of None \<Rightarrow> Map.empty | Some kvs \<Rightarrow> map_of kvs)"

definition mem_lmdb :: "(mem_env, mem_env) lmdb" where
  "mem_lmdb = \<lparr>
     mdb_txn_begin = (\<lambda>e ro. Some e),
     mdb_txn_commit = (\<lambda>e t. (MDB_SUCCESS, t)),
     mdb_dbi_open = (\<lambda>t b create.
       case t b of
         Some kvs \<Rightarrow> (MDB_SUCCESS, t)
       | None \<Rightarrow> if create then (MDB_SUCCESS, t(b \<mapsto> [])) else (MDB_NOTFOUND, t)),
     mdb_put = (\<lambda>t b k v.
       if k = [] \<or> length k > 511 then (MDB_FAILED, t)
       else (MDB_SUCCESS, t(b \<mapsto> (k, v) # (case t b of None \<Rightarrow> [] | Some kvs \<Rightarrow> kvs)))),
     mdb_get = (\<lambda>t b k. case t b of None \<Rightarrow> None | Some kvs \<Rightarrow> map_of kvs k),
     mdb_del = (\<lambda>t b k.
       case t b of
         None \<Rightarrow> (MDB_NOTFOUND, t)
       | Some kvs \<Rightarrow>
           if map_of kvs k = None then (MDB_NOTFOUND, t)
           else (MDB_SUCCESS, t(b \<mapsto> filter (\<lambda>kv. fst kv \<noteq> k) kvs))),
     mdb_cursor = (\<lambda>t b.
       let kvs = (case t b of None \<Rightarrow> [] | Some kvs \<Rightarrow> kvs)
       in Some (map (\<lambda>k. (k, the (map_of kvs k))) (sort (remdups (map fst kvs))), MDB_NOTFOUND))\<rparr>"

lemma map_of_graph: "map_of (map (\<lambda>k. (k, the (map_of kvs k))) (sort (remdups (map fst kvs)))) = map_of kvs"
  unfolding map_of_map_restrict
proof
  fix x
  have "x \<in> fst ` set kvs \<longleftrightarrow> map_of kvs x \<noteq> None" by (simp add: map_of_eq_None_iff)
  then show "((Some \<circ> (\<lambda>k. the (map_of kvs k))) |` set (sort (remdups (map fst kvs)))) x = map_of kvs x"
    by (auto simp: restrict_map_def)
qed

lemma map_of_filter_other: "map_of (filter (\<lambda>kv. fst kv \<noteq> k) kvs) = (map_of kvs)(k := None)"
  using map_of_filter_key [of "\<lambda>x. x \<noteq> k" kvs] by auto

interpretation ml: lmdb_laws mem_lmdb mem_view mem_view
proof
  fix e t t' :: mem_env and b k x rc c kvs ro e'
  show "mem_view t = mem_view e" if "mdb_txn_begin mem_lmdb e ro = Some t"
    using that by (simp add: mem_lmdb_def)
  show "mem_view t' = mem_view t" if "mdb_dbi_open mem_lmdb t b c = (rc, t')"
    using that by (auto simp: mem_lmdb_def mem_view_def split: option.splits if_splits)
  show "mem_view t b = Map.empty" if "mdb_dbi_open mem_lmdb t b False = (MDB_NOTFOUND, t')"
    using that by (auto simp: mem_lmdb_def mem_view_def split: option.splits)
  show "mem_view t' = vset (mem_view t) b k (Some x)" if "mdb_put mem_lmdb t b k x = (MDB_SUCCESS, t')"
    using that by (auto simp: mem_lmdb_def mem_view_def vset_def split: option.splits if_splits)
  show "mem_view t' = vset (mem_view t) b k None \<and> mem_view t b k \<noteq> None" if "mdb_del mem_lmdb t b k = (MDB_SUCCESS, t')"
    using that by (auto simp: mem_lmdb_def mem_view_def vset_def map_of_filter_other split: option.splits if_splits)
  show "mem_view t' = mem_view t \<and> mem_view t b k = None" if "mdb_del mem_lmdb t b k = (MDB_NOTFOUND, t')"
    using that by (auto simp: mem_lmdb_def mem_view_def split: option.splits if_splits)
  show "mem_view t' = mem_view t" if "mdb_del mem_lmdb t b k = (MDB_FAILED, t')"
    using that by (auto simp: mem_lmdb_def split: option.splits if_splits)
  show "mdb_get mem_lmdb t b k = mem_view t b k"
    by (auto simp: mem_lmdb_def mem_view_def split: option.splits)
  show "sorted_wrt (<) (map fst kvs) \<and> map_of kvs \<subseteq>\<^sub>m mem_view t b" if "mdb_cursor mem_lmdb t b = Some (kvs, rc)"
    using that by (auto simp: mem_lmdb_def mem_view_def Let_def strict_sorted_iff o_def map_of_graph split: option.splits)
  show "map_of kvs = mem_view t b" if "mdb_cursor mem_lmdb t b = Some (kvs, MDB_NOTFOUND)"
    using that map_of_graph by (auto simp: mem_lmdb_def mem_view_def Let_def split: option.splits)
  show "mem_view e' = mem_view t" if "mdb_txn_commit mem_lmdb e t = (MDB_SUCCESS, e')"
    using that by (simp add: mem_lmdb_def)
  show "mem_view e' = mem_view e" if "mdb_txn_commit mem_lmdb e t = (rc, e')" "rc \<noteq> MDB_SUCCESS"
    using that by (simp add: mem_lmdb_def)
qed

section \<open>Properties\<close>

context lmdb_laws
begin

lemmas backend_put = be.put_view
lemmas backend_put2 = be.put2_view
lemmas backend_del = be.del_view
lemmas backend_del_missing = be.del_missing
lemmas backend_del_n = be.del_n_view
lemmas backend_get = be.get_view

lemma backend_foreach:
  assumes "cetcd_backend_foreach L e b f u = (CETCD_OK, u')" and "full_scan L e b"
  shows "\<exists>kvs. map_of kvs = env_view e b \<and> sorted_wrt (<) (map fst kvs) \<and> u' = fst (walk f kvs u)"
proof -
  obtain t rc t1 where t: "mdb_txn_begin L e True = Some t" "mdb_dbi_open L t b False = (rc, t1)"
    using assms by (auto simp: cetcd_backend_foreach_def cetcd_txn_begin_def split: option.splits prod.splits)
  have v: "txn_view t1 = env_view e" using begin_view [OF t(1)] open_view [OF t(2)] by simp
  show ?thesis
  proof (cases "rc = MDB_NOTFOUND")
    case True
    with t assms have "u' = u" by (simp add: cetcd_backend_foreach_def cetcd_txn_begin_def)
    moreover have "env_view e b = Map.empty" using open_missing True t begin_view [OF t(1)] by metis
    ultimately show ?thesis by (intro exI [of _ "[]"]) simp
  next
    case False
    then obtain kvs rc' where c: "mdb_cursor L t1 b = Some (kvs, rc')" "u' = fst (walk f kvs u)"
      using t assms(1) by (auto simp: cetcd_backend_foreach_def cetcd_txn_begin_def split: option.splits if_splits)
    then have "rc' = MDB_NOTFOUND" using assms(2) t by (simp add: full_scan_def)
    with c cursor_view cursor_end v show ?thesis by metis
  qed
qed

end

lemma mem_full_scan [simp]: "full_scan mem_lmdb e b"
  by (simp add: full_scan_def mem_lmdb_def Let_def split: option.split)

text \<open>
  A write of two keys is all or nothing for any LMDB that behaves as documented: it
  either stores both and returns success, or returns an error and leaves the contents of
  every bucket as they were.
\<close>

theorem backend_put2_atomic:
  assumes "lmdb_laws L env_view txn_view"
    and "cetcd_backend_put2 L e b1 k1 x1 b2 k2 x2 = (rc, e')" and "(b1, k1) \<noteq> (b2, k2)"
  shows "rc = CETCD_OK \<and> env_view e' b1 k1 = x1 \<and> env_view e' b2 k2 = Some x2 \<or>
    rc \<noteq> CETCD_OK \<and> env_view e' = env_view e"
  using lmdb_laws.backend_put2 [OF assms(1,2)] assms(3) by (auto split: if_splits)

theorem backend_put2_atomic_witness:
  "\<exists>e'. cetcd_backend_put2 mem_lmdb Map.empty ''key'' [1] (Some [7]) ''meta'' [2] [8] = (CETCD_OK, e') \<and>
     mem_view e' ''key'' [1] = Some [7] \<and> mem_view e' ''meta'' [2] = Some [8]"
proof -
  obtain rc e' where r: "cetcd_backend_put2 mem_lmdb Map.empty ''key'' [1] (Some [7]) ''meta'' [2] [8] = (rc, e')"
    by fastforce
  moreover have "rc = CETCD_OK"
    using r by (auto simp: cetcd_backend_put2_def cetcd_txn_begin_def put_internal_def get_dbi_def
        cetcd_txn_commit_def lmdb_error_def mem_lmdb_def)
  ultimately show ?thesis
    using backend_put2_atomic [OF ml.lmdb_laws_axioms r] by auto
qed

end
