(* ===== verification/Hashmap.thy ===== *)
theory Hashmap
  imports Index Checksum
begin

text \<open>
  The open-addressing hash table of \<^verbatim>\<open>src/base/hashmap.c\<close>: linear probing over a table
  whose capacity is a power of two, tombstones for removed keys, and doubling at a load
  of seven tenths. A slot's value pointer is an option, \<open>None\<close> being the null pointer of
  an empty or removed slot.
\<close>

datatype slot_state = SLOT_EMPTY | SLOT_OCCUPIED | SLOT_TOMBSTONE

record 'v slot =
  s_hash :: u64
  s_key :: bytes
  s_value :: "'v option"
  s_state :: slot_state

record 'v cetcd_hashmap =
  h_slots :: "'v slot list"
  h_cap :: nat
  h_size :: nat
  h_tombstones :: nat

definition CETCD_HASHMAP_MIN_CAP :: nat where "CETCD_HASHMAP_MIN_CAP = 8"
definition CETCD_HASHMAP_LOAD_NUMER :: nat where "CETCD_HASHMAP_LOAD_NUMER = 7"
definition CETCD_HASHMAP_LOAD_DENOM :: nat where "CETCD_HASHMAP_LOAD_DENOM = 10"

text \<open>The loop of \<^verbatim>\<open>next_pow2_\<close> doubles a \<^verbatim>\<open>size_t\<close>; \<open>None\<close> is not returning.\<close>

partial_function (option) next_pow2_loop :: "u64 \<Rightarrow> u64 \<Rightarrow> u64 option" where
  "next_pow2_loop n p = (if p < n then next_pow2_loop n (p * 2) else Some p)"

definition next_pow2 :: "u64 \<Rightarrow> u64 option" where
  "next_pow2 n = next_pow2_loop n 1"

definition empty_slot :: "'v slot" where
  "empty_slot = \<lparr>s_hash = 0, s_key = [], s_value = None, s_state = SLOT_EMPTY\<rparr>"

definition map_alloc_table :: "nat \<Rightarrow> 'v cetcd_hashmap" where
  "map_alloc_table cap =
     \<lparr>h_slots = replicate cap empty_slot, h_cap = cap, h_size = 0, h_tombstones = 0\<rparr>"

definition cetcd_hashmap_new :: "u64 \<Rightarrow> 'v cetcd_hashmap option" where
  "cetcd_hashmap_new initial_cap =
     (if unat initial_cap < CETCD_HASHMAP_MIN_CAP
      then Some (map_alloc_table CETCD_HASHMAP_MIN_CAP)
      else map_option (\<lambda>cap. map_alloc_table (unat cap)) (next_pow2 initial_cap))"

definition slot_key_equal :: "'v slot \<Rightarrow> bytes \<Rightarrow> bool" where
  "slot_key_equal s key \<longleftrightarrow>
     length (s_key s) = length key \<and> memcmp (s_key s) key (length key) = 0"

text \<open>The index of a probe: \<^verbatim>\<open>(idx + probe) & mask\<close> with \<^verbatim>\<open>idx = h & mask\<close>.\<close>

definition probe_at :: "nat \<Rightarrow> u64 \<Rightarrow> nat \<Rightarrow> nat" where
  "probe_at cap h probe =
     (let mask = of_nat cap - 1; idx = h AND mask in unat ((idx + of_nat probe) AND mask))"

text \<open>
  The probe loop, with the number of probes made, the number left, and the first
  tombstone seen (\<^verbatim>\<open>(size_t)-1\<close> is \<open>None\<close>).
\<close>

fun find_loop ::
  "'v slot list \<Rightarrow> nat \<Rightarrow> bytes \<Rightarrow> u64 \<Rightarrow> nat \<Rightarrow> nat \<Rightarrow> nat option \<Rightarrow> nat \<times> bool" where
  "find_loop sl cap key h probe 0 first_tomb =
     ((case first_tomb of Some t \<Rightarrow> t | None \<Rightarrow> 0), False)"
| "find_loop sl cap key h probe (Suc n) first_tomb =
     (let i = probe_at cap h probe; s = sl ! i in
      if s_state s = SLOT_EMPTY then
        ((case first_tomb of Some t \<Rightarrow> t | None \<Rightarrow> i), False)
      else if s_state s = SLOT_TOMBSTONE then
        find_loop sl cap key h (Suc probe) n (if first_tomb = None then Some i else first_tomb)
      else if s_hash s = h \<and> slot_key_equal s key then (i, True)
      else find_loop sl cap key h (Suc probe) n first_tomb)"

definition find_slot :: "'v cetcd_hashmap \<Rightarrow> bytes \<Rightarrow> u64 \<Rightarrow> nat \<times> bool" where
  "find_slot m key h = find_loop (h_slots m) (h_cap m) key h 0 (h_cap m) None"

text \<open>Placing one slot of the old table: the first empty slot of its probe sequence.\<close>

fun place_loop :: "'v slot list \<Rightarrow> nat \<Rightarrow> 'v slot \<Rightarrow> nat \<Rightarrow> nat \<Rightarrow> 'v slot list \<times> nat" where
  "place_loop sl cap s probe 0 = (sl, 0)"
| "place_loop sl cap s probe (Suc n) =
     (let j = probe_at cap (s_hash s) probe in
      if s_state (sl ! j) = SLOT_EMPTY then (sl[j := s], 1)
      else place_loop sl cap s (Suc probe) n)"

fun rehash_loop :: "'v slot list \<Rightarrow> 'v cetcd_hashmap \<Rightarrow> 'v cetcd_hashmap" where
  "rehash_loop [] m = m"
| "rehash_loop (s # old) m =
     (if s_state s \<noteq> SLOT_OCCUPIED then rehash_loop old m
      else case place_loop (h_slots m) (h_cap m) s 0 (h_cap m) of (sl, d) \<Rightarrow>
        rehash_loop old (m\<lparr>h_slots := sl, h_size := h_size m + d\<rparr>))"

definition map_resize :: "'v cetcd_hashmap \<Rightarrow> nat \<Rightarrow> 'v cetcd_hashmap" where
  "map_resize m new_cap = rehash_loop (h_slots m) (map_alloc_table new_cap)"

definition cetcd_hashmap_put ::
  "'v cetcd_hashmap \<Rightarrow> bytes \<Rightarrow> 'v \<Rightarrow> cetcd_status \<times> 'v cetcd_hashmap" where
  "cetcd_hashmap_put m0 key value =
     (let m = (if (h_size m0 + h_tombstones m0 + 1) * CETCD_HASHMAP_LOAD_DENOM
                    > h_cap m0 * CETCD_HASHMAP_LOAD_NUMER
               then (let new_cap = h_cap m0 * 2;
                         new_cap = (if new_cap < CETCD_HASHMAP_MIN_CAP then CETCD_HASHMAP_MIN_CAP else new_cap)
                     in map_resize m0 new_cap)
               else m0);
          h = cetcd_hash_fnv1a64 key
      in case find_slot m key h of (idx, found) \<Rightarrow>
         let s = h_slots m ! idx in
         if found then
           (CETCD_OK, m\<lparr>h_slots := (h_slots m)[idx := s\<lparr>s_value := Some value\<rparr>]\<rparr>)
         else
           (CETCD_OK,
            m\<lparr>h_tombstones := (if s_state s = SLOT_TOMBSTONE \<and> h_tombstones m > 0
                                then h_tombstones m - 1 else h_tombstones m),
              h_slots := (h_slots m)[idx := \<lparr>s_hash = h, s_key = key, s_value = Some value,
                                             s_state = SLOT_OCCUPIED\<rparr>],
              h_size := h_size m + 1\<rparr>))"

definition cetcd_hashmap_get :: "'v cetcd_hashmap \<Rightarrow> bytes \<Rightarrow> 'v option" where
  "cetcd_hashmap_get m key =
     (if h_size m = 0 then None
      else case find_slot m key (cetcd_hash_fnv1a64 key) of (idx, found) \<Rightarrow>
        if \<not> found then None else s_value (h_slots m ! idx))"

definition cetcd_hashmap_contains :: "'v cetcd_hashmap \<Rightarrow> bytes \<Rightarrow> bool" where
  "cetcd_hashmap_contains m key \<longleftrightarrow> cetcd_hashmap_get m key \<noteq> None"

definition cetcd_hashmap_remove ::
  "'v cetcd_hashmap \<Rightarrow> bytes \<Rightarrow> bool \<times> 'v option \<times> 'v cetcd_hashmap" where
  "cetcd_hashmap_remove m key =
     (if h_size m = 0 then (False, None, m)
      else case find_slot m key (cetcd_hash_fnv1a64 key) of (idx, found) \<Rightarrow>
        if \<not> found then (False, None, m)
        else let s = h_slots m ! idx in
          (True, s_value s,
           m\<lparr>h_slots := (h_slots m)[idx := s\<lparr>s_key := [], s_value := None, s_state := SLOT_TOMBSTONE\<rparr>],
             h_size := h_size m - 1, h_tombstones := h_tombstones m + 1\<rparr>))"

fun hashmap_iter_loop ::
  "'v slot list \<Rightarrow> (bytes \<Rightarrow> 'v option \<Rightarrow> 'u \<Rightarrow> 'u \<times> bool) \<Rightarrow> 'u \<Rightarrow> 'u" where
  "hashmap_iter_loop [] f u = u"
| "hashmap_iter_loop (s # sl) f u =
     (if s_state s \<noteq> SLOT_OCCUPIED then hashmap_iter_loop sl f u
      else case f (s_key s) (s_value s) u of (u', go) \<Rightarrow>
        if \<not> go then u' else hashmap_iter_loop sl f u')"

definition cetcd_hashmap_iter ::
  "'v cetcd_hashmap \<Rightarrow> (bytes \<Rightarrow> 'v option \<Rightarrow> 'u \<Rightarrow> 'u \<times> bool) \<Rightarrow> 'u \<Rightarrow> 'u" where
  "cetcd_hashmap_iter m f u = hashmap_iter_loop (h_slots m) f u"

section \<open>Powers of two\<close>

lemma unat_double: "unat (p::u64) < 2 ^ 63 \<Longrightarrow> unat (p * 2) = 2 * unat p"
  by (simp add: unat_word_ariths)

lemma word_of_pow: "unat (p::u64) = n \<Longrightarrow> p = of_nat n"
proof -
  assume "unat p = n"
  moreover have "of_nat (unat p) = p" by simp
  ultimately show ?thesis by simp
qed

lemma next_pow2_loop_terminates:
  assumes "unat n \<le> 2 ^ 63" and "unat p = 2 ^ k" and "k \<le> 63"
  shows "\<exists>j. next_pow2_loop n p = Some (of_nat (2 ^ j)) \<and> k \<le> j \<and> j \<le> 63 \<and> unat n \<le> 2 ^ j \<and>
           (j = k \<or> 2 ^ (j - 1) < unat n)"
  using assms(2,3)
proof (induction "63 - k" arbitrary: p k)
  case 0
  then have "k = 63" by simp
  moreover have "\<not> p < n" using 0 assms(1) by (simp add: word_less_nat_alt \<open>k = 63\<close>)
  moreover have "p = of_nat (2 ^ k)" by (rule word_of_pow [OF 0(2)])
  ultimately show ?case
    using assms(1) by (subst next_pow2_loop.simps) (auto intro!: exI [of _ 63])
next
  case (Suc d)
  show ?case
  proof (cases "p < n")
    case True
    then have pn: "2 ^ k < unat n" using Suc.prems by (simp add: word_less_nat_alt)
    have "unat (p * 2) = 2 ^ Suc k"
      using Suc unat_double [of p] power_strict_increasing [of k 63 "2::nat"] by simp
    moreover have "d = 63 - Suc k" "Suc k \<le> 63" using Suc.hyps(2) by simp_all
    ultimately obtain j
      where "next_pow2_loop n (p * 2) = Some (of_nat (2 ^ j))" "Suc k \<le> j" "j \<le> 63" "unat n \<le> 2 ^ j"
        "j = Suc k \<or> 2 ^ (j - 1) < unat n" using Suc.hyps(1) by blast
    with True pn show ?thesis
      by (subst next_pow2_loop.simps) (auto intro!: exI [of _ j])
  next
    case False
    have "p = of_nat (2 ^ k)" by (rule word_of_pow [OF Suc.prems(1)])
    with False Suc.prems show ?thesis
      by (subst next_pow2_loop.simps) (auto intro!: exI [of _ k] simp: word_less_nat_alt not_less)
  qed
qed


lemma unat_take_bit: "unat (take_bit k (w::u64)) = unat w mod 2 ^ k"
  by (simp add: unsigned_take_bit_eq take_bit_nat_def)

lemma probe_at_mod:
  assumes "cap = 2 ^ k" and "k \<le> 63"
  shows "probe_at cap h p = (unat h + p) mod cap"
proof -
  have mask: "(of_nat cap - 1 :: u64) = mask k"
    by (simp add: assms(1) mask_eq_exp_minus_1)
  have "probe_at cap h p = unat (take_bit k (take_bit k h + of_nat p))"
    by (simp add: probe_at_def mask Let_def flip: take_bit_eq_mask)
  also have "\<dots> = (unat h mod 2 ^ k + p) mod 2 ^ 64 mod 2 ^ k"
    by (simp add: unat_take_bit unat_word_ariths unat_of_nat mod_simps)
  also have "\<dots> = (unat h mod 2 ^ k + p) mod 2 ^ k"
    using le_imp_power_dvd [of k 64 "2::nat"] assms(2) by (simp add: mod_mod_cancel)
  finally show ?thesis by (simp add: assms(1) mod_simps)
qed

section \<open>The table invariant\<close>

definition pow2_cap :: "nat \<Rightarrow> bool" where
  "pow2_cap cap \<longleftrightarrow> (\<exists>k. 3 \<le> k \<and> k \<le> 63 \<and> cap = 2 ^ k)"

lemma pow2_cap_probe:
  assumes "pow2_cap cap"
  shows "probe_at cap h p = (unat h + p) mod cap" and "probe_at cap h p < cap" and "8 \<le> cap"
proof -
  obtain k where k: "3 \<le> k" "k \<le> 63" "cap = 2 ^ k" using assms by (auto simp: pow2_cap_def)
  show "8 \<le> cap" using power_increasing [OF k(1), of "2::nat"] k(3) by simp
  show "probe_at cap h p = (unat h + p) mod cap" using probe_at_mod k by blast
  then show "probe_at cap h p < cap" using k(3) by simp
qed

text \<open>Every slot is reached by a probe sequence of length at most the capacity.\<close>

lemma probe_reaches:
  assumes "pow2_cap cap" and "i < cap"
  shows "\<exists>p < cap. probe_at cap h p = i"
proof -
  have pos: "0 < cap" using assms(2) by simp
  define p where "p = (i + cap - unat h mod cap) mod cap"
  have "(unat h + p) mod cap = (unat h mod cap + (i + cap - unat h mod cap)) mod cap"
    by (simp add: p_def mod_simps)
  also have "unat h mod cap + (i + cap - unat h mod cap) = i + cap"
    using mod_less_divisor [OF pos, of "unat h"] by linarith
  finally have "(unat h + p) mod cap = i" using assms(2) by simp
  moreover have "p < cap" using pos by (simp add: p_def)
  ultimately show ?thesis using pow2_cap_probe(1) [OF assms(1)] by auto
qed

definition occ :: "'v slot \<Rightarrow> bool" where "occ s \<longleftrightarrow> s_state s = SLOT_OCCUPIED"
definition tomb :: "'v slot \<Rightarrow> bool" where "tomb s \<longleftrightarrow> s_state s = SLOT_TOMBSTONE"
definition free_slot :: "'v slot \<Rightarrow> bool" where "free_slot s \<longleftrightarrow> s_state s = SLOT_EMPTY"

lemma slot_cases: "occ s \<or> tomb s \<or> free_slot s"
  by (cases "s_state s") (auto simp: occ_def tomb_def free_slot_def)

text \<open>The slot is on the probe sequence of the hash before any empty slot.\<close>

definition reach :: "'v slot list \<Rightarrow> u64 \<Rightarrow> nat \<Rightarrow> bool" where
  "reach sl h i \<longleftrightarrow> (\<exists>p < length sl. probe_at (length sl) h p = i \<and>
     (\<forall>q < p. \<not> free_slot (sl ! probe_at (length sl) h q)))"

definition table_ok :: "'v slot list \<Rightarrow> bool" where
  "table_ok sl \<longleftrightarrow> pow2_cap (length sl) \<and>
     (\<forall>i < length sl. occ (sl ! i) \<longrightarrow>
        s_hash (sl ! i) = cetcd_hash_fnv1a64 (s_key (sl ! i)) \<and> s_value (sl ! i) \<noteq> None \<and>
        reach sl (s_hash (sl ! i)) i) \<and>
     (\<forall>i < length sl. \<forall>j < length sl. occ (sl ! i) \<and> occ (sl ! j) \<and>
        s_key (sl ! i) = s_key (sl ! j) \<longrightarrow> i = j)"

text \<open>The map a table stands for.\<close>

definition table_map :: "'v slot list \<Rightarrow> bytes \<Rightarrow> 'v option" where
  "table_map sl key =
     (case filter (\<lambda>s. occ s \<and> s_key s = key) sl of [] \<Rightarrow> None | s # _ \<Rightarrow> s_value s)"

definition hashmap_ok :: "'v cetcd_hashmap \<Rightarrow> bool" where
  "hashmap_ok m \<longleftrightarrow> table_ok (h_slots m) \<and> h_cap m = length (h_slots m) \<and>
     h_size m = length (filter occ (h_slots m)) \<and>
     h_tombstones m = length (filter tomb (h_slots m)) \<and>
     (h_size m + h_tombstones m) * 10 \<le> h_cap m * 7"

lemma table_map_None:
  "table_map sl key = None \<longleftrightarrow> (\<forall>i < length sl. \<not> (occ (sl ! i) \<and> s_key (sl ! i) = key))"
  if "table_ok sl"
proof -
  have val: "s \<in> set sl \<Longrightarrow> occ s \<Longrightarrow> s_value s \<noteq> None" for s
    using that by (force simp: table_ok_def in_set_conv_nth)
  show ?thesis
  proof (cases "filter (\<lambda>s. occ s \<and> s_key s = key) sl")
    case Nil
    then show ?thesis by (auto simp: table_map_def filter_empty_conv)
  next
    case (Cons s rest)
    then have "s \<in> set sl \<and> occ s \<and> s_key s = key"
      by (metis (mono_tags, lifting) filter_eq_ConsD in_set_conv_decomp)
    with val [of s] Cons show ?thesis by (auto simp: table_map_def in_set_conv_nth)
  qed
qed

lemma table_map_at:
  assumes "table_ok sl" and "i < length sl" and "occ (sl ! i)"
  shows "table_map sl (s_key (sl ! i)) = s_value (sl ! i)"
proof -
  let ?P = "\<lambda>s. occ s \<and> s_key s = s_key (sl ! i)"
  have "filter ?P sl \<noteq> []" using assms(2,3) by (auto simp: filter_empty_conv)
  then obtain s rest where f: "filter ?P sl = s # rest" by (cases "filter ?P sl") auto
  then have "s \<in> set (filter ?P sl)" by simp
  then obtain j where "j < length sl" "s = sl ! j" "?P s" by (auto simp: in_set_conv_nth)
  then have "j = i" using assms by (auto simp: table_ok_def)
  with f \<open>s = sl ! j\<close> show ?thesis by (simp add: table_map_def)
qed

lemma slot_key_equal_iff: "slot_key_equal s key \<longleftrightarrow> s_key s = key"
  by (auto simp: slot_key_equal_def memcmp_zero_iff)

section \<open>Probing\<close>

lemma find_loop_spec:
  assumes "pow2_cap (length sl)" and "p + n = length sl"
    and "find_loop sl (length sl) key h p n ft = (i, found)"
    and "\<forall>q < p. \<not> free_slot (sl ! probe_at (length sl) h q)"
    and "case ft of None \<Rightarrow> True | Some t \<Rightarrow> t < length sl \<and> tomb (sl ! t) \<and> reach sl h t"
  shows "found \<Longrightarrow> i < length sl \<and> occ (sl ! i) \<and> s_key (sl ! i) = key"
    and "\<not> found \<Longrightarrow> p \<le> q \<Longrightarrow> q < length sl \<Longrightarrow>
      \<forall>r < q. \<not> free_slot (sl ! probe_at (length sl) h r) \<Longrightarrow>
      \<not> (occ (sl ! probe_at (length sl) h q) \<and> s_hash (sl ! probe_at (length sl) h q) = h \<and>
         s_key (sl ! probe_at (length sl) h q) = key)"
    and "\<not> found \<Longrightarrow> (\<exists>j < length sl. free_slot (sl ! j)) \<or> ft \<noteq> None \<Longrightarrow>
      i < length sl \<and> \<not> occ (sl ! i) \<and> reach sl h i"
proof -
  let ?at = "probe_at (length sl) h"
  have all: "(found \<longrightarrow> i < length sl \<and> occ (sl ! i) \<and> s_key (sl ! i) = key) \<and>
    (\<not> found \<longrightarrow> (\<forall>q. p \<le> q \<and> q < length sl \<and> (\<forall>r < q. \<not> free_slot (sl ! ?at r)) \<longrightarrow>
      \<not> (occ (sl ! ?at q) \<and> s_hash (sl ! ?at q) = h \<and> s_key (sl ! ?at q) = key))) \<and>
    (\<not> found \<longrightarrow> (\<exists>j < length sl. free_slot (sl ! j)) \<or> ft \<noteq> None \<longrightarrow>
      i < length sl \<and> \<not> occ (sl ! i) \<and> reach sl h i)"
    using assms(2-)
  proof (induction n arbitrary: p ft)
    case 0
    have "\<not> (\<exists>j < length sl. free_slot (sl ! j))"
      using probe_reaches [OF assms(1), of _ h] 0 by auto
    with 0 show ?case by (auto simp: tomb_def occ_def split: option.splits)
  next
    case (Suc n)
    let ?i = "?at p"
    have i: "?i < length sl" by (rule pow2_cap_probe [OF assms(1)])
    have r: "reach sl h ?i"
      unfolding reach_def using Suc.prems(1,3) by (intro exI [of _ p]) simp
    have q: "p \<le> q \<longleftrightarrow> q = p \<or> Suc p \<le> q" for q by auto
    have next_free: "\<not> free_slot (sl ! ?i) \<Longrightarrow> \<forall>q < Suc p. \<not> free_slot (sl ! ?at q)"
      using Suc.prems(3) by (auto simp: less_Suc_eq)
    show ?case
    proof (cases "s_state (sl ! ?i)")
      case SLOT_EMPTY
      then have "(i, found) = ((case ft of Some t \<Rightarrow> t | None \<Rightarrow> ?i), False)"
        using Suc.prems(2) by (simp add: Let_def)
      moreover have "free_slot (sl ! ?i)" using SLOT_EMPTY by (simp add: free_slot_def)
      moreover have "\<not> occ (sl ! ?i)" using SLOT_EMPTY by (simp add: occ_def)
      ultimately show ?thesis
        using Suc.prems(4) i r by (auto simp: q tomb_def occ_def Suc_le_eq split: option.splits)
    next
      case SLOT_TOMBSTONE
      let ?ft = "if ft = None then Some ?i else ft"
      have st: "\<not> free_slot (sl ! ?i)" "\<not> occ (sl ! ?i)" "tomb (sl ! ?i)"
        using SLOT_TOMBSTONE by (simp_all add: free_slot_def occ_def tomb_def)
      have step: "find_loop sl (length sl) key h (Suc p) n ?ft = (i, found)"
        using Suc.prems(2) SLOT_TOMBSTONE by (simp add: Let_def)
      have "case ?ft of None \<Rightarrow> True | Some t \<Rightarrow> t < length sl \<and> tomb (sl ! t) \<and> reach sl h t"
        using Suc.prems(4) st i r by (auto split: option.splits)
      from Suc.IH [OF _ step next_free [OF st(1)] this] Suc.prems(1) st show ?thesis
        by (auto simp: q)
    next
      case SLOT_OCCUPIED
      have st: "\<not> free_slot (sl ! ?i)" "occ (sl ! ?i)"
        using SLOT_OCCUPIED by (simp_all add: free_slot_def occ_def)
      show ?thesis
      proof (cases "s_hash (sl ! ?i) = h \<and> s_key (sl ! ?i) = key")
        case True
        then show ?thesis
          using Suc.prems(2) SLOT_OCCUPIED st i by (simp add: Let_def slot_key_equal_iff)
      next
        case False
        then have "find_loop sl (length sl) key h (Suc p) n ft = (i, found)"
          using Suc.prems(2) SLOT_OCCUPIED by (simp add: Let_def slot_key_equal_iff split: if_splits)
        from Suc.IH [OF _ this next_free [OF st(1)] Suc.prems(4)] Suc.prems(1) False show ?thesis
          by (auto simp: q)
      qed
    qed
  qed
  from all show "found \<Longrightarrow> i < length sl \<and> occ (sl ! i) \<and> s_key (sl ! i) = key" by blast
  from all show "\<not> found \<Longrightarrow> p \<le> q \<Longrightarrow> q < length sl \<Longrightarrow> \<forall>r < q. \<not> free_slot (sl ! ?at r) \<Longrightarrow>
      \<not> (occ (sl ! ?at q) \<and> s_hash (sl ! ?at q) = h \<and> s_key (sl ! ?at q) = key)" by blast
  from all show "\<not> found \<Longrightarrow> (\<exists>j < length sl. free_slot (sl ! j)) \<or> ft \<noteq> None \<Longrightarrow>
      i < length sl \<and> \<not> occ (sl ! i) \<and> reach sl h i" by blast
qed

lemma table_map_Some:
  assumes "table_ok sl"
  shows "table_map sl key = Some v \<longleftrightarrow>
    (\<exists>i < length sl. occ (sl ! i) \<and> s_key (sl ! i) = key \<and> s_value (sl ! i) = Some v)"
proof
  assume l: "table_map sl key = Some v"
  then have "table_map sl key \<noteq> None" by simp
  then obtain i where "i < length sl" "occ (sl ! i)" "s_key (sl ! i) = key"
    unfolding table_map_None [OF assms] by blast
  then show "\<exists>i < length sl. occ (sl ! i) \<and> s_key (sl ! i) = key \<and> s_value (sl ! i) = Some v"
    using table_map_at [OF assms, of i] l by auto
next
  assume "\<exists>i < length sl. occ (sl ! i) \<and> s_key (sl ! i) = key \<and> s_value (sl ! i) = Some v"
  then show "table_map sl key = Some v" using table_map_at [OF assms] by auto
qed

lemma find_slot_spec:
  assumes "table_ok (h_slots m)" and "h_cap m = length (h_slots m)"
    and "\<exists>j < length (h_slots m). free_slot (h_slots m ! j)"
    and "find_slot m key (cetcd_hash_fnv1a64 key) = (i, found)"
  shows "i < length (h_slots m)"
    and "found \<Longrightarrow> occ (h_slots m ! i) \<and> s_key (h_slots m ! i) = key \<and>
      table_map (h_slots m) key = s_value (h_slots m ! i)"
    and "\<not> found \<Longrightarrow> table_map (h_slots m) key = None \<and> \<not> occ (h_slots m ! i) \<and>
      reach (h_slots m) (cetcd_hash_fnv1a64 key) i"
proof -
  let ?sl = "h_slots m" and ?h = "cetcd_hash_fnv1a64 key"
  have cap: "pow2_cap (length ?sl)" using assms(1) by (simp add: table_ok_def)
  have loop: "find_loop ?sl (length ?sl) key ?h 0 (length ?sl) None = (i, found)"
    using assms(2,4) by (simp add: find_slot_def)
  note spec = find_loop_spec [OF cap _ loop, simplified]
  show f: "found \<Longrightarrow> occ (?sl ! i) \<and> s_key (?sl ! i) = key \<and> table_map ?sl key = s_value (?sl ! i)"
    using spec(1) table_map_at [OF assms(1), of i] by auto
  show n: "\<not> found \<Longrightarrow> table_map ?sl key = None \<and> \<not> occ (?sl ! i) \<and> reach ?sl ?h i"
  proof -
    assume nf: "\<not> found"
    have "table_map ?sl key = None"
      unfolding table_map_None [OF assms(1)]
    proof (intro allI impI notI)
      fix j
      assume j: "j < length ?sl" "occ (?sl ! j) \<and> s_key (?sl ! j) = key"
      then have "s_hash (?sl ! j) = ?h" "reach ?sl ?h j"
        using assms(1) by (auto simp: table_ok_def)
      then obtain p where "p < length ?sl" "probe_at (length ?sl) ?h p = j"
        "\<forall>q < p. \<not> free_slot (?sl ! probe_at (length ?sl) ?h q)" by (auto simp: reach_def)
      with spec(2) [OF nf, of p] j \<open>s_hash (?sl ! j) = ?h\<close> show False by auto
    qed
    with spec(3) [OF nf assms(3)] show ?thesis by simp
  qed
  show "i < length ?sl" using spec(1) spec(3) [OF _ assms(3)] by (cases found) auto
qed

section \<open>Updates of the table\<close>

lemma reach_mono:
  assumes "reach sl h i" and "length sl' = length sl"
    and "\<And>j. j < length sl \<Longrightarrow> free_slot (sl' ! j) \<Longrightarrow> free_slot (sl ! j)" and "pow2_cap (length sl)"
  shows "reach sl' h i"
  using assms pow2_cap_probe(2) [OF assms(4)] unfolding reach_def by metis

lemma length_filter_update:
  "i < length xs \<Longrightarrow> length (filter P (xs[i := y])) + (if P (xs ! i) then 1 else 0) =
     length (filter P xs) + (if P y then 1 else 0)"
proof (induction xs arbitrary: i)
  case (Cons x xs)
  then show ?case by (cases i) auto
qed simp

lemma ex_update:
  "i < length sl \<Longrightarrow> (\<exists>j < length sl. Q (sl[i := s] ! j)) \<longleftrightarrow> Q s \<or> (\<exists>j < length sl. j \<noteq> i \<and> Q (sl ! j))"
  by (metis nth_list_update_eq nth_list_update_neq)

text \<open>Writing a slot that is not empty: the cases of insertion, replacement and removal.\<close>

lemma table_update:
  assumes ok: "table_ok sl" and i: "i < length sl" and nf: "\<not> free_slot s"
    and s: "occ s \<Longrightarrow> s_hash s = cetcd_hash_fnv1a64 (s_key s) \<and> s_value s \<noteq> None \<and> reach sl (s_hash s) i"
    and fresh: "\<And>j. occ s \<Longrightarrow> j < length sl \<Longrightarrow> j \<noteq> i \<Longrightarrow> occ (sl ! j) \<Longrightarrow> s_key (sl ! j) \<noteq> s_key s"
  shows "table_ok (sl[i := s])"
    and "table_map (sl[i := s]) k =
      (if occ s \<and> k = s_key s then s_value s
       else if occ (sl ! i) \<and> k = s_key (sl ! i) then None else table_map sl k)"
proof -
  let ?sl = "sl[i := s]"
  have cap: "pow2_cap (length sl)" using ok by (simp add: table_ok_def)
  have mono: "reach sl h j \<Longrightarrow> reach ?sl h j" for h j
    by (rule reach_mono [OF _ _ _ cap]) (use i nf in \<open>auto simp: nth_list_update split: if_splits\<close>)
  have nth: "?sl ! j = (if j = i then s else sl ! j)" for j using i by (simp add: nth_list_update)
  have "occ (?sl ! j) \<longrightarrow> s_hash (?sl ! j) = cetcd_hash_fnv1a64 (s_key (?sl ! j)) \<and>
      s_value (?sl ! j) \<noteq> None \<and> reach ?sl (s_hash (?sl ! j)) j" if "j < length sl" for j
    using ok s mono that unfolding nth table_ok_def by (cases "j = i") auto
  moreover have "j = l" if "j < length sl" "l < length sl" "occ (?sl ! j) \<and> occ (?sl ! l) \<and>
      s_key (?sl ! j) = s_key (?sl ! l)" for j l
  proof (rule ccontr)
    assume "j \<noteq> l"
    then consider "j = i" "l \<noteq> i" | "l = i" "j \<noteq> i" | "j \<noteq> i" "l \<noteq> i" by auto
    then show False
      by cases (use that fresh ok \<open>j \<noteq> l\<close> in \<open>auto simp: nth table_ok_def\<close>)
  qed
  ultimately show ok': "table_ok ?sl" using cap unfolding table_ok_def length_list_update by blast
  have uniq: "j < length sl \<Longrightarrow> occ (sl ! j) \<Longrightarrow> occ (sl ! i) \<Longrightarrow> s_key (sl ! j) = s_key (sl ! i) \<Longrightarrow> j = i" for j
    using ok i by (auto simp: table_ok_def)
  have iff: "table_map ?sl k = Some w \<longleftrightarrow> occ s \<and> s_key s = k \<and> s_value s = Some w \<or>
      (\<exists>j < length sl. j \<noteq> i \<and> occ (sl ! j) \<and> s_key (sl ! j) = k \<and> s_value (sl ! j) = Some w)" for w
    unfolding table_map_Some [OF ok'] length_list_update
    by (rule ex_update [OF i])
  consider "occ s" "k = s_key s" | "occ (sl ! i)" "k = s_key (sl ! i)" "\<not> (occ s \<and> k = s_key s)"
    | "\<not> (occ s \<and> k = s_key s)" "\<not> (occ (sl ! i) \<and> k = s_key (sl ! i))" by blast
  then show "table_map ?sl k =
      (if occ s \<and> k = s_key s then s_value s
       else if occ (sl ! i) \<and> k = s_key (sl ! i) then None else table_map sl k)"
  proof cases
    case 1
    then obtain w where "s_value s = Some w" using s by auto
    with 1 iff [of w] show ?thesis by simp
  next
    case 2
    have "table_map ?sl k \<noteq> Some w" for w
      using iff [of w] 2 uniq by auto
    with 2 show ?thesis by (cases "table_map ?sl k") auto
  next
    case 3
    have "table_map ?sl k = Some w \<longleftrightarrow> table_map sl k = Some w" for w
      unfolding iff table_map_Some [OF ok] using 3 by auto
    then have "table_map ?sl k = table_map sl k" by (metis not_None_eq)
    with 3 show ?thesis by auto
  qed
qed

section \<open>Rehashing\<close>

lemma place_loop_spec:
  assumes "pow2_cap (length sl)" and "\<exists>j < length sl. free_slot (sl ! j)"
    and "p + n = length sl" and "\<forall>q < p. \<not> free_slot (sl ! probe_at (length sl) (s_hash s) q)"
  shows "\<exists>j < length sl. place_loop sl (length sl) s p n = (sl[j := s], 1) \<and>
    free_slot (sl ! j) \<and> reach sl (s_hash s) j"
  using assms(3,4)
proof (induction n arbitrary: p)
  case 0
  then show ?case using assms(2) probe_reaches [OF assms(1), of _ "s_hash s"] by auto
next
  case (Suc n)
  let ?j = "probe_at (length sl) (s_hash s) p"
  have j: "?j < length sl" by (rule pow2_cap_probe [OF assms(1)])
  show ?case
  proof (cases "free_slot (sl ! ?j)")
    case True
    moreover have "reach sl (s_hash s) ?j"
      unfolding reach_def using Suc.prems by (intro exI [of _ p]) simp
    ultimately show ?thesis
      using j by (intro exI [of _ ?j]) (simp add: free_slot_def Let_def)
  next
    case False
    then have "\<forall>q < Suc p. \<not> free_slot (sl ! probe_at (length sl) (s_hash s) q)"
      using Suc.prems by (auto simp: less_Suc_eq)
    with Suc.IH [of "Suc p"] Suc.prems False show ?thesis
      by (simp add: free_slot_def Let_def)
  qed
qed

lemma free_slot_exists:
  assumes "length (filter occ sl) + length (filter tomb sl) < length sl"
  shows "\<exists>j < length sl. free_slot (sl ! j)"
proof (rule ccontr)
  assume "\<not> ?thesis"
  then have full: "\<forall>s \<in> set sl. occ s \<or> tomb s" using slot_cases by (metis in_set_conv_nth)
  have "length sl \<le> length (filter occ sl) + length (filter tomb sl)"
    using full by (induction sl) auto
  with assms show False by simp
qed

text \<open>A table under construction: no tombstones, the counters right.\<close>

definition fresh_ok :: "'v cetcd_hashmap \<Rightarrow> bool" where
  "fresh_ok m \<longleftrightarrow> table_ok (h_slots m) \<and> h_cap m = length (h_slots m) \<and>
     h_size m = length (filter occ (h_slots m)) \<and> h_tombstones m = 0 \<and>
     (\<forall>s \<in> set (h_slots m). \<not> tomb s)"

lemma fresh_no_tomb: "fresh_ok m \<Longrightarrow> filter tomb (h_slots m) = []"
  by (simp add: fresh_ok_def filter_empty_conv)

lemma place_fresh:
  assumes m: "fresh_ok m" and room: "h_size m < h_cap m"
    and s: "occ s" "s_hash s = cetcd_hash_fnv1a64 (s_key s)" "s_value s = Some v"
    and new: "table_map (h_slots m) (s_key s) = None"
  shows "\<exists>sl. place_loop (h_slots m) (h_cap m) s 0 (h_cap m) = (sl, 1) \<and> length sl = h_cap m \<and>
    fresh_ok (m\<lparr>h_slots := sl, h_size := h_size m + 1\<rparr>) \<and> table_map sl = (table_map (h_slots m))(s_key s \<mapsto> v)"
proof -
  let ?sl = "h_slots m"
  have ok: "table_ok ?sl" and cap: "h_cap m = length ?sl" "pow2_cap (length ?sl)"
    using m by (auto simp: fresh_ok_def table_ok_def)
  have "\<exists>j < length ?sl. free_slot (?sl ! j)"
    using room fresh_no_tomb [OF m] m by (intro free_slot_exists) (simp add: fresh_ok_def)
  then obtain j where j: "j < length ?sl" "place_loop ?sl (length ?sl) s 0 (length ?sl) = (?sl[j := s], 1)"
    "free_slot (?sl ! j)" "reach ?sl (s_hash s) j"
    using place_loop_spec [OF cap(2), of 0 "length ?sl" s] by auto
  have nf: "\<not> free_slot s" "\<not> tomb s" "\<not> occ (?sl ! j)"
    using s(1) j(3) by (auto simp: occ_def free_slot_def tomb_def)
  have none: "l < length ?sl \<Longrightarrow> occ (?sl ! l) \<Longrightarrow> s_key (?sl ! l) \<noteq> s_key s" for l
    using new unfolding table_map_None [OF ok] by blast
  have "table_ok (?sl[j := s])" and "table_map (?sl[j := s]) k = ((table_map ?sl)(s_key s \<mapsto> v)) k" for k
    using table_update [OF ok j(1) nf(1)] s j(4) none nf(3) by auto
  moreover have "length (filter occ (?sl[j := s])) = length (filter occ ?sl) + 1"
    using length_filter_update [OF j(1), of occ s] s(1) nf(3) by simp
  moreover have "\<forall>t \<in> set (?sl[j := s]). \<not> tomb t"
    using m nf(2) set_update_subset_insert [of ?sl j s] by (auto simp: fresh_ok_def)
  ultimately show ?thesis
    using j(2) cap m by (auto simp: fresh_ok_def)
qed

lemma rehash_spec:
  assumes "fresh_ok m" and "h_size m + length (filter occ old) < h_cap m"
    and "\<forall>s \<in> set old. occ s \<longrightarrow> s_hash s = cetcd_hash_fnv1a64 (s_key s) \<and> s_value s \<noteq> None"
    and "distinct (map s_key (filter occ old))"
    and "\<forall>s \<in> set old. occ s \<longrightarrow> table_map (h_slots m) (s_key s) = None"
  shows "fresh_ok (rehash_loop old m) \<and> h_cap (rehash_loop old m) = h_cap m \<and>
    h_size (rehash_loop old m) = h_size m + length (filter occ old) \<and>
    table_map (h_slots (rehash_loop old m)) = table_map (h_slots m) ++ table_map old"
  using assms
proof (induction old arbitrary: m)
  case Nil
  have "table_map (h_slots m) ++ table_map [] = table_map (h_slots m)"
    by (rule ext) (simp add: table_map_def map_add_def)
  with Nil show ?case by simp
next
  case (Cons s old)
  show ?case
  proof (cases "occ s")
    case False
    then have "table_map (s # old) = table_map old" by (intro ext) (simp add: table_map_def)
    with False Cons show ?thesis by (simp add: occ_def)
  next
    case True
    then obtain v where v: "s_value s = Some v" using Cons.prems(3) by auto
    obtain sl where sl: "place_loop (h_slots m) (h_cap m) s 0 (h_cap m) = (sl, 1)"
      "fresh_ok (m\<lparr>h_slots := sl, h_size := h_size m + 1\<rparr>)"
      "table_map sl = (table_map (h_slots m))(s_key s \<mapsto> v)"
      using place_fresh [OF Cons.prems(1) _ True _ v] Cons.prems True by auto
    let ?m = "m\<lparr>h_slots := sl, h_size := h_size m + 1\<rparr>"
    have "\<forall>t \<in> set old. occ t \<longrightarrow> s_key t \<noteq> s_key s"
      using Cons.prems(4) True by (auto simp: image_iff)
    then have IH: "fresh_ok (rehash_loop old ?m) \<and> h_cap (rehash_loop old ?m) = h_cap ?m \<and>
        h_size (rehash_loop old ?m) = h_size ?m + length (filter occ old) \<and>
        table_map (h_slots (rehash_loop old ?m)) = table_map (h_slots ?m) ++ table_map old"
      using Cons.prems True sl by (intro Cons.IH) (auto simp: sl(3))
    have "table_map (s # old) k = (if k = s_key s then Some v else table_map old k)" for k
      using True v by (simp add: table_map_def)
    moreover have "table_map old (s_key s) = None"
      using \<open>\<forall>t \<in> set old. _\<close> by (auto simp: table_map_def filter_empty_conv split: list.splits dest!: filter_eq_ConsD)
    ultimately have "(table_map (h_slots m))(s_key s \<mapsto> v) ++ table_map old = table_map (h_slots m) ++ table_map (s # old)"
      by (intro ext) (auto simp: map_add_def split: option.splits)
    moreover have "s_state s = SLOT_OCCUPIED" using True by (simp add: occ_def)
    ultimately show ?thesis using IH True sl by simp
  qed
qed

lemma table_distinct:
  assumes "\<forall>i < length sl. \<forall>j < length sl. occ (sl ! i) \<and> occ (sl ! j) \<and>
        s_key (sl ! i) = s_key (sl ! j) \<longrightarrow> i = j"
  shows "distinct (map s_key (filter occ sl))"
  using assms
proof (induction sl)
  case (Cons s sl)
  have "distinct (map s_key (filter occ sl))"
  proof (rule Cons.IH, intro allI impI)
    fix i j
    assume "i < length sl" "j < length sl" "occ (sl ! i) \<and> occ (sl ! j) \<and> s_key (sl ! i) = s_key (sl ! j)"
    then show "i = j" using Cons.prems [rule_format, of "Suc i" "Suc j"] by simp
  qed
  moreover have "s_key t \<noteq> s_key s" if "occ s" "t \<in> set sl" "occ t" for t
    using Cons.prems [rule_format, of 0 "Suc _"] that by (fastforce simp: in_set_conv_nth)
  ultimately show ?case by (auto simp: image_iff) metis
qed simp

lemma alloc_fresh:
  assumes "pow2_cap cap"
  shows "fresh_ok (map_alloc_table cap)" and "table_map (h_slots (map_alloc_table cap)) = Map.empty"
  using assms
  by (auto simp: fresh_ok_def map_alloc_table_def table_ok_def empty_slot_def occ_def tomb_def table_map_def)

lemma map_resize_spec:
  assumes ok: "hashmap_ok m" and cap: "pow2_cap c" and room: "h_size m < c"
  shows "fresh_ok (map_resize m c)" and "h_cap (map_resize m c) = c"
    and "h_size (map_resize m c) = h_size m"
    and "table_map (h_slots (map_resize m c)) = table_map (h_slots m)"
proof -
  let ?m = "map_alloc_table c :: 'a cetcd_hashmap"
  have t: "table_ok (h_slots m)" "h_size m = length (filter occ (h_slots m))"
    using ok by (auto simp: hashmap_ok_def)
  have "fresh_ok (rehash_loop (h_slots m) ?m) \<and> h_cap (rehash_loop (h_slots m) ?m) = h_cap ?m \<and>
    h_size (rehash_loop (h_slots m) ?m) = h_size ?m + length (filter occ (h_slots m)) \<and>
    table_map (h_slots (rehash_loop (h_slots m) ?m)) = table_map (h_slots ?m) ++ table_map (h_slots m)"
  proof (rule rehash_spec)
    show "fresh_ok ?m" by (rule alloc_fresh [OF cap])
    show "h_size ?m + length (filter occ (h_slots m)) < h_cap ?m"
      using room t(2) by (simp add: map_alloc_table_def)
    show "\<forall>s \<in> set (h_slots m). occ s \<longrightarrow> s_hash s = cetcd_hash_fnv1a64 (s_key s) \<and> s_value s \<noteq> None"
      using t(1) by (fastforce simp: table_ok_def in_set_conv_nth)
    show "distinct (map s_key (filter occ (h_slots m)))"
      using t(1) by (intro table_distinct) (simp add: table_ok_def)
    show "\<forall>s \<in> set (h_slots m). occ s \<longrightarrow> table_map (h_slots ?m) (s_key s) = None"
      by (simp add: alloc_fresh [OF cap])
  qed
  moreover have e: "table_map (h_slots ?m) ++ table_map (h_slots m) = table_map (h_slots m)"
    by (simp add: alloc_fresh(2) [OF cap])
  ultimately show "fresh_ok (map_resize m c)" "h_cap (map_resize m c) = c" "h_size (map_resize m c) = h_size m"
    "table_map (h_slots (map_resize m c)) = table_map (h_slots m)"
    using t(2) by (simp_all add: map_resize_def) (simp_all add: map_alloc_table_def)
qed

lemma fresh_hashmap_ok:
  "fresh_ok m \<Longrightarrow> h_size m * 10 \<le> h_cap m * 7 \<Longrightarrow> hashmap_ok m"
  using fresh_no_tomb [of m] by (auto simp: fresh_ok_def hashmap_ok_def)

section \<open>The operations\<close>

definition hashmap_map :: "'v cetcd_hashmap \<Rightarrow> bytes \<Rightarrow> 'v option" where
  "hashmap_map m = table_map (h_slots m)"

lemma hashmap_free:
  assumes "hashmap_ok m"
  shows "\<exists>j < length (h_slots m). free_slot (h_slots m ! j)"
proof (rule free_slot_exists)
  have "8 \<le> length (h_slots m)"
    using assms pow2_cap_probe(3) by (auto simp: hashmap_ok_def table_ok_def)
  then show "length (filter occ (h_slots m)) + length (filter tomb (h_slots m)) < length (h_slots m)"
    using assms by (simp add: hashmap_ok_def)
qed

lemma hashmap_get_spec: "hashmap_ok m \<Longrightarrow> cetcd_hashmap_get m k = hashmap_map m k"
proof -
  assume ok: "hashmap_ok m"
  obtain i found where f: "find_slot m k (cetcd_hash_fnv1a64 k) = (i, found)" by fastforce
  have t: "table_ok (h_slots m)" "h_cap m = length (h_slots m)" using ok by (auto simp: hashmap_ok_def)
  note spec = find_slot_spec [OF t hashmap_free [OF ok] f]
  show ?thesis
  proof (cases "h_size m = 0")
    case True
    then have "\<forall>i < length (h_slots m). \<not> occ (h_slots m ! i)"
      using ok by (auto simp: hashmap_ok_def filter_empty_conv)
    then have "table_map (h_slots m) k = None" using table_map_None [OF t(1)] by auto
    with True show ?thesis by (simp add: cetcd_hashmap_get_def hashmap_map_def)
  next
    case False
    then show ?thesis
      using f spec(2,3) by (cases found) (simp_all add: cetcd_hashmap_get_def hashmap_map_def)
  qed
qed

text \<open>The table \<^verbatim>\<open>cetcd_hashmap_put\<close> works on, after a possible resize.\<close>

definition grown :: "'v cetcd_hashmap \<Rightarrow> 'v cetcd_hashmap" where
  "grown m = (if (h_size m + h_tombstones m + 1) * 10 > h_cap m * 7 then map_resize m (h_cap m * 2) else m)"

lemma grown_spec:
  assumes ok: "hashmap_ok m" and room: "h_cap m < 2 ^ 63"
  shows "hashmap_ok (grown m)" and "hashmap_map (grown m) = hashmap_map m"
    and "(h_size (grown m) + h_tombstones (grown m) + 1) * 10 \<le> h_cap (grown m) * 7"
    and "h_size (grown m) = h_size m"
    and "h_cap (grown m) = h_cap m \<or> h_cap (grown m) = 2 * h_cap m \<and> h_cap m * 7 < (h_size m + h_tombstones m + 1) * 10"
    and "h_tombstones (grown m) \<le> h_tombstones m"
proof -
  have cap: "pow2_cap (h_cap m)" and load: "(h_size m + h_tombstones m) * 10 \<le> h_cap m * 7"
    using ok by (auto simp: hashmap_ok_def table_ok_def)
  have "8 \<le> h_cap m" by (rule pow2_cap_probe [OF cap])
  have "hashmap_ok (grown m) \<and> hashmap_map (grown m) = hashmap_map m \<and>
    (h_size (grown m) + h_tombstones (grown m) + 1) * 10 \<le> h_cap (grown m) * 7 \<and>
    h_size (grown m) = h_size m \<and>
    (h_cap (grown m) = h_cap m \<or> h_cap (grown m) = 2 * h_cap m \<and> h_cap m * 7 < (h_size m + h_tombstones m + 1) * 10) \<and>
    h_tombstones (grown m) \<le> h_tombstones m"
  proof (cases "(h_size m + h_tombstones m + 1) * 10 > h_cap m * 7")
    case True
    obtain k where k: "3 \<le> k" "k \<le> 63" "h_cap m = 2 ^ k" using cap by (auto simp: pow2_cap_def)
    then have "k < 63" using room power_strict_increasing_iff [of "2::nat" k 63] by simp
    then have "pow2_cap (h_cap m * 2)" using k by (auto simp: pow2_cap_def intro!: exI [of _ "Suc k"])
    note r = map_resize_spec [OF ok this]
    have s: "h_size m < h_cap m * 2" using load \<open>8 \<le> h_cap m\<close> by simp
    have "h_tombstones (map_resize m (h_cap m * 2)) = 0" using r(1) [OF s] by (simp add: fresh_ok_def)
    moreover have "(h_size m + 1) * 10 \<le> h_cap m * 2 * 7" using load \<open>8 \<le> h_cap m\<close> by simp
    ultimately show ?thesis
      using True r(1-4) [OF s] fresh_hashmap_ok [OF r(1) [OF s]]
      by (simp add: grown_def hashmap_map_def)
  qed (use ok in \<open>simp add: grown_def\<close>)
  then show "hashmap_ok (grown m)" "hashmap_map (grown m) = hashmap_map m"
    "(h_size (grown m) + h_tombstones (grown m) + 1) * 10 \<le> h_cap (grown m) * 7"
    "h_size (grown m) = h_size m"
    "h_cap (grown m) = h_cap m \<or> h_cap (grown m) = 2 * h_cap m \<and> h_cap m * 7 < (h_size m + h_tombstones m + 1) * 10"
    "h_tombstones (grown m) \<le> h_tombstones m"
    by blast+
qed

lemma cetcd_hashmap_put_grown:
  assumes "hashmap_ok m0"
  shows "snd (cetcd_hashmap_put m0 key value) =
    (let m = grown m0; h = cetcd_hash_fnv1a64 key; (idx, found) = find_slot m key h; s = h_slots m ! idx in
     if found then m\<lparr>h_slots := (h_slots m)[idx := s\<lparr>s_value := Some value\<rparr>]\<rparr>
     else m\<lparr>h_tombstones := (if s_state s = SLOT_TOMBSTONE \<and> h_tombstones m > 0
                                then h_tombstones m - 1 else h_tombstones m),
            h_slots := (h_slots m)[idx := \<lparr>s_hash = h, s_key = key, s_value = Some value,
                                             s_state = SLOT_OCCUPIED\<rparr>],
            h_size := h_size m + 1\<rparr>)"
proof -
  have "8 \<le> h_cap m0" using assms pow2_cap_probe(3) by (auto simp: hashmap_ok_def table_ok_def)
  then have "(if h_cap m0 * 2 < CETCD_HASHMAP_MIN_CAP then CETCD_HASHMAP_MIN_CAP else h_cap m0 * 2) = h_cap m0 * 2"
    by (simp add: CETCD_HASHMAP_MIN_CAP_def)
  then show ?thesis
    by (simp add: cetcd_hashmap_put_def grown_def Let_def CETCD_HASHMAP_LOAD_NUMER_def
        CETCD_HASHMAP_LOAD_DENOM_def split: prod.split)
qed

lemma hashmap_put_spec:
  assumes ok0: "hashmap_ok m0" and room: "h_cap m0 < 2 ^ 63"
  shows "hashmap_ok (snd (cetcd_hashmap_put m0 key value)) \<and>
    hashmap_map (snd (cetcd_hashmap_put m0 key value)) = (hashmap_map m0)(key \<mapsto> value) \<and>
    h_cap (snd (cetcd_hashmap_put m0 key value)) = h_cap (grown m0)"
proof -
  define m where "m = grown m0"
  note g = grown_spec [OF ok0 room, folded m_def]
  obtain i found where f: "find_slot m key (cetcd_hash_fnv1a64 key) = (i, found)" by fastforce
  have t: "table_ok (h_slots m)" "h_cap m = length (h_slots m)"
    "h_size m = length (filter occ (h_slots m))" "h_tombstones m = length (filter tomb (h_slots m))"
    using g(1) by (auto simp: hashmap_ok_def)
  note spec = find_slot_spec [OF t(1,2) hashmap_free [OF g(1)] f]
  have i: "i < length (h_slots m)" by (rule spec(1))
  show ?thesis
  proof (cases found)
    case True
    let ?s = "(h_slots m ! i)\<lparr>s_value := Some value\<rparr>"
    have o: "occ (h_slots m ! i)" "s_key (h_slots m ! i) = key" using spec(2) True by auto
    have s: "occ ?s" "\<not> free_slot ?s" "\<not> tomb ?s" "\<not> tomb (h_slots m ! i)"
      using o(1) by (auto simp: occ_def free_slot_def tomb_def)
    have "s_hash (h_slots m ! i) = cetcd_hash_fnv1a64 key" "reach (h_slots m) (s_hash (h_slots m ! i)) i"
      "j < length (h_slots m) \<Longrightarrow> j \<noteq> i \<Longrightarrow> occ (h_slots m ! j) \<Longrightarrow> s_key (h_slots m ! j) \<noteq> key" for j
      using t(1) i o by (auto simp: table_ok_def)
    then have u: "table_ok ((h_slots m)[i := ?s])"
      "\<And>k. table_map ((h_slots m)[i := ?s]) k = ((table_map (h_slots m))(key \<mapsto> value)) k"
      using table_update [OF t(1) i s(2)] o s(1) by auto
    have "length (filter occ ((h_slots m)[i := ?s])) = length (filter occ (h_slots m))"
      "length (filter tomb ((h_slots m)[i := ?s])) = length (filter tomb (h_slots m))"
      using length_filter_update [OF i, of occ ?s] length_filter_update [OF i, of tomb ?s] o(1) s by auto
    with u t g show ?thesis
      unfolding cetcd_hashmap_put_grown [OF ok0] m_def [symmetric] Let_def f
      by (auto simp: True hashmap_ok_def hashmap_map_def)
  next
    case False
    let ?s = "\<lparr>s_hash = cetcd_hash_fnv1a64 key, s_key = key, s_value = Some value, s_state = SLOT_OCCUPIED\<rparr>"
    have n: "table_map (h_slots m) key = None" "\<not> occ (h_slots m ! i)" "reach (h_slots m) (cetcd_hash_fnv1a64 key) i"
      using spec(3) False by auto
    have s: "occ ?s" "\<not> free_slot ?s" "\<not> tomb ?s" by (auto simp: occ_def free_slot_def tomb_def)
    have "j < length (h_slots m) \<Longrightarrow> occ (h_slots m ! j) \<Longrightarrow> s_key (h_slots m ! j) \<noteq> key" for j
      using n(1) unfolding table_map_None [OF t(1)] by blast
    then have u: "table_ok ((h_slots m)[i := ?s])"
      "\<And>k. table_map ((h_slots m)[i := ?s]) k = ((table_map (h_slots m))(key \<mapsto> value)) k"
      using table_update [OF t(1) i s(2)] n s(1) by auto
    have c: "length (filter occ ((h_slots m)[i := ?s])) = length (filter occ (h_slots m)) + 1"
      "length (filter tomb ((h_slots m)[i := ?s])) + (if tomb (h_slots m ! i) then 1 else 0) = length (filter tomb (h_slots m))"
      using length_filter_update [OF i, of occ ?s] length_filter_update [OF i, of tomb ?s] n(2) s by auto
    have "(if s_state (h_slots m ! i) = SLOT_TOMBSTONE \<and> h_tombstones m > 0 then h_tombstones m - 1 else h_tombstones m)
        = length (filter tomb ((h_slots m)[i := ?s]))"
      using c(2) t(4) by (auto simp: tomb_def split: if_splits)
    with u c t g show ?thesis
      unfolding cetcd_hashmap_put_grown [OF ok0] m_def [symmetric] Let_def f
      by (auto simp: False hashmap_ok_def hashmap_map_def split: if_splits)
  qed
qed

lemma hashmap_remove_spec:
  assumes ok: "hashmap_ok m"
  shows "hashmap_ok (snd (snd (cetcd_hashmap_remove m key)))"
    and "hashmap_map (snd (snd (cetcd_hashmap_remove m key))) = (hashmap_map m)(key := None)"
    and "fst (cetcd_hashmap_remove m key) \<longleftrightarrow> hashmap_map m key \<noteq> None"
    and "fst (snd (cetcd_hashmap_remove m key)) = hashmap_map m key"
    and "h_cap (snd (snd (cetcd_hashmap_remove m key))) = h_cap m"
    and "h_size (snd (snd (cetcd_hashmap_remove m key))) + h_tombstones (snd (snd (cetcd_hashmap_remove m key)))
      = h_size m + h_tombstones m"
proof -
  let ?m = "snd (snd (cetcd_hashmap_remove m key))"
  have t: "table_ok (h_slots m)" "h_cap m = length (h_slots m)"
    "h_size m = length (filter occ (h_slots m))" "h_tombstones m = length (filter tomb (h_slots m))"
    using ok by (auto simp: hashmap_ok_def)
  obtain i found where f: "find_slot m key (cetcd_hash_fnv1a64 key) = (i, found)" by fastforce
  note spec = find_slot_spec [OF t(1,2) hashmap_free [OF ok] f]
  have get: "cetcd_hashmap_get m key = hashmap_map m key" by (rule hashmap_get_spec [OF ok])
  have "hashmap_ok ?m \<and> hashmap_map ?m = (hashmap_map m)(key := None) \<and>
    (fst (cetcd_hashmap_remove m key) \<longleftrightarrow> hashmap_map m key \<noteq> None) \<and>
    fst (snd (cetcd_hashmap_remove m key)) = hashmap_map m key \<and> h_cap ?m = h_cap m \<and>
    h_size ?m + h_tombstones ?m = h_size m + h_tombstones m"
  proof (cases "h_size m = 0 \<or> \<not> found")
    case True
    then have r: "cetcd_hashmap_remove m key = (False, None, m)" by (auto simp: cetcd_hashmap_remove_def f)
    have "hashmap_map m key = None"
      using True spec(3) get by (auto simp: hashmap_map_def cetcd_hashmap_get_def)
    then have "(hashmap_map m)(key := None) = hashmap_map m" by auto
    with r ok \<open>hashmap_map m key = None\<close> show ?thesis by simp
  next
    case False
    let ?s = "(h_slots m ! i)\<lparr>s_key := [], s_value := None, s_state := SLOT_TOMBSTONE\<rparr>"
    have i: "i < length (h_slots m)" by (rule spec(1))
    have o: "occ (h_slots m ! i)" "s_key (h_slots m ! i) = key" "hashmap_map m key = s_value (h_slots m ! i)"
      using spec(2) False by (auto simp: hashmap_map_def)
    have s: "\<not> occ ?s" "\<not> free_slot ?s" "tomb ?s" "\<not> tomb (h_slots m ! i)"
      using o(1) by (auto simp: occ_def free_slot_def tomb_def)
    have u: "table_ok ((h_slots m)[i := ?s])"
      "\<And>k. table_map ((h_slots m)[i := ?s]) k = ((table_map (h_slots m))(key := None)) k"
      using table_update [OF t(1) i s(2)] o s(1) by auto
    have c: "length (filter occ ((h_slots m)[i := ?s])) + 1 = length (filter occ (h_slots m))"
      "length (filter tomb ((h_slots m)[i := ?s])) = length (filter tomb (h_slots m)) + 1"
      using length_filter_update [OF i, of occ ?s] length_filter_update [OF i, of tomb ?s] o(1) s by auto
    have "s_value (h_slots m ! i) \<noteq> None" using t(1) i o(1) by (auto simp: table_ok_def)
    with u c t o ok False show ?thesis
      by (auto simp: cetcd_hashmap_remove_def f hashmap_ok_def hashmap_map_def Let_def)
  qed
  then show "hashmap_ok ?m" "hashmap_map ?m = (hashmap_map m)(key := None)"
    "fst (cetcd_hashmap_remove m key) \<longleftrightarrow> hashmap_map m key \<noteq> None"
    "fst (snd (cetcd_hashmap_remove m key)) = hashmap_map m key" "h_cap ?m = h_cap m"
    "h_size ?m + h_tombstones ?m = h_size m + h_tombstones m" by blast+
qed

lemma alloc_hashmap_ok:
  assumes "pow2_cap cap"
  shows "hashmap_ok (map_alloc_table cap)" and "hashmap_map (map_alloc_table cap) = Map.empty"
proof -
  show "hashmap_ok (map_alloc_table cap)"
    by (rule fresh_hashmap_ok [OF alloc_fresh(1) [OF assms]]) (simp add: map_alloc_table_def)
  show "hashmap_map (map_alloc_table cap) = Map.empty"
    using alloc_fresh(2) [OF assms] by (simp add: hashmap_map_def)
qed

lemma pow2_cap_8: "pow2_cap 8"
  by (auto simp: pow2_cap_def intro!: exI [of _ 3])

interpretation hm: map_index hashmap_ok "\<lambda>m. h_cap m < 2 ^ 63" "map_alloc_table 8"
  cetcd_hashmap_get "\<lambda>m k v. snd (cetcd_hashmap_put m k v)" "\<lambda>m k. snd (snd (cetcd_hashmap_remove m k))"
proof
  fix t :: "'a cetcd_hashmap" and k j :: bytes and v :: 'a
  note e = alloc_hashmap_ok [OF pow2_cap_8]
  show "hashmap_ok (map_alloc_table 8)" by (rule e)
  show "cetcd_hashmap_get (map_alloc_table 8) k = None" by (simp add: hashmap_get_spec e)
  assume ok: "hashmap_ok t"
  note del = hashmap_remove_spec [OF ok, of k]
  show "hashmap_ok (snd (snd (cetcd_hashmap_remove t k)))" by (rule del)
  show "cetcd_hashmap_get (snd (snd (cetcd_hashmap_remove t k))) j = (if j = k then None else cetcd_hashmap_get t j)"
    by (simp add: hashmap_get_spec del ok)
  assume room: "h_cap t < 2 ^ 63"
  note put = hashmap_put_spec [OF ok room, of k v]
  show "hashmap_ok (snd (cetcd_hashmap_put t k v))" using put by blast
  show "cetcd_hashmap_get (snd (cetcd_hashmap_put t k v)) j = (if j = k then Some v else cetcd_hashmap_get t j)"
    using put by (simp add: hashmap_get_spec ok)
qed

section \<open>Runs of the table\<close>

text \<open>
  The capacity stays within three times the number of slots ever used, so a run of
  fewer than \<open>2 ^ 60\<close> operations never exhausts it.
\<close>

definition cap_bound :: "nat \<Rightarrow> 'v cetcd_hashmap \<Rightarrow> bool" where
  "cap_bound n m \<longleftrightarrow> hashmap_ok m \<and> h_size m + h_tombstones m \<le> n \<and> h_cap m \<le> 8 + 3 * (n + 1)"

lemma cap_bound_new: "cap_bound 0 (map_alloc_table 8)"
  using alloc_hashmap_ok(1) [OF pow2_cap_8] by (simp add: cap_bound_def map_alloc_table_def)

lemma hashmap_put_used:
  assumes ok0: "hashmap_ok m0" and room: "h_cap m0 < 2 ^ 63"
  shows "h_size (snd (cetcd_hashmap_put m0 key value)) + h_tombstones (snd (cetcd_hashmap_put m0 key value))
    \<le> h_size m0 + h_tombstones m0 + 1"
proof -
  define m where "m = grown m0"
  note g = grown_spec [OF ok0 room, folded m_def]
  have "h_size m + h_tombstones m \<le> h_size m0 + h_tombstones m0" using g(4,6) by simp
  then show ?thesis
    unfolding cetcd_hashmap_put_grown [OF ok0] m_def [symmetric] Let_def
    by (auto split: prod.splits)
qed

lemma cap_bound_put:
  assumes "cap_bound n m" and "n < 2 ^ 60"
  shows "cap_bound (Suc n) (snd (cetcd_hashmap_put m k v))"
proof -
  have ok: "hashmap_ok m" and used: "h_size m + h_tombstones m \<le> n" and cap: "h_cap m \<le> 8 + 3 * (n + 1)"
    using assms(1) by (auto simp: cap_bound_def)
  have room: "h_cap m < 2 ^ 63" using cap assms(2) by simp
  note put = hashmap_put_spec [OF ok room, of k v] and g = grown_spec(5) [OF ok room]
  have "h_cap (grown m) \<le> 8 + 3 * (Suc n + 1)"
    using g
  proof
    assume "h_cap (grown m) = 2 * h_cap m \<and> h_cap m * 7 < (h_size m + h_tombstones m + 1) * 10"
    with used show ?thesis by simp
  qed (use cap in simp)
  with put hashmap_put_used [OF ok room, of k v] used show ?thesis by (auto simp: cap_bound_def)
qed

lemma cap_bound_del: "cap_bound n m \<Longrightarrow> cap_bound (Suc n) (snd (snd (cetcd_hashmap_remove m k)))"
  using hashmap_remove_spec [of m k] by (auto simp: cap_bound_def)

definition hashmap_apply :: "'v index_op \<Rightarrow> 'v cetcd_hashmap \<Rightarrow> 'v cetcd_hashmap" where
  "hashmap_apply = index_apply (\<lambda>m k v. snd (cetcd_hashmap_put m k v)) (\<lambda>m k. snd (snd (cetcd_hashmap_remove m k)))"

lemma cap_bound_run:
  "length ops \<le> 2 ^ 60 \<Longrightarrow> cap_bound (length ops) (fold hashmap_apply ops (map_alloc_table 8))"
proof (induction ops rule: rev_induct)
  case Nil
  show ?case by (simp add: cap_bound_new)
next
  case (snoc op ops)
  then show ?case
    by (cases op) (simp_all add: hashmap_apply_def cap_bound_put cap_bound_del)
qed

lemma hashmap_size_card: "hashmap_ok m \<Longrightarrow> h_size m = card (dom (cetcd_hashmap_get m))"
proof -
  assume ok: "hashmap_ok m"
  then have t: "table_ok (h_slots m)" by (simp add: hashmap_ok_def)
  have "dom (cetcd_hashmap_get m) = {k. table_map (h_slots m) k \<noteq> None}"
    by (auto simp: hashmap_get_spec [OF ok] hashmap_map_def)
  also have "\<dots> = set (map s_key (filter occ (h_slots m)))"
    unfolding table_map_None [OF t] by (auto simp: in_set_conv_nth image_iff)
  also have "card \<dots> = length (map s_key (filter occ (h_slots m)))"
    using t by (intro distinct_card table_distinct) (simp add: table_ok_def)
  finally show ?thesis using ok by (simp add: hashmap_ok_def)
qed

text \<open>
  C11. The hash table is a finite map: a fresh table driven by any sequence of at most
  \<open>2 ^ 60\<close> puts and removes answers every lookup as the map does, across collisions,
  tombstones and resizes, and its size is the number of keys.
\<close>

theorem hashmap_refines_map:
  assumes "length ops \<le> 2 ^ 60" and "cetcd_hashmap_new 0 = Some m"
  shows "cetcd_hashmap_get (fold hashmap_apply ops m) = fold map_apply ops Map.empty \<and>
    h_size (fold hashmap_apply ops m) = card (dom (fold map_apply ops Map.empty))"
proof -
  have m: "m = map_alloc_table 8"
    using assms(2) by (simp add: cetcd_hashmap_new_def CETCD_HASHMAP_MIN_CAP_def)
  have "hashmap_ok (fold hashmap_apply ops m) \<and>
      cetcd_hashmap_get (fold hashmap_apply ops m) = fold map_apply ops Map.empty"
    unfolding m hashmap_apply_def
  proof (rule hm.run_refines)
    fix n
    assume "n < length ops"
    then show "h_cap (fold (index_apply (\<lambda>m k v. snd (cetcd_hashmap_put m k v)) (\<lambda>m k. snd (snd (cetcd_hashmap_remove m k))))
        (take n ops) (map_alloc_table 8)) < 2 ^ 63"
      using cap_bound_run [of "take n ops"] assms(1)
      by (simp add: hashmap_apply_def cap_bound_def)
  qed
  then show ?thesis using hashmap_size_card by metis
qed

theorem hashmap_refines_map_witness:
  "h_size (fold hashmap_apply [IPut [1] (7::nat), IPut [2] 8, IDel [1]] (map_alloc_table 8)) = card (dom [[2::byte] \<mapsto> (8::nat)])"
proof -
  have e: "[[2::byte] \<mapsto> (8::nat)] = fold map_apply [IPut [1] 7, IPut [2] 8, IDel [1]] Map.empty"
    by (simp add: fun_eq_iff)
  show ?thesis
    unfolding e by (rule hashmap_refines_map [THEN conjunct2])
      (simp_all add: cetcd_hashmap_new_def CETCD_HASHMAP_MIN_CAP_def)
qed

lemma pow2_below:
  assumes "2 ^ 63 < unat (n::u64)"
  shows "(2 ^ k :: u64) < n"
proof (cases "k < 64")
  case True
  then have "(2::nat) ^ k \<le> 2 ^ 63" by (intro power_increasing) auto
  moreover have "unat (2 ^ k :: u64) = 2 ^ k mod 2 ^ 64"
    using unat_of_nat [of "2 ^ k", where 'a = 64] by simp
  ultimately show ?thesis using assms by (simp add: word_less_nat_alt)
next
  case False
  have "n \<noteq> 0" using assms by auto
  moreover have "(2 ^ k :: u64) = 0" using False by (simp add: exp_eq_zero_iff)
  ultimately show ?thesis by (simp only: word_gt_0)
qed

lemma next_pow2_loop_diverges:
  assumes "next_pow2_loop n p = Some y" and "2 ^ 63 < unat n"
  shows "p \<noteq> 2 ^ k"
proof -
  have "2 ^ 63 < unat n \<longrightarrow> (\<forall>k. p \<noteq> 2 ^ k)"
  proof (rule next_pow2_loop.raw_induct [OF _ assms(1)])
    fix f :: "u64 \<Rightarrow> u64 \<Rightarrow> u64 option" and n p y
    assume IH: "\<And>n p y. f n p = Some y \<Longrightarrow> 2 ^ 63 < unat n \<longrightarrow> (\<forall>k. p \<noteq> 2 ^ k)"
      and body: "(if p < n then f n (p * 2) else Some p) = Some y"
    show "2 ^ 63 < unat n \<longrightarrow> (\<forall>k. p \<noteq> 2 ^ k)"
    proof (intro impI allI notI)
      fix k
      assume n: "2 ^ 63 < unat n" and p: "p = 2 ^ k"
      then have "f n (p * 2) = Some y" using body pow2_below [OF n] by simp
      with IH [OF this] n p show False by (metis power_Suc2)
    qed
  qed
  with assms(2) show ?thesis by blast
qed

text \<open>
  C12. The doubling loop of \<^verbatim>\<open>next_pow2_\<close> returns for every request up to \<open>2 ^ 63\<close>, with the
  least power of two that is large enough. Above that no 64-bit power of two is large
  enough: the doubling wraps to 0 and the loop never returns.
\<close>

theorem next_pow2_terminates:
  "(0 < n \<and> unat n \<le> 2 ^ 63 \<longrightarrow>
      (\<exists>j \<le> 63. next_pow2 n = Some (of_nat (2 ^ j)) \<and> unat n \<le> 2 ^ j \<and> (j = 0 \<or> 2 ^ (j - 1) < unat n))) \<and>
   (2 ^ 63 < unat n \<longrightarrow> next_pow2 n = None)"
proof -
  have "\<exists>j \<le> 63. next_pow2 n = Some (of_nat (2 ^ j)) \<and> unat n \<le> 2 ^ j \<and> (j = 0 \<or> 2 ^ (j - 1) < unat n)"
    if "unat n \<le> 2 ^ 63"
    using next_pow2_loop_terminates [OF that, of 1 0] unfolding next_pow2_def by auto
  moreover have "next_pow2 n = None" if "2 ^ 63 < unat n"
    using next_pow2_loop_diverges [of n 1 _ 0] that unfolding next_pow2_def
    by (cases "next_pow2_loop n 1") auto
  ultimately show ?thesis by blast
qed

theorem next_pow2_terminates_witness:
  "(\<exists>j \<le> 63. next_pow2 100 = Some (of_nat (2 ^ j)) \<and> 100 \<le> (2::nat) ^ j) \<and> next_pow2 0xC000000000000000 = None"
  using next_pow2_terminates [of 100] next_pow2_terminates [of "0xC000000000000000"] by auto

end
