(* ===== verification/Mvcc.thy ===== *)
theory Mvcc
  imports Backend Hashmap Wire "HOL-Library.Product_Lexorder"
begin

text \<open>
  The multi-version store, \<^verbatim>\<open>src/mvcc/mvcc.c\<close>: an ordered index with the live generation of
  every key, a history of revisions, watchers, and an optional LMDB mirror that is written
  before the memory is changed.

  A revision is a pair of \<^verbatim>\<open>int64_t\<close>, here integers: the counter grows by one per write and
  the model has no overflow at \<open>2 ^ 63\<close>. Arrays with a count are lists. A generation that
  the C code changes through its pointer is put back into the index. Watcher handles are
  numbers; a callback watcher's calls are logged in \<open>ms_calls\<close>, and the notification
  channel of a streaming watcher, which several watchers may share, is a number with a
  queue of events and a count of wake-ups in \<open>ms_notify\<close>. Allocation succeeds, and pointer
  arguments are not null unless an option type says so.

  Two reads at a past revision, \<^verbatim>\<open>cetcd_mvcc_get\<close> and \<^verbatim>\<open>cetcd_mvcc_range\<close>, keep the position in the history in an
  \<^verbatim>\<open>int\<close> that starts at \<^verbatim>\<open>(int)history_count - 1\<close>; the model walks the list and so describes histories of at most \<open>2 ^ 31\<close> entries,
  between two compactions. A longer one makes the position negative and the C code finds nothing.
\<close>

section \<open>Data\<close>

record cetcd_revision =
  rev_main :: int
  rev_sub :: int

definition zero_rev :: cetcd_revision where
  "zero_rev = \<lparr>rev_main = 0, rev_sub = 0\<rparr>"

record cetcd_kv =
  kv_key :: bytes
  kv_value :: bytes
  kv_create_rev :: cetcd_revision
  kv_mod_rev :: cetcd_revision
  kv_version :: int
  kv_lease_id :: int

datatype cetcd_event_type = CETCD_EVENT_PUT | CETCD_EVENT_DELETE

record cetcd_watch_event =
  ev_type :: cetcd_event_type
  ev_kv :: cetcd_kv
  ev_rev :: cetcd_revision
  ev_prev_kv :: "cetcd_kv option"

record key_generation =
  kg_create_rev :: cetcd_revision
  kg_version :: int
  kg_mod_rev :: cetcd_revision
  kg_value :: bytes
  kg_deleted :: bool
  kg_lease_id :: int

record revision_entry =
  he_key :: bytes
  he_value :: bytes
  he_rev :: cetcd_revision
  he_type :: cetcd_event_type
  he_version :: int
  he_create_rev :: cetcd_revision
  he_lease_id :: int

record cetcd_watcher =
  w_ptr :: nat
  w_pattern :: bytes
  w_is_prefix :: bool
  w_start_rev :: int

record cetcd_stream_watcher =
  sw_ptr :: nat
  sw_pattern :: bytes
  sw_is_prefix :: bool
  sw_is_range :: bool
  sw_range_end :: bytes
  sw_start_rev :: int
  sw_watch_id :: int
  sw_want_prev_kv :: bool
  sw_notify :: nat

record cetcd_mvcc_watch_notify =
  n_events :: "cetcd_watch_event list"
  n_wakes :: nat

record 'e cetcd_mvcc_store =
  ms_index :: "key_generation cetcd_treap"
  ms_main_rev :: int
  ms_history :: "revision_entry list"
  ms_compacted_rev :: int
  ms_watchers :: "cetcd_watcher list"
  ms_stream_watchers :: "cetcd_stream_watcher list"
  ms_backend :: "'e option"
  ms_calls :: "(nat \<times> cetcd_watch_event) list"
  ms_notify :: "nat \<Rightarrow> cetcd_mvcc_watch_notify"
  ms_next_ptr :: nat

definition MVCC_BUCKET_KEY :: string where "MVCC_BUCKET_KEY = ''key''"
definition MVCC_BUCKET_META :: string where "MVCC_BUCKET_META = ''meta''"

definition MVCC_META_REV :: bytes where "MVCC_META_REV = bytes_of ''revision''"
definition MVCC_META_COMPACTED :: bytes where "MVCC_META_COMPACTED = bytes_of ''compacted''"

section \<open>The stored form of a generation\<close>

text \<open>The casts between \<^verbatim>\<open>int64_t\<close> and \<^verbatim>\<open>uint64_t\<close> are \<open>word_of_int\<close> and \<open>sint\<close>.\<close>

definition encode_kg :: "key_generation \<Rightarrow> bytes" where
  "encode_kg kg =
     write_le64 (word_of_int (rev_main (kg_create_rev kg))) @
     write_le64 (word_of_int (rev_sub (kg_create_rev kg))) @
     write_le64 (word_of_int (rev_main (kg_mod_rev kg))) @
     write_le64 (word_of_int (rev_sub (kg_mod_rev kg))) @
     write_le64 (word_of_int (kg_version kg)) @
     write_le64 (word_of_int (kg_lease_id kg)) @
     kg_value kg"

definition decode_kg :: "bytes \<Rightarrow> key_generation option" where
  "decode_kg data =
     (if length data < 48 then None
      else Some \<lparr>
        kg_create_rev = \<lparr>rev_main = sint (read_le64 data), rev_sub = sint (read_le64 (drop 8 data))\<rparr>,
        kg_version = sint (read_le64 (drop 32 data)),
        kg_mod_rev = \<lparr>rev_main = sint (read_le64 (drop 16 data)), rev_sub = sint (read_le64 (drop 24 data))\<rparr>,
        kg_value = drop 48 data,
        kg_deleted = False,
        kg_lease_id = sint (read_le64 (drop 40 data))\<rparr>)"

section \<open>Persistence\<close>

text \<open>The status and the store with the new state of its backend.\<close>

definition mvcc_persist_put ::
  "('e, 't) lmdb \<Rightarrow> 'e cetcd_mvcc_store \<Rightarrow> bytes \<Rightarrow> key_generation \<Rightarrow> int \<Rightarrow> cetcd_status \<times> 'e cetcd_mvcc_store" where
  "mvcc_persist_put L s key kg rv =
     (case ms_backend s of
        None \<Rightarrow> (CETCD_OK, s)
      | Some be \<Rightarrow>
          (case cetcd_backend_put2 L be MVCC_BUCKET_KEY key (Some (encode_kg kg))
                  MVCC_BUCKET_META MVCC_META_REV (write_le64 (word_of_int rv)) of
             (rc, be) \<Rightarrow> (rc, s\<lparr>ms_backend := Some be\<rparr>)))"

definition mvcc_persist_del ::
  "('e, 't) lmdb \<Rightarrow> 'e cetcd_mvcc_store \<Rightarrow> bytes \<Rightarrow> int \<Rightarrow> cetcd_status \<times> 'e cetcd_mvcc_store" where
  "mvcc_persist_del L s key rv =
     (case ms_backend s of
        None \<Rightarrow> (CETCD_OK, s)
      | Some be \<Rightarrow>
          (case cetcd_backend_put2 L be MVCC_BUCKET_KEY key None
                  MVCC_BUCKET_META MVCC_META_REV (write_le64 (word_of_int rv)) of
             (rc, be) \<Rightarrow> (rc, s\<lparr>ms_backend := Some be\<rparr>)))"

section \<open>Watch matching and notification\<close>

definition watch_match :: "cetcd_watcher \<Rightarrow> bytes \<Rightarrow> bool" where
  "watch_match w key =
     (if w_is_prefix w then
        (if length key < length (w_pattern w) then False
         else memcmp key (w_pattern w) (length (w_pattern w)) = 0)
      else length key = length (w_pattern w) \<and> memcmp key (w_pattern w) (length key) = 0)"

definition key_in_range :: "bytes \<Rightarrow> bytes \<Rightarrow> bytes \<Rightarrow> bool" where
  "key_in_range key lo hi =
     (if length lo > 0 \<and>
         (let n = (if length key < length lo then length key else length lo); c = memcmp key lo n
          in c < 0 \<or> c = 0 \<and> length key < length lo) then False
      else if length hi > 0 \<and>
         (let n = (if length key < length hi then length key else length hi); c = memcmp key hi n
          in c > 0 \<or> c = 0 \<and> length key \<ge> length hi) then False
      else True)"

definition stream_watch_match :: "cetcd_stream_watcher \<Rightarrow> bytes \<Rightarrow> bool" where
  "stream_watch_match w key =
     (if sw_is_range w then key_in_range key (sw_pattern w) (sw_range_end w)
      else if sw_is_prefix w then
        (if length key < length (sw_pattern w) then False
         else memcmp key (sw_pattern w) (length (sw_pattern w)) = 0)
      else length key = length (sw_pattern w) \<and> memcmp key (sw_pattern w) (length key) = 0)"

definition notify_push ::
  "'e cetcd_mvcc_store \<Rightarrow> nat \<Rightarrow> cetcd_watch_event \<Rightarrow> bool \<Rightarrow> 'e cetcd_mvcc_store" where
  "notify_push s n ev wake =
     (let q = ms_notify s n
      in s\<lparr>ms_notify := (ms_notify s)(n := q\<lparr>n_events := n_events q @ [ev],
             n_wakes := (if wake then n_wakes q + 1 else n_wakes q)\<rparr>)\<rparr>)"

fun notify_callbacks ::
  "cetcd_watcher list \<Rightarrow> cetcd_watch_event \<Rightarrow> 'e cetcd_mvcc_store \<Rightarrow> 'e cetcd_mvcc_store" where
  "notify_callbacks [] ev s = s"
| "notify_callbacks (w # ws) ev s =
     notify_callbacks ws ev
       (if w_start_rev w > 0 \<and> rev_main (ev_rev ev) < w_start_rev w then s
        else if watch_match w (kv_key (ev_kv ev)) then s\<lparr>ms_calls := ms_calls s @ [(w_ptr w, ev)]\<rparr>
        else s)"

fun notify_streams ::
  "cetcd_stream_watcher list \<Rightarrow> cetcd_watch_event \<Rightarrow> 'e cetcd_mvcc_store \<Rightarrow> 'e cetcd_mvcc_store" where
  "notify_streams [] ev s = s"
| "notify_streams (w # ws) ev s =
     notify_streams ws ev
       (if sw_start_rev w > 0 \<and> rev_main (ev_rev ev) < sw_start_rev w then s
        else if stream_watch_match w (kv_key (ev_kv ev)) then
          notify_push s (sw_notify w) (if sw_want_prev_kv w then ev else ev\<lparr>ev_prev_kv := None\<rparr>) True
        else s)"

definition mvcc_notify_watchers ::
  "'e cetcd_mvcc_store \<Rightarrow> cetcd_kv \<Rightarrow> cetcd_revision \<Rightarrow> cetcd_event_type \<Rightarrow> cetcd_kv option \<Rightarrow> 'e cetcd_mvcc_store" where
  "mvcc_notify_watchers s kv rv ty prev_kv =
     (let ev = \<lparr>ev_type = ty, ev_kv = kv, ev_rev = rv, ev_prev_kv = prev_kv\<rparr>;
          s = notify_callbacks (ms_watchers s) ev s
      in notify_streams (ms_stream_watchers s) ev s)"

section \<open>The store\<close>

definition cetcd_mvcc_store_new :: "'e cetcd_mvcc_store" where
  "cetcd_mvcc_store_new =
     \<lparr>ms_index = cetcd_treap_new, ms_main_rev = 0, ms_history = [], ms_compacted_rev = 0,
      ms_watchers = [], ms_stream_watchers = [], ms_backend = None, ms_calls = [],
      ms_notify = (\<lambda>_. \<lparr>n_events = [], n_wakes = 0\<rparr>), ms_next_ptr = 0\<rparr>"

definition push_history :: "'e cetcd_mvcc_store \<Rightarrow> revision_entry \<Rightarrow> 'e cetcd_mvcc_store" where
  "push_history s e = s\<lparr>ms_history := ms_history s @ [e]\<rparr>"

definition cetcd_mvcc_advance_revision ::
  "('e, 't) lmdb \<Rightarrow> 'e cetcd_mvcc_store \<Rightarrow> int \<Rightarrow> cetcd_status \<times> 'e cetcd_mvcc_store" where
  "cetcd_mvcc_advance_revision L s rv =
     (if rv < 1 then (CETCD_ERR_INVAL, s)
      else if rv < ms_main_rev s then (CETCD_ERR_INVAL, s)
      else if rv = ms_main_rev s then (CETCD_OK, s)
      else case ms_backend s of
          None \<Rightarrow> (CETCD_OK, s\<lparr>ms_main_rev := rv\<rparr>)
        | Some be \<Rightarrow>
            (case cetcd_backend_put L be MVCC_BUCKET_META MVCC_META_REV (write_le64 (word_of_int rv)) of
               (rc, be) \<Rightarrow>
                 if rc \<noteq> CETCD_OK then (CETCD_ERR_IO, s\<lparr>ms_backend := Some be\<rparr>)
                 else (CETCD_OK, s\<lparr>ms_backend := Some be, ms_main_rev := rv\<rparr>)))"

definition kv_of_kg :: "bytes \<Rightarrow> key_generation \<Rightarrow> cetcd_kv" where
  "kv_of_kg key kg =
     \<lparr>kv_key = key, kv_value = kg_value kg, kv_create_rev = kg_create_rev kg,
      kv_mod_rev = kg_mod_rev kg, kv_version = kg_version kg, kv_lease_id = kg_lease_id kg\<rparr>"

definition cetcd_mvcc_put ::
  "('e, 't) lmdb \<Rightarrow> 'e cetcd_mvcc_store \<Rightarrow> bytes \<Rightarrow> bytes \<Rightarrow> int \<Rightarrow> cetcd_revision \<times> 'e cetcd_mvcc_store" where
  "cetcd_mvcc_put L s key val lease_id =
     (let existing = cetcd_treap_get (ms_index s) key;
          new_main = ms_main_rev s + 1;
          new_rev = \<lparr>rev_main = new_main, rev_sub = 0\<rparr>;
          preview = (case existing of
             Some kg \<Rightarrow> \<lparr>kg_create_rev = kg_create_rev kg, kg_version = kg_version kg + 1,
                         kg_mod_rev = new_rev, kg_value = val, kg_deleted = False, kg_lease_id = lease_id\<rparr>
           | None \<Rightarrow> \<lparr>kg_create_rev = new_rev, kg_version = 1,
                         kg_mod_rev = new_rev, kg_value = val, kg_deleted = False, kg_lease_id = lease_id\<rparr>)
      in case mvcc_persist_put L s key preview new_main of
           (rc, s) \<Rightarrow>
             if rc \<noteq> CETCD_OK then (zero_rev, s)
             else
               let s = s\<lparr>ms_main_rev := new_main\<rparr>;
                   prev_evkv = (case existing of
                      Some kg \<Rightarrow> if \<not> kg_deleted kg then Some (kv_of_kg key kg) else None
                    | None \<Rightarrow> None);
                   kg = (case existing of
                      Some kg \<Rightarrow> kg\<lparr>kg_value := val, kg_version := kg_version kg + 1,
                                   kg_mod_rev := new_rev, kg_deleted := False, kg_lease_id := lease_id\<rparr>
                    | None \<Rightarrow> preview);
                   s = s\<lparr>ms_index := snd (cetcd_treap_put (ms_index s) key kg)\<rparr>;
                   s = push_history s
                     \<lparr>he_key = key, he_value = val, he_rev = new_rev, he_type = CETCD_EVENT_PUT,
                      he_version = kg_version kg, he_create_rev = kg_create_rev kg, he_lease_id = lease_id\<rparr>;
                   evkv = \<lparr>kv_key = key, kv_value = kg_value kg, kv_create_rev = kg_create_rev kg,
                           kv_mod_rev = new_rev, kv_version = kg_version kg, kv_lease_id = kg_lease_id kg\<rparr>;
                   s = mvcc_notify_watchers s evkv new_rev CETCD_EVENT_PUT prev_evkv
               in (new_rev, s))"

definition delete_one ::
  "('e, 't) lmdb \<Rightarrow> 'e cetcd_mvcc_store \<Rightarrow> bytes \<Rightarrow> bool \<Rightarrow> cetcd_revision option \<Rightarrow> cetcd_revision \<times> 'e cetcd_mvcc_store" where
  "delete_one L s key do_persist forced_rev =
     (case cetcd_treap_get (ms_index s) key of
        None \<Rightarrow> (zero_rev, s)
      | Some kg \<Rightarrow>
          if kg_deleted kg then (zero_rev, s)
          else
            let new_rev = (case forced_rev of
                   Some r \<Rightarrow> r | None \<Rightarrow> \<lparr>rev_main = ms_main_rev s + 1, rev_sub = 0\<rparr>)
            in case (if do_persist then mvcc_persist_del L s key (rev_main new_rev) else (CETCD_OK, s)) of
                 (rc, s) \<Rightarrow>
                   if rc \<noteq> CETCD_OK then (zero_rev, s)
                   else
                     let s = (if rev_main new_rev > ms_main_rev s then s\<lparr>ms_main_rev := rev_main new_rev\<rparr> else s);
                         prev_evkv = kv_of_kg key kg;
                         s = push_history s
                           \<lparr>he_key = key, he_value = [], he_rev = new_rev, he_type = CETCD_EVENT_DELETE,
                            he_version = 0, he_create_rev = kg_create_rev kg, he_lease_id = kg_lease_id kg\<rparr>;
                         evkv = \<lparr>kv_key = key, kv_value = [], kv_create_rev = kg_create_rev kg,
                                 kv_mod_rev = new_rev, kv_version = 0, kv_lease_id = kg_lease_id kg\<rparr>;
                         s = mvcc_notify_watchers s evkv new_rev CETCD_EVENT_DELETE (Some prev_evkv);
                         s = s\<lparr>ms_index := snd (snd (cetcd_treap_del (ms_index s) key))\<rparr>
                     in (new_rev, s))"

definition cetcd_mvcc_delete ::
  "('e, 't) lmdb \<Rightarrow> 'e cetcd_mvcc_store \<Rightarrow> bytes \<Rightarrow> cetcd_revision \<times> 'e cetcd_mvcc_store" where
  "cetcd_mvcc_delete L s key = delete_one L s key True None"

fun delete_keys_loop ::
  "('e, 't) lmdb \<Rightarrow> bytes list \<Rightarrow> int \<Rightarrow> int \<Rightarrow> cetcd_revision \<Rightarrow> 'e cetcd_mvcc_store \<Rightarrow> cetcd_revision \<times> 'e cetcd_mvcc_store" where
  "delete_keys_loop L [] new_main i last_rev s = (last_rev, s)"
| "delete_keys_loop L (k # ks) new_main i last_rev s =
     (case delete_one L s k False (Some \<lparr>rev_main = new_main, rev_sub = i\<rparr>) of
        (r, s) \<Rightarrow> delete_keys_loop L ks new_main (i + 1) r s)"

definition live_key :: "'e cetcd_mvcc_store \<Rightarrow> bytes \<Rightarrow> bool" where
  "live_key s k =
     (if length k = 0 then False
      else case cetcd_treap_get (ms_index s) k of None \<Rightarrow> False | Some kg \<Rightarrow> \<not> kg_deleted kg)"

definition cetcd_mvcc_delete_keys ::
  "('e, 't) lmdb \<Rightarrow> 'e cetcd_mvcc_store \<Rightarrow> bytes list \<Rightarrow> cetcd_revision \<times> 'e cetcd_mvcc_store" where
  "cetcd_mvcc_delete_keys L s keys =
     (if keys = [] then (zero_rev, s)
      else
        let del_keys = filter (live_key s) keys in
        if del_keys = [] then (zero_rev, s)
        else
          let new_main = ms_main_rev s + 1 in
          case ms_backend s of
            None \<Rightarrow> delete_keys_loop L del_keys new_main 0 zero_rev s
          | Some be \<Rightarrow>
              (case cetcd_backend_del_n L be MVCC_BUCKET_KEY del_keys
                      MVCC_BUCKET_META MVCC_META_REV (write_le64 (word_of_int new_main)) of
                 (rc, be) \<Rightarrow>
                   let s = s\<lparr>ms_backend := Some be\<rparr> in
                   if rc \<noteq> CETCD_OK then (zero_rev, s)
                   else delete_keys_loop L del_keys new_main 0 zero_rev s))"

section \<open>Reads\<close>

text \<open>The walk of \<^verbatim>\<open>cetcd_mvcc_get\<close> over the history, newest entry first.\<close>

fun get_walk :: "revision_entry list \<Rightarrow> int \<Rightarrow> bytes \<Rightarrow> cetcd_status \<times> cetcd_kv option" where
  "get_walk [] rv key = (CETCD_ERR_NOTFOUND, None)"
| "get_walk (e # es) rv key =
     (if rev_main (he_rev e) > rv then get_walk es rv key
      else if length (he_key e) = length key \<and> memcmp (he_key e) key (length key) = 0 then
        (if he_type e = CETCD_EVENT_DELETE then (CETCD_ERR_NOTFOUND, None)
         else (CETCD_OK, Some \<lparr>kv_key = he_key e, kv_value = he_value e, kv_create_rev = he_create_rev e,
                 kv_mod_rev = he_rev e, kv_version = he_version e, kv_lease_id = he_lease_id e\<rparr>))
      else get_walk es rv key)"

definition cetcd_mvcc_get ::
  "'e cetcd_mvcc_store \<Rightarrow> int \<Rightarrow> bytes \<Rightarrow> cetcd_status \<times> cetcd_kv option" where
  "cetcd_mvcc_get s rv key =
     (if rv > 0 \<and> ms_compacted_rev s > 0 \<and> rv < ms_compacted_rev s then (CETCD_ERR_RANGE, None)
      else if rv = 0 then
        (case cetcd_treap_get (ms_index s) key of
           None \<Rightarrow> (CETCD_ERR_NOTFOUND, None)
         | Some kg \<Rightarrow>
             if kg_deleted kg then (CETCD_ERR_NOTFOUND, None)
             else (CETCD_OK, Some (kv_of_kg key kg)))
      else get_walk (rev (ms_history s)) rv key)"

definition range_collect_cb :: "(key_generation, cetcd_kv list) cetcd_treap_iter_fn" where
  "range_collect_cb key kg rows =
     (if kg_deleted kg then (rows, True) else (rows @ [kv_of_kg key kg], True))"

definition kv_of_entry :: "revision_entry \<Rightarrow> cetcd_kv" where
  "kv_of_entry e =
     \<lparr>kv_key = he_key e, kv_value = he_value e, kv_create_rev = he_create_rev e,
      kv_mod_rev = he_rev e, kv_version = he_version e, kv_lease_id = he_lease_id e\<rparr>"

text \<open>
  The historical walk, newest entry first: the hash table \<open>seen\<close> marks the keys met, and a
  deletion hides the older entries of its key.
\<close>

fun range_walk ::
  "revision_entry list \<Rightarrow> int \<Rightarrow> bytes \<Rightarrow> bytes \<Rightarrow> unit cetcd_hashmap \<Rightarrow> cetcd_kv list \<Rightarrow> cetcd_status \<times> cetcd_kv list" where
  "range_walk [] rv lo hi seen rows = (CETCD_OK, rows)"
| "range_walk (e # es) rv lo hi seen rows =
     (if rev_main (he_rev e) > rv then range_walk es rv lo hi seen rows
      else if \<not> key_in_range (he_key e) lo hi then range_walk es rv lo hi seen rows
      else if cetcd_hashmap_contains seen (he_key e) then range_walk es rv lo hi seen rows
      else case cetcd_hashmap_put seen (he_key e) () of (rc, seen) \<Rightarrow>
        if rc \<noteq> CETCD_OK then (CETCD_ERR_NOMEM, [])
        else if he_type e = CETCD_EVENT_DELETE then range_walk es rv lo hi seen rows
        else range_walk es rv lo hi seen (rows @ [kv_of_entry e]))"

text \<open>
  \<^verbatim>\<open>cetcd_mvcc_range\<close>; an end of one zero byte means no end. \<^verbatim>\<open>qsort\<close> with
  \<^verbatim>\<open>range_kv_key_cmp_\<close> orders the rows by key.
\<close>

definition cetcd_mvcc_range ::
  "'e cetcd_mvcc_store \<Rightarrow> int \<Rightarrow> bytes \<Rightarrow> bytes \<Rightarrow> cetcd_status \<times> cetcd_kv list" where
  "cetcd_mvcc_range s rv key_start key_end =
     (if rv > 0 \<and> ms_compacted_rev s > 0 \<and> rv < ms_compacted_rev s then (CETCD_ERR_RANGE, [])
      else
        let hi = (if key_end = [0] then [] else key_end) in
        if rv = 0 then (CETCD_OK, cetcd_treap_range (ms_index s) key_start hi range_collect_cb [])
        else case cetcd_hashmap_new 0 of
            None \<Rightarrow> (CETCD_ERR_NOMEM, [])
          | Some seen \<Rightarrow>
              (case range_walk (rev (ms_history s)) rv key_start hi seen [] of
                 (rc, rows) \<Rightarrow>
                   if rc \<noteq> CETCD_OK then (rc, [])
                   else (CETCD_OK, if length rows > 1 then sort_key kv_key rows else rows)))"

section \<open>Watches\<close>

definition create_watcher ::
  "'e cetcd_mvcc_store \<Rightarrow> bytes \<Rightarrow> bool \<Rightarrow> int \<Rightarrow> nat \<times> 'e cetcd_mvcc_store" where
  "create_watcher s pattern is_prefix start_rev =
     (let p = ms_next_ptr s;
          w = \<lparr>w_ptr = p, w_pattern = pattern, w_is_prefix = is_prefix, w_start_rev = start_rev\<rparr>
      in (p, s\<lparr>ms_watchers := ms_watchers s @ [w], ms_next_ptr := p + 1\<rparr>))"

definition cetcd_mvcc_watch :: "'e cetcd_mvcc_store \<Rightarrow> bytes \<Rightarrow> int \<Rightarrow> nat \<times> 'e cetcd_mvcc_store" where
  "cetcd_mvcc_watch s key start_rev = create_watcher s key False start_rev"

definition cetcd_mvcc_watch_prefix :: "'e cetcd_mvcc_store \<Rightarrow> bytes \<Rightarrow> int \<Rightarrow> nat \<times> 'e cetcd_mvcc_store" where
  "cetcd_mvcc_watch_prefix s pre start_rev = create_watcher s pre True start_rev"

text \<open>Removal moves the last watcher into the freed place.\<close>

fun find_ptr :: "('w \<Rightarrow> nat) \<Rightarrow> nat \<Rightarrow> 'w list \<Rightarrow> nat option" where
  "find_ptr f p [] = None"
| "find_ptr f p (w # ws) = (if f w = p then Some 0 else map_option Suc (find_ptr f p ws))"

definition swap_remove :: "('w \<Rightarrow> nat) \<Rightarrow> nat \<Rightarrow> 'w list \<Rightarrow> 'w list" where
  "swap_remove f p ws =
     (case find_ptr f p ws of None \<Rightarrow> ws | Some i \<Rightarrow> take (length ws - 1) (ws[i := last ws]))"

definition cetcd_mvcc_watch_cancel :: "'e cetcd_mvcc_store \<Rightarrow> nat \<Rightarrow> 'e cetcd_mvcc_store" where
  "cetcd_mvcc_watch_cancel s p = s\<lparr>ms_watchers := swap_remove w_ptr p (ms_watchers s)\<rparr>"

definition cetcd_mvcc_watch_subscribe ::
  "'e cetcd_mvcc_store \<Rightarrow> int \<Rightarrow> bytes \<Rightarrow> bytes \<Rightarrow> int \<Rightarrow> bool \<Rightarrow> nat \<Rightarrow> nat \<times> 'e cetcd_mvcc_store" where
  "cetcd_mvcc_watch_subscribe s watch_id key range_end start_rev want_prev_kv notify =
     (let p = ms_next_ptr s;
          sw = \<lparr>sw_ptr = p, sw_pattern = key, sw_is_prefix = False, sw_is_range = False, sw_range_end = [],
                sw_start_rev = start_rev, sw_watch_id = watch_id, sw_want_prev_kv = want_prev_kv,
                sw_notify = notify\<rparr>;
          sw = (if length range_end > 0 then
                  (if length range_end = 1 \<and> range_end ! 0 = 0
                   then sw\<lparr>sw_is_range := True, sw_range_end := []\<rparr>
                   else sw\<lparr>sw_is_range := True, sw_range_end := range_end\<rparr>)
                else sw)
      in (p, s\<lparr>ms_stream_watchers := ms_stream_watchers s @ [sw], ms_next_ptr := p + 1\<rparr>))"

definition cetcd_mvcc_watch_unsubscribe :: "'e cetcd_mvcc_store \<Rightarrow> nat \<Rightarrow> 'e cetcd_mvcc_store" where
  "cetcd_mvcc_watch_unsubscribe s p =
     s\<lparr>ms_stream_watchers := swap_remove sw_ptr p (ms_stream_watchers s)\<rparr>"

text \<open>The search for the previous value of a key among the older entries, newest first.\<close>

fun prev_walk :: "revision_entry list \<Rightarrow> bytes \<Rightarrow> cetcd_kv option" where
  "prev_walk [] key = None"
| "prev_walk (p # ps) key =
     (if length (he_key p) \<noteq> length key \<or> memcmp (he_key p) key (length key) \<noteq> 0 then prev_walk ps key
      else if he_type p = CETCD_EVENT_DELETE then None
      else Some (kv_of_entry p))"

fun replay_loop ::
  "cetcd_stream_watcher \<Rightarrow> revision_entry list \<Rightarrow> revision_entry list \<Rightarrow> 'e cetcd_mvcc_store \<Rightarrow> 'e cetcd_mvcc_store" where
  "replay_loop sw older [] s = s"
| "replay_loop sw older (e # es) s =
     replay_loop sw (e # older) es
       (if rev_main (he_rev e) < sw_start_rev sw then s
        else if \<not> stream_watch_match sw (he_key e) then s
        else notify_push s (sw_notify sw)
          \<lparr>ev_type = he_type e,
           ev_kv = (kv_of_entry e)\<lparr>kv_value := (if he_type e = CETCD_EVENT_PUT then he_value e else [])\<rparr>,
           ev_rev = he_rev e,
           ev_prev_kv = (if sw_want_prev_kv sw then prev_walk older (he_key e) else None)\<rparr> False)"

definition cetcd_mvcc_watch_replay ::
  "'e cetcd_mvcc_store \<Rightarrow> cetcd_stream_watcher \<Rightarrow> 'e cetcd_mvcc_store" where
  "cetcd_mvcc_watch_replay s sw =
     (if sw_start_rev sw \<le> 0 then s else replay_loop sw [] (ms_history s) s)"

definition cetcd_mvcc_watch_notify_wake :: "'e cetcd_mvcc_store \<Rightarrow> nat \<Rightarrow> 'e cetcd_mvcc_store" where
  "cetcd_mvcc_watch_notify_wake s n =
     (if n_events (ms_notify s n) = [] then s
      else s\<lparr>ms_notify := (ms_notify s)(n := (ms_notify s n)\<lparr>n_wakes := n_wakes (ms_notify s n) + 1\<rparr>)\<rparr>)"

definition cetcd_mvcc_watch_recv ::
  "'e cetcd_mvcc_store \<Rightarrow> nat \<Rightarrow> cetcd_watch_event list \<times> 'e cetcd_mvcc_store" where
  "cetcd_mvcc_watch_recv s n =
     (if n_events (ms_notify s n) = [] then ([], s)
      else (n_events (ms_notify s n),
            s\<lparr>ms_notify := (ms_notify s)(n := (ms_notify s n)\<lparr>n_events := []\<rparr>)\<rparr>))"

section \<open>Compaction, hash and recovery\<close>

definition cetcd_mvcc_compact ::
  "('e, 't) lmdb \<Rightarrow> 'e cetcd_mvcc_store \<Rightarrow> int \<Rightarrow> cetcd_status \<times> 'e cetcd_mvcc_store" where
  "cetcd_mvcc_compact L s compact_rev =
     (if compact_rev \<le> 0 then (CETCD_ERR_INVAL, s)
      else if compact_rev > ms_main_rev s then (CETCD_ERR_INVAL, s)
      else if ms_compacted_rev s > 0 \<and> compact_rev \<le> ms_compacted_rev s then (CETCD_ERR_RANGE, s)
      else
        case (case ms_backend s of
                None \<Rightarrow> (CETCD_OK, s)
              | Some be \<Rightarrow>
                  (case cetcd_backend_put L be MVCC_BUCKET_META MVCC_META_COMPACTED
                          (write_le64 (word_of_int compact_rev)) of
                     (rc, be) \<Rightarrow> (rc, s\<lparr>ms_backend := Some be\<rparr>))) of
          (rc, s) \<Rightarrow>
            if rc \<noteq> CETCD_OK then (CETCD_ERR_IO, s)
            else (CETCD_OK,
              s\<lparr>ms_history := filter (\<lambda>e. rev_main (he_rev e) \<ge> compact_rev) (ms_history s),
                ms_compacted_rev := compact_rev\<rparr>))"

fun hash_rows :: "u32 \<Rightarrow> cetcd_kv list \<Rightarrow> u32" where
  "hash_rows h [] = h"
| "hash_rows h (kv # kvs) = hash_rows (cetcd_crc32c (cetcd_crc32c h (kv_key kv)) (kv_value kv)) kvs"

definition cetcd_mvcc_hash_kv :: "'e cetcd_mvcc_store \<Rightarrow> int \<Rightarrow> cetcd_status \<times> u32" where
  "cetcd_mvcc_hash_kv s rv =
     (if rv < 0 then (CETCD_ERR_INVAL, 0)
      else if rv > ms_main_rev s then (CETCD_ERR_RANGE, 0)
      else if rv > 0 \<and> ms_compacted_rev s > 0 \<and> rv < ms_compacted_rev s then (CETCD_ERR_RANGE, 0)
      else case cetcd_mvcc_range s rv [] [0] of
        (rc, kvs) \<Rightarrow> if rc \<noteq> CETCD_OK then (rc, 0) else (CETCD_OK, hash_rows 0 kvs))"

definition cetcd_mvcc_set_backend :: "'e cetcd_mvcc_store \<Rightarrow> 'e option \<Rightarrow> 'e cetcd_mvcc_store" where
  "cetcd_mvcc_set_backend s be = s\<lparr>ms_backend := be\<rparr>"

text \<open>The callback of the recovery scan: the store and the error it has recorded.\<close>

definition load_kv_cb :: "(bytes, 'e cetcd_mvcc_store \<times> cetcd_status) cetcd_treap_iter_fn" where
  "load_kv_cb key val ctx =
     (case decode_kg val of
        None \<Rightarrow> ((fst ctx, CETCD_ERR_CORRUPT), False)
      | Some kg \<Rightarrow>
          (case cetcd_treap_put (ms_index (fst ctx)) key kg of
             (rc, idx) \<Rightarrow>
               if rc \<noteq> CETCD_OK then ((fst ctx, CETCD_ERR_NOMEM), False)
               else
                 let s = (fst ctx)\<lparr>ms_index := idx\<rparr>;
                     s = (if rev_main (kg_mod_rev kg) > ms_main_rev s
                          then s\<lparr>ms_main_rev := rev_main (kg_mod_rev kg)\<rparr> else s);
                     s = push_history s
                       \<lparr>he_key = key, he_value = kg_value kg, he_rev = kg_mod_rev kg, he_type = CETCD_EVENT_PUT,
                        he_version = kg_version kg, he_create_rev = kg_create_rev kg, he_lease_id = kg_lease_id kg\<rparr>
                 in ((s, snd ctx), True)))"

text \<open>\<^verbatim>\<open>qsort\<close> with \<^verbatim>\<open>history_rev_cmp_\<close> orders the history by revision.\<close>

definition history_rev_key :: "revision_entry \<Rightarrow> int \<times> int" where
  "history_rev_key e = (rev_main (he_rev e), rev_sub (he_rev e))"

definition cetcd_mvcc_load ::
  "('e, 't) lmdb \<Rightarrow> 'e cetcd_mvcc_store \<Rightarrow> 'e \<Rightarrow> cetcd_status \<times> 'e cetcd_mvcc_store" where
  "cetcd_mvcc_load L s be =
     (let s = s\<lparr>ms_backend := Some be\<rparr>;
          s = (case cetcd_backend_get L be MVCC_BUCKET_META MVCC_META_REV of
                 (rc, v) \<Rightarrow>
                   (case v of
                      Some buf \<Rightarrow>
                        if rc = CETCD_OK \<and> length buf \<ge> 8 then s\<lparr>ms_main_rev := sint (read_le64 buf)\<rparr> else s
                    | None \<Rightarrow> s));
          s = (case cetcd_backend_get L be MVCC_BUCKET_META MVCC_META_COMPACTED of
                 (rc, v) \<Rightarrow>
                   (case v of
                      Some buf \<Rightarrow>
                        if rc = CETCD_OK \<and> length buf \<ge> 8 then s\<lparr>ms_compacted_rev := sint (read_le64 buf)\<rparr> else s
                    | None \<Rightarrow> s))
      in case cetcd_backend_foreach L be MVCC_BUCKET_KEY load_kv_cb (s, CETCD_OK) of
           (rc, ctx) \<Rightarrow>
             if rc \<noteq> CETCD_OK then (rc, fst ctx)
             else if snd ctx \<noteq> CETCD_OK then (snd ctx, fst ctx)
             else (CETCD_OK,
               if length (ms_history (fst ctx)) > 1
               then (fst ctx)\<lparr>ms_history := sort_key history_rev_key (ms_history (fst ctx))\<rparr>
               else fst ctx))"

end
