(* ===== verification/Mvcc_Store.thy ===== *)
theory Mvcc_Store
  imports Mvcc
begin

text \<open>
  Correctness of the store: the invariant that ties the index to the history, what reads
  return, stability of past revisions, and failure of a write.
\<close>

section \<open>Notification leaves the data alone\<close>

definition data_same :: "'e cetcd_mvcc_store \<Rightarrow> 'e cetcd_mvcc_store \<Rightarrow> bool" where
  "data_same s s' \<longleftrightarrow> ms_index s' = ms_index s \<and> ms_main_rev s' = ms_main_rev s \<and>
     ms_history s' = ms_history s \<and> ms_compacted_rev s' = ms_compacted_rev s \<and>
     ms_watchers s' = ms_watchers s \<and> ms_stream_watchers s' = ms_stream_watchers s \<and>
     ms_backend s' = ms_backend s \<and> ms_next_ptr s' = ms_next_ptr s"

lemma notify_callbacks_same: "data_same s0 s \<Longrightarrow> data_same s0 (notify_callbacks ws ev s)"
  by (induction ws arbitrary: s) (auto simp: data_same_def)

lemma notify_streams_same: "data_same s0 s \<Longrightarrow> data_same s0 (notify_streams ws ev s)"
proof (induction ws arbitrary: s)
  case (Cons w ws)
  have "data_same s0 (notify_push s n e True)" for n e
    using Cons.prems by (simp add: data_same_def notify_push_def Let_def)
  with Cons show ?case by auto
qed simp

lemma mvcc_notify_same: "data_same s (mvcc_notify_watchers s kv rv ty p)"
  unfolding mvcc_notify_watchers_def Let_def
  by (rule notify_streams_same, rule notify_callbacks_same) (simp add: data_same_def)

lemma mvcc_notify_fields [simp]:
  "ms_index (mvcc_notify_watchers s kv rv ty p) = ms_index s"
  "ms_main_rev (mvcc_notify_watchers s kv rv ty p) = ms_main_rev s"
  "ms_history (mvcc_notify_watchers s kv rv ty p) = ms_history s"
  "ms_compacted_rev (mvcc_notify_watchers s kv rv ty p) = ms_compacted_rev s"
  "ms_watchers (mvcc_notify_watchers s kv rv ty p) = ms_watchers s"
  "ms_stream_watchers (mvcc_notify_watchers s kv rv ty p) = ms_stream_watchers s"
  "ms_backend (mvcc_notify_watchers s kv rv ty p) = ms_backend s"
  "ms_next_ptr (mvcc_notify_watchers s kv rv ty p) = ms_next_ptr s"
  using mvcc_notify_same [of s kv rv ty p] by (simp_all add: data_same_def)

section \<open>What a write does\<close>

definition put_gen :: "'e cetcd_mvcc_store \<Rightarrow> bytes \<Rightarrow> bytes \<Rightarrow> int \<Rightarrow> key_generation" where
  "put_gen s key val lease =
     (let new_rev = \<lparr>rev_main = ms_main_rev s + 1, rev_sub = 0\<rparr> in
      case cetcd_treap_get (ms_index s) key of
        Some kg \<Rightarrow> \<lparr>kg_create_rev = kg_create_rev kg, kg_version = kg_version kg + 1,
                    kg_mod_rev = new_rev, kg_value = val, kg_deleted = False, kg_lease_id = lease\<rparr>
      | None \<Rightarrow> \<lparr>kg_create_rev = new_rev, kg_version = 1,
                    kg_mod_rev = new_rev, kg_value = val, kg_deleted = False, kg_lease_id = lease\<rparr>)"

definition entry_of_kg :: "bytes \<Rightarrow> key_generation \<Rightarrow> revision_entry" where
  "entry_of_kg key kg =
     \<lparr>he_key = key, he_value = kg_value kg, he_rev = kg_mod_rev kg, he_type = CETCD_EVENT_PUT,
      he_version = kg_version kg, he_create_rev = kg_create_rev kg, he_lease_id = kg_lease_id kg\<rparr>"

definition del_entry :: "bytes \<Rightarrow> key_generation \<Rightarrow> cetcd_revision \<Rightarrow> revision_entry" where
  "del_entry key kg rv =
     \<lparr>he_key = key, he_value = [], he_rev = rv, he_type = CETCD_EVENT_DELETE,
      he_version = 0, he_create_rev = kg_create_rev kg, he_lease_id = kg_lease_id kg\<rparr>"

lemma entry_of_kg_fields [simp]:
  "he_key (entry_of_kg k kg) = k" "he_rev (entry_of_kg k kg) = kg_mod_rev kg"
  "he_type (entry_of_kg k kg) = CETCD_EVENT_PUT"
  by (simp_all add: entry_of_kg_def)

lemma del_entry_fields [simp]:
  "he_key (del_entry k kg r) = k" "he_rev (del_entry k kg r) = r"
  "he_type (del_entry k kg r) = CETCD_EVENT_DELETE"
  by (simp_all add: del_entry_def)

lemma kv_of_entry_kg [simp]: "kv_of_entry (entry_of_kg k kg) = kv_of_kg k kg"
  by (simp add: kv_of_entry_def entry_of_kg_def kv_of_kg_def)

lemma persist_backend_only:
  "\<exists>rc be. mvcc_persist_put L s key kg rv = (rc, s\<lparr>ms_backend := be\<rparr>)"
  "\<exists>rc be. mvcc_persist_del L s key rv = (rc, s\<lparr>ms_backend := be\<rparr>)"
proof -
  have same: "\<exists>be. s = s\<lparr>ms_backend := be\<rparr>"
    by (rule exI [of _ "ms_backend s"]) simp
  show "\<exists>rc be. mvcc_persist_put L s key kg rv = (rc, s\<lparr>ms_backend := be\<rparr>)"
    using same by (auto simp: mvcc_persist_put_def split: option.split prod.split)
  show "\<exists>rc be. mvcc_persist_del L s key rv = (rc, s\<lparr>ms_backend := be\<rparr>)"
    using same by (auto simp: mvcc_persist_del_def split: option.split prod.split)
qed

lemma kg_put_eq:
  "kg\<lparr>kg_value := v, kg_version := n, kg_mod_rev := r, kg_deleted := d, kg_lease_id := l\<rparr> =
     \<lparr>kg_create_rev = kg_create_rev kg, kg_version = n, kg_mod_rev = r, kg_value = v, kg_deleted = d, kg_lease_id = l\<rparr>"
  by (cases kg) simp

lemma put_ok_cases:
  obtains (failed) rc be where "cetcd_mvcc_put L s key val lease = (zero_rev, s\<lparr>ms_backend := be\<rparr>)"
      and "mvcc_persist_put L s key (put_gen s key val lease) (ms_main_rev s + 1) = (rc, s\<lparr>ms_backend := be\<rparr>)"
      and "rc \<noteq> CETCD_OK"
  | (stored) be s' where "cetcd_mvcc_put L s key val lease = (\<lparr>rev_main = ms_main_rev s + 1, rev_sub = 0\<rparr>, s')"
      and "mvcc_persist_put L s key (put_gen s key val lease) (ms_main_rev s + 1) = (CETCD_OK, s\<lparr>ms_backend := be\<rparr>)"
      and "ms_backend s' = be"
      and "ms_index s' = snd (cetcd_treap_put (ms_index s) key (put_gen s key val lease))"
      and "ms_main_rev s' = ms_main_rev s + 1"
      and "ms_history s' = ms_history s @ [entry_of_kg key (put_gen s key val lease)]"
      and "ms_compacted_rev s' = ms_compacted_rev s"
      and "ms_watchers s' = ms_watchers s" and "ms_stream_watchers s' = ms_stream_watchers s"
proof -
  obtain rc be where p: "mvcc_persist_put L s key (put_gen s key val lease) (ms_main_rev s + 1) = (rc, s\<lparr>ms_backend := be\<rparr>)"
    using persist_backend_only(1) by blast
  show ?thesis
  proof (cases "rc = CETCD_OK")
    case False
    then have "cetcd_mvcc_put L s key val lease = (zero_rev, s\<lparr>ms_backend := be\<rparr>)"
      using p by (simp add: cetcd_mvcc_put_def Let_def put_gen_def)
    then show ?thesis using failed False p by blast
  next
    case True
    show ?thesis
      by (rule stored [of "snd (cetcd_mvcc_put L s key val lease)" be])
        (use p True in \<open>auto simp: cetcd_mvcc_put_def Let_def put_gen_def push_history_def entry_of_kg_def kg_put_eq split: option.splits\<close>)
  qed
qed

lemma delete_one_cases:
  obtains (absent) "delete_one L s key p f = (zero_rev, s)"
      and "cetcd_treap_get (ms_index s) key = None \<or> (\<exists>kg. cetcd_treap_get (ms_index s) key = Some kg \<and> kg_deleted kg)"
  | (failed) kg rc be where "delete_one L s key p f = (zero_rev, s\<lparr>ms_backend := be\<rparr>)" and "p"
      and "cetcd_treap_get (ms_index s) key = Some kg" and "rc \<noteq> CETCD_OK"
      and "mvcc_persist_del L s key (rev_main (case f of Some r \<Rightarrow> r | None \<Rightarrow> \<lparr>rev_main = ms_main_rev s + 1, rev_sub = 0\<rparr>))
             = (rc, s\<lparr>ms_backend := be\<rparr>)"
  | (gone) kg be s' r where "delete_one L s key p f = (r, s')"
      and "cetcd_treap_get (ms_index s) key = Some kg" and "\<not> kg_deleted kg"
      and "r = (case f of Some r \<Rightarrow> r | None \<Rightarrow> \<lparr>rev_main = ms_main_rev s + 1, rev_sub = 0\<rparr>)"
      and "(if p then mvcc_persist_del L s key (rev_main r) else (CETCD_OK, s)) = (CETCD_OK, s\<lparr>ms_backend := be\<rparr>)"
      and "ms_backend s' = be"
      and "ms_index s' = snd (snd (cetcd_treap_del (ms_index s) key))"
      and "ms_main_rev s' = max (ms_main_rev s) (rev_main r)"
      and "ms_history s' = ms_history s @ [del_entry key kg r]"
      and "ms_compacted_rev s' = ms_compacted_rev s"
      and "ms_watchers s' = ms_watchers s" and "ms_stream_watchers s' = ms_stream_watchers s"
proof -
  consider "cetcd_treap_get (ms_index s) key = None \<or> (\<exists>kg. cetcd_treap_get (ms_index s) key = Some kg \<and> kg_deleted kg)"
    | kg where "cetcd_treap_get (ms_index s) key = Some kg" "\<not> kg_deleted kg"
    by (cases "cetcd_treap_get (ms_index s) key") auto
  then show ?thesis
  proof cases
    case 1
    then show ?thesis using absent by (auto simp: delete_one_def)
  next
    case 2
    define r where "r = (case f of Some r \<Rightarrow> r | None \<Rightarrow> \<lparr>rev_main = ms_main_rev s + 1, rev_sub = 0\<rparr>)"
    obtain rc be where d: "(if p then mvcc_persist_del L s key (rev_main r) else (CETCD_OK, s)) = (rc, s\<lparr>ms_backend := be\<rparr>)"
    proof (cases p)
      case True
      then show ?thesis using that persist_backend_only(2) [of L s key "rev_main r"] by auto
    next
      case False
      then show ?thesis using that [of CETCD_OK "ms_backend s"] by simp
    qed
    show ?thesis
    proof (cases "rc = CETCD_OK")
      case False
      then have "p" using d by (auto split: if_splits)
      moreover have "delete_one L s key p f = (zero_rev, s\<lparr>ms_backend := be\<rparr>)"
        using 2 d False by (simp add: delete_one_def Let_def r_def [symmetric] del: if_split)
      ultimately show ?thesis
        using failed [of be kg rc] 2 d False by (simp add: r_def [symmetric])
    next
      case True
      define m where "m = (if rev_main r > ms_main_rev s then rev_main r else ms_main_rev s)"
      have "(if rev_main r > ms_main_rev s then s\<lparr>ms_backend := be, ms_main_rev := rev_main r\<rparr> else s\<lparr>ms_backend := be\<rparr>)
          = s\<lparr>ms_backend := be, ms_main_rev := m\<rparr>"
        by (simp add: m_def)
      then have "\<exists>kv. delete_one L s key p f =
          (r, (mvcc_notify_watchers (push_history (s\<lparr>ms_backend := be, ms_main_rev := m\<rparr>) (del_entry key kg r))
                 kv r CETCD_EVENT_DELETE (Some (kv_of_kg key kg)))\<lparr>ms_index := snd (snd (cetcd_treap_del (ms_index s) key))\<rparr>)"
        using 2 d True
        by (simp add: delete_one_def Let_def r_def [symmetric] push_history_def del_entry_def del: if_split) blast
      then obtain s' where run: "delete_one L s key p f = (r, s')"
        and s': "ms_backend s' = be" "ms_index s' = snd (snd (cetcd_treap_del (ms_index s) key))"
          "ms_main_rev s' = m" "ms_history s' = ms_history s @ [del_entry key kg r]"
          "ms_compacted_rev s' = ms_compacted_rev s"
          "ms_watchers s' = ms_watchers s" "ms_stream_watchers s' = ms_stream_watchers s"
        by (auto simp: push_history_def)
      show ?thesis
        using gone [OF run 2] d True s' by (simp add: r_def m_def max_def)
    qed
  qed
qed

section \<open>The invariant\<close>

text \<open>The newest entry of a key up to a revision.\<close>

definition newest :: "revision_entry list \<Rightarrow> int \<Rightarrow> bytes \<Rightarrow> revision_entry option" where
  "newest h rv k = find (\<lambda>e. rev_main (he_rev e) \<le> rv \<and> he_key e = k) (rev h)"

lemma newest_append [simp]:
  "newest (h @ [e]) rv k = (if rev_main (he_rev e) \<le> rv \<and> he_key e = k then Some e else newest h rv k)"
  by (simp add: newest_def)

lemma newest_Nil [simp]: "newest [] rv k = None"
  by (simp add: newest_def)

lemma get_walk_find:
  "get_walk es rv k =
     (case find (\<lambda>e. rev_main (he_rev e) \<le> rv \<and> he_key e = k) es of
        None \<Rightarrow> (CETCD_ERR_NOTFOUND, None)
      | Some e \<Rightarrow> if he_type e = CETCD_EVENT_DELETE then (CETCD_ERR_NOTFOUND, None) else (CETCD_OK, Some (kv_of_entry e)))"
proof (induction es)
  case (Cons e es)
  have "length (he_key e) = length k \<and> memcmp (he_key e) k (length k) = 0 \<longleftrightarrow> he_key e = k"
    by (auto simp: memcmp_zero_iff)
  with Cons show ?case by (auto simp: kv_of_entry_def)
qed simp

lemma mvcc_get_newest:
  assumes "rv \<noteq> 0" and "\<not> (rv > 0 \<and> ms_compacted_rev s > 0 \<and> rv < ms_compacted_rev s)"
  shows "cetcd_mvcc_get s rv k =
     (case newest (ms_history s) rv k of
        None \<Rightarrow> (CETCD_ERR_NOTFOUND, None)
      | Some e \<Rightarrow> if he_type e = CETCD_EVENT_DELETE then (CETCD_ERR_NOTFOUND, None) else (CETCD_OK, Some (kv_of_entry e)))"
  using assms by (auto simp: cetcd_mvcc_get_def get_walk_find newest_def)

fun agrees :: "int \<Rightarrow> bytes \<Rightarrow> revision_entry option \<Rightarrow> key_generation option \<Rightarrow> bool" where
  "agrees c k None None = True"
| "agrees c k None (Some kg) = (rev_main (kg_mod_rev kg) < c)"
| "agrees c k (Some e) x =
     (if he_type e = CETCD_EVENT_DELETE then x = None else \<exists>kg. x = Some kg \<and> e = entry_of_kg k kg)"

definition index_agrees :: "'e cetcd_mvcc_store \<Rightarrow> bytes \<Rightarrow> bool" where
  "index_agrees s k \<longleftrightarrow>
     agrees (ms_compacted_rev s) k (newest (ms_history s) (ms_main_rev s) k) (cetcd_treap_get (ms_index s) k)"

definition gen_ok :: "int \<Rightarrow> key_generation \<Rightarrow> bool" where
  "gen_ok m kg \<longleftrightarrow> \<not> kg_deleted kg \<and> 1 \<le> kg_version kg \<and> kg_version kg \<le> rev_main (kg_mod_rev kg) \<and>
     rev_sub (kg_create_rev kg) = 0 \<and> rev_sub (kg_mod_rev kg) = 0 \<and>
     0 < rev_main (kg_create_rev kg) \<and> rev_main (kg_create_rev kg) \<le> rev_main (kg_mod_rev kg) \<and>
     rev_main (kg_mod_rev kg) \<le> m"

definition mvcc_ok :: "'e cetcd_mvcc_store \<Rightarrow> bool" where
  "mvcc_ok s \<longleftrightarrow> treap_ok (ms_index s) \<and> 0 \<le> ms_main_rev s \<and>
     0 \<le> ms_compacted_rev s \<and> ms_compacted_rev s \<le> ms_main_rev s \<and>
     sorted_wrt (<) (map history_rev_key (ms_history s)) \<and>
     (\<forall>e \<in> set (ms_history s). 0 < rev_main (he_rev e) \<and> ms_compacted_rev s \<le> rev_main (he_rev e) \<and>
        rev_main (he_rev e) \<le> ms_main_rev s) \<and>
     (\<forall>k kg. cetcd_treap_get (ms_index s) k = Some kg \<longrightarrow> gen_ok (ms_main_rev s) kg) \<and>
     (\<forall>k. index_agrees s k)"

lemma index_agrees_backend [simp]: "index_agrees (s\<lparr>ms_backend := be\<rparr>) k = index_agrees s k"
  by (simp add: index_agrees_def)

lemma mvcc_ok_backend [simp]: "mvcc_ok (s\<lparr>ms_backend := be\<rparr>) = mvcc_ok s"
  by (simp add: mvcc_ok_def)

lemma gen_ok_mono: "gen_ok m kg \<Longrightarrow> m \<le> m' \<Longrightarrow> gen_ok m' kg"
  by (simp add: gen_ok_def)

lemma newest_Some:
  "newest h rv k = Some e \<Longrightarrow> e \<in> set h \<and> he_key e = k \<and> rev_main (he_rev e) \<le> rv"
  by (induction h rule: rev_induct) (auto split: if_splits)

lemma newest_all:
  assumes "\<forall>e \<in> set h. rev_main (he_rev e) \<le> a" and "a \<le> b"
  shows "newest h b k = newest h a k"
  unfolding newest_def by (rule find_cong) (use assms in auto)

lemma newest_filter:
  assumes "sorted_wrt (<) (map history_rev_key h)"
  shows "newest (filter (\<lambda>e. c \<le> rev_main (he_rev e)) h) rv k =
    (case newest h rv k of None \<Rightarrow> None | Some e \<Rightarrow> if c \<le> rev_main (he_rev e) then Some e else None)"
  using assms
proof (induction h rule: rev_induct)
  case (snoc x h)
  show ?case
  proof (cases "c \<le> rev_main (he_rev x)")
    case False
    have "rev_main (he_rev e) < c" if "e \<in> set h" for e
      using that snoc.prems False by (force simp: sorted_wrt_append history_rev_key_def)
    then have "filter (\<lambda>e. c \<le> rev_main (he_rev e)) h = []" by (force simp: filter_empty_conv)
    moreover have "sorted_wrt (<) (map history_rev_key h)" using snoc.prems by (simp add: sorted_wrt_append)
    ultimately show ?thesis using False snoc.IH by (auto split: option.splits)
  qed (use snoc in \<open>auto simp: sorted_wrt_append\<close>)
qed simp

text \<open>An entry appended together with the change of the index it records.\<close>

lemma mvcc_ok_append:
  assumes ok: "mvcc_ok s"
    and s': "treap_ok (ms_index s')" "ms_history s' = ms_history s @ [e]" "ms_compacted_rev s' = ms_compacted_rev s"
      "ms_main_rev s \<le> ms_main_rev s'"
    and idx: "\<And>j. cetcd_treap_get (ms_index s') j = (if j = he_key e then x else cetcd_treap_get (ms_index s) j)"
    and x: "he_type e = CETCD_EVENT_DELETE \<and> x = None \<or>
      (\<exists>kg. x = Some kg \<and> e = entry_of_kg (he_key e) kg \<and> gen_ok (ms_main_rev s') kg)"
    and e: "0 < rev_main (he_rev e)" "ms_compacted_rev s \<le> rev_main (he_rev e)" "rev_main (he_rev e) \<le> ms_main_rev s'"
      "\<And>a. a \<in> set (ms_history s) \<Longrightarrow> history_rev_key a < history_rev_key e"
  shows "mvcc_ok s'"
proof -
  have bound: "\<forall>a \<in> set (ms_history s). rev_main (he_rev a) \<le> ms_main_rev s"
    using ok by (simp add: mvcc_ok_def)
  have "index_agrees s' k" for k
  proof (cases "k = he_key e")
    case True
    from x consider "he_type e = CETCD_EVENT_DELETE" "x = None"
      | kg where "x = Some kg" "e = entry_of_kg (he_key e) kg" "he_type e = CETCD_EVENT_PUT"
      by (metis entry_of_kg_fields(3))
    then show ?thesis
      using True e by cases (auto simp: index_agrees_def s' idx)
  next
    case False
    have "index_agrees s k" using ok by (simp add: mvcc_ok_def)
    with False newest_all [OF bound s'(4), of k] show ?thesis
      by (auto simp: index_agrees_def s' idx split: option.splits)
  qed
  moreover have "gen_ok (ms_main_rev s') kg" if "cetcd_treap_get (ms_index s') k = Some kg" for k kg
    using that x ok gen_ok_mono [OF _ s'(4)] by (auto simp: idx mvcc_ok_def split: if_splits)
  ultimately show ?thesis
    using ok s' e by (auto simp: mvcc_ok_def sorted_wrt_append)
qed

text \<open>How one operation may change the history.\<close>

definition hist_ext :: "'e cetcd_mvcc_store \<Rightarrow> 'e cetcd_mvcc_store \<Rightarrow> bool" where
  "hist_ext s s' \<longleftrightarrow> ms_main_rev s \<le> ms_main_rev s' \<and> ms_compacted_rev s \<le> ms_compacted_rev s' \<and>
     (\<exists>new. ms_history s' =
         filter (\<lambda>e. ms_compacted_rev s' \<le> rev_main (he_rev e)) (ms_history s) @ new \<and>
       (\<forall>e \<in> set new. ms_main_rev s < rev_main (he_rev e)))"

lemma hist_ext_refl: "mvcc_ok s \<Longrightarrow> hist_ext s s"
  by (auto simp: hist_ext_def mvcc_ok_def intro!: exI [of _ "[]"] filter_True [symmetric])

lemma hist_ext_backend [simp]: "hist_ext s (s'\<lparr>ms_backend := be\<rparr>) = hist_ext s s'"
  by (simp add: hist_ext_def)

lemma hist_ext_append:
  assumes "mvcc_ok s" and "ms_history s' = ms_history s @ new" and "ms_compacted_rev s' = ms_compacted_rev s"
    and "ms_main_rev s \<le> ms_main_rev s'" and "\<forall>e \<in> set new. ms_main_rev s < rev_main (he_rev e)"
  shows "hist_ext s s'"
proof -
  have "filter (\<lambda>e. ms_compacted_rev s \<le> rev_main (he_rev e)) (ms_history s) = ms_history s"
    using assms(1) by (auto simp: mvcc_ok_def intro!: filter_True)
  then show ?thesis using assms by (auto simp: hist_ext_def)
qed

lemma hist_ext_trans:
  assumes "hist_ext s s'" and "hist_ext s' s''"
  shows "hist_ext s s''"
proof -
  obtain new where h': "ms_history s' = filter (\<lambda>e. ms_compacted_rev s' \<le> rev_main (he_rev e)) (ms_history s) @ new"
    "\<forall>e \<in> set new. ms_main_rev s < rev_main (he_rev e)"
    using assms(1) by (auto simp: hist_ext_def)
  obtain new' where h'': "ms_history s'' = filter (\<lambda>e. ms_compacted_rev s'' \<le> rev_main (he_rev e)) (ms_history s') @ new'"
    "\<forall>e \<in> set new'. ms_main_rev s' < rev_main (he_rev e)"
    using assms(2) by (auto simp: hist_ext_def)
  have m: "ms_main_rev s \<le> ms_main_rev s'" "ms_main_rev s' \<le> ms_main_rev s''"
    "ms_compacted_rev s \<le> ms_compacted_rev s'" "ms_compacted_rev s' \<le> ms_compacted_rev s''"
    using assms by (auto simp: hist_ext_def)
  have "filter (\<lambda>e. ms_compacted_rev s'' \<le> rev_main (he_rev e))
      (filter (\<lambda>e. ms_compacted_rev s' \<le> rev_main (he_rev e)) (ms_history s)) =
    filter (\<lambda>e. ms_compacted_rev s'' \<le> rev_main (he_rev e)) (ms_history s)"
    using m(4) by (auto intro!: filter_cong)
  then have "ms_history s'' = filter (\<lambda>e. ms_compacted_rev s'' \<le> rev_main (he_rev e)) (ms_history s)
      @ (filter (\<lambda>e. ms_compacted_rev s'' \<le> rev_main (he_rev e)) new @ new')"
    using h''(1) h'(1) by simp
  moreover have "\<forall>e \<in> set (filter (\<lambda>e. ms_compacted_rev s'' \<le> rev_main (he_rev e)) new @ new'). ms_main_rev s < rev_main (he_rev e)"
    using h'(2) h''(2) m(1) by fastforce
  ultimately show ?thesis using m unfolding hist_ext_def by (meson order_trans)
qed

section \<open>Every operation keeps the invariant\<close>

lemma mvcc_ok_new: "mvcc_ok cetcd_mvcc_store_new"
  by (simp add: mvcc_ok_def cetcd_mvcc_store_new_def index_agrees_def ti.ok_empty ti.get_empty)

lemma mvcc_ok_key:
  assumes "mvcc_ok s" and "cetcd_treap_get (ms_index s) k = Some kg"
  shows "gen_ok (ms_main_rev s) kg"
  using assms by (simp add: mvcc_ok_def)

lemma gen_ok_put:
  assumes "mvcc_ok s"
  shows "gen_ok (ms_main_rev s + 1) (put_gen s k v l)"
proof (cases "cetcd_treap_get (ms_index s) k")
  case None
  then show ?thesis using assms by (simp add: put_gen_def Let_def gen_ok_def mvcc_ok_def)
next
  case (Some kg)
  then show ?thesis using mvcc_ok_key [OF assms Some] by (simp add: put_gen_def Let_def gen_ok_def)
qed

lemma put_gen_mod [simp]: "kg_mod_rev (put_gen s k v l) = \<lparr>rev_main = ms_main_rev s + 1, rev_sub = 0\<rparr>"
  by (simp add: put_gen_def Let_def split: option.split)

lemma history_below:
  assumes "mvcc_ok s" and "ms_main_rev s < rev_main (he_rev e)" and "a \<in> set (ms_history s)"
  shows "history_rev_key a < history_rev_key e"
  using assms by (auto simp: mvcc_ok_def history_rev_key_def)

lemma mvcc_put_ok:
  assumes "mvcc_ok s" and "cetcd_mvcc_put L s k v l = (r, s')"
  shows "mvcc_ok s'" and "hist_ext s s'"
proof -
  have ok: "treap_ok (ms_index s)" "0 \<le> ms_main_rev s" "ms_compacted_rev s \<le> ms_main_rev s"
    using assms(1) by (simp_all add: mvcc_ok_def)
  have "mvcc_ok s' \<and> hist_ext s s'"
  proof (cases rule: put_ok_cases [of L s k v l])
    case (failed rc be)
    then show ?thesis using assms hist_ext_refl by auto
  next
    case (stored be t)
    have t: "s' = t" using stored(1) assms(2) by simp
    have "mvcc_ok s'"
      by (rule mvcc_ok_append [OF assms(1), of _ "entry_of_kg k (put_gen s k v l)" "Some (put_gen s k v l)"])
        (use stored(4-) ok gen_ok_put [OF assms(1), of k v l] in
          \<open>simp_all add: t ti.ok_put ti.get_put history_below [OF assms(1)]\<close>)
    moreover have "hist_ext s s'"
      by (rule hist_ext_append [OF assms(1), of _ "[entry_of_kg k (put_gen s k v l)]"]) (use stored(4-) in \<open>simp_all add: t\<close>)
    ultimately show ?thesis by simp
  qed
  then show "mvcc_ok s'" "hist_ext s s'" by simp_all
qed

lemma delete_one_ok:
  assumes "mvcc_ok s" and "delete_one L s k p f = (r, s')"
    and f: "\<And>r. f = Some r \<Longrightarrow> ms_main_rev s \<le> rev_main r \<and> 0 < rev_main r \<and>
      (\<forall>a \<in> set (ms_history s). history_rev_key a < (rev_main r, rev_sub r))"
  shows "mvcc_ok s'"
proof (cases rule: delete_one_cases [of L s k p f])
  case absent
  then show ?thesis using assms by simp
next
  case (failed kg rc be)
  then show ?thesis using assms by auto
next
  case (gone kg be t r')
  have t: "s' = t" "r' = r" using gone(1) assms(2) by simp_all
  have ok: "treap_ok (ms_index s)" "0 \<le> ms_main_rev s" "ms_compacted_rev s \<le> ms_main_rev s"
    using assms(1) by (simp_all add: mvcc_ok_def)
  have r: "ms_main_rev s \<le> rev_main r" "0 < rev_main r"
    "\<And>a. a \<in> set (ms_history s) \<Longrightarrow> history_rev_key a < (rev_main r, rev_sub r)"
    using gone(4) f ok history_below [OF assms(1), of "del_entry k kg r"]
    by (cases f; auto simp: t history_rev_key_def)+
  show ?thesis
    by (rule mvcc_ok_append [OF assms(1), of _ "del_entry k kg r" None])
      (use gone(7-) ok r in \<open>simp_all add: t ti.ok_del ti.get_del history_rev_key_def [of "del_entry k kg r"]\<close>)
qed

definition appends_at :: "int \<Rightarrow> 'e cetcd_mvcc_store \<Rightarrow> 'e cetcd_mvcc_store \<Rightarrow> bool" where
  "appends_at m s s' \<longleftrightarrow> ms_main_rev s \<le> ms_main_rev s' \<and> ms_main_rev s' \<le> max m (ms_main_rev s) \<and>
     ms_compacted_rev s' = ms_compacted_rev s \<and>
     (\<exists>new. ms_history s' = ms_history s @ new \<and> (\<forall>e \<in> set new. rev_main (he_rev e) = m))"

lemma appends_at_refl [simp]: "appends_at m s s"
  by (simp add: appends_at_def)

lemma appends_at_trans:
  assumes "appends_at m s s'" and "appends_at m s' s''"
  shows "appends_at m s s''"
proof -
  obtain a b where a: "ms_history s' = ms_history s @ a" "\<forall>e \<in> set a. rev_main (he_rev e) = m"
    and b: "ms_history s'' = ms_history s' @ b" "\<forall>e \<in> set b. rev_main (he_rev e) = m"
    using assms by (auto simp: appends_at_def)
  then have "ms_history s'' = ms_history s @ (a @ b)" "\<forall>e \<in> set (a @ b). rev_main (he_rev e) = m" by auto
  then show ?thesis using assms unfolding appends_at_def by (auto simp: max_def split: if_splits)
qed

lemma appends_at_ext:
  "mvcc_ok s \<Longrightarrow> appends_at m s s' \<Longrightarrow> ms_main_rev s < m \<Longrightarrow> hist_ext s s'"
  by (auto simp: appends_at_def intro: hist_ext_append)

lemma delete_one_appends:
  assumes "delete_one L s k p f = (r, s')"
    and "m = rev_main (case f of Some r \<Rightarrow> r | None \<Rightarrow> \<lparr>rev_main = ms_main_rev s + 1, rev_sub = 0\<rparr>)"
  shows "appends_at m s s'" and "\<exists>new. ms_history s' = ms_history s @ new \<and> (\<forall>e \<in> set new. he_rev e =
    (case f of Some r \<Rightarrow> r | None \<Rightarrow> \<lparr>rev_main = ms_main_rev s + 1, rev_sub = 0\<rparr>))"
proof -
  have "appends_at m s s' \<and> (\<exists>new. ms_history s' = ms_history s @ new \<and> (\<forall>e \<in> set new. he_rev e =
    (case f of Some r \<Rightarrow> r | None \<Rightarrow> \<lparr>rev_main = ms_main_rev s + 1, rev_sub = 0\<rparr>)))"
  proof (cases rule: delete_one_cases [of L s k p f])
    case absent
    then show ?thesis using assms by auto
  next
    case (failed kg rc be)
    then show ?thesis using assms by (auto simp: appends_at_def)
  next
    case (gone kg be t r')
    then have "s' = t" "r' = r" using assms(1) by simp_all
    then show ?thesis using gone(4,8-10) assms(2) by (auto simp: appends_at_def)
  qed
  then show "appends_at m s s'" "\<exists>new. ms_history s' = ms_history s @ new \<and> (\<forall>e \<in> set new. he_rev e =
    (case f of Some r \<Rightarrow> r | None \<Rightarrow> \<lparr>rev_main = ms_main_rev s + 1, rev_sub = 0\<rparr>))" by simp_all
qed

lemma delete_keys_loop_ok:
  assumes "mvcc_ok s" and "ms_main_rev s \<le> m" and "0 < m"
    and "\<forall>a \<in> set (ms_history s). history_rev_key a < (m, i)"
    and "delete_keys_loop L ks m i l s = (r, s')"
  shows "mvcc_ok s' \<and> appends_at m s s'"
  using assms
proof (induction L ks m i l s arbitrary: r s' rule: delete_keys_loop.induct)
  case (2 L k ks m i l s)
  let ?f = "Some \<lparr>rev_main = m, rev_sub = i\<rparr>"
  obtain r1 s1 where s1: "delete_one L s k False ?f = (r1, s1)" by (cases "delete_one L s k False ?f")
  have ok1: "mvcc_ok s1"
    by (rule delete_one_ok [OF 2(2) s1]) (use 2(3-5) in auto)
  have app: "appends_at m s s1" by (rule delete_one_appends(1) [OF s1]) simp
  obtain new where new: "ms_history s1 = ms_history s @ new" "\<forall>e \<in> set new. he_rev e = \<lparr>rev_main = m, rev_sub = i\<rparr>"
    using delete_one_appends(2) [OF s1 refl] by auto
  have "history_rev_key a < (m, i + 1)" if "a \<in> set (ms_history s1)" for a
    using that new 2(5) by (force simp: history_rev_key_def)
  moreover have "ms_main_rev s1 \<le> m" using app 2(3) by (simp add: appends_at_def)
  moreover have "delete_keys_loop L ks m (i + 1) r1 s1 = (r, s')" using 2(6) s1 by simp
  ultimately have "mvcc_ok s' \<and> appends_at m s1 s'" using 2(1) [OF s1 [symmetric] ok1] 2(4) by simp
  with app show ?case using appends_at_trans by blast
qed simp

lemma mvcc_delete_ok:
  assumes "mvcc_ok s" and "cetcd_mvcc_delete L s k = (r, s')"
  shows "mvcc_ok s'" and "hist_ext s s'"
proof -
  have d: "delete_one L s k True None = (r, s')" using assms(2) by (simp add: cetcd_mvcc_delete_def)
  show "mvcc_ok s'" by (rule delete_one_ok [OF assms(1) d]) simp
  show "hist_ext s s'"
    by (rule appends_at_ext [OF assms(1) delete_one_appends(1) [OF d refl]]) simp
qed

lemma backend_same: "\<exists>be. s = s\<lparr>ms_backend := be\<rparr>"
  by (rule exI [of _ "ms_backend s"]) simp

lemma delete_keys_cases:
  assumes "cetcd_mvcc_delete_keys L s ks = (r, s')"
  shows "(\<exists>be. s' = s\<lparr>ms_backend := be\<rparr>) \<or>
    (\<exists>be l. delete_keys_loop L (filter (live_key s) ks) (ms_main_rev s + 1) 0 l (s\<lparr>ms_backend := be\<rparr>) = (r, s'))"
proof (cases "ms_backend s")
  case None
  then have "s = s\<lparr>ms_backend := None\<rparr>" by simp
  then have "delete_keys_loop L (filter (live_key s) ks) (ms_main_rev s + 1) 0 l s = (r, s') \<Longrightarrow>
      delete_keys_loop L (filter (live_key s) ks) (ms_main_rev s + 1) 0 l (s\<lparr>ms_backend := None\<rparr>) = (r, s')" for l
    by simp
  with assms None backend_same [of s] show ?thesis
    by (fastforce simp: cetcd_mvcc_delete_keys_def Let_def split: if_splits)
next
  case (Some be)
  with assms backend_same [of s] show ?thesis
    by (fastforce simp: cetcd_mvcc_delete_keys_def Let_def split: if_splits prod.splits)
qed

lemma mvcc_delete_keys_ok:
  assumes "mvcc_ok s" and "cetcd_mvcc_delete_keys L s ks = (r, s')"
  shows "mvcc_ok s'" and "hist_ext s s'"
proof -
  let ?m = "ms_main_rev s + 1" and ?ks = "filter (live_key s) ks"
  have "mvcc_ok s' \<and> hist_ext s s'"
  proof (cases "\<exists>be l. delete_keys_loop L ?ks ?m 0 l (s\<lparr>ms_backend := be\<rparr>) = (r, s')")
    case True
    then obtain be l where loop: "delete_keys_loop L ?ks ?m 0 l (s\<lparr>ms_backend := be\<rparr>) = (r, s')" by blast
    have "mvcc_ok s' \<and> appends_at ?m (s\<lparr>ms_backend := be\<rparr>) s'"
      by (rule delete_keys_loop_ok [OF _ _ _ _ loop])
        (use assms(1) in \<open>auto simp: mvcc_ok_def history_rev_key_def\<close>)
    moreover from this have "hist_ext (s\<lparr>ms_backend := be\<rparr>) s'"
      using assms(1) by (intro appends_at_ext [of _ ?m]) auto
    ultimately show ?thesis by (simp add: hist_ext_def)
  next
    case False
    then have "\<exists>be. s' = s\<lparr>ms_backend := be\<rparr>" using delete_keys_cases [OF assms(2)] by blast
    then obtain be where "s' = s\<lparr>ms_backend := be\<rparr>" by blast
    then show ?thesis using assms(1) hist_ext_refl by auto
  qed
  then show "mvcc_ok s'" "hist_ext s s'" by simp_all
qed

lemma compact_cases:
  assumes "cetcd_mvcc_compact L s c = (rc, s')"
  obtains (refused) be where "s' = s\<lparr>ms_backend := be\<rparr>" "rc \<noteq> CETCD_OK"
  | (trimmed) be where "rc = CETCD_OK" "0 < c" "c \<le> ms_main_rev s" "0 < ms_compacted_rev s \<longrightarrow> ms_compacted_rev s < c"
      "s' = s\<lparr>ms_backend := be, ms_history := filter (\<lambda>e. rev_main (he_rev e) \<ge> c) (ms_history s), ms_compacted_rev := c\<rparr>"
proof -
  let ?p = "case ms_backend s of
                None \<Rightarrow> (CETCD_OK, s)
              | Some be \<Rightarrow>
                  (case cetcd_backend_put L be MVCC_BUCKET_META MVCC_META_COMPACTED
                          (write_le64 (word_of_int c)) of
                     (rc, be) \<Rightarrow> (rc, s\<lparr>ms_backend := Some be\<rparr>))"
  have "\<exists>rc0 be. ?p = (rc0, s\<lparr>ms_backend := be\<rparr>)"
    using backend_same [of s] by (auto split: option.splits prod.splits)
  then obtain rc0 be where p: "?p = (rc0, s\<lparr>ms_backend := be\<rparr>)" by blast
  show ?thesis
  proof (cases "c \<le> 0 \<or> c > ms_main_rev s \<or> ms_compacted_rev s > 0 \<and> c \<le> ms_compacted_rev s")
    case True
    then have "s' = s" "rc \<noteq> CETCD_OK" using assms by (auto simp: cetcd_mvcc_compact_def split: if_splits)
    then show ?thesis using refused [of "ms_backend s"] by simp
  next
    case False
    then have run: "(if rc0 \<noteq> CETCD_OK then (CETCD_ERR_IO, s\<lparr>ms_backend := be\<rparr>)
      else (CETCD_OK, s\<lparr>ms_backend := be, ms_history := filter (\<lambda>e. rev_main (he_rev e) \<ge> c) (ms_history s), ms_compacted_rev := c\<rparr>))
        = (rc, s')"
      using assms p unfolding cetcd_mvcc_compact_def by (simp only: p prod.case if_False) (simp split: if_splits)
    show ?thesis
    proof (cases "rc0 = CETCD_OK")
      case True
      with run False show ?thesis by (intro trimmed [of be]) auto
    next
      case False
      with run show ?thesis by (intro refused [of be]) auto
    qed
  qed
qed

lemma mvcc_compact_ok:
  assumes "mvcc_ok s" and "cetcd_mvcc_compact L s c = (rc, s')"
  shows "mvcc_ok s'" and "hist_ext s s'"
proof -
  from assms(2) have "mvcc_ok s' \<and> hist_ext s s'"
  proof (cases rule: compact_cases)
    case (refused be)
    then show ?thesis using assms(1) hist_ext_refl by simp
  next
    case (trimmed be)
    have c: "ms_compacted_rev s < c" using trimmed assms(1) by (auto simp: mvcc_ok_def)
    have srt: "sorted_wrt (<) (map history_rev_key (ms_history s))" using assms(1) by (simp add: mvcc_ok_def)
    have "index_agrees s' k" for k
    proof -
      have "index_agrees s k" using assms(1) by (simp add: mvcc_ok_def)
      with c show ?thesis
        unfolding index_agrees_def trimmed(5)
        by (cases "newest (ms_history s) (ms_main_rev s) k"; cases "cetcd_treap_get (ms_index s) k")
          (auto simp: newest_filter [OF srt] split: if_splits)
    qed
    moreover have "sorted_wrt (<) (map history_rev_key (filter (\<lambda>e. rev_main (he_rev e) \<ge> c) (ms_history s)))"
      using srt by (simp add: sorted_wrt_map sorted_wrt_filter)
    ultimately have "mvcc_ok s'" using assms(1) trimmed by (auto simp: mvcc_ok_def)
    moreover have "hist_ext s s'" using c by (simp add: hist_ext_def trimmed(5))
    ultimately show ?thesis by simp
  qed
  then show "mvcc_ok s'" "hist_ext s s'" by simp_all
qed

lemma mvcc_advance_ok:
  assumes "mvcc_ok s" and "cetcd_mvcc_advance_revision L s m = (rc, s')"
  shows "mvcc_ok s'" and "hist_ext s s'"
proof -
  have "\<exists>be m'. s' = s\<lparr>ms_backend := be, ms_main_rev := m'\<rparr> \<and> ms_main_rev s \<le> m'"
  proof -
    have same: "\<exists>be' m'. s\<lparr>ms_backend := be\<rparr> = s\<lparr>ms_backend := be', ms_main_rev := m'\<rparr> \<and> ms_main_rev s \<le> m'" for be
      by (rule exI [of _ be], rule exI [of _ "ms_main_rev s"]) simp
    have "\<exists>be' m'. s = s\<lparr>ms_backend := be', ms_main_rev := m'\<rparr> \<and> ms_main_rev s \<le> m'"
      using same [of "ms_backend s"] by simp
    moreover have "\<exists>be' m'. s\<lparr>ms_main_rev := n\<rparr> = s\<lparr>ms_backend := be', ms_main_rev := m'\<rparr> \<and> ms_main_rev s \<le> m'"
      if "ms_main_rev s \<le> n" for n
      using that by (intro exI [of _ "ms_backend s"] exI [of _ n]) simp
    moreover have "\<exists>be' m'. s\<lparr>ms_backend := be, ms_main_rev := n\<rparr> = s\<lparr>ms_backend := be', ms_main_rev := m'\<rparr> \<and> ms_main_rev s \<le> m'"
      if "ms_main_rev s \<le> n" for be n
      using that by blast
    ultimately show ?thesis
      using assms(2) same by (auto simp: cetcd_mvcc_advance_revision_def split: if_splits option.splits prod.splits)
  qed
  then obtain be m' where s': "s' = s\<lparr>ms_backend := be, ms_main_rev := m'\<rparr>" and m': "ms_main_rev s \<le> m'" by blast
  have bound: "\<forall>a \<in> set (ms_history s). rev_main (he_rev a) \<le> ms_main_rev s"
    using assms(1) by (simp add: mvcc_ok_def)
  have "index_agrees s' k" for k
    using assms(1) newest_all [OF bound m'] by (simp add: s' mvcc_ok_def index_agrees_def)
  moreover have "gen_ok m' kg" if "cetcd_treap_get (ms_index s) k = Some kg" for k kg
    using mvcc_ok_key [OF assms(1) that] m' by (rule gen_ok_mono)
  ultimately show "mvcc_ok s'" using assms(1) m' by (auto simp: s' mvcc_ok_def)
  show "hist_ext s s'"
    by (rule hist_ext_append [OF assms(1), of _ "[]"]) (use m' in \<open>simp_all add: s'\<close>)
qed

section \<open>Runs\<close>

datatype mvcc_op =
    MPut bytes bytes int
  | MDelete bytes
  | MDeleteKeys "bytes list"
  | MCompact int
  | MAdvance int

fun mvcc_apply :: "('e, 't) lmdb \<Rightarrow> mvcc_op \<Rightarrow> 'e cetcd_mvcc_store \<Rightarrow> 'e cetcd_mvcc_store" where
  "mvcc_apply L (MPut k v l) s = snd (cetcd_mvcc_put L s k v l)"
| "mvcc_apply L (MDelete k) s = snd (cetcd_mvcc_delete L s k)"
| "mvcc_apply L (MDeleteKeys ks) s = snd (cetcd_mvcc_delete_keys L s ks)"
| "mvcc_apply L (MCompact c) s = snd (cetcd_mvcc_compact L s c)"
| "mvcc_apply L (MAdvance m) s = snd (cetcd_mvcc_advance_revision L s m)"

definition mvcc_run :: "('e, 't) lmdb \<Rightarrow> 'e option \<Rightarrow> mvcc_op list \<Rightarrow> 'e cetcd_mvcc_store" where
  "mvcc_run L be ops = fold (mvcc_apply L) ops (cetcd_mvcc_set_backend cetcd_mvcc_store_new be)"

lemma mvcc_apply_ok:
  assumes "mvcc_ok s"
  shows "mvcc_ok (mvcc_apply L op s)" and "hist_ext s (mvcc_apply L op s)"
proof -
  have "mvcc_ok (mvcc_apply L op s) \<and> hist_ext s (mvcc_apply L op s)"
    by (cases op)
      (simp_all add: mvcc_put_ok [OF assms prod.collapse [symmetric]] mvcc_delete_ok [OF assms prod.collapse [symmetric]]
        mvcc_delete_keys_ok [OF assms prod.collapse [symmetric]] mvcc_compact_ok [OF assms prod.collapse [symmetric]]
        mvcc_advance_ok [OF assms prod.collapse [symmetric]])
  then show "mvcc_ok (mvcc_apply L op s)" "hist_ext s (mvcc_apply L op s)" by simp_all
qed

lemma mvcc_fold_ok:
  assumes "mvcc_ok s"
  shows "mvcc_ok (fold (mvcc_apply L) ops s) \<and> hist_ext s (fold (mvcc_apply L) ops s)"
proof (induction ops rule: rev_induct)
  case Nil
  then show ?case using assms hist_ext_refl by simp
next
  case (snoc op ops)
  then have "mvcc_ok (fold (mvcc_apply L) ops s)" "hist_ext s (fold (mvcc_apply L) ops s)" by simp_all
  with mvcc_apply_ok [OF this(1), of L op] show ?case by (auto intro: hist_ext_trans)
qed

lemma mvcc_run_ok: "mvcc_ok (mvcc_run L be ops)"
  unfolding mvcc_run_def by (rule mvcc_fold_ok [THEN conjunct1]) (simp add: cetcd_mvcc_set_backend_def mvcc_ok_new)

lemma mvcc_run_append: "mvcc_run L be (ops @ ops') = fold (mvcc_apply L) ops' (mvcc_run L be ops)"
  by (simp add: mvcc_run_def)

section \<open>Reads\<close>

lemma get_current:
  assumes "mvcc_ok s"
  shows "cetcd_mvcc_get s 0 k =
    (case cetcd_treap_get (ms_index s) k of
       None \<Rightarrow> (CETCD_ERR_NOTFOUND, None) | Some kg \<Rightarrow> (CETCD_OK, Some (kv_of_kg k kg)))"
  using mvcc_ok_key [OF assms] by (auto simp: cetcd_mvcc_get_def gen_ok_def split: option.split)

lemma get_past:
  assumes "rv \<noteq> 0" and "ms_compacted_rev s \<le> rv"
  shows "cetcd_mvcc_get s rv k =
     (case newest (ms_history s) rv k of
        None \<Rightarrow> (CETCD_ERR_NOTFOUND, None)
      | Some e \<Rightarrow> if he_type e = CETCD_EVENT_DELETE then (CETCD_ERR_NOTFOUND, None) else (CETCD_OK, Some (kv_of_entry e)))"
  by (rule mvcc_get_newest) (use assms in auto)

lemma kv_of_kg_fields [simp]:
  "kv_key (kv_of_kg k kg) = k" "kv_value (kv_of_kg k kg) = kg_value kg" "kv_mod_rev (kv_of_kg k kg) = kg_mod_rev kg"
  "kv_create_rev (kv_of_kg k kg) = kg_create_rev kg" "kv_version (kv_of_kg k kg) = kg_version kg"
  "kv_lease_id (kv_of_kg k kg) = kg_lease_id kg"
  by (simp_all add: kv_of_kg_def)

lemma newest_ignore: "\<forall>e \<in> set new. rv < rev_main (he_rev e) \<Longrightarrow> newest (h @ new) rv k = newest h rv k"
  by (induction new rule: rev_induct) (auto simp flip: append_assoc)

lemma newest_ext:
  assumes "mvcc_ok s" and "hist_ext s s'"
  shows "newest (ms_history s') (ms_main_rev s) k =
    (case newest (ms_history s) (ms_main_rev s) k of
       None \<Rightarrow> None | Some e \<Rightarrow> if ms_compacted_rev s' \<le> rev_main (he_rev e) then Some e else None)"
proof -
  obtain new where "ms_history s' = filter (\<lambda>e. ms_compacted_rev s' \<le> rev_main (he_rev e)) (ms_history s) @ new"
    "\<forall>e \<in> set new. ms_main_rev s < rev_main (he_rev e)"
    using assms(2) by (auto simp: hist_ext_def)
  moreover have "sorted_wrt (<) (map history_rev_key (ms_history s))" using assms(1) by (simp add: mvcc_ok_def)
  ultimately show ?thesis by (simp add: newest_ignore newest_filter)
qed

lemma read_then:
  assumes ok: "mvcc_ok s" and ext: "hist_ext s s'" and "0 < ms_main_rev s" and "ms_compacted_rev s' \<le> ms_main_rev s"
    and kept: "\<And>kv. cetcd_mvcc_get s 0 k = (CETCD_OK, Some kv) \<Longrightarrow> ms_compacted_rev s' \<le> rev_main (kv_mod_rev kv)"
  shows "cetcd_mvcc_get s' (ms_main_rev s) k = cetcd_mvcc_get s 0 k"
proof -
  have a: "agrees (ms_compacted_rev s) k (newest (ms_history s) (ms_main_rev s) k) (cetcd_treap_get (ms_index s) k)"
    using ok by (simp add: mvcc_ok_def index_agrees_def)
  have c: "ms_compacted_rev s \<le> ms_compacted_rev s'" using ext by (simp add: hist_ext_def)
  have past: "cetcd_mvcc_get s' (ms_main_rev s) k =
     (case newest (ms_history s') (ms_main_rev s) k of
        None \<Rightarrow> (CETCD_ERR_NOTFOUND, None)
      | Some e \<Rightarrow> if he_type e = CETCD_EVENT_DELETE then (CETCD_ERR_NOTFOUND, None) else (CETCD_OK, Some (kv_of_entry e)))"
    by (rule get_past) (use assms in auto)
  show ?thesis
    using a c kept unfolding past newest_ext [OF ok ext] get_current [OF ok]
    by (cases "newest (ms_history s) (ms_main_rev s) k"; cases "cetcd_treap_get (ms_index s) k")
      (auto split: if_splits)
qed

section \<open>Properties\<close>

text \<open>
  C18. After any sequence of writes, batch deletes, compactions and revision advances on a
  fresh store, whatever the results of the backend, the store is well formed: the index is
  an ordered heap, the history is strictly ordered by revision and lies between the
  compacted and the current revision, and the newest entry of a key in the history is the
  generation the index holds, or a deletion when it holds none. The current revision never
  decreases along the way.
\<close>

theorem mvcc_invariant:
  "mvcc_ok (mvcc_run L be ops) \<and>
   ms_main_rev (mvcc_run L be ops) \<le> ms_main_rev (mvcc_run L be (ops @ ops'))"
  using mvcc_run_ok [of L be ops] mvcc_fold_ok [OF mvcc_run_ok, of L ops' L be ops]
  by (simp add: mvcc_run_append hist_ext_def)

text \<open>
  C19. A put that returns a revision is visible at once and at that revision: both reads
  give the new value with its lease, the version one more than before (one for a new key)
  and the creation revision kept (the new revision for a new key). No other key changes.
\<close>

theorem mvcc_put_read:
  assumes "s = mvcc_run L be ops" and "cetcd_mvcc_put L s k v l = (r, s')" and "r \<noteq> zero_rev"
  shows "r = \<lparr>rev_main = ms_main_rev s + 1, rev_sub = 0\<rparr> \<and>
    cetcd_mvcc_get s' 0 k = (CETCD_OK, Some
      \<lparr>kv_key = k, kv_value = v,
       kv_create_rev = (case snd (cetcd_mvcc_get s 0 k) of None \<Rightarrow> r | Some kv \<Rightarrow> kv_create_rev kv),
       kv_mod_rev = r,
       kv_version = (case snd (cetcd_mvcc_get s 0 k) of None \<Rightarrow> 1 | Some kv \<Rightarrow> kv_version kv + 1),
       kv_lease_id = l\<rparr>) \<and>
    cetcd_mvcc_get s' (rev_main r) k = cetcd_mvcc_get s' 0 k \<and>
    (\<forall>j. j \<noteq> k \<longrightarrow> cetcd_mvcc_get s' 0 j = cetcd_mvcc_get s 0 j)"
proof -
  have ok: "mvcc_ok s" using mvcc_run_ok assms(1) by simp
  show ?thesis
  proof (cases rule: put_ok_cases [of L s k v l])
    case (failed rc be)
    then show ?thesis using assms(2,3) by simp
  next
    case (stored be t)
    have t: "s' = t" "r = \<lparr>rev_main = ms_main_rev s + 1, rev_sub = 0\<rparr>" using stored(1) assms(2) by simp_all
    have ok': "mvcc_ok s'" by (rule mvcc_put_ok(1) [OF ok assms(2)])
    have idx: "cetcd_treap_get (ms_index s') j = (if j = k then Some (put_gen s k v l) else cetcd_treap_get (ms_index s) j)" for j
      using ok stored(4) by (simp add: t ti.get_put mvcc_ok_def)
    have r: "rev_main r = ms_main_rev s'" "0 < ms_main_rev s'" "ms_compacted_rev s' \<le> ms_main_rev s'"
      using ok ok' stored(5) by (simp_all add: t mvcc_ok_def)
    have cur: "cetcd_mvcc_get s' 0 k = (CETCD_OK, Some (kv_of_kg k (put_gen s k v l)))"
      by (simp add: get_current [OF ok'] idx)
    have "cetcd_mvcc_get s' (ms_main_rev s') k = cetcd_mvcc_get s' 0 k"
      by (rule read_then [OF ok' hist_ext_refl [OF ok'] r(2,3)]) (use r t(2) cur in auto)
    moreover have "kv_of_kg k (put_gen s k v l) =
      \<lparr>kv_key = k, kv_value = v,
       kv_create_rev = (case snd (cetcd_mvcc_get s 0 k) of None \<Rightarrow> r | Some kv \<Rightarrow> kv_create_rev kv),
       kv_mod_rev = r,
       kv_version = (case snd (cetcd_mvcc_get s 0 k) of None \<Rightarrow> 1 | Some kv \<Rightarrow> kv_version kv + 1),
       kv_lease_id = l\<rparr>"
      by (simp add: get_current [OF ok] kv_of_kg_def put_gen_def Let_def t(2) split: option.split)
    ultimately show ?thesis
      by (simp add: get_current [OF ok] get_current [OF ok'] idx r(1)) (simp add: t(2) r(1) [symmetric])
  qed
qed

theorem mvcc_put_read_witness:
  "cetcd_mvcc_get (snd (cetcd_mvcc_put mem_lmdb (mvcc_run mem_lmdb None [MPut [7] [1] 0]) [7] [2] 5)) 2 [7] =
     (CETCD_OK, Some
       \<lparr>kv_key = [7], kv_value = [2], kv_create_rev = \<lparr>rev_main = 1, rev_sub = 0\<rparr>,
        kv_mod_rev = \<lparr>rev_main = 2, rev_sub = 0\<rparr>, kv_version = 2, kv_lease_id = 5\<rparr>)"
proof -
  let ?s = "mvcc_run mem_lmdb None [MPut [7] [1] 0]"
  have r: "fst (cetcd_mvcc_put mem_lmdb ?s [7] [2] 5) = \<lparr>rev_main = 2, rev_sub = 0\<rparr>" by code_simp
  have g: "snd (cetcd_mvcc_get ?s 0 [7]) = Some
      \<lparr>kv_key = [7], kv_value = [1], kv_create_rev = \<lparr>rev_main = 1, rev_sub = 0\<rparr>,
        kv_mod_rev = \<lparr>rev_main = 1, rev_sub = 0\<rparr>, kv_version = 1, kv_lease_id = 0\<rparr>" by code_simp
  have "fst (cetcd_mvcc_put mem_lmdb ?s [7] [2] 5) \<noteq> zero_rev" by (simp add: r zero_rev_def)
  from mvcc_put_read [OF refl prod.collapse [symmetric] this] show ?thesis
    by (simp add: r g)
qed

text \<open>
  C20. A read at a past revision returns what a current read returned when the store was at
  that revision, whatever writes, deletes and compactions came after, as long as neither
  the revision nor the version of the key has been compacted away.
\<close>

theorem mvcc_past_read:
  assumes "s = mvcc_run L be ops" and "s' = mvcc_run L be (ops @ ops')"
    and "0 < ms_main_rev s" and "ms_compacted_rev s' \<le> ms_main_rev s"
    and "\<And>kv. snd (cetcd_mvcc_get s 0 k) = Some kv \<Longrightarrow> ms_compacted_rev s' \<le> rev_main (kv_mod_rev kv)"
  shows "cetcd_mvcc_get s' (ms_main_rev s) k = cetcd_mvcc_get s 0 k"
proof -
  have ok: "mvcc_ok s" using assms(1) mvcc_run_ok by simp
  have "hist_ext s s'" using mvcc_fold_ok [OF ok, of L ops'] assms(1,2) by (simp add: mvcc_run_append)
  then show ?thesis using assms(3-) by (intro read_then [OF ok]) auto
qed

theorem mvcc_past_read_witness:
  "cetcd_mvcc_get (mvcc_run mem_lmdb None ([MPut [7] [1] 0] @ [MPut [7] [2] 0, MDelete [7]])) 1 [7] =
     (CETCD_OK, Some
       \<lparr>kv_key = [7], kv_value = [1], kv_create_rev = \<lparr>rev_main = 1, rev_sub = 0\<rparr>,
        kv_mod_rev = \<lparr>rev_main = 1, rev_sub = 0\<rparr>, kv_version = 1, kv_lease_id = 0\<rparr>)"
proof -
  let ?s = "mvcc_run mem_lmdb None [MPut [7] [1] 0]"
    and ?t = "mvcc_run mem_lmdb None ([MPut [7] [1] 0] @ [MPut [7] [2] 0, MDelete [7]])"
  have r: "ms_main_rev ?s = 1" "ms_compacted_rev ?t = 0" by code_simp+
  have g: "cetcd_mvcc_get ?s 0 [7] = (CETCD_OK, Some
      \<lparr>kv_key = [7], kv_value = [1], kv_create_rev = \<lparr>rev_main = 1, rev_sub = 0\<rparr>,
        kv_mod_rev = \<lparr>rev_main = 1, rev_sub = 0\<rparr>, kv_version = 1, kv_lease_id = 0\<rparr>)" by code_simp
  have "cetcd_mvcc_get ?t (ms_main_rev ?s) [7] = cetcd_mvcc_get ?s 0 [7]"
    by (rule mvcc_past_read [OF refl refl]) (use r g in auto)
  then show ?thesis using r g by simp
qed

text \<open>
  C25. Compaction drops the last version of every key that was last written before the
  compacted revision, although the key is alive: a current read still returns it, and a
  read at the compacted revision, or at any later one, reports that the key does not
  exist. The interface promises that the compacted revision remains readable.
\<close>

theorem compact_hides_live_key:
  assumes "s = mvcc_run L be ops" and "cetcd_mvcc_compact L s c = (CETCD_OK, s')"
    and "cetcd_mvcc_get s 0 k = (CETCD_OK, Some kv)" and "rev_main (kv_mod_rev kv) < c" and "c \<le> rv"
  shows "cetcd_mvcc_get s' 0 k = (CETCD_OK, Some kv) \<and> cetcd_mvcc_get s' rv k = (CETCD_ERR_NOTFOUND, None)"
proof -
  have ok: "mvcc_ok s" using assms(1) mvcc_run_ok by simp
  have ok': "mvcc_ok s'" by (rule mvcc_compact_ok(1) [OF ok assms(2)])
  from assms(2) obtain be where c: "0 < c" "c \<le> ms_main_rev s"
      and s': "s' = s\<lparr>ms_backend := be, ms_history := filter (\<lambda>e. rev_main (he_rev e) \<ge> c) (ms_history s), ms_compacted_rev := c\<rparr>"
    by (cases rule: compact_cases) auto
  obtain kg where kg: "cetcd_treap_get (ms_index s) k = Some kg" "kv = kv_of_kg k kg"
    using assms(3) by (auto simp: get_current [OF ok] split: option.splits)
  have bound: "\<forall>a \<in> set (ms_history s'). rev_main (he_rev a) \<le> ms_main_rev s'"
    using ok' by (simp add: mvcc_ok_def)
  have "newest (ms_history s') (ms_main_rev s') k = None"
  proof (rule ccontr)
    assume "newest (ms_history s') (ms_main_rev s') k \<noteq> None"
    then obtain e where e: "newest (ms_history s') (ms_main_rev s') k = Some e" by blast
    have "index_agrees s' k" using ok' by (simp add: mvcc_ok_def)
    then have "agrees c k (Some e) (Some kg)"
      using e kg(1) by (simp add: index_agrees_def s')
    moreover have "e \<in> set (ms_history s')" using newest_Some [OF e] by simp
    ultimately show False using assms(4) kg(2) by (auto simp: s' split: if_splits)
  qed
  then have "he_key e \<noteq> k" if "e \<in> set (ms_history s')" for e
    using that bound by (auto simp: newest_def find_None_iff)
  then have "newest (ms_history s') rv k = None" by (auto simp: newest_def find_None_iff)
  then have "cetcd_mvcc_get s' rv k = (CETCD_ERR_NOTFOUND, None)"
    using assms(5) c(1) get_past [of rv s' k] by (simp add: s')
  moreover have "cetcd_mvcc_get s' 0 k = (CETCD_OK, Some kv)"
    using kg by (simp add: get_current [OF ok']) (simp add: s')
  ultimately show ?thesis by simp
qed

theorem compact_hides_live_key_witness:
  "cetcd_mvcc_get (snd (cetcd_mvcc_compact mem_lmdb (mvcc_run mem_lmdb None [MPut [7] [1] 0, MPut [8] [2] 0]) 2)) 2 [7] =
     (CETCD_ERR_NOTFOUND, None)"
proof -
  let ?s = "mvcc_run mem_lmdb None [MPut [7] [1] 0, MPut [8] [2] 0]"
  have "fst (cetcd_mvcc_compact mem_lmdb ?s 2) = CETCD_OK" by code_simp
  then have c: "cetcd_mvcc_compact mem_lmdb ?s 2 = (CETCD_OK, snd (cetcd_mvcc_compact mem_lmdb ?s 2))"
    by (simp add: prod_eq_iff)
  have g: "cetcd_mvcc_get ?s 0 [7] = (CETCD_OK, Some
      \<lparr>kv_key = [7], kv_value = [1], kv_create_rev = \<lparr>rev_main = 1, rev_sub = 0\<rparr>,
        kv_mod_rev = \<lparr>rev_main = 1, rev_sub = 0\<rparr>, kv_version = 1, kv_lease_id = 0\<rparr>)" by code_simp
  show ?thesis using compact_hides_live_key [OF refl c g, of 2] by simp
qed

end
