(* ===== verification/Mvcc_Watch.thy ===== *)
theory Mvcc_Watch
  imports Mvcc_Store
begin

text \<open>
  Streaming watches: the events a watcher is sent while the store runs are the events a
  replay of the history produces, so replay followed by live notification delivers every
  event from the start revision on, once and in order.
\<close>

section \<open>Events of a history\<close>

definition sees :: "cetcd_stream_watcher \<Rightarrow> revision_entry \<Rightarrow> bool" where
  "sees w e \<longleftrightarrow> \<not> (sw_start_rev w > 0 \<and> rev_main (he_rev e) < sw_start_rev w) \<and> stream_watch_match w (he_key e)"

definition replay_event :: "cetcd_stream_watcher \<Rightarrow> revision_entry list \<Rightarrow> revision_entry \<Rightarrow> cetcd_watch_event" where
  "replay_event w older e =
     \<lparr>ev_type = he_type e,
      ev_kv = (kv_of_entry e)\<lparr>kv_value := (if he_type e = CETCD_EVENT_PUT then he_value e else [])\<rparr>,
      ev_rev = he_rev e,
      ev_prev_kv = (if sw_want_prev_kv w then prev_walk older (he_key e) else None)\<rparr>"

text \<open>The events on channel \<open>n\<close> for the entries \<open>es\<close>, given the older entries, newest first.\<close>

fun channel_events ::
  "cetcd_stream_watcher list \<Rightarrow> nat \<Rightarrow> revision_entry list \<Rightarrow> revision_entry list \<Rightarrow> cetcd_watch_event list" where
  "channel_events ws n older [] = []"
| "channel_events ws n older (e # es) =
     map (\<lambda>w. replay_event w older e) (filter (\<lambda>w. sw_notify w = n \<and> sees w e) ws) @
     channel_events ws n (e # older) es"

lemma channel_events_append:
  "channel_events ws n older (xs @ ys) = channel_events ws n older xs @ channel_events ws n (rev xs @ older) ys"
  by (induction xs arbitrary: older) auto

lemma channel_events_none: "\<forall>w \<in> set ws. sw_notify w \<noteq> n \<Longrightarrow> channel_events ws n older es = []"
  by (induction es arbitrary: older) (auto simp: filter_empty_conv)

lemma channel_events_cong:
  "filter (\<lambda>w. sw_notify w = n) ws = filter (\<lambda>w. sw_notify w = n) ws' \<Longrightarrow>
     channel_events ws n older es = channel_events ws' n older es"
proof (induction es arbitrary: older)
  case (Cons e es)
  have "filter (\<lambda>w. sw_notify w = n \<and> sees w e) ws = filter (\<lambda>w. sw_notify w = n \<and> sees w e) ws'"
    using arg_cong [OF Cons.prems, of "filter (\<lambda>w. sees w e)"] by (simp add: conj_commute)
  with Cons show ?case by simp
qed simp

section \<open>Notification\<close>

lemma n_events_push:
  "n_events (ms_notify (notify_push s m ev wake) n) = n_events (ms_notify s n) @ (if m = n then [ev] else [])"
  by (simp add: notify_push_def Let_def)

lemma notify_streams_events:
  "n_events (ms_notify (notify_streams ws ev s) n) = n_events (ms_notify s n) @
     map (\<lambda>w. ev\<lparr>ev_prev_kv := (if sw_want_prev_kv w then ev_prev_kv ev else None)\<rparr>)
       (filter (\<lambda>w. sw_notify w = n \<and> \<not> (sw_start_rev w > 0 \<and> rev_main (ev_rev ev) < sw_start_rev w) \<and>
          stream_watch_match w (kv_key (ev_kv ev))) ws)"
  by (induction ws arbitrary: s) (auto simp: n_events_push)

lemma notify_callbacks_notify: "ms_notify (notify_callbacks ws ev s) = ms_notify s"
  by (induction ws arbitrary: s) auto

lemma mvcc_notify_events:
  "n_events (ms_notify (mvcc_notify_watchers s kv rv ty p) n) = n_events (ms_notify s n) @
     map (\<lambda>w. \<lparr>ev_type = ty, ev_kv = kv, ev_rev = rv, ev_prev_kv = (if sw_want_prev_kv w then p else None)\<rparr>)
       (filter (\<lambda>w. sw_notify w = n \<and> \<not> (sw_start_rev w > 0 \<and> rev_main rv < sw_start_rev w) \<and>
          stream_watch_match w (kv_key kv)) (ms_stream_watchers s))"
proof -
  let ?ev = "\<lparr>ev_type = ty, ev_kv = kv, ev_rev = rv, ev_prev_kv = p\<rparr>"
  have "data_same s (notify_callbacks (ms_watchers s) ?ev s)"
    by (rule notify_callbacks_same) (simp add: data_same_def)
  then have "ms_stream_watchers (notify_callbacks (ms_watchers s) ?ev s) = ms_stream_watchers s"
    by (simp add: data_same_def)
  then show ?thesis
    by (simp add: mvcc_notify_watchers_def Let_def notify_streams_events notify_callbacks_notify)
qed

text \<open>A notification that carries what a replay of the new entry would.\<close>

lemma notify_channel:
  assumes "kv = (kv_of_entry e)\<lparr>kv_value := (if he_type e = CETCD_EVENT_PUT then he_value e else [])\<rparr>"
    and "p = prev_walk older (he_key e)"
  shows "n_events (ms_notify (mvcc_notify_watchers s kv (he_rev e) (he_type e) p) n) =
    n_events (ms_notify s n) @ channel_events (ms_stream_watchers s) n older [e]"
  unfolding mvcc_notify_events
  by (simp add: assms sees_def replay_event_def kv_of_entry_def cong: filter_cong)

definition delivers :: "'e cetcd_mvcc_store \<Rightarrow> 'e cetcd_mvcc_store \<Rightarrow> bool" where
  "delivers s s' \<longleftrightarrow> ms_stream_watchers s' = ms_stream_watchers s \<and>
     (\<exists>new. ms_history s' = ms_history s @ new \<and>
       (\<forall>n. n_events (ms_notify s' n) = n_events (ms_notify s n) @
          channel_events (ms_stream_watchers s) n (rev (ms_history s)) new))"

lemma delivers_refl: "delivers s s"
  by (auto simp: delivers_def)

lemma delivers_trans: "delivers s s' \<Longrightarrow> delivers s' s'' \<Longrightarrow> delivers s s''"
  by (auto simp: delivers_def channel_events_append)

section \<open>The previous value\<close>

lemma prev_walk_newest:
  "prev_walk es k =
     (case find (\<lambda>e. he_key e = k) es of
        None \<Rightarrow> None | Some e \<Rightarrow> if he_type e = CETCD_EVENT_DELETE then None else Some (kv_of_entry e))"
proof (induction es)
  case (Cons e es)
  have "length (he_key e) \<noteq> length k \<or> memcmp (he_key e) k (length k) \<noteq> 0 \<longleftrightarrow> he_key e \<noteq> k"
    by (auto simp: memcmp_zero_iff)
  with Cons show ?case by simp
qed simp

lemma prev_walk_index:
  assumes "mvcc_ok s" and "ms_compacted_rev s = 0"
  shows "prev_walk (rev (ms_history s)) k = map_option (kv_of_kg k) (cetcd_treap_get (ms_index s) k)"
proof -
  have "find (\<lambda>e. he_key e = k) (rev (ms_history s)) = newest (ms_history s) (ms_main_rev s) k"
    unfolding newest_def by (rule find_cong) (use assms(1) in \<open>auto simp: mvcc_ok_def\<close>)
  moreover have "agrees 0 k (newest (ms_history s) (ms_main_rev s) k) (cetcd_treap_get (ms_index s) k)"
    using assms by (simp add: mvcc_ok_def index_agrees_def)
  moreover have "cetcd_treap_get (ms_index s) k = Some kg \<Longrightarrow> \<not> rev_main (kg_mod_rev kg) < 0" for kg
    using mvcc_ok_key [OF assms(1)] by (force simp: gen_ok_def)
  ultimately show ?thesis
    by (cases "newest (ms_history s) (ms_main_rev s) k"; cases "cetcd_treap_get (ms_index s) k")
      (auto simp: prev_walk_newest split: if_splits)
qed

section \<open>Operations deliver their events\<close>

lemma put_delivers:
  assumes "mvcc_ok s" and "ms_compacted_rev s = 0" and "cetcd_mvcc_put L s k v l = (r, s')"
  shows "delivers s s'"
proof -
  obtain rc be where p: "mvcc_persist_put L s k (put_gen s k v l) (ms_main_rev s + 1) = (rc, s\<lparr>ms_backend := be\<rparr>)"
    using persist_backend_only(1) by blast
  let ?kg = "put_gen s k v l" and ?r = "\<lparr>rev_main = ms_main_rev s + 1, rev_sub = 0\<rparr>"
  let ?e = "entry_of_kg k ?kg"
  let ?t = "s\<lparr>ms_backend := be, ms_main_rev := ms_main_rev s + 1, ms_index := snd (cetcd_treap_put (ms_index s) k ?kg),
    ms_history := ms_history s @ [?e]\<rparr>"
  show ?thesis
  proof (cases "rc = CETCD_OK")
    case False
    then have "s' = s\<lparr>ms_backend := be\<rparr>"
      using p assms(3) by (simp add: cetcd_mvcc_put_def Let_def put_gen_def)
    then show ?thesis by (simp add: delivers_def)
  next
    case True
    have live: "\<not> kg_deleted kg" if "cetcd_treap_get (ms_index s) k = Some kg" for kg
      using mvcc_ok_key [OF assms(1) that] by (simp add: gen_ok_def)
    have "s' = mvcc_notify_watchers ?t (kv_of_kg k ?kg) ?r CETCD_EVENT_PUT
        (map_option (kv_of_kg k) (cetcd_treap_get (ms_index s) k))"
      using p True assms(3) live
      by (auto simp: cetcd_mvcc_put_def Let_def put_gen_def push_history_def entry_of_kg_def kg_put_eq kv_of_kg_def
          split: option.splits)
    then have s': "s' = mvcc_notify_watchers ?t (kv_of_kg k ?kg) (he_rev ?e) (he_type ?e) (prev_walk (rev (ms_history s)) (he_key ?e))"
      by (simp add: prev_walk_index [OF assms(1,2)])
    have kv: "kv_of_kg k ?kg = (kv_of_entry ?e)\<lparr>kv_value := (if he_type ?e = CETCD_EVENT_PUT then he_value ?e else [])\<rparr>"
      by (simp add: kv_of_kg_def entry_of_kg_def kv_of_entry_def)
    show ?thesis
      using notify_channel [OF kv refl, where s = ?t and older = "rev (ms_history s)"] unfolding delivers_def s' by simp
  qed
qed

lemma delete_one_delivers:
  assumes "mvcc_ok s" and "ms_compacted_rev s = 0" and "delete_one L s k p f = (r, s')"
  shows "delivers s s'"
proof (cases "cetcd_treap_get (ms_index s) k")
  case None
  then show ?thesis using assms(3) by (simp add: delete_one_def delivers_refl)
next
  case (Some kg)
  have live: "\<not> kg_deleted kg" using mvcc_ok_key [OF assms(1) Some] by (simp add: gen_ok_def)
  define r0 where "r0 = (case f of Some r \<Rightarrow> r | None \<Rightarrow> \<lparr>rev_main = ms_main_rev s + 1, rev_sub = 0\<rparr>)"
  obtain rc be where d: "(if p then mvcc_persist_del L s k (rev_main r0) else (CETCD_OK, s)) = (rc, s\<lparr>ms_backend := be\<rparr>)"
  proof (cases p)
    case True
    then show ?thesis using that persist_backend_only(2) [of L s k "rev_main r0"] by auto
  next
    case False
    then show ?thesis using that [of CETCD_OK "ms_backend s"] by simp
  qed
  show ?thesis
  proof (cases "rc = CETCD_OK")
    case False
    then have "s' = s\<lparr>ms_backend := be\<rparr>"
      using assms(3) Some live d by (simp add: delete_one_def Let_def r0_def [symmetric] del: if_split)
    then show ?thesis by (simp add: delivers_def)
  next
    case True
    define m where "m = (if rev_main r0 > ms_main_rev s then rev_main r0 else ms_main_rev s)"
    let ?e = "del_entry k kg r0"
    let ?t = "s\<lparr>ms_backend := be, ms_main_rev := m, ms_history := ms_history s @ [?e]\<rparr>"
    let ?kv = "\<lparr>kv_key = k, kv_value = [], kv_create_rev = kg_create_rev kg, kv_mod_rev = r0, kv_version = 0, kv_lease_id = kg_lease_id kg\<rparr>"
    have m: "(if rev_main r0 > ms_main_rev s then s\<lparr>ms_backend := be, ms_main_rev := rev_main r0\<rparr> else s\<lparr>ms_backend := be\<rparr>)
        = s\<lparr>ms_backend := be, ms_main_rev := m\<rparr>" by (simp add: m_def)
    have "delete_one L s k p f = (r0, (mvcc_notify_watchers ?t ?kv r0 CETCD_EVENT_DELETE (Some (kv_of_kg k kg)))
        \<lparr>ms_index := snd (snd (cetcd_treap_del (ms_index s) k))\<rparr>)"
      using Some live d True m
      by (simp add: delete_one_def Let_def r0_def [symmetric] push_history_def del_entry_def del: if_split)
    then have s': "s' = (mvcc_notify_watchers ?t ?kv (he_rev ?e) (he_type ?e) (prev_walk (rev (ms_history s)) (he_key ?e)))
        \<lparr>ms_index := snd (snd (cetcd_treap_del (ms_index s) k))\<rparr>"
      using assms(3) by (simp add: prev_walk_index [OF assms(1,2)] Some)
    have kv: "?kv = (kv_of_entry ?e)\<lparr>kv_value := (if he_type ?e = CETCD_EVENT_PUT then he_value ?e else [])\<rparr>"
      by (simp add: del_entry_def kv_of_entry_def)
    show ?thesis
      using notify_channel [OF kv refl, where s = ?t and older = "rev (ms_history s)"] unfolding delivers_def s' by simp
  qed
qed

lemma delete_keys_loop_delivers:
  assumes "mvcc_ok s" and "ms_compacted_rev s = 0" and "ms_main_rev s \<le> m" and "0 < m"
    and "\<forall>a \<in> set (ms_history s). history_rev_key a < (m, i)"
    and "delete_keys_loop L ks m i l s = (r, s')"
  shows "delivers s s'"
  using assms
proof (induction L ks m i l s arbitrary: r s' rule: delete_keys_loop.induct)
  case (1 L m i l s)
  then show ?case using delivers_refl by auto
next
  case (2 L k ks m i l s)
  let ?f = "Some \<lparr>rev_main = m, rev_sub = i\<rparr>"
  obtain r1 s1 where s1: "delete_one L s k False ?f = (r1, s1)" by (cases "delete_one L s k False ?f")
  have ok1: "mvcc_ok s1 \<and> appends_at m s s1"
    by (rule delete_keys_loop_ok [of s m i L "[k]" l r1]) (use 2(2-6) s1 in auto)
  obtain new where new: "ms_history s1 = ms_history s @ new" "\<forall>e \<in> set new. he_rev e = \<lparr>rev_main = m, rev_sub = i\<rparr>"
    using delete_one_appends(2) [OF s1 refl] by auto
  have "\<forall>a \<in> set (ms_history s1). history_rev_key a < (m, i + 1)"
    using new 2(6) by (force simp: history_rev_key_def)
  moreover have "ms_main_rev s1 \<le> m" "ms_compacted_rev s1 = 0"
    using ok1 2(3,4) by (simp_all add: appends_at_def)
  moreover have "delete_keys_loop L ks m (i + 1) r1 s1 = (r, s')" using 2(7) s1 by simp
  ultimately have "delivers s1 s'" using 2(1) [OF s1 [symmetric]] ok1 2(5) by simp
  with delete_one_delivers [OF 2(2,3) s1] show ?case by (rule delivers_trans)
qed

lemma delete_keys_delivers:
  assumes "mvcc_ok s" and "ms_compacted_rev s = 0" and "cetcd_mvcc_delete_keys L s ks = (r, s')"
  shows "delivers s s'"
proof -
  consider be where "s' = s\<lparr>ms_backend := be\<rparr>"
    | be l where "delete_keys_loop L (filter (live_key s) ks) (ms_main_rev s + 1) 0 l (s\<lparr>ms_backend := be\<rparr>) = (r, s')"
    using delete_keys_cases [OF assms(3)] by blast
  then show ?thesis
  proof cases
    case 1
    then show ?thesis by (simp add: delivers_def)
  next
    case 2
    have "delivers (s\<lparr>ms_backend := be\<rparr>) s'"
      by (rule delete_keys_loop_delivers [OF _ _ _ _ _ 2])
        (use assms in \<open>auto simp: mvcc_ok_def history_rev_key_def\<close>)
    then show ?thesis by (simp add: delivers_def)
  qed
qed

lemma advance_delivers:
  assumes "cetcd_mvcc_advance_revision L s m = (rc, s')"
  shows "delivers s s'"
  using assms
  by (auto simp: cetcd_mvcc_advance_revision_def delivers_def split: if_splits option.splits prod.splits)

fun no_compact :: "mvcc_op \<Rightarrow> bool" where
  "no_compact (MCompact c) = False"
| "no_compact _ = True"

lemma apply_delivers:
  assumes "mvcc_ok s" and "ms_compacted_rev s = 0" and "no_compact op"
  shows "delivers s (mvcc_apply L op s)"
  using assms
  by (cases op)
    (auto simp: cetcd_mvcc_delete_def intro: put_delivers [OF _ _ prod.collapse [symmetric]]
      delete_one_delivers [OF _ _ prod.collapse [symmetric]] delete_keys_delivers [OF _ _ prod.collapse [symmetric]]
      advance_delivers [OF prod.collapse [symmetric]])

lemma apply_compacted:
  assumes "mvcc_ok s" and "no_compact op"
  shows "ms_compacted_rev (mvcc_apply L op s) = ms_compacted_rev s"
proof (cases op)
  case (MPut k v l)
  then show ?thesis by (cases rule: put_ok_cases [of L s k v l]) simp_all
next
  case (MDelete k)
  obtain r s' where "delete_one L s k True None = (r, s')" by fastforce
  with delete_one_appends(1) [OF this refl] MDelete show ?thesis by (simp add: cetcd_mvcc_delete_def appends_at_def)
next
  case (MDeleteKeys ks)
  obtain r s' where d: "cetcd_mvcc_delete_keys L s ks = (r, s')" by fastforce
  consider be where "s' = s\<lparr>ms_backend := be\<rparr>"
    | be l where "delete_keys_loop L (filter (live_key s) ks) (ms_main_rev s + 1) 0 l (s\<lparr>ms_backend := be\<rparr>) = (r, s')"
    using delete_keys_cases [OF d] by blast
  then have "ms_compacted_rev s' = ms_compacted_rev s"
  proof cases
    case 2
    have "mvcc_ok s' \<and> appends_at (ms_main_rev s + 1) (s\<lparr>ms_backend := be\<rparr>) s'"
      by (rule delete_keys_loop_ok [OF _ _ _ _ 2]) (use assms(1) in \<open>auto simp: mvcc_ok_def history_rev_key_def\<close>)
    then show ?thesis by (simp add: appends_at_def)
  qed simp
  then show ?thesis by (simp add: MDeleteKeys d)
next
  case (MAdvance m)
  then show ?thesis by (simp add: cetcd_mvcc_advance_revision_def split: option.split prod.split)
qed (use assms in simp)

lemma fold_delivers:
  assumes "mvcc_ok s" and "ms_compacted_rev s = 0" and "\<forall>op \<in> set ops. no_compact op"
  shows "delivers s (fold (mvcc_apply L) ops s) \<and> ms_compacted_rev (fold (mvcc_apply L) ops s) = 0"
  using assms(3)
proof (induction ops rule: rev_induct)
  case Nil
  then show ?case using assms(2) delivers_refl by simp
next
  case (snoc op ops)
  let ?s = "fold (mvcc_apply L) ops s"
  have ok: "mvcc_ok ?s" using mvcc_fold_ok [OF assms(1)] by blast
  have IH: "delivers s ?s" "ms_compacted_rev ?s = 0" using snoc by simp_all
  have op: "no_compact op" using snoc.prems by simp
  show ?case
    using delivers_trans [OF IH(1) apply_delivers [OF ok IH(2) op, of L]] apply_compacted [OF ok op, of L] IH(2) by simp
qed

section \<open>Subscription and replay\<close>

lemma notify_push_data_same: "data_same s0 s \<Longrightarrow> data_same s0 (notify_push s n e w)"
  by (simp add: data_same_def notify_push_def Let_def)

lemma replay_loop_same: "data_same s0 s \<Longrightarrow> data_same s0 (replay_loop sw older es s)"
  by (induction sw older es s rule: replay_loop.induct) (simp_all add: notify_push_data_same)

lemma replay_loop_events:
  assumes "sw_start_rev sw > 0"
  shows "n_events (ms_notify (replay_loop sw older es s) n) = n_events (ms_notify s n) @ channel_events [sw] n older es"
  using assms
  by (induction sw older es s rule: replay_loop.induct) (auto simp: n_events_push sees_def replay_event_def)

lemma mvcc_ok_data_same: "data_same s s' \<Longrightarrow> mvcc_ok s' = mvcc_ok s"
  by (simp add: data_same_def mvcc_ok_def index_agrees_def)

text \<open>The watcher \<^verbatim>\<open>cetcd_mvcc_watch_subscribe\<close> registers.\<close>

definition subscribed ::
  "'e cetcd_mvcc_store \<Rightarrow> int \<Rightarrow> bytes \<Rightarrow> bytes \<Rightarrow> int \<Rightarrow> bool \<Rightarrow> nat \<Rightarrow> cetcd_stream_watcher" where
  "subscribed s watch_id key range_end start_rev want n =
     last (ms_stream_watchers (snd (cetcd_mvcc_watch_subscribe s watch_id key range_end start_rev want n)))"

lemma subscribed_fields:
  "ms_stream_watchers (snd (cetcd_mvcc_watch_subscribe s i k e r want n)) = ms_stream_watchers s @ [subscribed s i k e r want n]"
  "sw_notify (subscribed s i k e r want n) = n" "sw_start_rev (subscribed s i k e r want n) = r"
  "sw_want_prev_kv (subscribed s i k e r want n) = want"
  by (simp_all add: subscribed_def cetcd_mvcc_watch_subscribe_def Let_def)

lemma run_no_watchers: "ms_stream_watchers (mvcc_run L be []) = []" "n_events (ms_notify (mvcc_run L be []) n) = []"
    "ms_history (mvcc_run L be []) = []" "ms_compacted_rev (mvcc_run L be []) = 0"
  by (simp_all add: mvcc_run_def cetcd_mvcc_set_backend_def cetcd_mvcc_store_new_def)

text \<open>
  C24. A watcher that subscribes from a start revision and replays the history receives,
  through the writes and deletes that follow, exactly the events of the whole history that
  match its range and are not older than its start revision: each once, in revision order,
  with the previous value when it asked for one. Live notification and replay give the same
  events. The store is not compacted meanwhile.
\<close>

theorem watch_complete:
  assumes "s = mvcc_run L be ops" and "\<forall>op \<in> set (ops @ ops'). no_compact op" and "0 < start_rev"
    and "s1 = snd (cetcd_mvcc_watch_subscribe s watch_id key range_end start_rev want n)"
    and "sw = subscribed s watch_id key range_end start_rev want n"
    and "s2 = fold (mvcc_apply L) ops' (cetcd_mvcc_watch_replay s1 sw)"
  shows "n_events (ms_notify s2 n) = channel_events [sw] n [] (ms_history s2)"
proof -
  have "delivers (mvcc_run L be []) (fold (mvcc_apply L) ops (mvcc_run L be [])) \<and>
      ms_compacted_rev (fold (mvcc_apply L) ops (mvcc_run L be [])) = 0"
    by (rule fold_delivers [OF mvcc_run_ok run_no_watchers(4)]) (use assms(2) in simp)
  then have "delivers (mvcc_run L be []) s \<and> ms_compacted_rev s = 0"
    using mvcc_run_append [of L be "[]" ops] by (simp add: assms(1))
  then have s: "ms_stream_watchers s = []" "ms_compacted_rev s = 0" "n_events (ms_notify s m) = []" for m
    by (auto simp: delivers_def run_no_watchers channel_events_none)
  have ok: "mvcc_ok s" unfolding assms(1) by (rule mvcc_run_ok)
  have s1: "ms_history s1 = ms_history s" "ms_notify s1 = ms_notify s" "ms_compacted_rev s1 = 0"
    "ms_main_rev s1 = ms_main_rev s" "ms_index s1 = ms_index s" "ms_stream_watchers s1 = [sw]"
    using s subscribed_fields(1) [of s watch_id key range_end start_rev want n]
    by (simp_all add: assms(4,5) cetcd_mvcc_watch_subscribe_def Let_def)
  have ok1: "mvcc_ok s1" using ok s s1 by (simp add: mvcc_ok_def index_agrees_def)
  let ?s = "cetcd_mvcc_watch_replay s1 sw"
  have start: "sw_start_rev sw > 0" using assms(3) by (simp add: assms(5) subscribed_fields(3))
  then have r: "?s = replay_loop sw [] (ms_history s1) s1" by (simp add: cetcd_mvcc_watch_replay_def)
  have same: "data_same s1 ?s" unfolding r by (rule replay_loop_same) (simp add: data_same_def)
  then have okr: "mvcc_ok ?s" "ms_compacted_rev ?s = 0" "ms_history ?s = ms_history s" "ms_stream_watchers ?s = [sw]"
    using ok1 s1 mvcc_ok_data_same [OF same] by (simp_all add: data_same_def)
  have ev: "n_events (ms_notify ?s n) = channel_events [sw] n [] (ms_history s)"
    unfolding r replay_loop_events [OF start] using s s1 by simp
  have "delivers ?s s2" using fold_delivers [OF okr(1,2), of ops' L] assms(2,6) by simp
  then obtain new where "ms_history s2 = ms_history s @ new"
    "n_events (ms_notify s2 n) = n_events (ms_notify ?s n) @ channel_events [sw] n (rev (ms_history s)) new"
    by (auto simp: delivers_def okr)
  then show ?thesis by (simp add: ev channel_events_append)
qed

theorem watch_complete_witness:
  "map (\<lambda>ev. (ev_type ev, kv_value (ev_kv ev), rev_main (ev_rev ev)))
     (n_events (ms_notify
       (fold (mvcc_apply mem_lmdb) [MPut [8] [5] 0, MDelete [7]]
         (cetcd_mvcc_watch_replay
           (snd (cetcd_mvcc_watch_subscribe (mvcc_run mem_lmdb None [MPut [7] [1] 0, MPut [7] [2] 0]) 1 [7] [] 2 True 3))
           (subscribed (mvcc_run mem_lmdb None [MPut [7] [1] 0, MPut [7] [2] 0]) 1 [7] [] 2 True 3))) 3)) =
   [(CETCD_EVENT_PUT, [2], 2), (CETCD_EVENT_DELETE, [], 4)]"
proof -
  let ?s = "mvcc_run mem_lmdb None [MPut [7] [1] 0, MPut [7] [2] 0]"
  let ?sw = "subscribed ?s 1 [7] [] 2 True 3"
  let ?s2 = "fold (mvcc_apply mem_lmdb) [MPut [8] [5] 0, MDelete [7]]
     (cetcd_mvcc_watch_replay (snd (cetcd_mvcc_watch_subscribe ?s 1 [7] [] 2 True 3)) ?sw)"
  have ev: "n_events (ms_notify ?s2 3) = channel_events [?sw] 3 [] (ms_history ?s2)"
    by (rule watch_complete [OF refl _ _ refl refl refl]) simp_all
  show ?thesis
    unfolding ev by code_simp
qed

end
