(* ===== verification/Auth.thy ===== *)
theory Auth
  imports Backend Hashmap
begin

text \<open>
  The authentication store of \<^verbatim>\<open>src/auth/auth.c\<close>: users, roles, permissions, simple tokens
  and their persistence. A C string is the list of the bytes before its terminator, and the
  packed list of the role names of a user is a list of such strings. Pointers stored in the
  hash tables are the values themselves; writing through one is \<open>hashmap_write\<close>. Password
  hashing is a parameter \<open>C\<close>, since SHA-256 and bcrypt come from OpenSSL and libcrypt; so are
  the random bytes of a token and the clock. Theory \<open>Jwt\<close> adds the JSON web tokens and the
  choice between the two kinds of token.
\<close>

section \<open>C strings\<close>

definition cstr :: "bytes \<Rightarrow> bytes" where
  "cstr bs = takeWhile (\<lambda>b. b \<noteq> 0) bs"

definition strncpy :: "bytes \<Rightarrow> nat \<Rightarrow> bytes" where
  "strncpy src n = take n (cstr src @ replicate n 0)"

section \<open>Data\<close>

record cetcd_user =
  u_name :: bytes
  u_roles :: "bytes list"
  u_password_hash :: bytes

record cetcd_role =
  ro_name :: bytes
  ro_perm_read :: bool
  ro_perm_write :: bool
  ro_key_prefix :: bytes
  ro_range_end :: bytes

record cetcd_auth_token_ent =
  te_username :: bytes
  te_expires_ns :: u64

record cetcd_auth_store =
  as_users :: "cetcd_user cetcd_hashmap"
  as_roles :: "cetcd_role cetcd_hashmap"
  as_tokens :: "cetcd_auth_token_ent cetcd_hashmap"
  as_enabled :: bool
  as_token_ttl_ns :: u64
  as_token_seq :: u64
  as_bcrypt_cost :: int
  as_jwt_alg :: int
  as_jwt_key :: bytes
  as_jwt_pkey :: "bytes option"
  as_jwt_user :: bytes

text \<open>
  The calls of OpenSSL, libcrypt and the file system; a failure is \<open>None\<close>. A key of OpenSSL stands
  for the bytes it was read from.
\<close>

record auth_crypto =
  ac_sha256 :: "bytes \<Rightarrow> bytes"
  ac_gensalt :: "int \<Rightarrow> bytes option"
  ac_crypt :: "bytes \<Rightarrow> bytes \<Rightarrow> bytes option"
  ac_hmac :: "bytes \<Rightarrow> bytes \<Rightarrow> bytes option"
  ac_sign :: "bytes \<Rightarrow> bytes \<Rightarrow> bytes option"
  ac_verify :: "bytes \<Rightarrow> bytes \<Rightarrow> bytes \<Rightarrow> bool"
  ac_der_to_raw :: "bytes \<Rightarrow> bytes option"
  ac_raw_to_der :: "bytes \<Rightarrow> bytes option"
  ac_read_file :: "bytes \<Rightarrow> bytes option"
  ac_read_pem :: "bytes \<Rightarrow> bytes option"
  ac_is_rsa :: "bytes \<Rightarrow> bool"
  ac_is_ec256 :: "bytes \<Rightarrow> bool"

definition CETCD_AUTH_DEFAULT_TOKEN_TTL_NS :: u64 where "CETCD_AUTH_DEFAULT_TOKEN_TTL_NS = 300 * 1000000000"
definition CETCD_AUTH_BCRYPT_COST_MIN :: int where "CETCD_AUTH_BCRYPT_COST_MIN = 4"
definition CETCD_AUTH_BCRYPT_COST_MAX :: int where "CETCD_AUTH_BCRYPT_COST_MAX = 31"

text \<open>A write through the pointer stored for a key.\<close>

definition hashmap_write :: "'v cetcd_hashmap \<Rightarrow> bytes \<Rightarrow> ('v \<Rightarrow> 'v) \<Rightarrow> 'v cetcd_hashmap" where
  "hashmap_write m key f =
     (case find_slot m key (cetcd_hash_fnv1a64 key) of (idx, found) \<Rightarrow>
        if \<not> found then m
        else m\<lparr>h_slots := (h_slots m)[idx := (h_slots m ! idx)\<lparr>s_value := map_option f (s_value (h_slots m ! idx))\<rparr>]\<rparr>)"

definition cetcd_user_new :: "bytes \<Rightarrow> cetcd_user" where
  "cetcd_user_new name = \<lparr>u_name = take 127 name, u_roles = [], u_password_hash = []\<rparr>"

definition cetcd_auth_store_new :: "cetcd_auth_store option" where
  "cetcd_auth_store_new =
     (case (cetcd_hashmap_new 8, cetcd_hashmap_new 8, cetcd_hashmap_new 8) of
        (Some us, Some rs, Some ts) \<Rightarrow>
          Some \<lparr>as_users = us, as_roles = rs, as_tokens = ts, as_enabled = False,
                as_token_ttl_ns = CETCD_AUTH_DEFAULT_TOKEN_TTL_NS, as_token_seq = 0,
                as_bcrypt_cost = 0, as_jwt_alg = 0, as_jwt_key = [], as_jwt_pkey = None, as_jwt_user = []\<rparr>
      | _ \<Rightarrow> None)"

section \<open>Tokens of a user\<close>

text \<open>
  \<^verbatim>\<open>auth_collect_user_tokens_\<close> gathers the tokens of a user, \<^verbatim>\<open>auth_drop_collected_tokens_\<close>
  removes them. With JSON web tokens there is nothing to drop.
\<close>

definition auth_collect_user_tokens ::
  "bytes \<Rightarrow> bytes \<Rightarrow> cetcd_auth_token_ent option \<Rightarrow> bytes list \<Rightarrow> bytes list \<times> bool" where
  "auth_collect_user_tokens username key value keys =
     (case value of
        None \<Rightarrow> (keys, True)
      | Some ent \<Rightarrow> (if te_username ent \<noteq> username then keys else keys @ [key], True))"

definition auth_drop_collected_tokens ::
  "cetcd_auth_token_ent cetcd_hashmap \<Rightarrow> bytes list \<Rightarrow> cetcd_auth_token_ent cetcd_hashmap" where
  "auth_drop_collected_tokens tokens keys = fold (\<lambda>k m. snd (snd (cetcd_hashmap_remove m k))) keys tokens"

definition cetcd_auth_revoke_user_tokens :: "cetcd_auth_store \<Rightarrow> bytes \<Rightarrow> cetcd_auth_store" where
  "cetcd_auth_revoke_user_tokens s username =
     (if as_jwt_alg s \<noteq> 0 then s
      else s\<lparr>as_tokens := auth_drop_collected_tokens (as_tokens s)
               (cetcd_hashmap_iter (as_tokens s) (auth_collect_user_tokens username) [])\<rparr>)"

definition cetcd_auth_revoke_all_tokens :: "cetcd_auth_store \<Rightarrow> cetcd_auth_store option" where
  "cetcd_auth_revoke_all_tokens s = map_option (\<lambda>m. s\<lparr>as_tokens := m\<rparr>) (cetcd_hashmap_new 8)"

section \<open>Passwords\<close>

definition hash_password :: "auth_crypto \<Rightarrow> bytes \<Rightarrow> bytes" where
  "hash_password C data = ac_sha256 C data"

definition cetcd_auth_set_bcrypt_cost :: "cetcd_auth_store \<Rightarrow> int \<Rightarrow> cetcd_status \<times> cetcd_auth_store" where
  "cetcd_auth_set_bcrypt_cost s cost =
     (if cost = 0 then (CETCD_OK, s\<lparr>as_bcrypt_cost := 0\<rparr>)
      else if cost < CETCD_AUTH_BCRYPT_COST_MIN \<or> cost > CETCD_AUTH_BCRYPT_COST_MAX then (CETCD_ERR_INVAL, s)
      else (CETCD_OK, s\<lparr>as_bcrypt_cost := cost\<rparr>))"

text \<open>\<^verbatim>\<open>fill_password_hash_\<close> returns the status and the hash it stores.\<close>

definition fill_password_hash :: "auth_crypto \<Rightarrow> cetcd_auth_store \<Rightarrow> bytes \<Rightarrow> cetcd_status \<times> bytes" where
  "fill_password_hash C s password =
     (if as_bcrypt_cost s = 0 then (CETCD_OK, hash_password C password)
      else case ac_gensalt C (as_bcrypt_cost s) of
          None \<Rightarrow> (CETCD_ERR_IO, [])
        | Some setting \<Rightarrow>
            (case ac_crypt C password setting of
               None \<Rightarrow> (CETCD_ERR_IO, [])
             | Some h \<Rightarrow>
                 if h \<noteq> [] \<and> hd h = 42 then (CETCD_ERR_IO, [])
                 else if length h = 0 \<or> length h > 64 then (CETCD_ERR_OVERFLOW, [])
                 else (CETCD_OK, h)))"

section \<open>Users\<close>

definition cetcd_auth_add_user ::
  "auth_crypto \<Rightarrow> cetcd_auth_store \<Rightarrow> bytes \<Rightarrow> bytes \<Rightarrow> cetcd_status \<times> cetcd_auth_store" where
  "cetcd_auth_add_user C s name password =
     (if cetcd_hashmap_get (as_users s) name \<noteq> None then (CETCD_ERR_EXISTS, s)
      else
        let u = cetcd_user_new name in
        case fill_password_hash C s password of (hrc, h) \<Rightarrow>
          if hrc \<noteq> CETCD_OK then (hrc, s)
          else case cetcd_hashmap_put (as_users s) name (u\<lparr>u_password_hash := h\<rparr>) of (rc, m) \<Rightarrow>
            if rc \<noteq> CETCD_OK then (CETCD_ERR_NOMEM, s) else (CETCD_OK, s\<lparr>as_users := m\<rparr>))"

definition cetcd_auth_hash_password ::
  "auth_crypto \<Rightarrow> cetcd_auth_store \<Rightarrow> bytes \<Rightarrow> nat \<Rightarrow> cetcd_status \<times> bytes" where
  "cetcd_auth_hash_password C s password cap =
     (case fill_password_hash C s password of (rc, h) \<Rightarrow>
        if rc \<noteq> CETCD_OK then (rc, [])
        else if length h = 0 \<or> length h > cap then (CETCD_ERR_OVERFLOW, [])
        else (CETCD_OK, h))"

definition cetcd_auth_add_user_hash ::
  "cetcd_auth_store \<Rightarrow> bytes \<Rightarrow> bytes \<Rightarrow> cetcd_status \<times> cetcd_auth_store" where
  "cetcd_auth_add_user_hash s name hash =
     (if name = [] then (CETCD_ERR_INVAL, s)
      else if length hash = 0 \<or> length hash > 64 then (CETCD_ERR_INVAL, s)
      else if cetcd_hashmap_get (as_users s) name \<noteq> None then (CETCD_ERR_EXISTS, s)
      else case cetcd_hashmap_put (as_users s) name ((cetcd_user_new name)\<lparr>u_password_hash := hash\<rparr>) of (rc, m) \<Rightarrow>
        if rc \<noteq> CETCD_OK then (CETCD_ERR_NOMEM, s) else (CETCD_OK, s\<lparr>as_users := m\<rparr>))"

text \<open>The hash buffer of a user has 64 bytes, of which the hash is the first \<open>hash_len\<close>.\<close>

definition cetcd_auth_set_user_hash ::
  "cetcd_auth_store \<Rightarrow> bytes \<Rightarrow> bytes \<Rightarrow> cetcd_status \<times> cetcd_auth_store" where
  "cetcd_auth_set_user_hash s name hash =
     (if name = [] then (CETCD_ERR_INVAL, s)
      else if length hash = 0 \<or> length hash > 64 then (CETCD_ERR_INVAL, s)
      else if cetcd_hashmap_get (as_users s) name = None then (CETCD_ERR_NOTFOUND, s)
      else (CETCD_OK, cetcd_auth_revoke_user_tokens
             (s\<lparr>as_users := hashmap_write (as_users s) name (\<lambda>u. u\<lparr>u_password_hash := hash\<rparr>)\<rparr>) name))"

definition cetcd_auth_remove_user :: "cetcd_auth_store \<Rightarrow> bytes \<Rightarrow> cetcd_status \<times> cetcd_auth_store" where
  "cetcd_auth_remove_user s name =
     (if cetcd_hashmap_get (as_users s) name = None then (CETCD_ERR_NOTFOUND, s)
      else case cetcd_hashmap_remove (as_users s) name of (removed, v, m) \<Rightarrow>
        if removed then (CETCD_OK, s\<lparr>as_users := m\<rparr>) else (CETCD_ERR_NOTFOUND, s))"

definition cetcd_auth_has_user :: "cetcd_auth_store \<Rightarrow> bytes \<Rightarrow> bool" where
  "cetcd_auth_has_user s name \<longleftrightarrow> cetcd_hashmap_get (as_users s) name \<noteq> None"

section \<open>Roles\<close>

text \<open>
  \<^verbatim>\<open>cetcd_role_new\<close> with a prefix pointer; \<open>None\<close> is the null pointer. A length of 0 or of 256 and
  more stands for the length of the string.
\<close>

definition cetcd_role_new :: "bytes \<Rightarrow> bool \<Rightarrow> bool \<Rightarrow> bytes option \<Rightarrow> nat \<Rightarrow> cetcd_role" where
  "cetcd_role_new name perm_read perm_write key_prefix prefix_len =
     \<lparr>ro_name = take 127 name, ro_perm_read = perm_read, ro_perm_write = perm_write,
      ro_key_prefix =
        (case key_prefix of
           None \<Rightarrow> []
         | Some p \<Rightarrow> let lp = (if prefix_len > 0 \<and> prefix_len < 256 then prefix_len else length (cstr p)) in strncpy p lp),
      ro_range_end = []\<rparr>"

definition cetcd_find_user :: "cetcd_auth_store \<Rightarrow> bytes \<Rightarrow> cetcd_user option" where
  "cetcd_find_user s name = cetcd_hashmap_get (as_users s) name"

definition cetcd_find_role :: "cetcd_auth_store \<Rightarrow> bytes \<Rightarrow> cetcd_role option" where
  "cetcd_find_role s name = cetcd_hashmap_get (as_roles s) name"

definition cetcd_auth_add_role ::
  "cetcd_auth_store \<Rightarrow> bytes \<Rightarrow> bool \<Rightarrow> bool \<Rightarrow> bytes option \<Rightarrow> nat \<Rightarrow> cetcd_status \<times> cetcd_auth_store" where
  "cetcd_auth_add_role s name perm_read perm_write key_prefix prefix_len =
     (if cetcd_hashmap_get (as_roles s) name \<noteq> None then (CETCD_ERR_EXISTS, s)
      else case cetcd_hashmap_put (as_roles s) name (cetcd_role_new name perm_read perm_write key_prefix prefix_len) of
        (rc, m) \<Rightarrow> if rc \<noteq> CETCD_OK then (CETCD_ERR_NOMEM, s) else (CETCD_OK, s\<lparr>as_roles := m\<rparr>))"

definition cetcd_auth_remove_role :: "cetcd_auth_store \<Rightarrow> bytes \<Rightarrow> cetcd_status \<times> cetcd_auth_store" where
  "cetcd_auth_remove_role s name =
     (case cetcd_hashmap_remove (as_roles s) name of (removed, v, m) \<Rightarrow>
        if \<not> removed then (CETCD_ERR_NOTFOUND, s) else (CETCD_OK, s\<lparr>as_roles := m\<rparr>))"

section \<open>Checking a password\<close>

text \<open>The comparison without an early exit: the differences of all bytes, or-ed together.\<close>

fun xor_diff :: "bytes \<Rightarrow> bytes \<Rightarrow> u32" where
  "xor_diff (a # as) (b # bs) = ucast (a XOR b) OR xor_diff as bs"
| "xor_diff [] (b # bs) = ucast b OR xor_diff [] bs"
| "xor_diff _ _ = 0"

definition cetcd_auth_check_password :: "auth_crypto \<Rightarrow> cetcd_auth_store \<Rightarrow> bytes \<Rightarrow> bytes \<Rightarrow> bool" where
  "cetcd_auth_check_password C s name password =
     (case cetcd_hashmap_get (as_users s) name of
        None \<Rightarrow> False
      | Some u \<Rightarrow>
          let stored = u_password_hash u in
          if length stored > 32 then
            if length stored \<ge> 65 then False
            else
              (case ac_crypt C password (cstr stored) of
                 None \<Rightarrow> False
               | Some got \<Rightarrow>
                   if got \<noteq> [] \<and> hd got = 42 then False
                   else (if length got \<noteq> length stored then 1 else 0) OR xor_diff got stored = 0)
          else
            let hash32 = hash_password C password in
            (if length stored \<noteq> 32 then 1 else 0) OR xor_diff stored hash32 = 0)"

definition cetcd_auth_is_enabled :: "cetcd_auth_store \<Rightarrow> bool" where
  "cetcd_auth_is_enabled s = as_enabled s"

definition cetcd_auth_set_enabled :: "cetcd_auth_store \<Rightarrow> bool \<Rightarrow> cetcd_auth_store" where
  "cetcd_auth_set_enabled s enabled = s\<lparr>as_enabled := enabled\<rparr>"

definition cetcd_auth_change_password ::
  "auth_crypto \<Rightarrow> cetcd_auth_store \<Rightarrow> bytes \<Rightarrow> bytes \<Rightarrow> cetcd_status \<times> cetcd_auth_store" where
  "cetcd_auth_change_password C s name new_password =
     (if cetcd_find_user s name = None then (CETCD_ERR_NOTFOUND, s)
      else case fill_password_hash C s new_password of (hrc, h) \<Rightarrow>
        if hrc \<noteq> CETCD_OK then (hrc, s)
        else (CETCD_OK, cetcd_auth_revoke_user_tokens
               (s\<lparr>as_users := hashmap_write (as_users s) name (\<lambda>u. u\<lparr>u_password_hash := h\<rparr>)\<rparr>) name))"

section \<open>Granting and revoking\<close>

definition cetcd_auth_grant_role ::
  "cetcd_auth_store \<Rightarrow> bytes \<Rightarrow> bytes \<Rightarrow> cetcd_status \<times> cetcd_auth_store" where
  "cetcd_auth_grant_role s user role =
     (case cetcd_hashmap_get (as_users s) user of
        None \<Rightarrow> (CETCD_ERR_NOTFOUND, s)
      | Some u \<Rightarrow>
          if cetcd_hashmap_get (as_roles s) role = None then (CETCD_ERR_NOTFOUND, s)
          else if role \<in> set (u_roles u) then (CETCD_OK, s)
          else (CETCD_OK, s\<lparr>as_users := hashmap_write (as_users s) user (\<lambda>u. u\<lparr>u_roles := u_roles u @ [role]\<rparr>)\<rparr>))"

text \<open>The first occurrence of the name is cut out of the packed list.\<close>

definition cetcd_auth_revoke_role ::
  "cetcd_auth_store \<Rightarrow> bytes \<Rightarrow> bytes \<Rightarrow> cetcd_status \<times> cetcd_auth_store" where
  "cetcd_auth_revoke_role s user role =
     (case cetcd_hashmap_get (as_users s) user of
        None \<Rightarrow> (CETCD_ERR_NOTFOUND, s)
      | Some u \<Rightarrow>
          if role \<in> set (u_roles u)
          then (CETCD_OK, s\<lparr>as_users := hashmap_write (as_users s) user (\<lambda>u. u\<lparr>u_roles := remove1 role (u_roles u)\<rparr>)\<rparr>)
          else (CETCD_ERR_NOTFOUND, s))"

definition cetcd_auth_grant_permission_range ::
  "cetcd_auth_store \<Rightarrow> bytes \<Rightarrow> bool \<Rightarrow> bool \<Rightarrow> bytes \<Rightarrow> bytes \<Rightarrow> cetcd_status \<times> cetcd_auth_store" where
  "cetcd_auth_grant_permission_range s role perm_read perm_write key range_end =
     (if cetcd_find_role s role = None then (CETCD_ERR_NOTFOUND, s)
      else (CETCD_OK, s\<lparr>as_roles := hashmap_write (as_roles s) role
             (\<lambda>r. r\<lparr>ro_perm_read := perm_read, ro_perm_write := perm_write,
                     ro_key_prefix := take 255 key, ro_range_end := take 255 range_end\<rparr>)\<rparr>))"

definition cetcd_auth_revoke_permission_key_range ::
  "cetcd_auth_store \<Rightarrow> bytes \<Rightarrow> bytes \<Rightarrow> bytes \<Rightarrow> cetcd_status \<times> cetcd_auth_store" where
  "cetcd_auth_revoke_permission_key_range s role key range_end =
     (case cetcd_find_role s role of
        None \<Rightarrow> (CETCD_ERR_NOTFOUND, s)
      | Some r \<Rightarrow>
          if length key > 0 \<and> (length (ro_key_prefix r) \<noteq> length key \<or> memcmp (ro_key_prefix r) key (length key) \<noteq> 0)
          then (CETCD_ERR_NOTFOUND, s)
          else if length range_end > 0 \<and>
            (length (ro_range_end r) \<noteq> length range_end \<or> memcmp (ro_range_end r) range_end (length range_end) \<noteq> 0)
          then (CETCD_ERR_NOTFOUND, s)
          else (CETCD_OK, s\<lparr>as_roles := hashmap_write (as_roles s) role
                 (\<lambda>r. r\<lparr>ro_perm_read := False, ro_perm_write := False, ro_key_prefix := [], ro_range_end := []\<rparr>)\<rparr>))"

section \<open>Simple tokens\<close>

definition hex_digit :: "byte \<Rightarrow> byte" where
  "hex_digit n = (if n < 10 then 48 + n else 87 + n)"

definition auth_hex_encode :: "bytes \<Rightarrow> bytes" where
  "auth_hex_encode bs = concat (map (\<lambda>b. [hex_digit (drop_bit 4 b AND 15), hex_digit (b AND 15)]) bs)"

text \<open>\<open>raw\<close> are the 16 random bytes, \<open>now\<close> is the real-time clock.\<close>

definition issue_simple_token ::
  "cetcd_auth_store \<Rightarrow> bytes \<Rightarrow> u64 \<Rightarrow> bytes \<Rightarrow> bytes option \<times> cetcd_auth_store" where
  "issue_simple_token s username now raw =
     (let ttl = (if as_token_ttl_ns s \<noteq> 0 then as_token_ttl_ns s else CETCD_AUTH_DEFAULT_TOKEN_TTL_NS);
            ent = \<lparr>te_username = take 127 username, te_expires_ns = now + ttl\<rparr>;
            seq = as_token_seq s + 1;
            raw = raw[0 := raw ! 0 XOR ucast seq];
            raw = raw[1 := raw ! 1 XOR ucast (drop_bit 8 seq)];
            hex = auth_hex_encode raw;
            s = s\<lparr>as_token_seq := seq\<rparr>
        in case cetcd_hashmap_put (as_tokens s) hex ent of (rc, m) \<Rightarrow>
             if rc \<noteq> CETCD_OK then (None, s) else (Some hex, s\<lparr>as_tokens := m\<rparr>))"

definition user_for_simple_token ::
  "cetcd_auth_store \<Rightarrow> bytes \<Rightarrow> u64 \<Rightarrow> bytes option \<times> cetcd_auth_store" where
  "user_for_simple_token s token now =
     (case cetcd_hashmap_get (as_tokens s) token of
          None \<Rightarrow> (None, s)
        | Some ent \<Rightarrow>
            if now \<ge> te_expires_ns ent
            then (None, s\<lparr>as_tokens := snd (snd (cetcd_hashmap_remove (as_tokens s) token))\<rparr>)
            else (Some (te_username ent), s))"

section \<open>Permissions\<close>

definition ROOT :: bytes where "ROOT = [114, 111, 111, 116]"

definition cetcd_auth_is_admin :: "cetcd_auth_store \<Rightarrow> bytes \<Rightarrow> bool" where
  "cetcd_auth_is_admin s username =
     (if username = ROOT then True
      else case cetcd_find_user s username of
          None \<Rightarrow> False
        | Some u \<Rightarrow> list_ex (\<lambda>p. length p = 4 \<and> memcmp p ROOT 4 = 0) (u_roles u))"

definition auth_prefix_match :: "bytes \<Rightarrow> bytes \<Rightarrow> bool" where
  "auth_prefix_match prefix key =
     (if length prefix = 0 then True
      else if length key < length prefix then False
      else memcmp key prefix (length prefix) = 0)"

definition cetcd_auth_perm_covers :: "bytes \<Rightarrow> bytes \<Rightarrow> bytes \<Rightarrow> bool" where
  "cetcd_auth_perm_covers key lo hi =
     (if length hi = 0 then auth_prefix_match lo key
      else if \<not> (length hi = 1 \<and> hi ! 0 = 0) \<and>
        (let n = (if length key < length hi then length key else length hi); c = memcmp key hi n
         in c > 0 \<or> (c = 0 \<and> length key \<ge> length hi)) then False
      else if length lo > 0 \<and>
        (let n = (if length key < length lo then length key else length lo); c = memcmp key lo n
         in c < 0 \<or> (c = 0 \<and> length key < length lo)) then False
      else True)"

definition role_allows :: "cetcd_auth_store \<Rightarrow> bytes \<Rightarrow> bool \<Rightarrow> bytes \<Rightarrow> bool" where
  "role_allows s key want_write p =
     (case cetcd_find_role s p of
        None \<Rightarrow> False
      | Some r \<Rightarrow>
          if want_write \<and> \<not> ro_perm_write r then False
          else if \<not> want_write \<and> \<not> ro_perm_read r \<and> \<not> ro_perm_write r then False
          else cetcd_auth_perm_covers key (ro_key_prefix r) (ro_range_end r))"

text \<open>
  The names and the key are there; a missing user name or key, which the C function refuses once
  authentication is enabled, is treated by its caller \<open>cetcd_v3rpc_check_key_perm\<close>.
\<close>

definition cetcd_auth_check_perm :: "cetcd_auth_store \<Rightarrow> bytes \<Rightarrow> bytes \<Rightarrow> bool \<Rightarrow> bool" where
  "cetcd_auth_check_perm s username key want_write =
     (if \<not> as_enabled s then True
      else if cetcd_auth_is_admin s username then True
      else case cetcd_find_user s username of
          None \<Rightarrow> False
        | Some u \<Rightarrow> list_ex (role_allows s key want_write) (u_roles u))"

section \<open>Persistence\<close>

definition AUTH_BUCKET :: string where "AUTH_BUCKET = ''auth''"
definition AUTH_KEY_ENABLED :: bytes where "AUTH_KEY_ENABLED = bytes_of ''enabled''"
definition AUTH_KEY_USERS :: bytes where "AUTH_KEY_USERS = bytes_of ''users''"
definition AUTH_KEY_ROLES :: bytes where "AUTH_KEY_ROLES = bytes_of ''roles''"

definition auth_save_u16 :: "nat \<Rightarrow> bytes" where
  "auth_save_u16 v = [of_nat v, of_nat (v div 256)]"

definition auth_load_u16 :: "bytes \<Rightarrow> nat" where
  "auth_load_u16 p = unat (p ! 0) + 256 * unat (p ! 1)"

text \<open>The role names of a user, each with its terminator; lengths are cut to 16 bits.\<close>

definition roles_blob :: "bytes list \<Rightarrow> bytes" where
  "roles_blob rs = concat (map (\<lambda>r. r @ [0]) rs)"

definition auth_save_user_cb :: "bytes \<Rightarrow> cetcd_user option \<Rightarrow> bytes \<Rightarrow> bytes \<times> bool" where
  "auth_save_user_cb key value buf =
     (case value of
        None \<Rightarrow> (buf, True)
      | Some u \<Rightarrow>
          let nlen = (if length key < 0xFFFF then length key else 0xFFFF);
              blob = roles_blob (u_roles u);
              rlen = (if length blob > 0xFFFF then 0xFFFF else length blob);
              hl = (if length (u_password_hash u) > 64 then 64 else length (u_password_hash u))
          in (buf @ auth_save_u16 nlen @ take nlen key @ [of_nat hl] @ take hl (u_password_hash u) @
                auth_save_u16 (length (u_roles u) mod 65536) @ auth_save_u16 rlen @ take rlen blob, True))"

definition auth_save_role_cb :: "bytes \<Rightarrow> cetcd_role option \<Rightarrow> bytes \<Rightarrow> bytes \<times> bool" where
  "auth_save_role_cb key value buf =
     (case value of
        None \<Rightarrow> (buf, True)
      | Some r \<Rightarrow>
          let nlen = (if length key < 0xFFFF then length key else 0xFFFF);
              plen = (if length (ro_key_prefix r) < 0xFFFF then length (ro_key_prefix r) else 0xFFFF);
              rlen = (if length (ro_range_end r) < 0xFFFF then length (ro_range_end r) else 0xFFFF)
          in (buf @ auth_save_u16 nlen @ take nlen key @
                [of_bool (ro_perm_read r), of_bool (ro_perm_write r)] @
                auth_save_u16 plen @ take plen (ro_key_prefix r) @
                auth_save_u16 rlen @ take rlen (ro_range_end r), True))"

definition cetcd_auth_save :: "('e, 't) lmdb \<Rightarrow> cetcd_auth_store \<Rightarrow> 'e \<Rightarrow> cetcd_status \<times> 'e" where
  "cetcd_auth_save L s be =
     (let en = [of_bool (as_enabled s)];
          users = cetcd_hashmap_iter (as_users s) auth_save_user_cb [];
          roles = cetcd_hashmap_iter (as_roles s) auth_save_role_cb [0xFF, 0x52, 0x01]
      in case cetcd_txn_begin L be False of
           None \<Rightarrow> (CETCD_ERR_IO, be)
         | Some txn \<Rightarrow>
             (case cetcd_txn_put L txn AUTH_BUCKET AUTH_KEY_ENABLED en of (rc, txn) \<Rightarrow>
                if rc \<noteq> CETCD_OK then (rc, be)
                else case cetcd_txn_put L txn AUTH_BUCKET AUTH_KEY_USERS users of (rc, txn) \<Rightarrow>
                  if rc \<noteq> CETCD_OK then (rc, be)
                  else case cetcd_txn_put L txn AUTH_BUCKET AUTH_KEY_ROLES roles of (rc, txn) \<Rightarrow>
                    if rc \<noteq> CETCD_OK then (rc, be) else cetcd_txn_commit L be txn))"

fun split_roles :: "nat \<Rightarrow> bytes \<Rightarrow> bytes list" where
  "split_roles 0 blob = []"
| "split_roles (Suc n) blob = cstr blob # split_roles n (drop (length (cstr blob) + 1) blob)"

text \<open>
  The two loops of \<^verbatim>\<open>cetcd_auth_load\<close>. The argument is what is left of the record; a record
  that is cut short ends the loop.
\<close>

function load_users :: "bytes \<Rightarrow> cetcd_user cetcd_hashmap \<Rightarrow> cetcd_status \<times> cetcd_user cetcd_hashmap" where
  "load_users val m =
     (if length val < 2 then (CETCD_OK, m)
      else
        let nlen = auth_load_u16 val; val = drop 2 val in
        if nlen + 1 > length val then (CETCD_OK, m)
        else
          let name = cstr (take (if nlen < 127 then nlen else 127) val); val = drop nlen val;
              hlen = unat (val ! 0); val = drop 1 val
          in if hlen > 64 \<or> hlen + 2 + 2 > length val then (CETCD_OK, m)
             else
               let hash = take hlen val; val = drop hlen val;
                   n_roles = auth_load_u16 val; val = drop 2 val;
                   rlen = auth_load_u16 val; val = drop 2 val
               in if rlen > length val then (CETCD_OK, m)
                  else
                    let u = \<lparr>u_name = name, u_roles = split_roles n_roles (take rlen val), u_password_hash = hash\<rparr>
                    in case cetcd_hashmap_put m name u of (rc, m) \<Rightarrow>
                         if rc \<noteq> CETCD_OK then (CETCD_ERR_NOMEM, m) else load_users (drop rlen val) m)"
  by pat_completeness auto
termination
  by (relation "measure (length \<circ> fst)") auto

function load_roles :: "bool \<Rightarrow> bytes \<Rightarrow> cetcd_role cetcd_hashmap \<Rightarrow> cetcd_status \<times> cetcd_role cetcd_hashmap" where
  "load_roles v2 val m =
     (if length val < 2 then (CETCD_OK, m)
      else
        let nlen = auth_load_u16 val; val = drop 2 val in
        if nlen + 1 + 1 + 2 > length val then (CETCD_OK, m)
        else
          let name = cstr (take (if nlen < 127 then nlen else 127) val); val = drop nlen val;
              pr = val ! 0; pw = val ! 1; val = drop 2 val;
              plen = auth_load_u16 val; val = drop 2 val
          in if plen > length val then (CETCD_OK, m)
             else
               let prefix = take (if plen < 256 then plen else 255) val; val = drop plen val;
                   r = \<lparr>ro_name = name, ro_perm_read = (pr \<noteq> 0), ro_perm_write = (pw \<noteq> 0),
                        ro_key_prefix = prefix, ro_range_end = []\<rparr>
               in if \<not> v2 then
                    (case cetcd_hashmap_put m name r of (rc, m) \<Rightarrow>
                       if rc \<noteq> CETCD_OK then (CETCD_ERR_NOMEM, m) else load_roles v2 val m)
                  else if length val < 2 then (CETCD_OK, m)
                  else
                    let rlen = auth_load_u16 val; val = drop 2 val in
                    if rlen > length val then (CETCD_OK, m)
                    else case cetcd_hashmap_put m name
                        (r\<lparr>ro_range_end := take (if rlen < 256 then rlen else 255) val\<rparr>) of (rc, m) \<Rightarrow>
                      if rc \<noteq> CETCD_OK then (CETCD_ERR_NOMEM, m) else load_roles v2 (drop rlen val) m)"
  by pat_completeness auto
termination
  by (relation "measure (length \<circ> fst \<circ> snd)") auto

declare load_users.simps [simp del] load_roles.simps [simp del]

definition cetcd_auth_load ::
  "('e, 't) lmdb \<Rightarrow> cetcd_auth_store \<Rightarrow> 'e \<Rightarrow> cetcd_status \<times> cetcd_auth_store" where
  "cetcd_auth_load L s be =
     (case cetcd_backend_get L be AUTH_BUCKET AUTH_KEY_ENABLED of (rc, val) \<Rightarrow>
      if rc \<noteq> CETCD_OK \<and> rc \<noteq> CETCD_ERR_NOTFOUND then (rc, s)
      else
        let s = (case val of
                   Some (b # bs) \<Rightarrow> if rc = CETCD_OK then s\<lparr>as_enabled := (b \<noteq> 0)\<rparr> else s
                 | _ \<Rightarrow> s)
        in case cetcd_backend_get L be AUTH_BUCKET AUTH_KEY_USERS of (rc, val) \<Rightarrow>
           if rc \<noteq> CETCD_OK \<and> rc \<noteq> CETCD_ERR_NOTFOUND then (rc, s)
           else
             case (case val of
                     Some v \<Rightarrow> if rc = CETCD_OK then load_users v (as_users s) else (CETCD_OK, as_users s)
                   | None \<Rightarrow> (CETCD_OK, as_users s)) of (urc, m) \<Rightarrow>
               let s = s\<lparr>as_users := m\<rparr> in
               if urc \<noteq> CETCD_OK then (urc, s)
               else case cetcd_backend_get L be AUTH_BUCKET AUTH_KEY_ROLES of (rc, val) \<Rightarrow>
                 if rc \<noteq> CETCD_OK \<and> rc \<noteq> CETCD_ERR_NOTFOUND then (rc, s)
                 else
                   case (case val of
                           Some v \<Rightarrow>
                             if rc = CETCD_OK then
                               (if length v \<ge> 3 \<and> v ! 0 = 0xFF \<and> v ! 1 = 0x52 \<and> v ! 2 = 0x01
                                then load_roles True (drop 3 v) (as_roles s)
                                else load_roles False v (as_roles s))
                             else (CETCD_OK, as_roles s)
                         | None \<Rightarrow> (CETCD_OK, as_roles s)) of (rrc, m) \<Rightarrow>
                     (rrc, s\<lparr>as_roles := m\<rparr>))"

end
