(* ===== verification/Jwt.thy ===== *)
theory Jwt
  imports Auth
begin

text \<open>
  The JSON web tokens of \<^verbatim>\<open>src/auth/auth.c\<close> and the choice between them and simple tokens. The
  signatures are OpenSSL's and come with the parameter \<open>C\<close>. A failure of an encoder, a decoder or
  a claim parser is \<open>None\<close>; for the base64 encoder it is the empty result, as in the code.
\<close>

definition CETCD_AUTH_MAX_TOKEN_LEN :: nat where "CETCD_AUTH_MAX_TOKEN_LEN = 2048"
definition CETCD_AUTH_JWT_DEFAULT_TTL_NS :: u64 where "CETCD_AUTH_JWT_DEFAULT_TTL_NS = 300 * 1000000000"
definition CETCD_JWT_NONE :: int where "CETCD_JWT_NONE = 0"
definition CETCD_JWT_HS256 :: int where "CETCD_JWT_HS256 = 1"
definition CETCD_JWT_RS256 :: int where "CETCD_JWT_RS256 = 2"
definition CETCD_JWT_ES256 :: int where "CETCD_JWT_ES256 = 3"

section \<open>Base64 in the alphabet for URLs\<close>

definition b64url :: bytes where
  "b64url = bytes_of ''ABCDEFGHIJKLMNOPQRSTUVWXYZabcdefghijklmnopqrstuvwxyz0123456789-_''"

definition b64url_chr :: "u32 \<Rightarrow> byte" where
  "b64url_chr v = b64url ! unat (v AND 63)"

text \<open>Up to three bytes in one word; a missing byte adds nothing.\<close>

definition b64url_word :: "byte \<Rightarrow> byte \<Rightarrow> byte \<Rightarrow> u32" where
  "b64url_word a b c = push_bit 16 (ucast a) OR push_bit 8 (ucast b) OR ucast c"

text \<open>\<open>n\<close> is the number of characters written so far, \<open>cap\<close> the size of the output.\<close>

fun b64url_loop :: "nat \<Rightarrow> nat \<Rightarrow> bytes \<Rightarrow> bytes option" where
  "b64url_loop cap n [] = Some []"
| "b64url_loop cap n [a] =
     (let v = b64url_word a 0 0 in
      if n + 2 > cap then None else Some [b64url_chr (drop_bit 18 v), b64url_chr (drop_bit 12 v)])"
| "b64url_loop cap n [a, b] =
     (let v = b64url_word a b 0 in
      if n + 2 > cap then None
      else if n + 3 > cap then None
      else Some [b64url_chr (drop_bit 18 v), b64url_chr (drop_bit 12 v), b64url_chr (drop_bit 6 v)])"
| "b64url_loop cap n (a # b # c # bs) =
     (let v = b64url_word a b c in
      if n + 2 > cap then None
      else if n + 3 > cap then None
      else if n + 4 > cap then None
      else map_option (\<lambda>r. [b64url_chr (drop_bit 18 v), b64url_chr (drop_bit 12 v), b64url_chr (drop_bit 6 v),
                             b64url_chr v] @ r) (b64url_loop cap (n + 4) bs))"

definition b64url_encode :: "bytes \<Rightarrow> nat \<Rightarrow> bytes" where
  "b64url_encode bs cap = (case b64url_loop cap 0 bs of None \<Rightarrow> [] | Some out \<Rightarrow> out)"

definition b64url_val :: "byte \<Rightarrow> int" where
  "b64url_val c =
     (if 65 \<le> c \<and> c \<le> 90 then uint c - 65
      else if 97 \<le> c \<and> c \<le> 122 then uint c - 97 + 26
      else if 48 \<le> c \<and> c \<le> 57 then uint c - 48 + 52
      else if c = 45 \<or> c = 43 then 62
      else if c = 95 \<or> c = 47 then 63
      else -1)"

text \<open>One group of the decoder: the values of two to four characters, -2 for a missing one.\<close>

definition b64url_group :: "nat \<Rightarrow> nat \<Rightarrow> int \<Rightarrow> int \<Rightarrow> int \<Rightarrow> int \<Rightarrow> bytes option" where
  "b64url_group cap n a b c d =
     (if a < 0 \<or> b < 0 then None
      else if n \<ge> cap then None
      else
        let out = [word_of_int (push_bit 2 a OR drop_bit 4 b)] in
        if c \<ge> 0 \<and> n + 1 \<ge> cap then None
        else
          let out = (if c \<ge> 0 then out @ [word_of_int (push_bit 4 (b AND 15) OR drop_bit 2 c)] else out) in
          if d \<ge> 0 \<and> n + length out \<ge> cap then None
          else Some (if d \<ge> 0 then out @ [word_of_int (push_bit 6 (c AND 3) OR d)] else out))"

fun b64url_decode_loop :: "nat \<Rightarrow> nat \<Rightarrow> bytes \<Rightarrow> bytes option" where
  "b64url_decode_loop cap n [] = Some []"
| "b64url_decode_loop cap n [a] = b64url_group cap n (b64url_val a) 0 (-2) (-2)"
| "b64url_decode_loop cap n [a, b] = b64url_group cap n (b64url_val a) (b64url_val b) (-2) (-2)"
| "b64url_decode_loop cap n [a, b, c] = b64url_group cap n (b64url_val a) (b64url_val b) (b64url_val c) (-2)"
| "b64url_decode_loop cap n (a # b # c # d # bs) =
     (case b64url_group cap n (b64url_val a) (b64url_val b) (b64url_val c) (b64url_val d) of
        None \<Rightarrow> None
      | Some out \<Rightarrow> map_option (\<lambda>r. out @ r) (b64url_decode_loop cap (n + length out) bs))"

definition b64url_decode :: "bytes \<Rightarrow> nat \<Rightarrow> bytes option" where
  "b64url_decode bs cap = b64url_decode_loop cap 0 (rev (dropWhile (\<lambda>c. c = 61) (rev bs)))"

section \<open>Signatures\<close>

definition jwt_hmac :: "auth_crypto \<Rightarrow> cetcd_auth_store \<Rightarrow> bytes \<Rightarrow> bytes option" where
  "jwt_hmac C s data =
     (if as_jwt_key s = [] then None
      else case ac_hmac C (as_jwt_key s) data of
          None \<Rightarrow> None
        | Some mac \<Rightarrow> if length mac \<noteq> 32 then None else Some mac)"

definition jwt_ct_eq :: "bytes \<Rightarrow> bytes \<Rightarrow> bool" where
  "jwt_ct_eq a b \<longleftrightarrow> foldr (\<lambda>p d. d OR (fst p XOR snd p)) (zip a b) 0 = 0"

definition jwt_digest_sign :: "auth_crypto \<Rightarrow> bytes option \<Rightarrow> bytes \<Rightarrow> bytes option" where
  "jwt_digest_sign C pkey data = (case pkey of None \<Rightarrow> None | Some k \<Rightarrow> ac_sign C k data)"

definition jwt_digest_verify :: "auth_crypto \<Rightarrow> bytes option \<Rightarrow> bytes \<Rightarrow> bytes \<Rightarrow> bool" where
  "jwt_digest_verify C pkey data sig = (case pkey of None \<Rightarrow> False | Some k \<Rightarrow> ac_verify C k data sig)"

definition jwt_alg_name :: "int \<Rightarrow> bytes option" where
  "jwt_alg_name alg =
     (if alg = CETCD_JWT_HS256 then Some (bytes_of ''HS256'')
      else if alg = CETCD_JWT_RS256 then Some (bytes_of ''RS256'')
      else if alg = CETCD_JWT_ES256 then Some (bytes_of ''ES256'')
      else None)"

definition jwt_sign :: "auth_crypto \<Rightarrow> cetcd_auth_store \<Rightarrow> bytes \<Rightarrow> bytes option" where
  "jwt_sign C s data =
     (if as_jwt_alg s = CETCD_JWT_HS256 then jwt_hmac C s data
      else case jwt_digest_sign C (as_jwt_pkey s) data of
          None \<Rightarrow> None
        | Some sig \<Rightarrow> if as_jwt_alg s = CETCD_JWT_ES256 then ac_der_to_raw C sig else Some sig)"

definition jwt_verify :: "auth_crypto \<Rightarrow> cetcd_auth_store \<Rightarrow> bytes \<Rightarrow> bytes \<Rightarrow> bool" where
  "jwt_verify C s data sig =
     (if as_jwt_alg s = CETCD_JWT_HS256 then
        if length sig \<noteq> 32 then False
        else (case jwt_hmac C s data of None \<Rightarrow> False | Some expect \<Rightarrow> jwt_ct_eq sig expect)
      else if as_jwt_alg s = CETCD_JWT_ES256 then
        if length sig \<noteq> 64 then False
        else (case ac_raw_to_der C sig of None \<Rightarrow> False | Some der \<Rightarrow> jwt_digest_verify C (as_jwt_pkey s) data der)
      else jwt_digest_verify C (as_jwt_pkey s) data sig)"

section \<open>Claims\<close>

text \<open>What follows the first occurrence of a pattern.\<close>

fun after_pat :: "bytes \<Rightarrow> bytes \<Rightarrow> bytes option" where
  "after_pat pat [] = (if pat = [] then Some [] else None)"
| "after_pat pat (c # cs) =
     (if take (length pat) (c # cs) = pat then Some (drop (length pat) (c # cs)) else after_pat pat cs)"

definition find_bytes :: "bytes \<Rightarrow> bytes \<Rightarrow> bool" where
  "find_bytes hay needle \<longleftrightarrow> needle \<noteq> [] \<and> after_pat needle hay \<noteq> None"

fun claim_chars :: "nat \<Rightarrow> nat \<Rightarrow> bytes \<Rightarrow> bytes option" where
  "claim_chars cap n [] = None"
| "claim_chars cap n (c # cs) =
     (if c = 34 then Some []
      else if c = 92 \<or> c < 0x20 then None
      else if n + 1 \<ge> cap then None
      else map_option (\<lambda>r. c # r) (claim_chars cap (n + 1) cs))"

definition jwt_claim_str :: "bytes \<Rightarrow> bytes \<Rightarrow> nat \<Rightarrow> bytes option" where
  "jwt_claim_str json key cap =
     (let pat = [34] @ key @ [34, 58, 34] in
      if length pat \<ge> 80 then None
      else case after_pat pat json of None \<Rightarrow> None | Some hit \<Rightarrow> claim_chars cap 0 hit)"

definition is_digit :: "byte \<Rightarrow> bool" where
  "is_digit c \<longleftrightarrow> 48 \<le> c \<and> c \<le> 57"

text \<open>
  The loop over the digits of a number. The test before the multiplication does not cover the
  addition of the last digit, which can wrap.
\<close>

fun read_digits :: "u64 \<Rightarrow> bytes \<Rightarrow> (u64 \<times> bytes) option" where
  "read_digits v [] = Some (v, [])"
| "read_digits v (c # cs) =
     (if \<not> is_digit c then Some (v, c # cs)
      else if v > 0xFFFFFFFFFFFFFFFF div 10 then None
      else read_digits (v * 10 + (ucast c - 48)) cs)"

definition jwt_claim_u64 :: "bytes \<Rightarrow> bytes \<Rightarrow> u64 option" where
  "jwt_claim_u64 json key =
     (let pat = [34] @ key @ [34, 58] in
      if length pat \<ge> 80 then None
      else case after_pat pat json of
          None \<Rightarrow> None
        | Some hit \<Rightarrow>
            if hit = [] \<or> \<not> is_digit (hd hit) then None
            else map_option fst (read_digits 0 hit))"

section \<open>Issuing and resolving\<close>

text \<open>The conversion of \<^verbatim>\<open>%llu\<close>.\<close>

fun print_dec :: "nat \<Rightarrow> bytes" where
  "print_dec n = (if n < 10 then [48 + of_nat n] else print_dec (n div 10) @ [48 + of_nat (n mod 10)])"

declare print_dec.simps [simp del]

definition jwt_header :: "bytes \<Rightarrow> bytes" where
  "jwt_header alg =
     [123, 34] @ bytes_of ''alg'' @ [34, 58, 34] @ alg @ [34, 44, 34] @ bytes_of ''typ'' @ [34, 58, 34] @
     bytes_of ''JWT'' @ [34, 125]"

definition jwt_payload :: "bytes \<Rightarrow> u64 \<Rightarrow> u64 \<Rightarrow> bytes" where
  "jwt_payload username seq expiry =
     [123, 34] @ bytes_of ''username'' @ [34, 58, 34] @ username @ [34, 44, 34] @ bytes_of ''revision'' @ [34, 58] @
     print_dec (unat seq) @ [44, 34] @ bytes_of ''exp'' @ [34, 58] @ print_dec (unat expiry) @ [125]"

definition jwt_expiry :: "cetcd_auth_store \<Rightarrow> u64 \<Rightarrow> u64" where
  "jwt_expiry s now =
     (let ttl = (if as_token_ttl_ns s \<noteq> 0 then as_token_ttl_ns s else CETCD_AUTH_JWT_DEFAULT_TTL_NS);
          e = now div 1000000000 + ttl div 1000000000
      in if ttl div 1000000000 = 0 then e + 1 else e)"

text \<open>
  The buffer for the signature has 1024 bytes and is filled without a terminator by a signature of 768 bytes, which a key
  of 6144 bits has; the C code then copies one byte from behind it, which is not part of the token here.
\<close>

definition jwt_issue :: "auth_crypto \<Rightarrow> cetcd_auth_store \<Rightarrow> bytes \<Rightarrow> u64 \<Rightarrow> bytes option \<times> cetcd_auth_store" where
  "jwt_issue C s username now =
     (case jwt_alg_name (as_jwt_alg s) of
        None \<Rightarrow> (None, s)
      | Some alg \<Rightarrow>
          if 34 \<in> set username \<or> 92 \<in> set username then (None, s)
          else
            let hdr = jwt_header alg in
            if length hdr \<ge> 48 then (None, s)
            else
              let expiry = jwt_expiry s now;
                  s = s\<lparr>as_token_seq := as_token_seq s + 1\<rparr>;
                  payload = jwt_payload username (as_token_seq s) expiry
              in if length payload \<ge> 256 then (None, s)
                 else
                   let hb = b64url_encode hdr 64; pb = b64url_encode payload 400 in
                   if hb = [] \<or> pb = [] then (None, s)
                   else
                     let signing = hb @ [46] @ pb in
                     if length signing \<ge> 512 then (None, s)
                     else case jwt_sign C s signing of
                         None \<Rightarrow> (None, s)
                       | Some sig \<Rightarrow>
                           let sb = b64url_encode sig 1024 in
                           if sb = [] then (None, s)
                           else if length signing + 1 + length sb \<ge> CETCD_AUTH_MAX_TOKEN_LEN then (None, s)
                           else (Some (signing @ [46] @ sb), s))"

text \<open>The text before the first dot and the text after it.\<close>

definition split_dot :: "bytes \<Rightarrow> (bytes \<times> bytes) option" where
  "split_dot t =
     (if 46 \<in> set t then Some (takeWhile (\<lambda>c. c \<noteq> 46) t, tl (dropWhile (\<lambda>c. c \<noteq> 46) t)) else None)"

definition jwt_user_for ::
  "auth_crypto \<Rightarrow> cetcd_auth_store \<Rightarrow> bytes \<Rightarrow> u64 \<Rightarrow> bytes option \<times> cetcd_auth_store" where
  "jwt_user_for C s token now_ns =
     (case jwt_alg_name (as_jwt_alg s) of None \<Rightarrow> (None, s) | Some alg \<Rightarrow>
      case split_dot token of None \<Rightarrow> (None, s) | Some (h, rest) \<Rightarrow>
      case split_dot rest of None \<Rightarrow> (None, s) | Some (p, g) \<Rightarrow>
      if 46 \<in> set g then (None, s)
      else if h = [] \<or> p = [] \<or> g = [] then (None, s)
      else
        case b64url_decode h 127 of None \<Rightarrow> (None, s) | Some hdr \<Rightarrow>
        case b64url_decode p 511 of None \<Rightarrow> (None, s) | Some pay \<Rightarrow>
        case b64url_decode g 1024 of None \<Rightarrow> (None, s) | Some mac \<Rightarrow>
        if \<not> find_bytes hdr alg \<or> find_bytes hdr ([34] @ bytes_of ''none'' @ [34]) then (None, s)
        else if \<not> jwt_verify C s (h @ [46] @ p) mac then (None, s)
        else
          case jwt_claim_str pay (bytes_of ''username'') 128 of None \<Rightarrow> (None, s) | Some user \<Rightarrow>
          case jwt_claim_u64 pay (bytes_of ''revision'') of None \<Rightarrow> (None, s) | Some _ \<Rightarrow>
          case jwt_claim_u64 pay (bytes_of ''exp'') of None \<Rightarrow> (None, s) | Some expiry \<Rightarrow>
          if now_ns div 1000000000 \<ge> expiry then (None, s)
          else if cetcd_find_user s (cstr user) = None then (None, s)
          else (Some (cstr user), s\<lparr>as_jwt_user := cstr user\<rparr>))"

definition cetcd_auth_set_token_ttl_ns :: "cetcd_auth_store \<Rightarrow> u64 \<Rightarrow> cetcd_auth_store" where
  "cetcd_auth_set_token_ttl_ns s ttl_ns =
     s\<lparr>as_token_ttl_ns := (if ttl_ns \<noteq> 0 then ttl_ns else CETCD_AUTH_DEFAULT_TOKEN_TTL_NS)\<rparr>"

definition cetcd_auth_issue_token ::
  "auth_crypto \<Rightarrow> cetcd_auth_store \<Rightarrow> bytes \<Rightarrow> u64 \<Rightarrow> bytes \<Rightarrow> bytes option \<times> cetcd_auth_store" where
  "cetcd_auth_issue_token C s username now raw =
     (if cetcd_find_user s username = None then (None, s)
      else if as_jwt_alg s \<noteq> 0 then jwt_issue C s username now
      else issue_simple_token s username now raw)"

definition cetcd_auth_user_for_token ::
  "auth_crypto \<Rightarrow> cetcd_auth_store \<Rightarrow> bytes \<Rightarrow> u64 \<Rightarrow> bytes option \<times> cetcd_auth_store" where
  "cetcd_auth_user_for_token C s token now =
     (if token = [] then (None, s)
      else if as_jwt_alg s \<noteq> 0 then jwt_user_for C s token now
      else user_for_simple_token s token now)"

section \<open>The token specification\<close>

text \<open>A duration in the notation of Go: numbers with units, added up.\<close>

definition duration_unit :: "bytes \<Rightarrow> (u64 \<times> bytes) option" where
  "duration_unit p =
     (if take 2 p = bytes_of ''ns'' then Some (1, drop 2 p)
      else if take 2 p = bytes_of ''us'' then Some (1000, drop 2 p)
      else if take 2 p = bytes_of ''ms'' then Some (1000000, drop 2 p)
      else if take 1 p = bytes_of ''s'' then Some (1000000000, drop 1 p)
      else if take 1 p = bytes_of ''m'' then Some (60 * 1000000000, drop 1 p)
      else if take 1 p = bytes_of ''h'' then Some (3600 * 1000000000, drop 1 p)
      else None)"

lemma read_digits_length: "read_digits v p = Some (n, q) \<Longrightarrow> length q \<le> length p"
  by (induction v p rule: read_digits.induct) (auto split: if_splits)

lemma duration_unit_length: "duration_unit p = Some (m, q) \<Longrightarrow> length q < length p"
  by (cases p) (auto simp: duration_unit_def bytes_of_def split: if_splits)

function duration_loop :: "u64 \<Rightarrow> bytes \<Rightarrow> u64 option" where
  "duration_loop acc_ns p =
     (if p = [] then Some acc_ns
      else if \<not> is_digit (hd p) then None
      else case read_digits 0 p of
          None \<Rightarrow> None
        | Some (n, q) \<Rightarrow>
            (case duration_unit q of
               None \<Rightarrow> None
             | Some (mul, q) \<Rightarrow>
                 if n > 0xFFFFFFFFFFFFFFFF div mul then None
                 else if acc_ns > 0xFFFFFFFFFFFFFFFF - n * mul then None
                 else duration_loop (acc_ns + n * mul) q))"
  by pat_completeness auto
termination
proof (relation "measure (length \<circ> snd)")
  fix acc_ns :: u64 and p :: bytes and y n q y' mul q'
  assume "read_digits 0 p = Some y" "(n, q) = y" "duration_unit q = Some y'" "(mul, q') = y'"
  then have "length q \<le> length p" "length q' < length q"
    using read_digits_length duration_unit_length by blast+
  then show "((acc_ns + n * mul, q'), acc_ns, p) \<in> measure (length \<circ> snd)" by simp
qed simp

declare duration_loop.simps [simp del]

definition parse_go_duration_ns :: "bytes \<Rightarrow> u64 option" where
  "parse_go_duration_ns s = (if s = [] then None else duration_loop 0 s)"

definition read_whole_file :: "auth_crypto \<Rightarrow> bytes \<Rightarrow> cetcd_status \<times> bytes" where
  "read_whole_file C path =
     (case ac_read_file C path of
        None \<Rightarrow> (CETCD_ERR_IO, [])
      | Some b \<Rightarrow> if length b = 0 \<or> length b > 65536 then (CETCD_ERR_INVAL, []) else (CETCD_OK, b))"

text \<open>\<open>None\<close> is the null pointer of an option that was not given.\<close>

definition jwt_apply_spec ::
  "auth_crypto \<Rightarrow> cetcd_auth_store \<Rightarrow> bytes option \<Rightarrow> bytes option \<Rightarrow> bytes option \<Rightarrow> cetcd_status \<times> cetcd_auth_store" where
  "jwt_apply_spec C s sign_method priv_key ttl =
     (if sign_method = None \<or> sign_method = Some [] then (CETCD_ERR_INVAL, s)
      else
        let alg = (if sign_method = Some (bytes_of ''HS256'') then CETCD_JWT_HS256
                   else if sign_method = Some (bytes_of ''RS256'') then CETCD_JWT_RS256
                   else if sign_method = Some (bytes_of ''ES256'') then CETCD_JWT_ES256
                   else CETCD_JWT_NONE)
        in if alg = CETCD_JWT_NONE then (CETCD_ERR_UNSUPPORT, s)
           else if priv_key = None \<or> priv_key = Some [] then (CETCD_ERR_INVAL, s)
           else
             case (case ttl of
                     None \<Rightarrow> Some CETCD_AUTH_JWT_DEFAULT_TTL_NS
                   | Some t \<Rightarrow>
                       if t = [] then Some CETCD_AUTH_JWT_DEFAULT_TTL_NS
                       else (case parse_go_duration_ns t of None \<Rightarrow> None | Some ns \<Rightarrow> if ns = 0 then None else Some ns)) of
               None \<Rightarrow> (CETCD_ERR_INVAL, s)
             | Some ns \<Rightarrow>
                 let s = s\<lparr>as_token_ttl_ns := ns\<rparr>; path = the priv_key in
                 if alg = CETCD_JWT_HS256 then
                   (case read_whole_file C path of (rc, key) \<Rightarrow>
                      if rc \<noteq> CETCD_OK then (rc, s)
                      else (CETCD_OK, s\<lparr>as_jwt_key := key, as_jwt_pkey := None, as_jwt_alg := alg\<rparr>))
                 else
                   (case ac_read_file C path of
                      None \<Rightarrow> (CETCD_ERR_IO, s)
                    | Some pem \<Rightarrow>
                        (case ac_read_pem C pem of
                           None \<Rightarrow> (CETCD_ERR_INVAL, s)
                         | Some pk \<Rightarrow>
                             if alg = CETCD_JWT_RS256 \<and> \<not> ac_is_rsa C pk then (CETCD_ERR_INVAL, s)
                             else if alg = CETCD_JWT_ES256 \<and> \<not> ac_is_ec256 C pk then (CETCD_ERR_INVAL, s)
                             else (CETCD_OK, s\<lparr>as_jwt_key := [], as_jwt_pkey := Some pk, as_jwt_alg := alg\<rparr>))))"

text \<open>
  The options after the first comma. \<open>None\<close> is a malformed or unknown option. An empty option at the
  end of the text ends the loop, an empty one before another is refused.
\<close>

function token_options ::
  "bytes \<Rightarrow> bytes option \<times> bytes option \<times> bytes option \<Rightarrow> (bytes option \<times> bytes option \<times> bytes option) option" where
  "token_options p acc =
     (if p = [] then Some acc
      else
        let item = takeWhile (\<lambda>c. c \<noteq> 44) p; more_items = drop (length item + 1) p;
            k = takeWhile (\<lambda>c. c \<noteq> 61) item; v = drop (length k + 1) item
        in if 61 \<notin> set item \<or> k = [] then None
           else case acc of (sign_method, priv_key, ttl) \<Rightarrow>
             if k = bytes_of ''sign-method'' then token_options more_items (Some v, priv_key, ttl)
             else if k = bytes_of ''priv-key'' then token_options more_items (sign_method, Some v, ttl)
             else if k = bytes_of ''ttl'' then token_options more_items (sign_method, priv_key, Some v)
             else if k = bytes_of ''pub-key'' then token_options more_items acc
             else None)"
  by pat_completeness auto
termination
  by (relation "measure (length \<circ> fst)") (auto simp: Let_def)

declare token_options.simps [simp del]

definition cetcd_auth_set_token_spec ::
  "auth_crypto \<Rightarrow> cetcd_auth_store \<Rightarrow> bytes \<Rightarrow> cetcd_status \<times> cetcd_auth_store" where
  "cetcd_auth_set_token_spec C s spec =
     (if spec = [] \<or> spec = bytes_of ''simple'' then (CETCD_OK, s)
      else if take 7 spec = bytes_of ''simple,'' then (CETCD_OK, s)
      else if take 3 spec \<noteq> bytes_of ''jwt'' \<or> (length spec > 3 \<and> spec ! 3 \<noteq> 44) then (CETCD_ERR_INVAL, s)
      else if length spec \<ge> 512 then (CETCD_ERR_INVAL, s)
      else case token_options (drop 4 spec) (None, None, None) of
          None \<Rightarrow> (CETCD_ERR_INVAL, s)
        | Some (sign_method, priv_key, ttl) \<Rightarrow> jwt_apply_spec C s sign_method priv_key ttl)"

end
