(* ===== verification/Auth_Props.thy ===== *)
theory Auth_Props
  imports Jwt
begin

text \<open>
  What the authentication store guarantees: which keys a permission covers and who passes a
  check, when a password is accepted, what a change of password does to tokens, that users and
  roles survive a restart, and the token of a deleted user.
\<close>

section \<open>Hash tables of records\<close>

lemma hashmap_write_spec:
  assumes ok: "hashmap_ok m"
  shows "hashmap_ok (hashmap_write m key f)"
    and "cetcd_hashmap_get (hashmap_write m key f) j =
      (if j = key then map_option f (cetcd_hashmap_get m key) else cetcd_hashmap_get m j)"
    and "h_cap (hashmap_write m key f) = h_cap m"
    and "h_size (hashmap_write m key f) = h_size m" and "h_tombstones (hashmap_write m key f) = h_tombstones m"
proof -
  let ?m = "hashmap_write m key f"
  have t: "table_ok (h_slots m)" "h_cap m = length (h_slots m)"
    using ok by (auto simp: hashmap_ok_def)
  obtain i found where fs: "find_slot m key (cetcd_hash_fnv1a64 key) = (i, found)" by fastforce
  note spec = find_slot_spec [OF t hashmap_free [OF ok] fs]
  show "h_cap ?m = h_cap m" "h_size ?m = h_size m" "h_tombstones ?m = h_tombstones m"
    by (simp_all add: hashmap_write_def fs)
  have "hashmap_ok ?m \<and> hashmap_map ?m = (hashmap_map m)(key := map_option f (hashmap_map m key))"
  proof (cases found)
    case False
    then have "hashmap_map m key = None" using spec(3) by (simp add: hashmap_map_def)
    then show ?thesis using False ok by (auto simp: hashmap_write_def fs fun_eq_iff)
  next
    case True
    let ?s = "(h_slots m ! i)\<lparr>s_value := map_option f (s_value (h_slots m ! i))\<rparr>"
    have i: "i < length (h_slots m)" by (rule spec(1))
    have o: "occ (h_slots m ! i)" "s_key (h_slots m ! i) = key" "hashmap_map m key = s_value (h_slots m ! i)"
      using spec(2) True by (auto simp: hashmap_map_def)
    have s: "occ ?s" "\<not> free_slot ?s" "\<not> tomb ?s" "\<not> tomb (h_slots m ! i)" using o(1) by (auto simp: occ_def free_slot_def tomb_def)
    have v: "s_hash ?s = cetcd_hash_fnv1a64 (s_key ?s) \<and> s_value ?s \<noteq> None \<and> reach (h_slots m) (s_hash ?s) i"
      using t(1) i o(1) by (auto simp: table_ok_def)
    have fresh: "s_key (h_slots m ! j) \<noteq> s_key ?s" if "j < length (h_slots m)" "j \<noteq> i" "occ (h_slots m ! j)" for j
      using t(1) i o(1) that by (auto simp: table_ok_def)
    note tu = table_update [OF t(1) i s(2) v fresh]
    have u: "table_ok ((h_slots m)[i := ?s])" by (rule tu(1))
    have "table_map ((h_slots m)[i := ?s]) k = ((table_map (h_slots m))(key := map_option f (hashmap_map m key))) k" for k
      using tu(2) [of k] o s(1) by simp
    then have u': "table_map ((h_slots m)[i := ?s]) = (table_map (h_slots m))(key := map_option f (hashmap_map m key))" ..
    have c: "length (filter occ ((h_slots m)[i := ?s])) = length (filter occ (h_slots m))"
      "length (filter tomb ((h_slots m)[i := ?s])) = length (filter tomb (h_slots m))"
      using length_filter_update [OF i, of occ ?s] length_filter_update [OF i, of tomb ?s] o(1) s by auto
    show ?thesis
      using u u' c ok True by (auto simp: hashmap_write_def fs hashmap_ok_def hashmap_map_def)
  qed
  then show "hashmap_ok ?m" "cetcd_hashmap_get ?m j =
      (if j = key then map_option f (cetcd_hashmap_get m key) else cetcd_hashmap_get m j)"
    by (auto simp: hashmap_get_spec ok)
qed

text \<open>The entries of a table in the order of iteration.\<close>

definition hashmap_entries :: "'v cetcd_hashmap \<Rightarrow> (bytes \<times> 'v) list" where
  "hashmap_entries m = map (\<lambda>s. (s_key s, the (s_value s))) (filter occ (h_slots m))"

lemma hashmap_entries_get:
  assumes "hashmap_ok m"
  shows "distinct (map fst (hashmap_entries m))" and "map_of (hashmap_entries m) = cetcd_hashmap_get m"
proof -
  have t: "table_ok (h_slots m)" using assms by (simp add: hashmap_ok_def)
  show d: "distinct (map fst (hashmap_entries m))"
    unfolding hashmap_entries_def using t
    by (auto simp: table_ok_def o_def intro!: table_distinct)
  show "map_of (hashmap_entries m) = cetcd_hashmap_get m"
  proof
    fix k
    show "map_of (hashmap_entries m) k = cetcd_hashmap_get m k"
    proof (cases "hashmap_map m k")
      case None
      then have "k \<notin> fst ` set (hashmap_entries m)"
        using table_map_None [OF t, of k] by (auto simp: hashmap_map_def hashmap_entries_def in_set_conv_nth)
      then show ?thesis using None by (simp add: hashmap_get_spec [OF assms] map_of_eq_None_iff)
    next
      case (Some v)
      then obtain i where "i < length (h_slots m)" "occ (h_slots m ! i)" "s_key (h_slots m ! i) = k" "s_value (h_slots m ! i) = Some v"
        using table_map_Some [OF t, of k v] by (auto simp: hashmap_map_def)
      then have "(k, v) \<in> set (hashmap_entries m)" by (force simp: hashmap_entries_def)
      then show ?thesis using Some d by (simp add: hashmap_get_spec [OF assms])
    qed
  qed
qed

lemma hashmap_iter_entries:
  assumes "hashmap_ok m" and "\<And>k v u. snd (f k (Some v) u)"
  shows "cetcd_hashmap_iter m f u = fold (\<lambda>e u. fst (f (fst e) (Some (snd e)) u)) (hashmap_entries m) u"
proof -
  have val: "\<exists>v. s_value s = Some v" if "s \<in> set (h_slots m)" "occ s" for s
    using assms(1) that by (auto simp: hashmap_ok_def table_ok_def in_set_conv_nth)
  have "hashmap_iter_loop sl f u = fold (\<lambda>e u. fst (f (fst e) (Some (snd e)) u)) (map (\<lambda>s. (s_key s, the (s_value s))) (filter occ sl)) u"
    if "\<forall>s \<in> set sl. occ s \<longrightarrow> (\<exists>v. s_value s = Some v)" for sl u
    using that
  proof (induction sl arbitrary: u)
    case (Cons s sl)
    show ?case
    proof (cases "occ s")
      case True
      then obtain v where v: "s_value s = Some v" using Cons.prems by auto
      obtain u' where "f (s_key s) (Some v) u = (u', True)" using assms(2) [of "s_key s" v u] by (metis (full_types) prod.collapse)
      with True v Cons show ?thesis by (simp add: occ_def)
    qed (use Cons in \<open>simp add: occ_def\<close>)
  qed simp
  then show ?thesis using val by (auto simp: cetcd_hashmap_iter_def hashmap_entries_def)
qed

lemma hashmap_removes_spec:
  assumes "hashmap_ok m"
  shows "hashmap_ok (auth_drop_collected_tokens m keys) \<and>
    cetcd_hashmap_get (auth_drop_collected_tokens m keys) j = (if j \<in> set keys then None else cetcd_hashmap_get m j)"
  using assms unfolding auth_drop_collected_tokens_def
proof (induction keys arbitrary: m)
  case (Cons k keys)
  have "hashmap_ok (snd (snd (cetcd_hashmap_remove m k)))" by (rule hm.ok_del [OF Cons.prems])
  from Cons.IH [OF this] show ?case by (simp add: hm.get_del [OF Cons.prems])
qed simp

lemma hashmap_new_8: "cetcd_hashmap_new 8 = Some (map_alloc_table 8)"
  by (simp add: cetcd_hashmap_new_def CETCD_HASHMAP_MIN_CAP_def next_pow2_def next_pow2_loop.simps)

section \<open>Tokens\<close>

text \<open>Revoking the tokens of a user keeps exactly the others.\<close>

lemma collect_tokens:
  "fold (\<lambda>e keys. fst (auth_collect_user_tokens n (fst e) (Some (snd e)) keys)) es keys =
     keys @ map fst (filter (\<lambda>e. te_username (snd e) = n) es)"
  by (induction es arbitrary: keys) (auto simp: auth_collect_user_tokens_def)

lemma revoke_user_tokens_get:
  assumes "hashmap_ok (as_tokens s)" and "as_jwt_alg s = 0"
  shows "hashmap_ok (as_tokens (cetcd_auth_revoke_user_tokens s n))"
    and "cetcd_hashmap_get (as_tokens (cetcd_auth_revoke_user_tokens s n)) t =
      (case cetcd_hashmap_get (as_tokens s) t of
         Some ent \<Rightarrow> if te_username ent = n then None else Some ent
       | None \<Rightarrow> None)"
proof -
  let ?es = "hashmap_entries (as_tokens s)"
  note es = hashmap_entries_get [OF assms(1)]
  have keys: "cetcd_hashmap_iter (as_tokens s) (auth_collect_user_tokens n) [] = map fst (filter (\<lambda>e. te_username (snd e) = n) ?es)"
    by (subst hashmap_iter_entries [OF assms(1)]) (simp_all add: collect_tokens, simp add: auth_collect_user_tokens_def)
  note drop = hashmap_removes_spec [OF assms(1), of "map fst (filter (\<lambda>e. te_username (snd e) = n) ?es)"]
  have mem: "t \<in> fst ` set (filter (\<lambda>e. te_username (snd e) = n) ?es) \<longleftrightarrow>
      (\<exists>ent. cetcd_hashmap_get (as_tokens s) t = Some ent \<and> te_username ent = n)" for t
    unfolding es(2) [symmetric] using es(1) by (force simp: image_iff)
  show "hashmap_ok (as_tokens (cetcd_auth_revoke_user_tokens s n))"
    using drop assms(2) by (simp add: cetcd_auth_revoke_user_tokens_def keys)
  show "cetcd_hashmap_get (as_tokens (cetcd_auth_revoke_user_tokens s n)) t =
      (case cetcd_hashmap_get (as_tokens s) t of
         Some ent \<Rightarrow> if te_username ent = n then None else Some ent
       | None \<Rightarrow> None)"
    using drop assms(2) mem [of t] by (auto simp: cetcd_auth_revoke_user_tokens_def keys split: option.split)
qed

section \<open>Ranges and permissions\<close>

lemma memcmp_order:
  "(let n = (if length a < length b then length a else length b); c = memcmp a b n
    in c > 0 \<or> (c = 0 \<and> length a \<ge> length b)) \<longleftrightarrow> b \<le> a"
  "(let n = (if length a < length b then length a else length b); c = memcmp a b n
    in c < 0 \<or> (c = 0 \<and> length a < length b)) \<longleftrightarrow> a < b"
proof -
  show "(let n = (if length a < length b then length a else length b); c = memcmp a b n
    in c > 0 \<or> (c = 0 \<and> length a \<ge> length b)) \<longleftrightarrow> b \<le> a"
    using cetcd_slice_compare_iff(4) [of a b] by (auto simp: cetcd_slice_compare_def Let_def min_def split: if_splits)
  show "(let n = (if length a < length b then length a else length b); c = memcmp a b n
    in c < 0 \<or> (c = 0 \<and> length a < length b)) \<longleftrightarrow> a < b"
    using cetcd_slice_compare_iff(1) [of a b] by (auto simp: cetcd_slice_compare_def Let_def min_def split: if_splits)
qed

definition key_interval :: "bytes \<Rightarrow> bytes \<Rightarrow> bytes set" where
  "key_interval lo hi = (if hi = [] then {k. \<exists>t. k = lo @ t} else {k. lo \<le> k \<and> (hi = [0] \<or> k < hi)})"

lemma perm_covers_interval: "cetcd_auth_perm_covers key lo hi \<longleftrightarrow> key \<in> key_interval lo hi"
proof -
  have pre: "auth_prefix_match lo key \<longleftrightarrow> (\<exists>t. key = lo @ t)"
    by (auto simp: auth_prefix_match_def memcmp_zero_iff not_less) (metis append_take_drop_id)
  have one: "length hi = 1 \<and> hi ! 0 = 0 \<longleftrightarrow> hi = [0]" by (cases hi) auto
  show ?thesis
    unfolding cetcd_auth_perm_covers_def key_interval_def memcmp_order one pre by auto
qed

text \<open>
  C30. Who may read or write a key. With authentication enabled a user passes the check if and
  only if the name is \<^verbatim>\<open>root\<close>, or the user exists and holds the role \<^verbatim>\<open>root\<close>, or holds an
  existing role whose permission has the right kind, where writing includes reading, and
  whose interval contains the key: all extensions of the prefix, or the half-open interval of
  the byte order, without an upper end if that is a single zero byte.
\<close>

theorem auth_check_perm_spec:
  "cetcd_auth_check_perm s username key want_write \<longleftrightarrow>
     (if as_enabled s then
        username = ROOT \<or>
        (\<exists>u. cetcd_find_user s username = Some u \<and>
           (ROOT \<in> set (u_roles u) \<or>
            (\<exists>p r. p \<in> set (u_roles u) \<and> cetcd_find_role s p = Some r \<and>
               (if want_write then ro_perm_write r else ro_perm_read r \<or> ro_perm_write r) \<and>
               key \<in> key_interval (ro_key_prefix r) (ro_range_end r))))
      else True)"
proof -
  have root: "length p = 4 \<and> memcmp p ROOT 4 = 0 \<longleftrightarrow> p = ROOT" for p
    by (auto simp: memcmp_zero_iff ROOT_def)
  have role: "role_allows s key want_write p \<longleftrightarrow> (\<exists>r. cetcd_find_role s p = Some r \<and>
      (if want_write then ro_perm_write r else ro_perm_read r \<or> ro_perm_write r) \<and>
      key \<in> key_interval (ro_key_prefix r) (ro_range_end r))" for p
    by (auto simp: role_allows_def perm_covers_interval split: option.split)
  show ?thesis
    unfolding cetcd_auth_check_perm_def cetcd_auth_is_admin_def root
    by (auto simp: list_ex_iff role split: option.split)
qed

section \<open>Passwords\<close>

lemma xor_zero_iff [simp]: "(a :: 'a::len word) XOR b = 0 \<longleftrightarrow> a = b"
  using xor_left_cancel [of a b a] by auto

lemma ucast_byte_zero [simp]: "(ucast (x :: byte) :: u32) = 0 \<longleftrightarrow> x = 0"
  using ucast_byte_inject(1) [of x 0] by simp

lemma xor_diff_zero: "length a = length b \<Longrightarrow> xor_diff a b = 0 \<longleftrightarrow> a = b"
  by (induction a b rule: xor_diff.induct) (auto simp: or_eq_0_iff)

text \<open>
  A password is accepted if and only if its hash is the stored one: the SHA-256 digest for a
  hash of 32 bytes, the result of \<^verbatim>\<open>crypt_r\<close> with the stored hash as setting for a longer one.
  The comparison that visits all bytes decides equality.
\<close>

theorem auth_check_password_spec:
  assumes "\<forall>p. length (ac_sha256 C p) = 32"
  shows "cetcd_auth_check_password C s name password \<longleftrightarrow>
    (\<exists>u. cetcd_find_user s name = Some u \<and> length (u_password_hash u) \<le> 64 \<and>
       (if length (u_password_hash u) > 32
        then ac_crypt C password (cstr (u_password_hash u)) = Some (u_password_hash u) \<and> hd (u_password_hash u) \<noteq> 42
        else ac_sha256 C password = u_password_hash u))"
proof -
  have long: "(case ac_crypt C password (cstr stored) of None \<Rightarrow> False
      | Some got \<Rightarrow> if got \<noteq> [] \<and> hd got = 42 then False
          else (if length got \<noteq> length stored then 1 else 0) OR xor_diff got stored = 0) \<longleftrightarrow>
      ac_crypt C password (cstr stored) = Some stored \<and> hd stored \<noteq> 42" if "length stored > 32" for stored
    using that xor_diff_zero [of "the (ac_crypt C password (cstr stored))" stored]
    by (cases "ac_crypt C password (cstr stored)") (auto simp: or_eq_0_iff split: if_splits)
  have short: "(if length stored \<noteq> 32 then 1 else 0) OR xor_diff stored (ac_sha256 C password) = 0 \<longleftrightarrow>
      ac_sha256 C password = stored" for stored
    using assms [rule_format, of password] xor_diff_zero [of stored "ac_sha256 C password"]
    by (cases "length stored = 32") (auto simp: or_eq_0_iff)
  show ?thesis
  proof (cases "cetcd_hashmap_get (as_users s) name")
    case None
    then show ?thesis by (simp add: cetcd_auth_check_password_def cetcd_find_user_def)
  next
    case (Some u)
    show ?thesis
      by (cases "length (u_password_hash u) > 32")
        (simp_all add: cetcd_auth_check_password_def cetcd_find_user_def Let_def hash_password_def short long Some not_le)
  qed
qed

definition auth_ok :: "cetcd_auth_store \<Rightarrow> bool" where
  "auth_ok s \<longleftrightarrow> hashmap_ok (as_users s) \<and> hashmap_ok (as_roles s) \<and> hashmap_ok (as_tokens s)"

lemma user_for_token_get:
  "as_jwt_alg s = 0 \<Longrightarrow> fst (cetcd_auth_user_for_token C s token now) = Some n \<longleftrightarrow>
     token \<noteq> [] \<and> (\<exists>ent. cetcd_hashmap_get (as_tokens s) token = Some ent \<and> te_username ent = n \<and> now < te_expires_ns ent)"
  by (auto simp: cetcd_auth_user_for_token_def user_for_simple_token_def split: option.split)

text \<open>
  What the documentation of libcrypt promises of bcrypt: with a setting of \<^verbatim>\<open>crypt_gensalt_rn\<close>, \<^verbatim>\<open>crypt_r\<close> returns a string
  of 60 characters, or a failure token that starts with an asterisk, and that string is itself a setting with which
  the same password gives the same string.
\<close>

definition crypt_law :: "auth_crypto \<Rightarrow> bool" where
  "crypt_law C \<longleftrightarrow> (\<forall>cost setting p h. ac_gensalt C cost = Some setting \<longrightarrow> ac_crypt C p setting = Some h \<longrightarrow>
     h \<noteq> [] \<and> hd h = 42 \<or> length h = 60 \<and> 0 \<notin> set h \<and> ac_crypt C p h = Some h)"

lemma fill_password_hash_accepts:
  assumes "fill_password_hash C s password = (CETCD_OK, h)" and "\<forall>p. length (ac_sha256 C p) = 32" and "crypt_law C"
    and "cetcd_hashmap_get (as_users s') name = Some u" and "u_password_hash u = h"
  shows "cetcd_auth_check_password C s' name password"
proof (cases "as_bcrypt_cost s = 0")
  case True
  then have "h = ac_sha256 C password" using assms(1) by (simp add: fill_password_hash_def hash_password_def)
  then show ?thesis
    using assms(2,4,5) xor_diff_zero [of h h] by (simp add: cetcd_auth_check_password_def hash_password_def)
next
  case False
  then obtain setting where "ac_gensalt C (as_bcrypt_cost s) = Some setting" "ac_crypt C password setting = Some h" "\<not> (h \<noteq> [] \<and> hd h = 42)"
    using assms(1) by (auto simp: fill_password_hash_def split: option.splits if_splits)
  then have "length h = 60" "0 \<notin> set h" "ac_crypt C password h = Some h"
    using assms(3) unfolding crypt_law_def by blast+
  moreover from \<open>0 \<notin> set h\<close> have "cstr h = h" by (auto simp: cstr_def takeWhile_eq_all_conv)
  ultimately show ?thesis
    using assms(4,5) xor_diff_zero [of h h] \<open>\<not> (h \<noteq> [] \<and> hd h = 42)\<close>
    by (auto simp: cetcd_auth_check_password_def Let_def)
qed

text \<open>
  C31. Changing a password takes effect at once, for SHA-256 and for bcrypt hashes: the new password is accepted and,
  when the store issues simple tokens, no token of the
  user is valid any more at any time, and the tokens of all other users are as before.
\<close>

theorem auth_change_password_effect:
  assumes "auth_ok s" and "as_jwt_alg s = 0" and "\<forall>p. length (ac_sha256 C p) = 32" and "crypt_law C"
    and "cetcd_auth_change_password C s name password = (CETCD_OK, s')"
  shows "cetcd_auth_check_password C s' name password \<and>
    (\<forall>token now n. fst (cetcd_auth_user_for_token C s' token now) = Some n \<longleftrightarrow>
       n \<noteq> name \<and> fst (cetcd_auth_user_for_token C s token now) = Some n)"
proof -
  obtain h where h: "fill_password_hash C s password = (CETCD_OK, h)"
    using assms(5) by (auto simp: cetcd_auth_change_password_def split: prod.splits if_splits)
  let ?s = "s\<lparr>as_users := hashmap_write (as_users s) name (\<lambda>u. u\<lparr>u_password_hash := h\<rparr>)\<rparr>"
  have ok: "hashmap_ok (as_users s)" "hashmap_ok (as_tokens ?s)" "as_jwt_alg ?s = 0" using assms(1,2) by (auto simp: auth_ok_def)
  obtain u where u: "cetcd_hashmap_get (as_users s) name = Some u"
    using assms(5) by (auto simp: cetcd_auth_change_password_def cetcd_find_user_def split: if_splits)
  then have s': "s' = cetcd_auth_revoke_user_tokens ?s name"
    using h assms(5) by (auto simp: cetcd_auth_change_password_def cetcd_find_user_def)
  have users: "as_users s' = as_users ?s" by (simp add: s' cetcd_auth_revoke_user_tokens_def)
  have "cetcd_hashmap_get (as_users s') name = Some (u\<lparr>u_password_hash := h\<rparr>)"
    unfolding users using u by (simp add: hashmap_write_spec(2) [OF ok(1)])
  then have "cetcd_auth_check_password C s' name password"
    by (rule fill_password_hash_accepts [OF h assms(3,4)]) simp
  moreover have "cetcd_hashmap_get (as_tokens s') t = (case cetcd_hashmap_get (as_tokens s) t of
         Some ent \<Rightarrow> if te_username ent = name then None else Some ent | None \<Rightarrow> None)" for t
    using revoke_user_tokens_get(2) [OF ok(2,3), of name t] by (simp add: s')
  moreover have "as_jwt_alg s' = 0" using assms(2) by (simp add: s' cetcd_auth_revoke_user_tokens_def)
  ultimately show ?thesis
    using assms(2) by (auto simp: user_for_token_get split: option.splits if_splits)
qed

text \<open>
  C32. Deleting a user does not end the sessions of that user. A simple token that was valid stays valid
  after \<^verbatim>\<open>cetcd_auth_remove_user\<close>: requests that carry it are still attributed to the deleted
  name, with all rights if that is \<^verbatim>\<open>root\<close>, and with the rights of the new user if the name is
  given out again.
\<close>

theorem deleted_user_keeps_token:
  assumes "fst (cetcd_auth_user_for_token C s token now) = Some name" and "auth_ok s" and "as_jwt_alg s = 0"
    and "cetcd_auth_remove_user s name = (CETCD_OK, s')"
  shows "\<not> cetcd_auth_has_user s' name \<and> fst (cetcd_auth_user_for_token C s' token now) = Some name \<and>
    (name = ROOT \<longrightarrow> cetcd_auth_is_admin s' name \<and> (\<forall>key w. cetcd_auth_check_perm s' name key w))"
proof -
  have s': "s' = s\<lparr>as_users := snd (snd (cetcd_hashmap_remove (as_users s) name))\<rparr>"
    using assms(4) by (auto simp: cetcd_auth_remove_user_def split: if_splits prod.splits)
  have "cetcd_hashmap_get (as_users s') name = None"
    using assms(2) by (simp add: s' auth_ok_def hm.get_del)
  then show ?thesis
    using assms(1,3) by (auto simp: s' cetcd_auth_has_user_def user_for_token_get cetcd_auth_is_admin_def cetcd_auth_check_perm_def)
qed

section \<open>Saving and loading\<close>

lemma load_save_u16 [simp]: "n < 65536 \<Longrightarrow> auth_load_u16 (auth_save_u16 n @ rest) = n"
  by (simp add: auth_load_u16_def auth_save_u16_def unat_of_nat)

lemma length_save_u16 [simp]: "length (auth_save_u16 n) = 2"
  by (simp add: auth_save_u16_def)

lemma cstr_no_zero [simp]: "0 \<notin> set r \<Longrightarrow> cstr (r @ 0 # rest) = r"
  by (induction r) (auto simp: cstr_def)

lemma cstr_self [simp]: "0 \<notin> set r \<Longrightarrow> cstr r = r"
  by (auto simp: cstr_def takeWhile_eq_all_conv)

lemma split_roles_blob [simp]:
  "\<forall>r \<in> set rs. 0 \<notin> set r \<Longrightarrow> split_roles (length rs) (roles_blob rs) = rs"
  by (induction rs) (auto simp: roles_blob_def)

definition user_rec :: "bytes \<Rightarrow> cetcd_user \<Rightarrow> bytes" where
  "user_rec k u = fst (auth_save_user_cb k (Some u) [])"

definition role_rec :: "bytes \<Rightarrow> cetcd_role \<Rightarrow> bytes" where
  "role_rec k r = fst (auth_save_role_cb k (Some r) [])"

text \<open>The limits of the record format.\<close>

definition user_ok :: "bytes \<Rightarrow> cetcd_user \<Rightarrow> bool" where
  "user_ok k u \<longleftrightarrow> u_name u = k \<and> length k \<le> 127 \<and> 0 \<notin> set k \<and> length (u_password_hash u) \<le> 64 \<and>
     (\<forall>r \<in> set (u_roles u). 0 \<notin> set r) \<and> length (u_roles u) < 65536 \<and> length (roles_blob (u_roles u)) < 65536"

definition role_ok :: "bytes \<Rightarrow> cetcd_role \<Rightarrow> bool" where
  "role_ok k r \<longleftrightarrow> ro_name r = k \<and> length k \<le> 127 \<and> 0 \<notin> set k \<and>
     length (ro_key_prefix r) < 256 \<and> length (ro_range_end r) < 256"

lemma hashmap_put_status [simp]: "fst (cetcd_hashmap_put m k v) = CETCD_OK"
  by (simp add: cetcd_hashmap_put_def Let_def split: prod.split)

lemma load_users_rec:
  assumes "user_ok k u"
  shows "load_users (user_rec k u @ rest) m = load_users rest (snd (cetcd_hashmap_put m k u))"
proof -
  have rec: "user_rec k u = auth_save_u16 (length k) @ k @ [of_nat (length (u_password_hash u))] @ u_password_hash u @
      auth_save_u16 (length (u_roles u)) @ auth_save_u16 (length (roles_blob (u_roles u))) @ roles_blob (u_roles u)"
    using assms by (auto simp: user_rec_def auth_save_user_cb_def user_ok_def Let_def)
  have hl: "unat (of_nat (length (u_password_hash u)) :: byte) = length (u_password_hash u)"
    using assms by (simp add: user_ok_def unat_of_nat)
  have u: "u = \<lparr>u_name = k, u_roles = u_roles u, u_password_hash = u_password_hash u\<rparr>"
    using assms by (simp add: user_ok_def)
  have k: "take (if length k < 127 then length k else 127) (k @ xs) = k" for xs
    using assms by (auto simp: user_ok_def)
  have b: "length k < 65536" "length (u_roles u) < 65536" "length (roles_blob (u_roles u)) < 65536" "0 \<notin> set k"
      "\<forall>r \<in> set (u_roles u). 0 \<notin> set r" "\<not> 64 < length (u_password_hash u)" "take 127 k = k"
    using assms by (auto simp: user_ok_def)
  show ?thesis
    unfolding rec append_assoc
    by (subst load_users.simps) (simp add: b k hl Let_def u [symmetric] case_prod_beta)
qed

lemma load_roles_rec:
  assumes "role_ok k r"
  shows "load_roles True (role_rec k r @ rest) m = load_roles True rest (snd (cetcd_hashmap_put m k r))"
proof -
  have rec: "role_rec k r = auth_save_u16 (length k) @ k @ [of_bool (ro_perm_read r), of_bool (ro_perm_write r)] @
      auth_save_u16 (length (ro_key_prefix r)) @ ro_key_prefix r @ auth_save_u16 (length (ro_range_end r)) @ ro_range_end r"
    using assms by (auto simp: role_rec_def auth_save_role_cb_def role_ok_def Let_def)
  have r: "r = \<lparr>ro_name = k, ro_perm_read = ro_perm_read r, ro_perm_write = ro_perm_write r,
      ro_key_prefix = ro_key_prefix r, ro_range_end = ro_range_end r\<rparr>"
    using assms by (simp add: role_ok_def)
  have k: "take (if length k < 127 then length k else 127) (k @ xs) = k" for xs
    using assms by (auto simp: role_ok_def)
  have b: "length k < 65536" "length (ro_key_prefix r) < 65536" "length (ro_range_end r) < 65536" "0 \<notin> set k"
      "length (ro_key_prefix r) < 256" "length (ro_range_end r) < 256" "take 127 k = k"
    using assms by (auto simp: role_ok_def)
  show ?thesis
    unfolding rec append_assoc
    by (subst load_roles.simps) (simp add: b k Let_def r [symmetric] case_prod_beta)
qed

text \<open>Reading the records back inserts the entries one after the other.\<close>

definition put_all :: "(bytes \<times> 'v) list \<Rightarrow> 'v cetcd_hashmap \<Rightarrow> 'v cetcd_hashmap" where
  "put_all es m = fold (\<lambda>e m. snd (cetcd_hashmap_put m (fst e) (snd e))) es m"

lemma load_users_all:
  "\<forall>e \<in> set es. user_ok (fst e) (snd e) \<Longrightarrow>
     load_users (concat (map (\<lambda>e. user_rec (fst e) (snd e)) es)) m = (CETCD_OK, put_all es m)"
  by (induction es arbitrary: m) (simp_all add: load_users_rec put_all_def, simp add: load_users.simps)

lemma load_roles_all:
  "\<forall>e \<in> set es. role_ok (fst e) (snd e) \<Longrightarrow>
     load_roles True (concat (map (\<lambda>e. role_rec (fst e) (snd e)) es)) m = (CETCD_OK, put_all es m)"
  by (induction es arbitrary: m) (simp_all add: load_roles_rec put_all_def, simp add: load_roles.simps)

lemma put_all_spec:
  assumes "cap_bound n m" and "n + length es \<le> 2 ^ 60" and "distinct (map fst es)"
  shows "hashmap_ok (put_all es m) \<and>
    cetcd_hashmap_get (put_all es m) k = (case map_of es k of None \<Rightarrow> cetcd_hashmap_get m k | Some v \<Rightarrow> Some v)"
  using assms unfolding put_all_def
proof (induction es arbitrary: n m)
  case Nil
  then show ?case by (simp add: cap_bound_def)
next
  case (Cons e es)
  have ok: "hashmap_ok m" "h_cap m < 2 ^ 63" using Cons.prems(1,2) by (auto simp: cap_bound_def)
  have "cap_bound (Suc n) (snd (cetcd_hashmap_put m (fst e) (snd e)))"
    using Cons.prems(1,2) by (intro cap_bound_put) auto
  from Cons.IH [OF this] Cons.prems(2,3) show ?case
    by (auto simp: hm.get_put [OF ok] map_of_eq_None_iff image_iff split: option.split)
qed

lemma save_users_buf:
  assumes "hashmap_ok m"
  shows "cetcd_hashmap_iter m auth_save_user_cb [] = concat (map (\<lambda>e. user_rec (fst e) (snd e)) (hashmap_entries m))"
proof -
  have cb: "fst (auth_save_user_cb k (Some u) buf) = buf @ user_rec k u" for k u buf
    by (simp add: auth_save_user_cb_def user_rec_def Let_def)
  have "fold (\<lambda>e buf. fst (auth_save_user_cb (fst e) (Some (snd e)) buf)) es buf = buf @ concat (map (\<lambda>e. user_rec (fst e) (snd e)) es)" for es buf
    by (induction es arbitrary: buf) (simp_all add: cb)
  then show ?thesis by (subst hashmap_iter_entries [OF assms]) (simp_all add: auth_save_user_cb_def Let_def)
qed

lemma save_roles_buf:
  assumes "hashmap_ok m"
  shows "cetcd_hashmap_iter m auth_save_role_cb buf0 = buf0 @ concat (map (\<lambda>e. role_rec (fst e) (snd e)) (hashmap_entries m))"
proof -
  have cb: "fst (auth_save_role_cb k (Some u) buf) = buf @ role_rec k u" for k u buf
    by (simp add: auth_save_role_cb_def role_rec_def Let_def)
  have "fold (\<lambda>e buf. fst (auth_save_role_cb (fst e) (Some (snd e)) buf)) es buf = buf @ concat (map (\<lambda>e. role_rec (fst e) (snd e)) es)" for es buf
    by (induction es arbitrary: buf) (simp_all add: cb)
  then show ?thesis by (subst hashmap_iter_entries [OF assms]) (simp_all add: auth_save_role_cb_def Let_def)
qed

context lmdb_laws
begin

lemma txn_put_view:
  "cetcd_txn_put L t b k x = (CETCD_OK, t') \<Longrightarrow> txn_view t' = vset (txn_view t) b k (Some x)"
  by (auto simp: cetcd_txn_put_def lmdb_error_def get_dbi_view dest!: mdb_put_view split: prod.splits if_splits)

lemma auth_save_view:
  assumes "cetcd_auth_save L s be = (CETCD_OK, be')"
  shows "env_view be' AUTH_BUCKET AUTH_KEY_ENABLED = Some [of_bool (as_enabled s)]"
    and "env_view be' AUTH_BUCKET AUTH_KEY_USERS = Some (cetcd_hashmap_iter (as_users s) auth_save_user_cb [])"
    and "env_view be' AUTH_BUCKET AUTH_KEY_ROLES = Some (cetcd_hashmap_iter (as_roles s) auth_save_role_cb [0xFF, 0x52, 0x01])"
proof -
  have keys: "AUTH_KEY_ENABLED \<noteq> AUTH_KEY_USERS" "AUTH_KEY_ENABLED \<noteq> AUTH_KEY_ROLES" "AUTH_KEY_USERS \<noteq> AUTH_KEY_ROLES"
    by code_simp+
  obtain t t1 t2 t3 where t: "cetcd_txn_put L t AUTH_BUCKET AUTH_KEY_ENABLED [of_bool (as_enabled s)] = (CETCD_OK, t1)"
    "cetcd_txn_put L t1 AUTH_BUCKET AUTH_KEY_USERS (cetcd_hashmap_iter (as_users s) auth_save_user_cb []) = (CETCD_OK, t2)"
    "cetcd_txn_put L t2 AUTH_BUCKET AUTH_KEY_ROLES (cetcd_hashmap_iter (as_roles s) auth_save_role_cb [0xFF, 0x52, 0x01]) = (CETCD_OK, t3)"
    "cetcd_txn_commit L be t3 = (CETCD_OK, be')"
    using assms by (auto simp: cetcd_auth_save_def Let_def split: option.splits prod.splits if_splits)
  have "env_view be' = txn_view t3" using txn_commit_view [OF t(4)] by simp
  with keys show "env_view be' AUTH_BUCKET AUTH_KEY_ENABLED = Some [of_bool (as_enabled s)]"
    "env_view be' AUTH_BUCKET AUTH_KEY_USERS = Some (cetcd_hashmap_iter (as_users s) auth_save_user_cb [])"
    "env_view be' AUTH_BUCKET AUTH_KEY_ROLES = Some (cetcd_hashmap_iter (as_roles s) auth_save_role_cb [0xFF, 0x52, 0x01])"
    using txn_put_view [OF t(1)] txn_put_view [OF t(2)] txn_put_view [OF t(3)] by simp_all
qed

lemma backend_get_some:
  assumes "env_view be b k = Some x" and "fst (cetcd_backend_get L be b k) \<in> {CETCD_OK, CETCD_ERR_NOTFOUND}"
  shows "cetcd_backend_get L be b k = (CETCD_OK, Some x)"
proof -
  obtain rc y where g: "cetcd_backend_get L be b k = (rc, y)" by fastforce
  from backend_get [OF g] assms g show ?thesis by auto
qed

lemma auth_loaded:
  assumes "cetcd_auth_load L s0 be = (CETCD_OK, s')"
    and "env_view be AUTH_BUCKET AUTH_KEY_ENABLED = Some [en]"
    and "env_view be AUTH_BUCKET AUTH_KEY_USERS = Some us" and "load_users us (as_users s0) = (CETCD_OK, um)"
    and "env_view be AUTH_BUCKET AUTH_KEY_ROLES = Some ([0xFF, 0x52, 0x01] @ rs)" and "load_roles True rs (as_roles s0) = (CETCD_OK, rm)"
  shows "s' = s0\<lparr>as_enabled := (en \<noteq> 0), as_users := um, as_roles := rm\<rparr>"
proof -
  have e: "cetcd_backend_get L be AUTH_BUCKET AUTH_KEY_ENABLED = (CETCD_OK, Some [en])"
    by (rule backend_get_some [OF assms(2)]) (use assms(1) in \<open>auto simp: cetcd_auth_load_def split: prod.splits if_splits\<close>)
  have u: "cetcd_backend_get L be AUTH_BUCKET AUTH_KEY_USERS = (CETCD_OK, Some us)"
    by (rule backend_get_some [OF assms(3)]) (use assms(1) e in \<open>auto simp: cetcd_auth_load_def Let_def split: prod.splits if_splits\<close>)
  have r: "cetcd_backend_get L be AUTH_BUCKET AUTH_KEY_ROLES = (CETCD_OK, Some ([0xFF, 0x52, 0x01] @ rs))"
    by (rule backend_get_some [OF assms(5)]) (use assms(1,4) e u in \<open>auto simp: cetcd_auth_load_def Let_def split: prod.splits if_splits\<close>)
  show ?thesis using assms(1,4,6) by (simp add: cetcd_auth_load_def e u r Let_def)
qed

end

text \<open>
  C33. Users, roles and the enabled flag survive a restart: saving a store and loading it into a
  new one, when the backend reports no failure, gives the same users with their password hashes
  and roles in order, the same roles with their permissions, and therefore the same answer to
  every permission check and every password, as long as the store is within the limits of the
  record format.
\<close>

theorem auth_save_load:
  assumes "lmdb_laws L env_view txn_view" and "auth_ok s"
    and "\<forall>k u. cetcd_find_user s k = Some u \<longrightarrow> user_ok k u" and "\<forall>k r. cetcd_find_role s k = Some r \<longrightarrow> role_ok k r"
    and "h_size (as_users s) < 2 ^ 59" and "h_size (as_roles s) < 2 ^ 59"
    and "cetcd_auth_save L s be = (CETCD_OK, be')"
    and "cetcd_auth_store_new = Some s0" and "cetcd_auth_load L s0 be' = (CETCD_OK, s')"
  shows "cetcd_find_user s' = cetcd_find_user s \<and> cetcd_find_role s' = cetcd_find_role s \<and>
    (\<forall>username key w. cetcd_auth_check_perm s' username key w = cetcd_auth_check_perm s username key w) \<and>
    (\<forall>C name password. cetcd_auth_check_password C s' name password = cetcd_auth_check_password C s name password)"
proof -
  let ?us = "hashmap_entries (as_users s)" and ?rs = "hashmap_entries (as_roles s)"
  have ok: "hashmap_ok (as_users s)" "hashmap_ok (as_roles s)" using assms(2) by (auto simp: auth_ok_def)
  note ue = hashmap_entries_get [OF ok(1)] and re = hashmap_entries_get [OF ok(2)]
  have new: "as_users s0 = map_alloc_table 8" "as_roles s0 = map_alloc_table 8"
    using assms(8) by (auto simp: cetcd_auth_store_new_def hashmap_new_8)
  have len: "length ?us \<le> 2 ^ 60" "length ?rs \<le> 2 ^ 60"
    using assms(5,6) ok by (auto simp: hashmap_entries_def hashmap_ok_def)
  have uok: "\<forall>e \<in> set ?us. user_ok (fst e) (snd e)"
    using assms(3) ue(1) unfolding cetcd_find_user_def ue(2) [symmetric] by simp
  have rok: "\<forall>e \<in> set ?rs. role_ok (fst e) (snd e)"
    using assms(4) re(1) unfolding cetcd_find_role_def re(2) [symmetric] by simp
  note view = lmdb_laws.auth_save_view [OF assms(1,7)]
  have s': "s' = s0\<lparr>as_enabled := (of_bool (as_enabled s) \<noteq> (0 :: byte)), as_users := put_all ?us (as_users s0), as_roles := put_all ?rs (as_roles s0)\<rparr>"
    by (rule lmdb_laws.auth_loaded [OF assms(1,9) view(1) view(2) _ view(3) [unfolded save_roles_buf [OF ok(2)]]])
      (simp_all add: save_users_buf ok load_users_all [OF uok] load_roles_all [OF rok])
  note pu = put_all_spec [OF cap_bound_new, of ?us] and pr = put_all_spec [OF cap_bound_new, of ?rs]
  have fu: "cetcd_find_user s' = cetcd_find_user s"
  proof
    fix k
    show "cetcd_find_user s' k = cetcd_find_user s k"
      using pu [of k] len(1) ue by (simp add: s' new cetcd_find_user_def hm.get_empty split: option.splits)
  qed
  have fr: "cetcd_find_role s' = cetcd_find_role s"
  proof
    fix k
    show "cetcd_find_role s' k = cetcd_find_role s k"
      using pr [of k] len(2) re by (simp add: s' new cetcd_find_role_def hm.get_empty split: option.splits)
  qed
  have en: "as_enabled s' = as_enabled s" by (simp add: s')
  have "cetcd_auth_check_perm s' username key w = cetcd_auth_check_perm s username key w" for username key w
    unfolding cetcd_auth_check_perm_def cetcd_auth_is_admin_def role_allows_def [abs_def] fu fr en ..
  moreover have "cetcd_auth_check_password C s' name password = cetcd_auth_check_password C s name password" for C name password
    unfolding cetcd_auth_check_password_def cetcd_find_user_def [symmetric] fu ..
  ultimately show ?thesis using fu fr by simp
qed

section \<open>A small store\<close>

lemma auth_store_new_eq [code]:
  "cetcd_auth_store_new =
     Some \<lparr>as_users = map_alloc_table 8, as_roles = map_alloc_table 8, as_tokens = map_alloc_table 8, as_enabled = False,
           as_token_ttl_ns = CETCD_AUTH_DEFAULT_TOKEN_TTL_NS, as_token_seq = 0, as_bcrypt_cost = 0, as_jwt_alg = 0,
           as_jwt_key = [], as_jwt_pkey = None, as_jwt_user = []\<rparr>"
  by (simp add: cetcd_auth_store_new_def hashmap_new_8)

lemma auth_ok_new: "cetcd_auth_store_new = Some s \<Longrightarrow> auth_ok s"
  by (auto simp: auth_store_new_eq auth_ok_def hm.ok_empty)

lemma auth_ok_add_user_hash:
  "auth_ok s \<Longrightarrow> h_cap (as_users s) < 2 ^ 63 \<Longrightarrow> auth_ok (snd (cetcd_auth_add_user_hash s name hash))"
  by (auto simp: cetcd_auth_add_user_hash_def auth_ok_def case_prod_beta hm.ok_put)

lemma auth_ok_add_role:
  "auth_ok s \<Longrightarrow> h_cap (as_roles s) < 2 ^ 63 \<Longrightarrow> auth_ok (snd (cetcd_auth_add_role s name pr pw p n))"
  by (auto simp: cetcd_auth_add_role_def auth_ok_def case_prod_beta hm.ok_put)

lemma auth_ok_grant_role: "auth_ok s \<Longrightarrow> auth_ok (snd (cetcd_auth_grant_role s user role))"
  by (auto simp: cetcd_auth_grant_role_def auth_ok_def hashmap_write_spec split: option.split)

lemma auth_ok_issue_token:
  "auth_ok s \<Longrightarrow> h_cap (as_tokens s) < 2 ^ 63 \<Longrightarrow> as_jwt_alg s = 0 \<Longrightarrow> auth_ok (snd (cetcd_auth_issue_token C s user now raw))"
  by (auto simp: cetcd_auth_issue_token_def issue_simple_token_def auth_ok_def case_prod_beta hm.ok_put Let_def)

definition plain_crypto :: auth_crypto where
  "plain_crypto = \<lparr>ac_sha256 = (\<lambda>p. take 32 (p @ replicate 32 0)), ac_gensalt = (\<lambda>_. None), ac_crypt = (\<lambda>_ _. None),
     ac_hmac = (\<lambda>k d. Some (take 32 (k @ d @ replicate 32 0))), ac_sign = (\<lambda>_ _. None), ac_verify = (\<lambda>_ _ _. False),
     ac_der_to_raw = (\<lambda>_. None), ac_raw_to_der = (\<lambda>_. None), ac_read_file = (\<lambda>_. None), ac_read_pem = (\<lambda>_. None),
     ac_is_rsa = (\<lambda>_. False), ac_is_ec256 = (\<lambda>_. False)\<rparr>"

lemma plain_sha256: "\<forall>p. length (ac_sha256 plain_crypto p) = 32"
  by (simp add: plain_crypto_def min_def)

text \<open>
  A user \<^verbatim>\<open>a\<close> with the role \<^verbatim>\<open>r\<close>, which may read and write the keys starting with a slash,
  and the same with a token for the user.
\<close>

definition small_users :: cetcd_auth_store where
  "small_users = snd (cetcd_auth_add_user_hash (the cetcd_auth_store_new) [97] (replicate 32 7))"

definition small_roles :: cetcd_auth_store where
  "small_roles = snd (cetcd_auth_grant_role (snd (cetcd_auth_add_role small_users [114] True True (Some [47]) 1)) [97] [114])"

definition small_token :: bytes where
  "small_token = auth_hex_encode (1 # replicate 15 0)"

definition small_store :: cetcd_auth_store where
  "small_store = snd (cetcd_auth_issue_token plain_crypto small_roles [97] 1000 (replicate 16 0))"

lemma small_user: "map_option u_password_hash (cetcd_find_user small_roles [97]) = Some (replicate 32 7)"
  by code_simp

lemma small_roles_ok: "auth_ok small_roles"
proof -
  have new: "cetcd_auth_store_new = Some (the cetcd_auth_store_new)"
    by (simp add: auth_store_new_eq)
  have caps: "h_cap (as_users (the cetcd_auth_store_new)) = 8" "h_cap (as_roles small_users) = 8"
    by code_simp+
  have "auth_ok small_users"
    unfolding small_users_def by (rule auth_ok_add_user_hash [OF auth_ok_new [OF new]]) (simp add: caps)
  then show ?thesis
    unfolding small_roles_def by (intro auth_ok_grant_role auth_ok_add_role) (simp_all add: caps)
qed

lemma small_store_eq:
  "small_store = small_roles\<lparr>as_token_seq := 1,
     as_tokens := snd (cetcd_hashmap_put (as_tokens small_roles) small_token \<lparr>te_username = [97], te_expires_ns = 300000001000\<rparr>)\<rparr>"
  "h_cap (as_tokens small_roles) = 8" "as_jwt_alg small_roles = 0"
proof -
  have "as_token_ttl_ns small_roles = 300000000000" "as_token_seq small_roles = 0" "as_jwt_alg small_roles = 0" "h_cap (as_tokens small_roles) = 8"
    by code_simp+
  moreover have "(replicate 16 (0 :: byte))[0 := replicate 16 0 ! 0 XOR ucast (1 :: u64),
      1 := (replicate 16 (0 :: byte))[0 := replicate 16 0 ! 0 XOR ucast (1 :: u64)] ! 1 XOR ucast (drop_bit 8 (1 :: u64))] = 1 # replicate 15 0"
    by code_simp
  ultimately show "small_store = small_roles\<lparr>as_token_seq := 1,
     as_tokens := snd (cetcd_hashmap_put (as_tokens small_roles) small_token \<lparr>te_username = [97], te_expires_ns = 300000001000\<rparr>)\<rparr>"
    "h_cap (as_tokens small_roles) = 8" "as_jwt_alg small_roles = 0"
    using small_user by (auto simp: small_store_def cetcd_auth_issue_token_def issue_simple_token_def small_token_def Let_def case_prod_beta)
qed

lemma small_store_ok: "auth_ok small_store"
  unfolding small_store_def by (rule auth_ok_issue_token [OF small_roles_ok]) (simp_all add: small_store_eq(2,3))

lemma small_token_valid:
  "fst (cetcd_auth_user_for_token plain_crypto small_store small_token 2000) = Some [97]"
  "as_jwt_alg small_store = 0" "as_bcrypt_cost small_store = 0"
proof -
  have ok: "hashmap_ok (as_tokens small_roles)" using small_roles_ok by (simp add: auth_ok_def)
  have "cetcd_hashmap_get (as_tokens small_store) small_token = Some \<lparr>te_username = [97], te_expires_ns = 300000001000\<rparr>"
    by (simp add: small_store_eq hm.get_put [OF ok])
  moreover have "small_token \<noteq> []" by code_simp
  moreover have "as_jwt_alg small_store = 0" by (simp add: small_store_eq(1,3))
  ultimately show "fst (cetcd_auth_user_for_token plain_crypto small_store small_token 2000) = Some [97]"
    by (simp add: user_for_token_get)
  have "as_jwt_alg small_roles = 0" "as_bcrypt_cost small_roles = 0" by code_simp+
  then show "as_jwt_alg small_store = 0" "as_bcrypt_cost small_store = 0" by (simp_all add: small_store_eq(1))
qed

lemma small_store_user: "cetcd_find_user small_store [97] \<noteq> None" "cetcd_auth_has_user small_store [97]"
  using small_user by (auto simp: small_store_eq(1) cetcd_find_user_def cetcd_auth_has_user_def)

theorem auth_check_password_spec_witness:
  "cetcd_auth_check_password plain_crypto small_roles [97] (replicate 32 7) \<and>
   \<not> cetcd_auth_check_password plain_crypto small_roles [97] [7]"
proof -
  obtain u where u: "cetcd_find_user small_roles [97] = Some u" "u_password_hash u = replicate 32 7" using small_user by auto
  have "ac_sha256 plain_crypto (replicate 32 7) = replicate 32 7" "ac_sha256 plain_crypto [7] \<noteq> replicate 32 7"
    by code_simp+
  with u show ?thesis using auth_check_password_spec [OF plain_sha256, of small_roles "[97]"] by simp
qed

text \<open>A stand-in for bcrypt: the setting of 29 characters, then 31 characters from the password.\<close>

definition toy_bcrypt :: auth_crypto where
  "toy_bcrypt = plain_crypto\<lparr>ac_gensalt := (\<lambda>_. Some ([36, 50, 98, 36] @ replicate 25 46)),
     ac_crypt := (\<lambda>p s. Some (take 29 s @ take 31 (filter (\<lambda>c. c \<noteq> 0) p @ replicate 31 46)))\<rparr>"

lemma toy_bcrypt_law: "crypt_law toy_bcrypt" "\<forall>p. length (ac_sha256 toy_bcrypt p) = 32"
  by (auto simp: crypt_law_def toy_bcrypt_def plain_crypto_def min_def dest!: in_set_takeD)

theorem auth_change_password_effect_witness:
  "let s = snd (cetcd_auth_change_password toy_bcrypt (small_store\<lparr>as_bcrypt_cost := 4\<rparr>) [97] [1]) in
   cetcd_auth_check_password toy_bcrypt s [97] [1] \<and>
   fst (cetcd_auth_user_for_token toy_bcrypt s small_token 2000) \<noteq> Some [97]"
proof -
  let ?s = "small_store\<lparr>as_bcrypt_cost := 4\<rparr>"
  have ok: "auth_ok ?s" "as_jwt_alg ?s = 0" using small_store_ok small_token_valid(2) by (simp_all add: auth_ok_def)
  have "fst (fill_password_hash toy_bcrypt ?s [1]) = CETCD_OK"
    by (simp add: fill_password_hash_def toy_bcrypt_def plain_crypto_def)
  then have "fst (cetcd_auth_change_password toy_bcrypt ?s [97] [1]) = CETCD_OK"
    using small_store_user(1) by (simp add: cetcd_auth_change_password_def cetcd_find_user_def case_prod_beta)
  then have "cetcd_auth_change_password toy_bcrypt ?s [97] [1] = (CETCD_OK, snd (cetcd_auth_change_password toy_bcrypt ?s [97] [1]))"
    by (metis prod.collapse)
  from auth_change_password_effect [OF ok toy_bcrypt_law(2,1) this]
  show ?thesis unfolding Let_def by blast
qed

theorem deleted_user_keeps_token_witness:
  "let s = snd (cetcd_auth_remove_user small_store [97]) in
   \<not> cetcd_auth_has_user s [97] \<and> fst (cetcd_auth_user_for_token plain_crypto s small_token 2000) = Some [97]"
proof -
  have ok: "hashmap_ok (as_users small_store)" using small_store_ok by (simp add: auth_ok_def)
  have "cetcd_auth_remove_user small_store [97] = (CETCD_OK, snd (cetcd_auth_remove_user small_store [97]))"
    using small_store_user(2) hashmap_remove_spec(3) [OF ok, of "[97]"]
    by (simp add: cetcd_auth_remove_user_def cetcd_auth_has_user_def case_prod_beta hashmap_get_spec [OF ok])
  from deleted_user_keeps_token [OF small_token_valid(1) small_store_ok small_token_valid(2) this] show ?thesis unfolding Let_def by blast
qed

lemma mem_get: "mem_view be b k = Some x \<Longrightarrow> cetcd_backend_get mem_lmdb be b k = (CETCD_OK, Some x)"
  by (auto simp: mem_view_def cetcd_backend_get_def cetcd_txn_begin_def get_internal_def get_dbi_def mem_lmdb_def split: option.splits)

theorem auth_save_load_witness:
  "let be = snd (cetcd_auth_save mem_lmdb small_roles (Map.empty :: mem_env));
       s' = snd (cetcd_auth_load mem_lmdb (the cetcd_auth_store_new) be)
   in cetcd_find_user s' = cetcd_find_user small_roles \<and> cetcd_find_role s' = cetcd_find_role small_roles"
proof -
  define be where "be = snd (cetcd_auth_save mem_lmdb small_roles (Map.empty :: mem_env))"
  define s' where "s' = snd (cetcd_auth_load mem_lmdb (the cetcd_auth_store_new) be)"
  have keys: "AUTH_KEY_ENABLED \<noteq> [] \<and> length AUTH_KEY_ENABLED \<le> 511" "AUTH_KEY_USERS \<noteq> [] \<and> length AUTH_KEY_USERS \<le> 511"
    "AUTH_KEY_ROLES \<noteq> [] \<and> length AUTH_KEY_ROLES \<le> 511"
    by (simp_all add: AUTH_KEY_ENABLED_def AUTH_KEY_USERS_def AUTH_KEY_ROLES_def bytes_of_def)
  have "fst (cetcd_auth_save mem_lmdb small_roles (Map.empty :: mem_env)) = CETCD_OK"
    using keys by (simp add: cetcd_auth_save_def cetcd_txn_begin_def cetcd_txn_put_def cetcd_txn_commit_def get_dbi_def
        lmdb_error_def mem_lmdb_def Let_def)
  then have save: "cetcd_auth_save mem_lmdb small_roles Map.empty = (CETCD_OK, be)" unfolding be_def by (metis prod.collapse)
  have new: "cetcd_auth_store_new = Some (the cetcd_auth_store_new)" by (simp add: auth_store_new_eq)
  have ok: "hashmap_ok (as_users small_roles)" "hashmap_ok (as_roles small_roles)"
    using small_roles_ok by (auto simp: auth_ok_def)
  have ents: "list_all (\<lambda>e. user_ok (fst e) (snd e)) (hashmap_entries (as_users small_roles))"
    "list_all (\<lambda>e. role_ok (fst e) (snd e)) (hashmap_entries (as_roles small_roles))"
    "h_size (as_users small_roles) = 1" "h_size (as_roles small_roles) = 1"
  proof -
    have "hashmap_entries (as_users small_roles) = [([97], \<lparr>u_name = [97], u_roles = [[114]], u_password_hash = replicate 32 7\<rparr>)]"
      "hashmap_entries (as_roles small_roles) =
         [([114], \<lparr>ro_name = [114], ro_perm_read = True, ro_perm_write = True, ro_key_prefix = [47], ro_range_end = []\<rparr>)]"
      by code_simp+
    then show "list_all (\<lambda>e. user_ok (fst e) (snd e)) (hashmap_entries (as_users small_roles))"
      "list_all (\<lambda>e. role_ok (fst e) (snd e)) (hashmap_entries (as_roles small_roles))"
      by (simp_all add: user_ok_def role_ok_def roles_blob_def)
    show "h_size (as_users small_roles) = 1" "h_size (as_roles small_roles) = 1" by code_simp+
  qed
  have us: "\<forall>k u. cetcd_find_user small_roles k = Some u \<longrightarrow> user_ok k u"
    using ents(1) unfolding cetcd_find_user_def hashmap_entries_get(2) [OF ok(1), symmetric]
    by (auto simp: list_all_iff dest!: map_of_SomeD)
  have rs: "\<forall>k r. cetcd_find_role small_roles k = Some r \<longrightarrow> role_ok k r"
    using ents(2) unfolding cetcd_find_role_def hashmap_entries_get(2) [OF ok(2), symmetric]
    by (auto simp: list_all_iff dest!: map_of_SomeD)
  note get = mem_get [OF lmdb_laws.auth_save_view(1) [OF ml.lmdb_laws_axioms save]]
    mem_get [OF lmdb_laws.auth_save_view(2) [OF ml.lmdb_laws_axioms save]]
    mem_get [OF lmdb_laws.auth_save_view(3) [OF ml.lmdb_laws_axioms save]]
  have "fst (cetcd_auth_load mem_lmdb (the cetcd_auth_store_new) be) = CETCD_OK"
    using ents(1,2)
    by (simp add: cetcd_auth_load_def get save_users_buf save_roles_buf ok load_users_all load_roles_all list_all_iff Let_def)
  then have load: "cetcd_auth_load mem_lmdb (the cetcd_auth_store_new) be = (CETCD_OK, s')" unfolding s'_def by (metis prod.collapse)
  from auth_save_load [OF ml.lmdb_laws_axioms small_roles_ok us rs _ _ save new load] ents(3,4)
  show ?thesis unfolding Let_def be_def s'_def by simp
qed

end
