(* ===== verification/Jwt_Props.thy ===== *)
theory Jwt_Props
  imports Auth_Props
begin

text \<open>
  A token that was issued is accepted for the same user until it expires: base64 round trip, the
  claims read back, the signature checked over the same text.
\<close>

section \<open>Base64\<close>

lemma b64url_bytes:
  "b64url =
    [65, 66, 67, 68, 69, 70, 71, 72, 73, 74, 75, 76, 77, 78, 79, 80, 81, 82, 83, 84, 85, 86, 87, 88, 89,
     90, 97, 98, 99, 100, 101, 102, 103, 104, 105, 106, 107, 108, 109, 110, 111, 112, 113, 114, 115, 116,
     117, 118, 119, 120, 121, 122, 48, 49, 50, 51, 52, 53, 54, 55, 56, 57, 45, 95]"
  by (simp add: b64url_def bytes_of_def)

lemma b64url_values: "map b64url_val b64url = map int [0..<64]"
  by (simp add: b64url_bytes b64url_val_def upt_rec)

lemma b64url_plain: "\<forall>c \<in> set b64url. c \<noteq> 61 \<and> c \<noteq> 46"
  by (simp add: b64url_bytes)

lemma b64url_table: "i < 64 \<Longrightarrow> b64url_val (b64url ! i) = int i \<and> b64url ! i \<noteq> 61 \<and> b64url ! i \<noteq> 46"
proof -
  assume i: "i < 64"
  have n: "length b64url = 64" by (simp add: b64url_bytes)
  have "map b64url_val b64url ! i = map int [0..<64] ! i" by (simp only: b64url_values)
  then show ?thesis using b64url_plain i n by simp
qed

lemma b64url_chr [simp]:
  "b64url_val (b64url_chr v) = uint (v AND 63)" "b64url_chr v \<noteq> 61" "b64url_chr v \<noteq> 46"
proof -
  have "v AND 63 \<le> 63" by (rule word_and_le1)
  then have "unat (v AND 63) < 64" by (simp add: word_le_nat_alt)
  then have "b64url_val (b64url ! unat (v AND 63)) = int (unat (v AND 63)) \<and> b64url ! unat (v AND 63) \<noteq> 61 \<and> b64url ! unat (v AND 63) \<noteq> 46"
    by (rule b64url_table)
  then show "b64url_val (b64url_chr v) = uint (v AND 63)" "b64url_chr v \<noteq> 61" "b64url_chr v \<noteq> 46"
    by (simp_all add: b64url_chr_def)
qed

text \<open>The bits of a character's value, and the bytes put together from them.\<close>

lemma bit_chr_value: "bit (uint (drop_bit k v AND 63)) n \<longleftrightarrow> n < 6 \<and> bit (v :: u32) (k + n)"
proof -
  have m: "(63 :: u32) = mask 6" by (simp add: mask_eq_exp_minus_1)
  show ?thesis unfolding m bit_uint_iff bit_and_iff bit_mask_iff bit_drop_bit_eq by (auto dest: bit_imp_le_length)
qed

lemma bit_chr_value_0: "bit (uint (v AND 63)) n \<longleftrightarrow> n < 6 \<and> bit (v :: u32) n"
  using bit_chr_value [of 0 v n] by simp

lemma bit_and_int: "bit (x AND 15 :: int) n \<longleftrightarrow> n < 4 \<and> bit x n" "bit (x AND 3 :: int) n \<longleftrightarrow> n < 2 \<and> bit x n"
proof -
  have m: "(15 :: int) = mask 4" "(3 :: int) = mask 2" by (simp_all add: mask_eq_exp_minus_1)
  show "bit (x AND 15 :: int) n \<longleftrightarrow> n < 4 \<and> bit x n" "bit (x AND 3 :: int) n \<longleftrightarrow> n < 2 \<and> bit x n"
    unfolding m bit_and_iff bit_mask_iff by auto
qed

lemma byte_of_parts:
  fixes x y :: int and a :: byte
  assumes "k \<le> 8" and "\<And>n. n < 8 \<Longrightarrow> (k \<le> n \<and> bit x (n - k)) \<or> bit y n \<longleftrightarrow> bit a n"
  shows "word_of_int (push_bit k x OR y) = a"
proof (rule bit_word_eqI)
  fix n assume "n < LENGTH(8)"
  then show "bit (word_of_int (push_bit k x OR y) :: byte) n = bit a n"
    using assms(2) [of n] by (simp add: bit_word_of_int_iff bit_or_iff bit_push_bit_iff)
qed

lemma group_a:
  fixes v :: u32
  assumes "\<And>n. n < 8 \<Longrightarrow> bit v (16 + n) = bit a n"
  shows "word_of_int (push_bit 2 (uint (drop_bit 18 v AND 63)) OR drop_bit 4 (uint (drop_bit 12 v AND 63))) = (a :: byte)"
proof (rule byte_of_parts)
  fix n :: nat assume n: "n < 8"
  show "(2 \<le> n \<and> bit (uint (drop_bit 18 v AND 63)) (n - 2)) \<or> bit (drop_bit 4 (uint (drop_bit 12 v AND 63))) n \<longleftrightarrow> bit a n"
    unfolding bit_drop_bit_eq comp_def bit_chr_value assms [OF n, symmetric] using n
    by (cases "2 \<le> n") (auto simp: less_diff_conv)
qed simp

lemma group_b:
  fixes v :: u32
  assumes "\<And>n. n < 8 \<Longrightarrow> bit v (8 + n) = bit b n"
  shows "word_of_int (push_bit 4 (uint (drop_bit 12 v AND 63) AND 15) OR drop_bit 2 (uint (drop_bit 6 v AND 63))) = (b :: byte)"
proof (rule byte_of_parts)
  fix n :: nat assume n: "n < 8"
  show "(4 \<le> n \<and> bit (uint (drop_bit 12 v AND 63) AND 15) (n - 4)) \<or> bit (drop_bit 2 (uint (drop_bit 6 v AND 63))) n \<longleftrightarrow> bit b n"
    unfolding bit_drop_bit_eq comp_def bit_chr_value bit_and_int assms [OF n, symmetric] using n
    by (cases "4 \<le> n") (auto simp: less_diff_conv)
qed simp

lemma group_c:
  fixes v :: u32
  assumes "\<And>n. n < 8 \<Longrightarrow> bit v n = bit c n"
  shows "word_of_int (push_bit 6 (uint (drop_bit 6 v AND 63) AND 3) OR uint (v AND 63)) = (c :: byte)"
proof (rule byte_of_parts)
  fix n :: nat assume n: "n < 8"
  show "(6 \<le> n \<and> bit (uint (drop_bit 6 v AND 63) AND 3) (n - 6)) \<or> bit (uint (v AND 63)) n \<longleftrightarrow> bit c n"
    unfolding bit_and_int bit_chr_value unfolding bit_chr_value_0 assms [OF n, symmetric] using n
    by (cases "6 \<le> n") (auto simp: less_diff_conv)
qed simp

lemma bit_b64url_word:
  assumes "n < 8"
  shows "bit (b64url_word a b c) (16 + n) = bit a n" and "bit (b64url_word a b c) (8 + n) = bit b n"
    and "bit (b64url_word a b c) n = bit c n"
  using assms by (auto simp: b64url_word_def bit_or_iff bit_push_bit_iff bit_ucast_iff dest: bit_imp_le_length)

lemma b64url_bytes_back:
  "word_of_int (push_bit 2 (uint (drop_bit 18 (b64url_word a b c) AND 63)) OR drop_bit 4 (uint (drop_bit 12 (b64url_word a b c) AND 63))) = a"
  "word_of_int (push_bit 4 (uint (drop_bit 12 (b64url_word a b c) AND 63) AND 15) OR drop_bit 2 (uint (drop_bit 6 (b64url_word a b c) AND 63))) = b"
  "word_of_int (push_bit 6 (uint (drop_bit 6 (b64url_word a b c) AND 63) AND 3) OR uint (b64url_word a b c AND 63)) = c"
  by (rule group_a group_b group_c, erule bit_b64url_word)+

lemma b64url_group_cases:
  assumes "x \<ge> 0" and "y \<ge> 0"
  shows "m < cap \<Longrightarrow> b64url_group cap m x y (-2) (-2) = Some [word_of_int (push_bit 2 x OR drop_bit 4 y)]"
    and "z \<ge> 0 \<Longrightarrow> m + 1 < cap \<Longrightarrow> b64url_group cap m x y z (-2) =
      Some [word_of_int (push_bit 2 x OR drop_bit 4 y), word_of_int (push_bit 4 (y AND 15) OR drop_bit 2 z)]"
    and "z \<ge> 0 \<Longrightarrow> w \<ge> 0 \<Longrightarrow> m + 2 < cap \<Longrightarrow> b64url_group cap m x y z w =
      Some [word_of_int (push_bit 2 x OR drop_bit 4 y), word_of_int (push_bit 4 (y AND 15) OR drop_bit 2 z),
            word_of_int (push_bit 6 (z AND 3) OR w)]"
  using assms by (simp_all add: b64url_group_def Let_def)

lemma b64url_group_word:
  "m < cap \<Longrightarrow> b64url_group cap m (b64url_val (b64url_chr (drop_bit 18 (b64url_word a b c))))
    (b64url_val (b64url_chr (drop_bit 12 (b64url_word a b c)))) (-2) (-2) = Some [a]"
  "m + 1 < cap \<Longrightarrow> b64url_group cap m (b64url_val (b64url_chr (drop_bit 18 (b64url_word a b c))))
    (b64url_val (b64url_chr (drop_bit 12 (b64url_word a b c))))
    (b64url_val (b64url_chr (drop_bit 6 (b64url_word a b c)))) (-2) = Some [a, b]"
  "m + 2 < cap \<Longrightarrow> b64url_group cap m (b64url_val (b64url_chr (drop_bit 18 (b64url_word a b c))))
    (b64url_val (b64url_chr (drop_bit 12 (b64url_word a b c))))
    (b64url_val (b64url_chr (drop_bit 6 (b64url_word a b c))))
    (b64url_val (b64url_chr (b64url_word a b c))) = Some [a, b, c]"
  unfolding b64url_chr by (simp_all only: b64url_group_cases uint_nonnegative b64url_bytes_back)

lemma b64url_loop_simps:
  "b64url_loop cap n [a] = Some out \<Longrightarrow>
     out = [b64url_chr (drop_bit 18 (b64url_word a 0 0)), b64url_chr (drop_bit 12 (b64url_word a 0 0))] \<and> n + 2 \<le> cap"
  "b64url_loop cap n [a, b] = Some out \<Longrightarrow>
     out = [b64url_chr (drop_bit 18 (b64url_word a b 0)), b64url_chr (drop_bit 12 (b64url_word a b 0)),
            b64url_chr (drop_bit 6 (b64url_word a b 0))] \<and> n + 3 \<le> cap"
  "b64url_loop cap n (a # b # c # bs) = Some out \<Longrightarrow>
     (\<exists>r. out = b64url_chr (drop_bit 18 (b64url_word a b c)) # b64url_chr (drop_bit 12 (b64url_word a b c)) #
            b64url_chr (drop_bit 6 (b64url_word a b c)) # b64url_chr (b64url_word a b c) # r \<and>
          n + 4 \<le> cap \<and> b64url_loop cap (n + 4) bs = Some r)"
  by (auto simp: Let_def split: if_splits)

lemma b64url_loop_decode:
  "b64url_loop cap n bs = Some out \<Longrightarrow> n \<le> cap \<Longrightarrow>
     (m + length bs \<le> dcap \<longrightarrow> b64url_decode_loop dcap m out = Some bs) \<and>
     61 \<notin> set out \<and> 46 \<notin> set out \<and> length bs \<le> length out \<and> n + length out \<le> cap"
proof (induction cap n bs arbitrary: out m rule: b64url_loop.induct)
  case (1 cap n)
  then show ?case by simp
next
  case (2 cap n a)
  note o = b64url_loop_simps(1) [OF 2(1)]
  show ?case unfolding conjunct1 [OF o] using conjunct2 [OF o] by (simp add: b64url_group_word del: b64url_chr(1))
next
  case (3 cap n a b)
  note o = b64url_loop_simps(2) [OF 3(1)]
  show ?case unfolding conjunct1 [OF o] using conjunct2 [OF o] by (simp add: b64url_group_word del: b64url_chr(1))
next
  case (4 cap n a b c bs)
  obtain r where o: "out = b64url_chr (drop_bit 18 (b64url_word a b c)) # b64url_chr (drop_bit 12 (b64url_word a b c)) #
      b64url_chr (drop_bit 6 (b64url_word a b c)) # b64url_chr (b64url_word a b c) # r"
    and n: "n + 4 \<le> cap" and r: "b64url_loop cap (n + 4) bs = Some r" using b64url_loop_simps(3) [OF 4(2)] by blast
  have "\<not> cap < n + 2" "\<not> cap < n + 3" "\<not> cap < n + 4" using n by auto
  note ih = 4(1) [OF refl this r n, of "m + 3"]
  show ?case unfolding o using n ih by (simp add: b64url_group_word numeral_3_eq_3 del: b64url_chr(1))
qed

lemma b64url_round_trip:
  assumes "b64url_encode bs cap \<noteq> []" and "length bs \<le> dcap"
  shows "b64url_decode (b64url_encode bs cap) dcap = Some bs" and "46 \<notin> set (b64url_encode bs cap)"
    and "length (b64url_encode bs cap) \<le> cap" and "length bs \<le> length (b64url_encode bs cap)"
proof -
  obtain out where o: "b64url_loop cap 0 bs = Some out" "b64url_encode bs cap = out"
    using assms(1) by (auto simp: b64url_encode_def split: option.splits)
  note l = b64url_loop_decode [OF o(1), of 0 dcap]
  then have "dropWhile (\<lambda>c. c = 61) (rev out) = rev out"
    by (cases "rev out") (auto dest: arg_cong [where f = set])
  then show "b64url_decode (b64url_encode bs cap) dcap = Some bs"
    using l assms(2) by (simp add: b64url_decode_def o(2))
  show "46 \<notin> set (b64url_encode bs cap)" "length (b64url_encode bs cap) \<le> cap" "length bs \<le> length (b64url_encode bs cap)"
    using l o(2) by simp_all
qed

section \<open>Claims\<close>

lemma digit_cases:
  assumes "n < 10"
  shows "is_digit (48 + of_nat n)" and "ucast (48 + of_nat n :: byte) - 48 = (of_nat n :: u64)"
proof -
  have "n \<in> {0, 1, 2, 3, 4, 5, 6, 7, 8, 9}" using assms by auto
  then show "is_digit (48 + of_nat n)" "ucast (48 + of_nat n :: byte) - 48 = (of_nat n :: u64)"
    by (auto simp: is_digit_def)
qed

lemma print_dec_digits: "print_dec n \<noteq> [] \<and> (\<forall>c \<in> set (print_dec n). is_digit c)"
proof (induction n rule: print_dec.induct)
  case (1 n)
  have d: "is_digit (48 + of_nat (n mod 10))" "n < 10 \<Longrightarrow> is_digit (48 + of_nat n)"
    using digit_cases [of "n mod 10"] digit_cases [of n] by auto
  show ?case using 1 d by (subst (1 2) print_dec.simps) auto
qed

lemma read_print_dec: "n < 2 ^ 64 \<Longrightarrow> read_digits 0 (print_dec n @ rest) = read_digits (of_nat n) rest"
proof (induction n arbitrary: rest rule: print_dec.induct)
  case (1 n)
  have dig: "is_digit (48 + of_nat (n mod 10))" "n < 10 \<Longrightarrow> is_digit (48 + of_nat n)"
    using print_dec_digits [of "n mod 10"] print_dec_digits [of n] by (simp_all add: print_dec.simps)
  show ?case
  proof (cases "n < 10")
    case True
    have "read_digits 0 ((48 + of_nat n) # rest) = read_digits (ucast (48 + of_nat n :: byte) - 48) rest"
      using dig(2) [OF True] by simp
    then show ?thesis using True by (simp add: print_dec.simps digit_cases)
  next
    case False
    have n: "n div 10 < 2 ^ 64" using 1(2) by simp
    have "unat (of_nat (n div 10) :: u64) = n div 10" using n by (simp add: unat_of_nat take_bit_nat_eq_self)
    then have le: "\<not> (of_nat (n div 10) :: u64) > 0xFFFFFFFFFFFFFFFF div 10"
      using 1(2) by (simp add: word_less_nat_alt unat_div)
    have sum: "of_nat (n div 10) * 10 + (of_nat (n mod 10) :: u64) = of_nat n"
      by (metis div_mult_mod_eq of_nat_add of_nat_mult of_nat_numeral)
    have "read_digits 0 (print_dec n @ rest) = read_digits 0 (print_dec (n div 10) @ (48 + of_nat (n mod 10)) # rest)"
      using False by (simp add: print_dec.simps [of n])
    also have "\<dots> = read_digits (of_nat (n div 10)) ((48 + of_nat (n mod 10)) # rest)" by (rule 1(1) [OF False n])
    also have "\<dots> = read_digits (of_nat (n div 10) * 10 + (ucast (48 + of_nat (n mod 10) :: byte) - 48)) rest"
      using dig(1) le by simp
    also have "ucast (48 + of_nat (n mod 10) :: byte) - 48 = (of_nat (n mod 10) :: u64)" by (rule digit_cases) simp
    finally show ?thesis using sum by simp
  qed
qed

lemma read_u64: "\<not> is_digit c \<Longrightarrow> read_digits 0 (print_dec (unat (v :: u64)) @ c # rest) = Some (v, c # rest)"
proof -
  have "unat v < 2 ^ LENGTH(64)" by (rule unsigned_less)
  moreover assume "\<not> is_digit c"
  ultimately show ?thesis by (simp add: read_print_dec)
qed

lemma after_pat_plain: "34 \<notin> set xs \<Longrightarrow> after_pat (34 # p) (xs @ ys) = after_pat (34 # p) ys"
  by (induction xs) auto

lemma after_pat_quote: "take (length p) ys \<noteq> p \<Longrightarrow> after_pat (34 # p) (34 # ys) = after_pat (34 # p) ys"
  by simp

lemma quoted_other:
  fixes u :: bytes
  assumes "34 \<notin> set u" and "34 \<notin> set k" and "d \<noteq> c"
  shows "take (length (k @ [34, c])) (u @ 34 # d # ys) \<noteq> k @ [34, c]"
proof
  assume "take (length (k @ [34, c])) (u @ 34 # d # ys) = k @ [34, c]"
  then have "u @ 34 # d # ys = k @ 34 # c # drop (length (k @ [34, c])) (u @ 34 # d # ys)"
    by (metis append.assoc append_Cons append_Nil append_take_drop_id)
  then have "takeWhile (\<lambda>x. x \<noteq> 34) (u @ 34 # d # ys) = takeWhile (\<lambda>x. x \<noteq> 34) (k @ 34 # c # drop (length (k @ [34, c])) (u @ 34 # d # ys))"
    by (rule arg_cong)
  moreover have "takeWhile (\<lambda>x. x \<noteq> 34) xs = xs" if "34 \<notin> set xs" for xs :: bytes using that by (induction xs) auto
  ultimately have "u = k" using assms(1,2) by (simp add: takeWhile_tail)
  then show False using \<open>u @ 34 # d # ys = _\<close> assms(3) by simp
qed

lemma claim_chars_user:
  assumes "34 \<notin> set u" and "92 \<notin> set u" and "\<forall>c \<in> set u. 0x20 \<le> c" and "n + length u < cap"
  shows "claim_chars cap n (u @ 34 # rest) = Some u"
  using assms by (induction u arbitrary: n) (auto simp: not_less)

lemma names_plain: "34 \<notin> set (bytes_of ''revision'')" "34 \<notin> set (bytes_of ''exp'')"
  by (simp_all add: bytes_of_def)

lemma digits_plain: "34 \<notin> set (print_dec n)" "44 \<notin> set (print_dec n)"
  using print_dec_digits [of n] by (auto simp: is_digit_def)

lemma claim_username:
  assumes "34 \<notin> set u" and "92 \<notin> set u" and "\<forall>c \<in> set u. 0x20 \<le> c" and "length u \<le> 127"
  shows "jwt_claim_str (jwt_payload u q e) (bytes_of ''username'') 128 = Some u"
  using claim_chars_user [OF assms(1-3), of 0 128] assms(4)
  by (simp add: jwt_claim_str_def jwt_payload_def bytes_of_def Let_def)

text \<open>What follows the name in the payload.\<close>

lemma payload_after_user:
  assumes "34 \<notin> set u" and "34 \<notin> set k" and "k \<noteq> []" and "hd k \<noteq> 117" and "hd k \<noteq> 58" and "hd k \<noteq> 44"
  shows "after_pat (34 # k @ [34, 58]) (jwt_payload u q e) =
    after_pat (34 # k @ [34, 58]) (34 # bytes_of ''revision'' @ [34, 58] @ print_dec (unat q) @ [44, 34] @
      bytes_of ''exp'' @ [34, 58] @ print_dec (unat e) @ [125])"
proof -
  obtain h t where k: "k = h # t" using assms(3) by (cases k) auto
  let ?r = "34 # bytes_of ''revision'' @ [34, 58] @ print_dec (unat q) @ [44, 34] @ bytes_of ''exp'' @ [34, 58] @ print_dec (unat e) @ [125]"
  have "after_pat (34 # k @ [34, 58]) (jwt_payload u q e) = after_pat (34 # k @ [34, 58]) (34 # u @ 34 # 44 # ?r)"
    using assms by (simp add: jwt_payload_def bytes_of_def k)
  also have "\<dots> = after_pat (34 # k @ [34, 58]) (u @ 34 # 44 # ?r)"
    by (rule after_pat_quote) (rule quoted_other, use assms in auto)
  also have "\<dots> = after_pat (34 # k @ [34, 58]) (34 # 44 # ?r)"
    by (rule after_pat_plain) (rule assms(1))
  also have "\<dots> = after_pat (34 # k @ [34, 58]) ?r"
    using assms(6) by (simp add: k)
  finally show ?thesis .
qed

lemma claim_revision:
  assumes "34 \<notin> set u"
  shows "jwt_claim_u64 (jwt_payload u q e) (bytes_of ''revision'') = Some q"
proof -
  have "after_pat (34 # bytes_of ''revision'' @ [34, 58]) (jwt_payload u q e) =
    Some (print_dec (unat q) @ [44, 34] @ bytes_of ''exp'' @ [34, 58] @ print_dec (unat e) @ [125])"
    by (subst payload_after_user) (use assms names_plain in \<open>simp_all add: bytes_of_def\<close>)
  then show ?thesis
    using print_dec_digits [of "unat q"] read_u64 [of 44 q]
    by (cases "print_dec (unat q)") (simp_all add: jwt_claim_u64_def bytes_of_def is_digit_def Let_def)
qed

lemma claim_exp:
  assumes "34 \<notin> set u"
  shows "jwt_claim_u64 (jwt_payload u q e) (bytes_of ''exp'') = Some e"
proof -
  let ?p = "34 # bytes_of ''exp'' @ [34, 58]"
  have "after_pat ?p (jwt_payload u q e) =
    after_pat ?p (print_dec (unat q) @ 44 # 34 # bytes_of ''exp'' @ [34, 58] @ print_dec (unat e) @ [125])"
    by (subst payload_after_user) (use assms names_plain in \<open>simp_all add: bytes_of_def\<close>)
  also have "\<dots> = after_pat ?p (44 # 34 # bytes_of ''exp'' @ [34, 58] @ print_dec (unat e) @ [125])"
    by (rule after_pat_plain) (rule digits_plain)
  also have "\<dots> = Some (print_dec (unat e) @ [125])" by (simp add: bytes_of_def)
  finally show ?thesis
    using print_dec_digits [of "unat e"] read_u64 [of 125 e]
    by (cases "print_dec (unat e)") (simp_all add: jwt_claim_u64_def bytes_of_def is_digit_def Let_def)
qed

section \<open>Tokens\<close>

text \<open>
  What is used of the signatures: a signature verifies over the text it was made for, and the raw
  form of an elliptic-curve signature has 64 bytes and converts back.
\<close>

definition crypto_ok :: "auth_crypto \<Rightarrow> bool" where
  "crypto_ok C \<longleftrightarrow>
     (\<forall>k d g. ac_sign C k d = Some g \<longrightarrow> ac_verify C k d g) \<and>
     (\<forall>g r. ac_der_to_raw C g = Some r \<longrightarrow> length r = 64 \<and> ac_raw_to_der C r = Some g)"

lemma jwt_ct_eq_refl [simp]: "jwt_ct_eq a a"
  unfolding jwt_ct_eq_def by (induction a) auto

lemma jwt_sign_verify: "crypto_ok C \<Longrightarrow> jwt_sign C s d = Some g \<Longrightarrow> jwt_verify C s d g"
  by (auto simp: crypto_ok_def jwt_sign_def jwt_verify_def jwt_hmac_def jwt_digest_sign_def jwt_digest_verify_def
    split: if_splits option.splits)

lemma header_finds:
  assumes "jwt_alg_name a = Some alg"
  shows "find_bytes (jwt_header alg) alg" and "\<not> find_bytes (jwt_header alg) ([34] @ bytes_of ''none'' @ [34])"
    and "length (jwt_header alg) = 27"
  using assms by (auto simp: jwt_alg_name_def find_bytes_def jwt_header_def bytes_of_def split: if_splits)

lemma split_dot_append: "46 \<notin> set a \<Longrightarrow> split_dot (a @ 46 # b) = Some (a, b)"
  unfolding split_dot_def by (induction a) auto

lemma jwt_issue_some:
  assumes "jwt_issue C s u now = (Some tok, s')"
  obtains alg h p g sig where "jwt_alg_name (as_jwt_alg s) = Some alg" and "34 \<notin> set u" and "92 \<notin> set u"
    and "s' = s\<lparr>as_token_seq := as_token_seq s + 1\<rparr>"
    and "h = b64url_encode (jwt_header alg) 64" and "h \<noteq> []"
    and "p = b64url_encode (jwt_payload u (as_token_seq s + 1) (jwt_expiry s now)) 400" and "p \<noteq> []"
    and "length (jwt_payload u (as_token_seq s + 1) (jwt_expiry s now)) < 256"
    and "jwt_sign C s' (h @ [46] @ p) = Some sig" and "g = b64url_encode sig 1024" and "g \<noteq> []" and "tok = h @ [46] @ p @ [46] @ g"
  using assms unfolding jwt_issue_def Let_def by (auto split: option.splits if_splits)

text \<open>
  C34. A JSON web token names its user until it expires. Whatever the signing method, a token issued
  for a user whose name has no control characters and at most 127 bytes resolves to exactly that
  user while the clock is before the expiry written into it, and to nobody afterwards.
\<close>

theorem jwt_token_round_trip:
  assumes "crypto_ok C" and "as_jwt_alg s \<noteq> 0" and "\<forall>c \<in> set user. 0x20 \<le> c" and "length user \<le> 127"
    and "cetcd_auth_issue_token C s user now0 raw = (Some tok, s')"
  shows "fst (cetcd_auth_user_for_token C s' tok now) =
    (if now div 1000000000 < jwt_expiry s now0 then Some user else None)"
proof -
  have u: "cetcd_find_user s user \<noteq> None" and issue: "jwt_issue C s user now0 = (Some tok, s')"
    using assms(2,5) by (auto simp: cetcd_auth_issue_token_def split: if_splits)
  obtain alg h p g sig where alg: "jwt_alg_name (as_jwt_alg s) = Some alg" and q: "34 \<notin> set user" "92 \<notin> set user"
    and s': "s' = s\<lparr>as_token_seq := as_token_seq s + 1\<rparr>"
    and h: "h = b64url_encode (jwt_header alg) 64" "h \<noteq> []"
    and p: "p = b64url_encode (jwt_payload user (as_token_seq s + 1) (jwt_expiry s now0)) 400" "p \<noteq> []"
      "length (jwt_payload user (as_token_seq s + 1) (jwt_expiry s now0)) < 256"
    and sig: "jwt_sign C s' (h @ [46] @ p) = Some sig" and g: "g = b64url_encode sig 1024" "g \<noteq> []"
    and tok: "tok = h @ [46] @ p @ [46] @ g" using issue by (rule jwt_issue_some)
  let ?pay = "jwt_payload user (as_token_seq s + 1) (jwt_expiry s now0)"
  have dh: "b64url_decode h 127 = Some (jwt_header alg)" "46 \<notin> set h"
    using b64url_round_trip [of "jwt_header alg" 64 127] h header_finds(3) [OF alg] by simp_all
  have dp: "b64url_decode p 511 = Some ?pay" "46 \<notin> set p"
    using b64url_round_trip [of ?pay 400 511] p by simp_all
  have "length sig \<le> 1024" using b64url_round_trip(3,4) [of sig 1024 "length sig"] g by simp
  then have dg: "b64url_decode g 1024 = Some sig" "46 \<notin> set g"
    using b64url_round_trip [of sig 1024 1024] g by simp_all
  have sd: "split_dot tok = Some (h, p @ [46] @ g)" "split_dot (p @ [46] @ g) = Some (p, g)"
    unfolding tok using dh(2) dp(2) by (simp_all add: split_dot_append)
  have v: "jwt_verify C s' (h @ [46] @ p) sig" by (rule jwt_sign_verify [OF assms(1) sig])
  have "\<forall>c \<in> set user. c \<noteq> 0" using assms(3) by auto
  then have cs: "cstr user = user" by (simp add: cstr_def takeWhile_eq_all_conv)
  have keep: "as_jwt_alg s' = as_jwt_alg s" "cetcd_find_user s' = cetcd_find_user s"
    by (simp_all add: s' cetcd_find_user_def fun_eq_iff)
  have ne: "tok \<noteq> []" by (simp add: tok)
  obtain x where "cetcd_find_user s user = Some x" using u by auto
  then show ?thesis
    using assms(2) ne
    by (simp add: cetcd_auth_user_for_token_def jwt_user_for_def keep alg sd [simplified] dh dp dg h(2) p(2) g(2) v [simplified]
      header_finds(1,2) [OF alg, simplified] claim_username [OF q assms(3,4)] claim_revision [OF q(1)] claim_exp [OF q(1)] cs not_less)
qed

lemma plain_crypto_ok: "crypto_ok plain_crypto"
  by (simp add: crypto_ok_def plain_crypto_def)

definition jwt_store :: cetcd_auth_store where
  "jwt_store = small_roles\<lparr>as_jwt_alg := 1, as_jwt_key := [1, 2, 3]\<rparr>"

lemma b64url_loop_some: "n + 2 * length bs + 2 \<le> cap \<Longrightarrow> b64url_loop cap n bs \<noteq> None"
  by (induction cap n bs rule: b64url_loop.induct) (simp_all add: Let_def)

lemma b64url_encode_some:
  assumes "2 * length bs + 2 \<le> cap" and "0 < length bs"
  shows "b64url_encode bs cap \<noteq> []" and "length (b64url_encode bs cap) \<le> cap"
proof -
  obtain out where o: "b64url_loop cap 0 bs = Some out" using b64url_loop_some [of 0 bs cap] assms(1) by auto
  have "length bs \<le> length out \<and> length out \<le> cap" using b64url_loop_decode [OF o] by simp
  then show "b64url_encode bs cap \<noteq> []" "length (b64url_encode bs cap) \<le> cap" using assms(2) by (auto simp: b64url_encode_def o)
qed

lemma jwt_store_issues:
  "\<exists>tok s'. cetcd_auth_issue_token plain_crypto jwt_store [97] 5000000000 [] = (Some tok, s')"
  "jwt_expiry jwt_store 5000000000 = 305"
proof -
  have f: "as_token_ttl_ns small_roles = 300000000000" "as_token_seq small_roles = 0" by code_simp+
  then show e: "jwt_expiry jwt_store 5000000000 = 305" by (simp add: jwt_expiry_def jwt_store_def)
  have u: "cetcd_find_user jwt_store [97] \<noteq> None" using small_user by (auto simp: jwt_store_def cetcd_find_user_def)
  let ?h = "b64url_encode (jwt_header (bytes_of ''HS256'')) 64"
  let ?p = "b64url_encode (jwt_payload [97] 1 305) 400"
  have alg: "jwt_alg_name 1 = Some (bytes_of ''HS256'')" by (simp add: jwt_alg_name_def CETCD_JWT_HS256_def)
  have pl: "length (jwt_payload [97] 1 305) = 39"
    by (simp add: jwt_payload_def bytes_of_def print_dec.simps)
  have h: "?h \<noteq> []" "length ?h \<le> 64"
    using b64url_encode_some [of "jwt_header (bytes_of ''HS256'')" 64] header_finds(3) [OF alg] by auto
  have p: "?p \<noteq> []" "length ?p \<le> 400" using b64url_encode_some [of "jwt_payload [97] 1 305" 400] pl by auto
  define sig where "sig = take 32 ([1, 2, 3] @ (?h @ [46] @ ?p) @ replicate 32 0)"
  have sl: "length sig = 32" by (simp add: sig_def)
  have g: "b64url_encode sig 1024 \<noteq> []" "length (b64url_encode sig 1024) \<le> 1024"
    using b64url_encode_some [of sig 1024] sl by auto
  have mac: "ac_hmac plain_crypto [1, 2, 3] (?h @ [46] @ ?p) = Some sig"
    unfolding sig_def plain_crypto_def by (simp only: auth_crypto.simps)
  have sign: "jwt_sign plain_crypto (jwt_store\<lparr>as_token_seq := 1\<rparr>) (?h @ [46] @ ?p) = Some sig"
    using mac sl by (simp add: jwt_sign_def jwt_hmac_def jwt_store_def CETCD_JWT_HS256_def)
  have st: "as_jwt_alg jwt_store = 1" "as_token_seq jwt_store = 0" using f by (simp_all add: jwt_store_def)
  have "jwt_issue plain_crypto jwt_store [97] 5000000000 =
      (Some ((?h @ [46] @ ?p) @ [46] @ b64url_encode sig 1024), jwt_store\<lparr>as_token_seq := 1\<rparr>)"
    unfolding jwt_issue_def st alg Let_def e using h p g pl header_finds(3) [OF alg] sign
    by (simp add: st CETCD_AUTH_MAX_TOKEN_LEN_def)
  then show "\<exists>tok s'. cetcd_auth_issue_token plain_crypto jwt_store [97] 5000000000 [] = (Some tok, s')"
    using u st by (simp add: cetcd_auth_issue_token_def)
qed

theorem jwt_token_round_trip_witness:
  "let r = cetcd_auth_issue_token plain_crypto jwt_store [97] 5000000000 [] in
   fst r \<noteq> None \<and> fst (cetcd_auth_user_for_token plain_crypto (snd r) (the (fst r)) 304999999999) = Some [97] \<and>
   fst (cetcd_auth_user_for_token plain_crypto (snd r) (the (fst r)) 305000000000) = None"
proof -
  obtain tok s' where i: "cetcd_auth_issue_token plain_crypto jwt_store [97] 5000000000 [] = (Some tok, s')"
    and e: "jwt_expiry jwt_store 5000000000 = 305"
    using jwt_store_issues by blast
  have "as_jwt_alg jwt_store \<noteq> 0" by (simp add: jwt_store_def)
  note t = jwt_token_round_trip [OF plain_crypto_ok this _ _ i, simplified e]
  show ?thesis unfolding Let_def i using t [of 304999999999] t [of 305000000000] by simp
qed

end
