(* ===== verification/Cluster.thy ===== *)
theory Cluster
  imports Auth Wire
begin

text \<open>
  The member list of \<^verbatim>\<open>src/peer/peer.c\<close>: the peers of a node, their record in the backend and
  the framing of peer messages. Addresses are C strings in arrays of 256 bytes. The array of
  peers is a list; removal moves the last element into the gap.
\<close>

type_synonym u16 = "16 word"

record cetcd_peer_info =
  pi_id :: u64
  pi_addr :: bytes
  pi_port :: u16
  pi_is_learner :: bool

record 'e cetcd_cluster =
  cl_self_id :: u64
  cl_peers :: "cetcd_peer_info list"
  cl_send_fn :: bool
  cl_backend :: "'e option"
  cl_loaded_joint_ids :: "u64 list"
  cl_loaded_joint_index :: u64

definition MEMBERS_BUCKET :: string where "MEMBERS_BUCKET = ''members''"

definition cetcd_peer_new :: "u64 \<Rightarrow> bytes \<Rightarrow> u16 \<Rightarrow> cetcd_peer_info" where
  "cetcd_peer_new i addr port = \<lparr>pi_id = i, pi_addr = take 255 (cstr addr), pi_port = port, pi_is_learner = False\<rparr>"

definition cetcd_cluster_new :: "u64 \<Rightarrow> 'e cetcd_cluster" where
  "cetcd_cluster_new self_id =
     \<lparr>cl_self_id = self_id, cl_peers = [], cl_send_fn = False, cl_backend = None, cl_loaded_joint_ids = [], cl_loaded_joint_index = 0\<rparr>"

definition cetcd_cluster_add_peer ::
  "'e cetcd_cluster \<Rightarrow> cetcd_peer_info \<Rightarrow> cetcd_status \<times> 'e cetcd_cluster" where
  "cetcd_cluster_add_peer c info =
     (if list_ex (\<lambda>p. pi_id p = pi_id info) (cl_peers c) then (CETCD_ERR_EXISTS, c)
      else (CETCD_OK, c\<lparr>cl_peers := cl_peers c @
             [(cetcd_peer_new (pi_id info) (pi_addr info) (pi_port info))\<lparr>pi_is_learner := pi_is_learner info\<rparr>]\<rparr>))"

text \<open>The last element takes the place of the removed one.\<close>

fun remove_swap :: "u64 \<Rightarrow> cetcd_peer_info list \<Rightarrow> cetcd_peer_info list option" where
  "remove_swap i [] = None"
| "remove_swap i (p # ps) =
     (if pi_id p = i then Some (if ps = [] then [] else last ps # butlast ps)
      else map_option (\<lambda>ps. p # ps) (remove_swap i ps))"

definition cetcd_cluster_remove_peer :: "'e cetcd_cluster \<Rightarrow> u64 \<Rightarrow> cetcd_status \<times> 'e cetcd_cluster" where
  "cetcd_cluster_remove_peer c i =
     (case remove_swap i (cl_peers c) of
        None \<Rightarrow> (CETCD_ERR_NOTFOUND, c)
      | Some ps \<Rightarrow> (CETCD_OK, c\<lparr>cl_peers := ps\<rparr>))"

text \<open>The sender is a callback: the field says whether it is set, a send returns the call made.\<close>

definition cetcd_cluster_set_sender :: "'e cetcd_cluster \<Rightarrow> bool \<Rightarrow> cetcd_status \<times> 'e cetcd_cluster" where
  "cetcd_cluster_set_sender c fn = (CETCD_OK, c\<lparr>cl_send_fn := fn\<rparr>)"

definition cetcd_cluster_send_msg ::
  "'e cetcd_cluster \<Rightarrow> bytes \<Rightarrow> u64 \<Rightarrow> cetcd_status \<times> (u64 \<times> bytes) list" where
  "cetcd_cluster_send_msg c serialized_msg to_id = (CETCD_OK, if cl_send_fn c then [(to_id, serialized_msg)] else [])"

section \<open>Framing\<close>

text \<open>A message is preceded by its length as 32 bits, most significant byte first.\<close>

definition cetcd_msg_encode :: "bytes \<Rightarrow> bytes" where
  "cetcd_msg_encode raft_msg_raw =
     (let be_len = of_nat (length raft_msg_raw) :: u32
      in [ucast (drop_bit 24 be_len), ucast (drop_bit 16 be_len), ucast (drop_bit 8 be_len), ucast be_len] @ raft_msg_raw)"

definition cetcd_msg_decode :: "bytes \<Rightarrow> cetcd_status \<times> bytes" where
  "cetcd_msg_decode data =
     (if length data < 4 then (CETCD_ERR_INVAL, [])
      else
        let payload_len = push_bit 24 (ucast (data ! 0)) OR push_bit 16 (ucast (data ! 1)) OR
                          push_bit 8 (ucast (data ! 2)) OR (ucast (data ! 3) :: u32)
        in if unat payload_len + 4 > length data then (CETCD_ERR_CORRUPT, [])
           else (CETCD_OK, take (unat payload_len) (drop 4 data)))"

section \<open>Queries\<close>

definition cetcd_cluster_get_peer :: "'e cetcd_cluster \<Rightarrow> u64 \<Rightarrow> cetcd_peer_info option" where
  "cetcd_cluster_get_peer c i =
     map_option (\<lambda>p. p\<lparr>pi_addr := take 255 (cstr (pi_addr p))\<rparr>) (find (\<lambda>p. pi_id p = i) (cl_peers c))"

definition cetcd_cluster_get_peer_by_index :: "'e cetcd_cluster \<Rightarrow> nat \<Rightarrow> cetcd_peer_info option" where
  "cetcd_cluster_get_peer_by_index c index =
     (if index \<ge> length (cl_peers c) then None
      else Some ((cl_peers c ! index)\<lparr>pi_addr := take 255 (cstr (pi_addr (cl_peers c ! index)))\<rparr>))"

definition cetcd_cluster_peer_count :: "'e cetcd_cluster \<Rightarrow> nat" where
  "cetcd_cluster_peer_count c = length (cl_peers c)"

definition cetcd_cluster_self_id :: "'e cetcd_cluster \<Rightarrow> u64" where
  "cetcd_cluster_self_id c = cl_self_id c"

definition cetcd_peer_is_rafthttp_path :: "bytes \<Rightarrow> bool" where
  "cetcd_peer_is_rafthttp_path path \<longleftrightarrow> cstr path = bytes_of ''/raft''"

definition cetcd_cluster_voter_count :: "'e cetcd_cluster \<Rightarrow> u32" where
  "cetcd_cluster_voter_count c =
     (if cl_self_id c = 0 then 0
      else 1 + of_nat (length (filter (\<lambda>p. pi_id p \<noteq> cl_self_id c \<and> \<not> pi_is_learner p) (cl_peers c))))"

definition cetcd_cluster_learner_count :: "'e cetcd_cluster \<Rightarrow> u32" where
  "cetcd_cluster_learner_count c = of_nat (length (filter pi_is_learner (cl_peers c)))"

definition cetcd_reconfig_may_remove :: "u32 \<Rightarrow> bool \<Rightarrow> bool" where
  "cetcd_reconfig_may_remove voter_count target_is_learner =
     (if target_is_learner then True
      else if voter_count = 0 then False
      else let after = voter_count - 1; quorum = voter_count div 2 + 1 in after \<ge> quorum)"

definition cetcd_reconfig_check_remove :: "u32 \<Rightarrow> bool \<Rightarrow> bool \<Rightarrow> bool" where
  "cetcd_reconfig_check_remove voter_count target_is_learner strict =
     (if \<not> strict then True else cetcd_reconfig_may_remove voter_count target_is_learner)"

definition cetcd_reconfig_may_add_learner :: "u32 \<Rightarrow> u32 \<Rightarrow> bool" where
  "cetcd_reconfig_may_add_learner current_learners max_learners \<longleftrightarrow> current_learners < max_learners"

section \<open>Changing a member\<close>

fun update_first :: "u64 \<Rightarrow> (cetcd_peer_info \<Rightarrow> cetcd_peer_info) \<Rightarrow> cetcd_peer_info list \<Rightarrow> cetcd_peer_info list" where
  "update_first i f [] = []"
| "update_first i f (p # ps) = (if pi_id p = i then f p # ps else p # update_first i f ps)"

definition cetcd_cluster_update_peer ::
  "'e cetcd_cluster \<Rightarrow> u64 \<Rightarrow> cetcd_peer_info \<Rightarrow> cetcd_status \<times> 'e cetcd_cluster" where
  "cetcd_cluster_update_peer c i info =
     (if cetcd_cluster_get_peer c i = None then (CETCD_ERR_NOTFOUND, c)
      else (CETCD_OK, c\<lparr>cl_peers := update_first i
             (\<lambda>p. \<lparr>pi_id = pi_id info, pi_addr = take 255 (cstr (pi_addr info)), pi_port = pi_port info,
                    pi_is_learner = pi_is_learner info\<rparr>) (cl_peers c)\<rparr>))"

definition cetcd_cluster_alloc_id :: "'e cetcd_cluster \<Rightarrow> u64" where
  "cetcd_cluster_alloc_id c = fold (\<lambda>p mx. if pi_id p > mx then pi_id p else mx) (cl_peers c) (cl_self_id c) + 1"

definition cetcd_cluster_promote :: "'e cetcd_cluster \<Rightarrow> u64 \<Rightarrow> cetcd_status \<times> 'e cetcd_cluster" where
  "cetcd_cluster_promote c i =
     (if i = 0 then (CETCD_ERR_INVAL, c)
      else case cetcd_cluster_get_peer c i of
          None \<Rightarrow> (CETCD_ERR_NOTFOUND, c)
        | Some p \<Rightarrow>
            if \<not> pi_is_learner p then (CETCD_ERR_INVAL, c)
            else (CETCD_OK, c\<lparr>cl_peers := update_first i (\<lambda>p. p\<lparr>pi_is_learner := False\<rparr>) (cl_peers c)\<rparr>))"

section \<open>Persistence\<close>

definition cetcd_cluster_set_backend :: "'e cetcd_cluster \<Rightarrow> 'e option \<Rightarrow> 'e cetcd_cluster" where
  "cetcd_cluster_set_backend c be = c\<lparr>cl_backend := be\<rparr>"

definition peer_record :: "cetcd_peer_info \<Rightarrow> bytes" where
  "peer_record info =
     [of_bool (pi_is_learner info), ucast (pi_port info), ucast (drop_bit 8 (pi_port info))] @ take 256 (cstr (pi_addr info))"

definition cetcd_cluster_persist_peer ::
  "('e, 't) lmdb \<Rightarrow> 'e cetcd_cluster \<Rightarrow> cetcd_peer_info \<Rightarrow> cetcd_status \<times> 'e cetcd_cluster" where
  "cetcd_cluster_persist_peer L c info =
     (if pi_id info = 0 then (CETCD_ERR_INVAL, c)
      else case cl_backend c of
          None \<Rightarrow> (CETCD_OK, c)
        | Some be \<Rightarrow>
            (case cetcd_backend_put L be MEMBERS_BUCKET (write_le64 (pi_id info)) (peer_record info) of
               (rc, be) \<Rightarrow> (rc, c\<lparr>cl_backend := Some be\<rparr>)))"

definition cetcd_cluster_persist_del ::
  "('e, 't) lmdb \<Rightarrow> 'e cetcd_cluster \<Rightarrow> u64 \<Rightarrow> cetcd_status \<times> 'e cetcd_cluster" where
  "cetcd_cluster_persist_del L c i =
     (if i = 0 then (CETCD_ERR_INVAL, c)
      else case cl_backend c of
          None \<Rightarrow> (CETCD_OK, c)
        | Some be \<Rightarrow>
            (case cetcd_backend_del L be MEMBERS_BUCKET (write_le64 i) of
               (rc, be) \<Rightarrow> (if rc = CETCD_ERR_NOTFOUND then CETCD_OK else rc, c\<lparr>cl_backend := Some be\<rparr>)))"

text \<open>The outgoing voters of a joint configuration are stored under the key 0.\<close>

fun read_ids :: "bytes \<Rightarrow> nat \<Rightarrow> u64 list" where
  "read_ids bs 0 = []"
| "read_ids bs (Suc n) = (if length bs < 8 then [] else read_le64 bs # read_ids (drop 8 bs) n)"

definition cluster_load_cb ::
  "(bytes, 'e cetcd_cluster \<times> cetcd_status) cetcd_treap_iter_fn" where
  "cluster_load_cb key val ctx =
     (case ctx of (c, st) \<Rightarrow>
        if length key \<noteq> 8 then ((c, st), True)
        else
          let i = read_le64 key in
          if i = 0 then
            (if length val < 8 then ((c, st), True)
             else ((c\<lparr>cl_loaded_joint_index := read_le64 val, cl_loaded_joint_ids := read_ids (drop 8 val) 16\<rparr>, st), True))
          else if length val < 3 then ((c, st), True)
          else
            let info = \<lparr>pi_id = i, pi_addr = cstr (take 255 (drop 3 val)),
                        pi_port = ucast (val ! 1) OR push_bit 8 (ucast (val ! 2)), pi_is_learner = (val ! 0 \<noteq> 0)\<rparr>
            in case cetcd_cluster_add_peer c info of
                 (rc, c) \<Rightarrow> ((c, if rc \<noteq> CETCD_OK \<and> rc \<noteq> CETCD_ERR_EXISTS then rc else st), True))"

definition cetcd_cluster_load ::
  "('e, 't) lmdb \<Rightarrow> 'e cetcd_cluster \<Rightarrow> 'e \<Rightarrow> cetcd_status \<times> 'e cetcd_cluster" where
  "cetcd_cluster_load L c be =
     (case cetcd_backend_foreach L be MEMBERS_BUCKET cluster_load_cb (c\<lparr>cl_backend := Some be\<rparr>, CETCD_OK) of
        (rc, ctx) \<Rightarrow> if rc \<noteq> CETCD_OK \<and> rc \<noteq> CETCD_ERR_NOTFOUND then (rc, fst ctx) else (snd ctx, fst ctx))"

definition cetcd_cluster_persist_joint ::
  "('e, 't) lmdb \<Rightarrow> 'e cetcd_cluster \<Rightarrow> u64 list \<Rightarrow> u64 \<Rightarrow> cetcd_status \<times> 'e cetcd_cluster" where
  "cetcd_cluster_persist_joint L c ids joint_index =
     (case cl_backend c of
        None \<Rightarrow> (CETCD_OK, c)
      | Some be \<Rightarrow>
          (case cetcd_backend_put L be MEMBERS_BUCKET (replicate 8 0)
                  (write_le64 joint_index @ concat (map write_le64 (take 16 ids))) of
             (rc, be) \<Rightarrow> (rc, c\<lparr>cl_backend := Some be\<rparr>)))"

definition cetcd_cluster_persist_clear_joint :: "('e, 't) lmdb \<Rightarrow> 'e cetcd_cluster \<Rightarrow> cetcd_status \<times> 'e cetcd_cluster" where
  "cetcd_cluster_persist_clear_joint L c =
     (case cl_backend c of
        None \<Rightarrow> (CETCD_OK, c)
      | Some be \<Rightarrow>
          (case cetcd_backend_del L be MEMBERS_BUCKET (replicate 8 0) of
             (rc, be) \<Rightarrow> (if rc = CETCD_ERR_NOTFOUND then CETCD_OK else rc, c\<lparr>cl_backend := Some be\<rparr>)))"

text \<open>At most \<^verbatim>\<open>cap\<close> ids are copied, but the count returned is the full one.\<close>

definition cetcd_cluster_loaded_joint :: "'e cetcd_cluster \<Rightarrow> nat \<Rightarrow> nat \<times> u64 list \<times> u64" where
  "cetcd_cluster_loaded_joint c cap =
     (length (cl_loaded_joint_ids c), take cap (cl_loaded_joint_ids c), cl_loaded_joint_index c)"

end
