(* ===== verification/Mvcc_Range.thy ===== *)
theory Mvcc_Range
  imports Mvcc_Store
begin

text \<open>
  Range reads of the store: a range at the current revision, which walks the index, and a
  range at a past revision, which walks the history with a hash table of the keys met, both
  give the keys in the interval in ascending order with what a single read gives for each.
\<close>

lemma key_in_range_bounds: "key_in_range k lo hi \<longleftrightarrow> in_bounds lo hi k"
proof -
  have below: "(let n = (if length k < length b then length k else length b); c = memcmp k b n
      in c < 0 \<or> c = 0 \<and> length k < length b) \<longleftrightarrow> cetcd_slice_compare k b < 0" for b
    by (auto simp: cetcd_slice_compare_def Let_def min_def)
  have above: "(let n = (if length k < length b then length k else length b); c = memcmp k b n
      in c > 0 \<or> c = 0 \<and> length k \<ge> length b) \<longleftrightarrow> 0 \<le> cetcd_slice_compare k b" for b
    by (auto simp: cetcd_slice_compare_def Let_def min_def)
  show ?thesis
    unfolding key_in_range_def below above in_bounds_def by (auto simp: not_less)
qed

lemma hashmap_put_rc: "fst (cetcd_hashmap_put m k v) = CETCD_OK"
  by (simp add: cetcd_hashmap_put_def Let_def case_prod_beta)

text \<open>A row of the range: the newest entry of its key up to the revision is this put.\<close>

definition row_of :: "revision_entry list \<Rightarrow> int \<Rightarrow> cetcd_kv \<Rightarrow> bool" where
  "row_of es rv kv \<longleftrightarrow>
     (case find (\<lambda>e. rev_main (he_rev e) \<le> rv \<and> he_key e = kv_key kv) es of
        None \<Rightarrow> False
      | Some e \<Rightarrow> he_type e \<noteq> CETCD_EVENT_DELETE \<and> kv = kv_of_entry e)"

lemma row_of_Nil [simp]: "\<not> row_of [] rv kv"
  by (simp add: row_of_def)

lemma row_of_Cons:
  "row_of (e # es) rv kv \<longleftrightarrow>
     (if rev_main (he_rev e) \<le> rv \<and> he_key e = kv_key kv
      then he_type e \<noteq> CETCD_EVENT_DELETE \<and> kv = kv_of_entry e else row_of es rv kv)"
  by (simp add: row_of_def)

definition rows_ok :: "revision_entry list \<Rightarrow> int \<Rightarrow> bytes \<Rightarrow> bytes \<Rightarrow> unit cetcd_hashmap \<Rightarrow> cetcd_kv list \<Rightarrow> bool" where
  "rows_ok es rv lo hi seen out \<longleftrightarrow> distinct (map kv_key out) \<and>
     (\<forall>kv. kv \<in> set out \<longleftrightarrow>
        cetcd_hashmap_get seen (kv_key kv) = None \<and> in_bounds lo hi (kv_key kv) \<and> row_of es rv kv)"

lemma rows_ok_skip:
  assumes "rows_ok es rv lo hi seen out"
    and "\<not> rev_main (he_rev e) \<le> rv \<or> \<not> in_bounds lo hi (he_key e) \<or> cetcd_hashmap_get seen (he_key e) \<noteq> None"
  shows "rows_ok (e # es) rv lo hi seen out"
  using assms unfolding rows_ok_def row_of_Cons by metis

lemma rows_ok_new:
  assumes out: "rows_ok es rv lo hi seen' out"
    and e: "rev_main (he_rev e) \<le> rv" "in_bounds lo hi (he_key e)" "cetcd_hashmap_get seen (he_key e) = None"
    and seen: "\<And>j. cetcd_hashmap_get seen' j = (if j = he_key e then Some () else cetcd_hashmap_get seen j)"
  shows "rows_ok (e # es) rv lo hi seen (if he_type e = CETCD_EVENT_DELETE then out else kv_of_entry e # out)"
proof -
  let ?out = "if he_type e = CETCD_EVENT_DELETE then out else kv_of_entry e # out"
  have k: "kv_key (kv_of_entry e) = he_key e" by (simp add: kv_of_entry_def)
  have mem: "kv \<in> set out \<longleftrightarrow> kv_key kv \<noteq> he_key e \<and> cetcd_hashmap_get seen (kv_key kv) = None \<and>
      in_bounds lo hi (kv_key kv) \<and> row_of es rv kv" for kv
    using out by (simp add: rows_ok_def seen)
  have "he_key e \<notin> kv_key ` set out" using mem by auto
  then have "distinct (map kv_key ?out)" using out by (simp add: rows_ok_def k)
  moreover have "kv \<in> set ?out \<longleftrightarrow> cetcd_hashmap_get seen (kv_key kv) = None \<and> in_bounds lo hi (kv_key kv) \<and>
      row_of (e # es) rv kv" for kv
    by (cases "kv_key kv = he_key e") (use e k in \<open>auto simp: row_of_Cons mem\<close>)
  ultimately show ?thesis by (simp add: rows_ok_def)
qed

lemma range_walk_spec:
  assumes "cap_bound n seen" and "n + length es \<le> 2 ^ 60"
  shows "\<exists>out. range_walk es rv lo hi seen rows = (CETCD_OK, rows @ out) \<and> rows_ok es rv lo hi seen out"
  using assms
proof (induction es arbitrary: n seen rows)
  case Nil
  then show ?case by (simp add: rows_ok_def)
next
  case (Cons e es)
  let ?k = "he_key e"
  have len: "n < 2 ^ 60" "n + length es \<le> 2 ^ 60" "Suc n + length es \<le> 2 ^ 60" using Cons.prems(2) by simp_all
  have ok: "hashmap_ok seen" using Cons.prems(1) by (simp add: cap_bound_def)
  have room: "h_cap seen < 2 ^ 63" using Cons.prems(1) len(1) by (simp add: cap_bound_def)
  consider (skip) "\<not> rev_main (he_rev e) \<le> rv \<or> \<not> in_bounds lo hi ?k \<or> cetcd_hashmap_get seen ?k \<noteq> None"
    | (new) "rev_main (he_rev e) \<le> rv" "in_bounds lo hi ?k" "cetcd_hashmap_get seen ?k = None" by blast
  then show ?case
  proof cases
    case skip
    then have "range_walk (e # es) rv lo hi seen rows = range_walk es rv lo hi seen rows"
      unfolding range_walk.simps key_in_range_bounds cetcd_hashmap_contains_def
      by (elim disjE) (simp_all del: range_walk.simps)
    with Cons.IH [OF Cons.prems(1) len(2), of rows] rows_ok_skip [OF _ skip] show ?thesis by auto
  next
    case new
    let ?seen = "snd (cetcd_hashmap_put seen ?k ())"
    let ?rows = "if he_type e = CETCD_EVENT_DELETE then rows else rows @ [kv_of_entry e]"
    obtain out where out: "range_walk es rv lo hi ?seen ?rows = (CETCD_OK, ?rows @ out)" "rows_ok es rv lo hi ?seen out"
      using Cons.IH [OF cap_bound_put [OF Cons.prems(1) len(1)] len(3)] by blast
    obtain seen' where put: "cetcd_hashmap_put seen ?k () = (CETCD_OK, seen')"
      using hashmap_put_rc [of seen ?k "()"] by (cases "cetcd_hashmap_put seen ?k ()") simp
    then have "range_walk (e # es) rv lo hi seen rows = range_walk es rv lo hi ?seen ?rows"
      using new by (simp add: key_in_range_bounds cetcd_hashmap_contains_def)
    with out(1) rows_ok_new [OF out(2) new hm.get_put [OF ok room]] show ?thesis
      by (intro exI [of _ "if he_type e = CETCD_EVENT_DELETE then out else kv_of_entry e # out"]) simp
  qed
qed

lemma cetcd_hashmap_new_0: "cetcd_hashmap_new 0 = Some (map_alloc_table 8)"
  by (simp add: cetcd_hashmap_new_def CETCD_HASHMAP_MIN_CAP_def)

text \<open>The end of the interval as the code normalises it: one zero byte means no end.\<close>

definition range_end_of :: "bytes \<Rightarrow> bytes" where
  "range_end_of hi = (if hi = [0] then [] else hi)"

lemma sorted_rows:
  assumes "distinct (map kv_key rows)"
  shows "sorted_wrt (<) (map kv_key (if length rows > 1 then sort_key kv_key rows else rows))"
proof -
  have "sorted_wrt (<) (map kv_key (sort_key kv_key rows))"
    using assms by (simp add: strict_sorted_iff distinct_map)
  moreover have "sorted_wrt (<) (map kv_key rows)" if "\<not> length rows > 1"
    using that by (cases rows) auto
  ultimately show ?thesis by simp
qed

lemma range_past:
  assumes "rv \<noteq> 0" and "ms_compacted_rev s \<le> rv" and "length (ms_history s) \<le> 2 ^ 60"
  obtains rows where "cetcd_mvcc_range s rv lo hi = (CETCD_OK, rows)" "sorted_wrt (<) (map kv_key rows)"
    "\<And>kv. kv \<in> set rows \<longleftrightarrow> in_bounds lo (range_end_of hi) (kv_key kv) \<and> cetcd_mvcc_get s rv (kv_key kv) = (CETCD_OK, Some kv)"
proof -
  obtain out where out: "range_walk (rev (ms_history s)) rv lo (range_end_of hi) (map_alloc_table 8) [] = (CETCD_OK, out)"
    "rows_ok (rev (ms_history s)) rv lo (range_end_of hi) (map_alloc_table 8) out"
    using range_walk_spec [OF cap_bound_new, of "rev (ms_history s)" rv lo "range_end_of hi" "[]"] assms(3) by auto
  let ?rows = "if length out > 1 then sort_key kv_key out else out"
  have run: "cetcd_mvcc_range s rv lo hi = (CETCD_OK, ?rows)"
    using assms(1,2) out(1) by (auto simp: cetcd_mvcc_range_def cetcd_hashmap_new_0 range_end_of_def Let_def)
  have key: "kv_key kv = he_key e" if "find (\<lambda>e. rev_main (he_rev e) \<le> rv \<and> he_key e = kv_key kv) es = Some e" for kv es e
    using that by (induction es) (auto split: if_splits)
  have "kv \<in> set out \<longleftrightarrow> in_bounds lo (range_end_of hi) (kv_key kv) \<and> cetcd_mvcc_get s rv (kv_key kv) = (CETCD_OK, Some kv)" for kv
    using out(2) unfolding get_past [OF assms(1,2)] rows_ok_def
    by (auto simp: hm.get_empty row_of_def newest_def split: option.splits)
  moreover have "sorted_wrt (<) (map kv_key ?rows)"
    by (rule sorted_rows) (use out(2) in \<open>simp add: rows_ok_def\<close>)
  moreover have "set ?rows = set out" by simp
  ultimately show ?thesis using that [OF run] by metis
qed

lemma walk_collect_rows:
  assumes "\<forall>e \<in> set es. \<not> kg_deleted (snd e)"
  shows "walk range_collect_cb es rows = (rows @ map (\<lambda>(k, kg). kv_of_kg k kg) es, True)"
  using assms by (induction es arbitrary: rows) (auto simp: range_collect_cb_def)

lemma range_current:
  assumes "mvcc_ok s"
  obtains rows where "cetcd_mvcc_range s 0 lo hi = (CETCD_OK, rows)" "sorted_wrt (<) (map kv_key rows)"
    "\<And>kv. kv \<in> set rows \<longleftrightarrow> in_bounds lo (range_end_of hi) (kv_key kv) \<and> cetcd_mvcc_get s 0 (kv_key kv) = (CETCD_OK, Some kv)"
proof -
  let ?es = "filter (\<lambda>e. in_bounds lo (range_end_of hi) (fst e)) (treap_entries (ms_index s))"
  have ok: "treap_ok (ms_index s)" using assms by (simp add: mvcc_ok_def)
  have live: "\<forall>e \<in> set ?es. \<not> kg_deleted (snd e)"
  proof
    fix e
    assume e: "e \<in> set ?es"
    obtain k kg where that: "e = (k, kg)" by fastforce
    have "cetcd_treap_get (ms_index s) k = Some kg" using e that by (simp add: ti.entries_mem [OF ok])
    from mvcc_ok_key [OF assms this] show "\<not> kg_deleted (snd e)" by (simp add: gen_ok_def that)
  qed
  have run: "cetcd_mvcc_range s 0 lo hi = (CETCD_OK, map (\<lambda>(k, kg). kv_of_kg k kg) ?es)"
    using walk_collect_rows [OF live, of "[]"]
    by (simp add: cetcd_mvcc_range_def cetcd_treap_range_walk range_end_of_def Let_def)
  have "map kv_key (map (\<lambda>(k, kg). kv_of_kg k kg) ?es) = map fst ?es" by auto
  moreover have "sorted_wrt (<) (map fst ?es)"
    using ti.entries_sorted [OF ok] by (simp add: sorted_wrt_map sorted_wrt_filter)
  moreover have "kv \<in> set (map (\<lambda>(k, kg). kv_of_kg k kg) ?es) \<longleftrightarrow>
      in_bounds lo (range_end_of hi) (kv_key kv) \<and> cetcd_mvcc_get s 0 (kv_key kv) = (CETCD_OK, Some kv)" for kv
  proof -
    have "kv \<in> set (map (\<lambda>(k, kg). kv_of_kg k kg) ?es) \<longleftrightarrow>
        (\<exists>k kg. cetcd_treap_get (ms_index s) k = Some kg \<and> in_bounds lo (range_end_of hi) k \<and> kv = kv_of_kg k kg)"
      by (force simp flip: ti.entries_mem [OF ok])
    also have "\<dots> \<longleftrightarrow> in_bounds lo (range_end_of hi) (kv_key kv) \<and>
        (\<exists>kg. cetcd_treap_get (ms_index s) (kv_key kv) = Some kg \<and> kv = kv_of_kg (kv_key kv) kg)"
      by (metis kv_of_kg_fields(1))
    finally show ?thesis by (auto simp: get_current [OF assms] split: option.splits)
  qed
  ultimately show ?thesis using that [OF run] by metis
qed

text \<open>
  C21. A range read, at the current or at a past revision that is not compacted, returns
  exactly the keys of the interval that a single read at the same revision finds, each with
  the value of that read, once and in ascending order; an end of one zero byte means no
  end. The two code paths, over the index and over the history, meet the same contract.
\<close>

theorem mvcc_range_get:
  assumes "s = mvcc_run L be ops" and "rv = 0 \<or> ms_compacted_rev s \<le> rv" and "length (ms_history s) \<le> 2 ^ 60"
  shows "\<exists>rows. cetcd_mvcc_range s rv lo hi = (CETCD_OK, rows) \<and> sorted_wrt (<) (map kv_key rows) \<and>
    (\<forall>kv. kv \<in> set rows \<longleftrightarrow>
       in_bounds lo (range_end_of hi) (kv_key kv) \<and> cetcd_mvcc_get s rv (kv_key kv) = (CETCD_OK, Some kv))"
proof (cases "rv = 0")
  case True
  have "mvcc_ok s" using assms(1) mvcc_run_ok by simp
  from range_current [OF this, of lo hi] show ?thesis using True by metis
next
  case False
  with assms(2) have "ms_compacted_rev s \<le> rv" by simp
  from range_past [OF False this assms(3), of lo hi] show ?thesis by metis
qed

theorem mvcc_range_get_witness:
  "\<exists>rows. cetcd_mvcc_range (mvcc_run mem_lmdb None [MPut [7] [1] 0, MPut [9] [2] 0, MDelete [7]]) 2 [7] [0] = (CETCD_OK, rows) \<and>
     sorted_wrt (<) (map kv_key rows) \<and>
     \<lparr>kv_key = [7], kv_value = [1], kv_create_rev = \<lparr>rev_main = 1, rev_sub = 0\<rparr>,
      kv_mod_rev = \<lparr>rev_main = 1, rev_sub = 0\<rparr>, kv_version = 1, kv_lease_id = 0\<rparr> \<in> set rows"
proof -
  let ?s = "mvcc_run mem_lmdb None [MPut [7] [1] 0, MPut [9] [2] 0, MDelete [7]]"
  have c: "ms_compacted_rev ?s = 0" "length (ms_history ?s) = 3" by code_simp+
  have g: "cetcd_mvcc_get ?s 2 [7] = (CETCD_OK, Some
      \<lparr>kv_key = [7], kv_value = [1], kv_create_rev = \<lparr>rev_main = 1, rev_sub = 0\<rparr>,
        kv_mod_rev = \<lparr>rev_main = 1, rev_sub = 0\<rparr>, kv_version = 1, kv_lease_id = 0\<rparr>)" by code_simp
  have "\<exists>rows. cetcd_mvcc_range ?s 2 [7] [0] = (CETCD_OK, rows) \<and> sorted_wrt (<) (map kv_key rows) \<and>
    (\<forall>kv. kv \<in> set rows \<longleftrightarrow> in_bounds [7] (range_end_of [0]) (kv_key kv) \<and> cetcd_mvcc_get ?s 2 (kv_key kv) = (CETCD_OK, Some kv))"
    by (rule mvcc_range_get [OF refl]) (simp_all add: c)
  then obtain rows where
    "cetcd_mvcc_range ?s 2 [7] [0] = (CETCD_OK, rows)" "sorted_wrt (<) (map kv_key rows)"
    "\<forall>kv. kv \<in> set rows \<longleftrightarrow> in_bounds [7] (range_end_of [0]) (kv_key kv) \<and> cetcd_mvcc_get ?s 2 (kv_key kv) = (CETCD_OK, Some kv)"
    by blast
  then show ?thesis using g by (auto simp: in_bounds_def range_end_of_def)
qed

end
