(* ===== verification/Mvcc_Recovery.thy ===== *)
theory Mvcc_Recovery
  imports Mvcc_Range
begin

text \<open>
  Persistence of the store: the database mirrors the index and the two revisions after
  every operation, failed ones included, and loading it rebuilds the store.
\<close>

section \<open>The stored form of a generation\<close>

definition i64 :: "int \<Rightarrow> bool" where
  "i64 x \<longleftrightarrow> - (2 ^ 63) \<le> x \<and> x < 2 ^ 63"

lemma sint_word_of_int_i64 [simp]: "i64 x \<Longrightarrow> sint (word_of_int x :: u64) = x"
  by (simp add: i64_def sint_sbintrunc' signed_take_bit_int_eq_self)

definition kg_i64 :: "key_generation \<Rightarrow> bool" where
  "kg_i64 kg \<longleftrightarrow> i64 (rev_main (kg_create_rev kg)) \<and> i64 (rev_sub (kg_create_rev kg)) \<and>
     i64 (rev_main (kg_mod_rev kg)) \<and> i64 (rev_sub (kg_mod_rev kg)) \<and> i64 (kg_version kg) \<and> i64 (kg_lease_id kg)"

lemma decode_encode_kg:
  assumes "kg_i64 kg" and "\<not> kg_deleted kg"
  shows "decode_kg (encode_kg kg) = Some kg"
  using assms by (simp add: decode_kg_def encode_kg_def kg_i64_def)

lemma gen_ok_i64: "gen_ok m kg \<Longrightarrow> m < 2 ^ 63 \<Longrightarrow> i64 (kg_lease_id kg) \<Longrightarrow> kg_i64 kg"
  by (simp add: gen_ok_def kg_i64_def i64_def)

section \<open>The database mirrors the store\<close>

definition meta_is :: "view \<Rightarrow> bytes \<Rightarrow> int \<Rightarrow> bool" where
  "meta_is v key x \<longleftrightarrow> v MVCC_BUCKET_META key = Some (write_le64 (word_of_int x)) \<or>
     v MVCC_BUCKET_META key = None \<and> x = 0"

definition mirrors :: "view \<Rightarrow> 'e cetcd_mvcc_store \<Rightarrow> bool" where
  "mirrors v s \<longleftrightarrow> (\<forall>k. v MVCC_BUCKET_KEY k = map_option encode_kg (cetcd_treap_get (ms_index s) k)) \<and>
     meta_is v MVCC_META_REV (ms_main_rev s) \<and> meta_is v MVCC_META_COMPACTED (ms_compacted_rev s) \<and>
     (\<forall>k kg. cetcd_treap_get (ms_index s) k = Some kg \<longrightarrow> i64 (kg_lease_id kg))"

definition mirrored :: "('e \<Rightarrow> view) \<Rightarrow> 'e cetcd_mvcc_store \<Rightarrow> bool" where
  "mirrored view s \<longleftrightarrow> (\<exists>be. ms_backend s = Some be \<and> mirrors (view be) s)"

fun op_i64 :: "mvcc_op \<Rightarrow> bool" where
  "op_i64 (MPut k v l) = i64 l"
| "op_i64 _ = True"

lemma mvcc_names [simp]:
  "MVCC_BUCKET_KEY \<noteq> MVCC_BUCKET_META" "MVCC_BUCKET_META \<noteq> MVCC_BUCKET_KEY"
  "MVCC_META_REV \<noteq> MVCC_META_COMPACTED" "MVCC_META_COMPACTED \<noteq> MVCC_META_REV"
  by (auto simp: MVCC_BUCKET_KEY_def MVCC_BUCKET_META_def MVCC_META_REV_def MVCC_META_COMPACTED_def bytes_of_def
      dest: arg_cong [of _ _ length])

lemma mirrors_backend [simp]: "mirrors v (s\<lparr>ms_backend := be\<rparr>) = mirrors v s"
  by (simp add: mirrors_def)

lemma put_gen_lease [simp]: "kg_lease_id (put_gen s k v l) = l"
  by (simp add: put_gen_def Let_def split: option.split)

lemma delete_keys_loop_effect:
  assumes "delete_keys_loop L ks m i l s = (r, s')" and "mvcc_ok s" and "ms_main_rev s \<le> m" and "0 < m"
    and "\<forall>a \<in> set (ms_history s). history_rev_key a < (m, i)"
  shows "(\<forall>j. cetcd_treap_get (ms_index s') j = (if j \<in> set ks then None else cetcd_treap_get (ms_index s) j)) \<and>
    ms_backend s' = ms_backend s \<and>
    (ks \<noteq> [] \<longrightarrow> cetcd_treap_get (ms_index s) (hd ks) \<noteq> None \<longrightarrow> ms_main_rev s' = m)"
  using assms
proof (induction L ks m i l s arbitrary: r s' rule: delete_keys_loop.induct)
  case (2 L k ks m i l s)
  let ?f = "Some \<lparr>rev_main = m, rev_sub = i\<rparr>"
  obtain r1 s1 where s1: "delete_one L s k False ?f = (r1, s1)" by (cases "delete_one L s k False ?f")
  have ok1: "mvcc_ok s1"
    by (rule delete_one_ok [OF 2(3) s1]) (use 2(4-6) in auto)
  have app: "appends_at m s s1" by (rule delete_one_appends(1) [OF s1]) simp
  obtain new where new: "ms_history s1 = ms_history s @ new" "\<forall>e \<in> set new. he_rev e = \<lparr>rev_main = m, rev_sub = i\<rparr>"
    using delete_one_appends(2) [OF s1 refl] by auto
  have below: "\<forall>a \<in> set (ms_history s1). history_rev_key a < (m, i + 1)"
    using new 2(6) by (force simp: history_rev_key_def)
  have main: "ms_main_rev s1 \<le> m" using app 2(4) by (simp add: appends_at_def)
  have loop: "delete_keys_loop L ks m (i + 1) r1 s1 = (r, s')" using 2(2) s1 by simp
  have one: "(\<forall>j. cetcd_treap_get (ms_index s1) j = (if j = k then None else cetcd_treap_get (ms_index s) j)) \<and>
      ms_backend s1 = ms_backend s \<and> (cetcd_treap_get (ms_index s) k \<noteq> None \<longrightarrow> ms_main_rev s1 = m)"
  proof (cases rule: delete_one_cases [of L s k False ?f])
    case absent
    then have "cetcd_treap_get (ms_index s) k = None" using mvcc_ok_key [OF 2(3)] by (auto simp: gen_ok_def)
    with absent(1) s1 show ?thesis by auto
  next
    case (failed kg rc be)
    then show ?thesis by simp
  next
    case (gone kg be t r')
    have "treap_ok (ms_index s)" using 2(3) by (simp add: mvcc_ok_def)
    moreover have "s\<lparr>ms_backend := be\<rparr> = s" using gone(5) by simp
    then have "be = ms_backend s" by (metis cetcd_mvcc_store.select_convs(7) cetcd_mvcc_store.surjective cetcd_mvcc_store.update_convs(7))
    ultimately show ?thesis using gone s1 2(4) by (simp add: ti.get_del)
  qed
  have ge: "ms_main_rev s1 \<le> ms_main_rev s'" "ms_main_rev s' \<le> m"
    using delete_keys_loop_ok [OF ok1 main 2(5) below loop] main by (auto simp: appends_at_def)
  show ?case
    using 2(1) [OF s1 [symmetric] loop ok1 main 2(5) below] one ge by auto
qed simp

lemma mirrors_put:
  assumes "mirrors v s" and "mvcc_ok s" and "i64 l"
    and "ms_index s' = snd (cetcd_treap_put (ms_index s) k kg)" and "kg_lease_id kg = l"
    and "ms_compacted_rev s' = ms_compacted_rev s"
  shows "mirrors (vset (vset v MVCC_BUCKET_KEY k (Some (encode_kg kg)))
    MVCC_BUCKET_META MVCC_META_REV (Some (write_le64 (word_of_int (ms_main_rev s'))))) s'"
proof -
  have "treap_ok (ms_index s)" using assms(2) by (simp add: mvcc_ok_def)
  then show ?thesis using assms by (auto simp: mirrors_def meta_is_def ti.get_put)
qed

lemma mirrors_del:
  assumes "mirrors v s"
    and "\<And>j. cetcd_treap_get (ms_index s') j = (if j \<in> K then None else cetcd_treap_get (ms_index s) j)"
    and "\<And>k. v' MVCC_BUCKET_KEY k = (if k \<in> K then None else v MVCC_BUCKET_KEY k)"
    and "v' MVCC_BUCKET_META = v MVCC_BUCKET_META" and "ms_compacted_rev s' = ms_compacted_rev s"
  shows "mirrors (vset v' MVCC_BUCKET_META MVCC_META_REV (Some (write_le64 (word_of_int (ms_main_rev s'))))) s'"
  using assms by (auto simp: mirrors_def meta_is_def)

context lmdb_laws
begin

lemma put_mirrored:
  assumes "mirrored env_view s" and "mvcc_ok s" and "i64 l" and "cetcd_mvcc_put L s k v l = (r, s')"
  shows "mirrored env_view s'"
proof -
  obtain be where be: "ms_backend s = Some be" "mirrors (env_view be) s"
    using assms(1) by (auto simp: mirrored_def)
  obtain rc be' where p: "cetcd_backend_put2 L be MVCC_BUCKET_KEY k (Some (encode_kg (put_gen s k v l)))
        MVCC_BUCKET_META MVCC_META_REV (write_le64 (word_of_int (ms_main_rev s + 1))) = (rc, be')" by fastforce
  then have pp: "mvcc_persist_put L s k (put_gen s k v l) (ms_main_rev s + 1) = (rc, s\<lparr>ms_backend := Some be'\<rparr>)"
    by (simp add: mvcc_persist_put_def be)
  note view = backend_put2 [OF p]
  show ?thesis
  proof (cases rule: put_ok_cases [of L s k v l])
    case (failed rc' b)
    then have "b = Some be'" "rc' = rc" using pp
      by (auto dest: arg_cong [of _ _ ms_backend])
    then show ?thesis using failed assms(4) view be by (auto simp: mirrored_def)
  next
    case (stored b t)
    then have b: "b = Some be'" "rc = CETCD_OK" using pp
      by (auto dest: arg_cong [of _ _ ms_backend])
    have t: "s' = t" using stored(1) assms(4) by simp
    have "mirrors (env_view be') s'"
      using mirrors_put [OF be(2) assms(2,3) stored(4)] stored(5,7) view b by (simp add: t)
    then show ?thesis using stored(3) b t by (simp add: mirrored_def)
  qed
qed

lemma delete_mirrored:
  assumes "mirrored env_view s" and "mvcc_ok s" and "cetcd_mvcc_delete L s k = (r, s')"
  shows "mirrored env_view s'"
proof -
  obtain be where be: "ms_backend s = Some be" "mirrors (env_view be) s"
    using assms(1) by (auto simp: mirrored_def)
  obtain rc be' where p: "cetcd_backend_put2 L be MVCC_BUCKET_KEY k None
        MVCC_BUCKET_META MVCC_META_REV (write_le64 (word_of_int (ms_main_rev s + 1))) = (rc, be')" by fastforce
  then have pp: "mvcc_persist_del L s k (ms_main_rev s + 1) = (rc, s\<lparr>ms_backend := Some be'\<rparr>)"
    by (simp add: mvcc_persist_del_def be)
  note view = backend_put2 [OF p]
  have d: "delete_one L s k True None = (r, s')" using assms(3) by (simp add: cetcd_mvcc_delete_def)
  have ok: "treap_ok (ms_index s)" using assms(2) by (simp add: mvcc_ok_def)
  show ?thesis
  proof (cases rule: delete_one_cases [of L s k True None])
    case absent
    then show ?thesis using d assms(1) by simp
  next
    case (failed kg rc' b)
    then have "b = Some be'" "rc' = rc" using pp by (auto dest: arg_cong [of _ _ ms_backend])
    then show ?thesis using failed d view be by (auto simp: mirrored_def)
  next
    case (gone kg b t r')
    then have b: "b = Some be'" "rc = CETCD_OK" using pp by (auto dest: arg_cong [of _ _ ms_backend])
    have t: "s' = t" "ms_main_rev t = ms_main_rev s + 1" using gone d by simp_all
    have "mirrors (vset (vset (env_view be) MVCC_BUCKET_KEY k None)
        MVCC_BUCKET_META MVCC_META_REV (Some (write_le64 (word_of_int (ms_main_rev s'))))) s'"
      by (rule mirrors_del [OF be(2), of s' "{k}"]) (use gone(7,10) t in \<open>auto simp: ti.get_del [OF ok]\<close>)
    then have "mirrors (env_view be') s'" using view b t by simp
    then show ?thesis using gone(6) b t by (simp add: mirrored_def)
  qed
qed

lemma delete_keys_mirrored:
  assumes "mirrored env_view s" and "mvcc_ok s" and "cetcd_mvcc_delete_keys L s ks = (r, s')"
  shows "mirrored env_view s'"
proof -
  obtain be where be: "ms_backend s = Some be" "mirrors (env_view be) s"
    using assms(1) by (auto simp: mirrored_def)
  let ?ks = "filter (live_key s) ks" and ?m = "ms_main_rev s + 1"
  show ?thesis
  proof (cases "?ks = []")
    case True
    then have "s' = s" using assms(3) by (auto simp: cetcd_mvcc_delete_keys_def split: if_splits)
    then show ?thesis using assms(1) by simp
  next
    case False
    then have ks: "ks \<noteq> []" by auto
    obtain rc be' where p: "cetcd_backend_del_n L be MVCC_BUCKET_KEY ?ks
        MVCC_BUCKET_META MVCC_META_REV (write_le64 (word_of_int ?m)) = (rc, be')" by fastforce
    note view = backend_del_n [OF p]
    have run: "(if rc \<noteq> CETCD_OK then (zero_rev, s\<lparr>ms_backend := Some be'\<rparr>)
        else delete_keys_loop L ?ks ?m 0 zero_rev (s\<lparr>ms_backend := Some be'\<rparr>)) = (r, s')"
      using assms(3) False ks p by (simp add: cetcd_mvcc_delete_keys_def Let_def be(1))
    show ?thesis
    proof (cases "rc = CETCD_OK")
      case False
      then show ?thesis using run view be by (auto simp: mirrored_def)
    next
      case True
      let ?s = "s\<lparr>ms_backend := Some be'\<rparr>"
      have loop: "delete_keys_loop L ?ks ?m 0 zero_rev ?s = (r, s')" using run True by simp
      have pre: "mvcc_ok ?s" "ms_main_rev ?s \<le> ?m" "0 < ?m"
        "\<forall>a \<in> set (ms_history ?s). history_rev_key a < (?m, 0)"
        using assms(2) by (auto simp: mvcc_ok_def history_rev_key_def)
      have live: "k \<noteq> [] \<and> cetcd_treap_get (ms_index s) k \<noteq> None" if "k \<in> set ?ks" for k
        using that by (auto simp: live_key_def split: if_splits option.splits)
      have eff: "cetcd_treap_get (ms_index s') j = (if j \<in> set ?ks then None else cetcd_treap_get (ms_index s) j)"
        "ms_backend s' = Some be'" "ms_main_rev s' = ?m" for j
        using delete_keys_loop_effect [OF loop pre] False live [OF hd_in_set [OF False]] by auto
      have "ms_compacted_rev s' = ms_compacted_rev s"
        using delete_keys_loop_ok [OF pre loop] by (simp add: appends_at_def)
      then have "mirrors (vset (vdels (env_view be) MVCC_BUCKET_KEY ?ks)
          MVCC_BUCKET_META MVCC_META_REV (Some (write_le64 (word_of_int (ms_main_rev s'))))) s'"
        by (intro mirrors_del [OF be(2), of s' "set ?ks"]) (use eff(1) live in \<open>auto simp: vdels_apply fun_eq_iff\<close>)
      then show ?thesis using eff(2,3) view True by (simp add: mirrored_def)
    qed
  qed
qed

lemma compact_mirrored:
  assumes "mirrored env_view s" and "cetcd_mvcc_compact L s c = (rc, s')"
  shows "mirrored env_view s'"
proof -
  obtain be where be: "ms_backend s = Some be" "mirrors (env_view be) s"
    using assms(1) by (auto simp: mirrored_def)
  obtain rc0 be' where p: "cetcd_backend_put L be MVCC_BUCKET_META MVCC_META_COMPACTED (write_le64 (word_of_int c)) = (rc0, be')"
    by fastforce
  note view = backend_put [OF p]
  consider "s' = s" | "rc0 \<noteq> CETCD_OK" "s' = s\<lparr>ms_backend := Some be'\<rparr>"
    | "rc0 = CETCD_OK" "s' = s\<lparr>ms_backend := Some be', ms_history := filter (\<lambda>e. rev_main (he_rev e) \<ge> c) (ms_history s), ms_compacted_rev := c\<rparr>"
    using assms(2) p by (auto simp: cetcd_mvcc_compact_def be(1) split: if_splits)
  then show ?thesis
  proof cases
    case 3
    then have "mirrors (env_view be') s'"
      using be(2) view by (simp add: mirrors_def meta_is_def)
    then show ?thesis using 3 by (simp add: mirrored_def)
  qed (use assms(1) be view in \<open>auto simp: mirrored_def\<close>)
qed

lemma advance_mirrored:
  assumes "mirrored env_view s" and "cetcd_mvcc_advance_revision L s m = (rc, s')"
  shows "mirrored env_view s'"
proof -
  obtain be where be: "ms_backend s = Some be" "mirrors (env_view be) s"
    using assms(1) by (auto simp: mirrored_def)
  obtain rc0 be' where p: "cetcd_backend_put L be MVCC_BUCKET_META MVCC_META_REV (write_le64 (word_of_int m)) = (rc0, be')"
    by fastforce
  note view = backend_put [OF p]
  consider "s' = s" | "rc0 \<noteq> CETCD_OK" "s' = s\<lparr>ms_backend := Some be'\<rparr>"
    | "rc0 = CETCD_OK" "s' = s\<lparr>ms_backend := Some be', ms_main_rev := m\<rparr>"
    using assms(2) p by (auto simp: cetcd_mvcc_advance_revision_def be(1) split: if_splits)
  then show ?thesis
  proof cases
    case 3
    then have "mirrors (env_view be') s'"
      using be(2) view by (simp add: mirrors_def meta_is_def)
    then show ?thesis using 3 by (simp add: mirrored_def)
  qed (use assms(1) be view in \<open>auto simp: mirrored_def\<close>)
qed

lemma apply_mirrored:
  assumes "mirrored env_view s" and "mvcc_ok s" and "op_i64 op"
  shows "mirrored env_view (mvcc_apply L op s)"
  using assms
  by (cases op)
    (auto intro: put_mirrored [OF _ _ _ prod.collapse [symmetric]] delete_mirrored [OF _ _ prod.collapse [symmetric]]
      delete_keys_mirrored [OF _ _ prod.collapse [symmetric]] compact_mirrored [OF _ prod.collapse [symmetric]]
      advance_mirrored [OF _ prod.collapse [symmetric]])

lemma run_mirrored:
  assumes "env_view be = (\<lambda>_. Map.empty)" and "\<forall>op \<in> set ops. op_i64 op"
  shows "mirrored env_view (mvcc_run L (Some be) ops)"
  using assms(2)
proof (induction ops rule: rev_induct)
  case Nil
  show ?case
    using assms(1) by (simp add: mvcc_run_def cetcd_mvcc_set_backend_def cetcd_mvcc_store_new_def mirrored_def mirrors_def meta_is_def ti.get_empty)
next
  case (snoc op ops)
  then show ?case using apply_mirrored [OF _ mvcc_run_ok [of L "Some be" ops], of op] by (simp add: mvcc_run_append)
qed

end

section \<open>Loading\<close>

lemma walk_load:
  assumes "\<forall>e \<in> set kvs. \<exists>kg. decode_kg (snd e) = Some kg \<and> rev_main (kg_mod_rev kg) \<le> ms_main_rev s"
    and "distinct (map fst kvs)" and "treap_ok (ms_index s)"
  shows "\<exists>s'. walk load_kv_cb kvs (s, CETCD_OK) = ((s', CETCD_OK), True) \<and> treap_ok (ms_index s') \<and>
    (\<forall>j. cetcd_treap_get (ms_index s') j =
       (case map_of kvs j of None \<Rightarrow> cetcd_treap_get (ms_index s) j | Some b \<Rightarrow> decode_kg b)) \<and>
    ms_main_rev s' = ms_main_rev s \<and> ms_compacted_rev s' = ms_compacted_rev s \<and>
    ms_history s' = ms_history s @ map (\<lambda>e. entry_of_kg (fst e) (the (decode_kg (snd e)))) kvs"
  using assms
proof (induction kvs arbitrary: s)
  case (Cons e kvs)
  obtain k b where e: "e = (k, b)" by fastforce
  obtain kg where kg: "decode_kg b = Some kg" "rev_main (kg_mod_rev kg) \<le> ms_main_rev s" using Cons.prems(1) e by auto
  let ?s = "push_history (s\<lparr>ms_index := snd (cetcd_treap_put (ms_index s) k kg)\<rparr>) (entry_of_kg k kg)"
  have put: "cetcd_treap_put (ms_index s) k kg = (CETCD_OK, snd (cetcd_treap_put (ms_index s) k kg))"
    using treap_put_ok(1) [OF Cons.prems(3)] by (metis prod.collapse)
  have cb: "load_kv_cb k b (s, CETCD_OK) = ((?s, CETCD_OK), True)"
    using kg put by (auto simp: load_kv_cb_def Let_def entry_of_kg_def split: prod.split)
  have "\<exists>s'. walk load_kv_cb kvs (?s, CETCD_OK) = ((s', CETCD_OK), True) \<and> treap_ok (ms_index s') \<and>
    (\<forall>j. cetcd_treap_get (ms_index s') j =
       (case map_of kvs j of None \<Rightarrow> cetcd_treap_get (ms_index ?s) j | Some b \<Rightarrow> decode_kg b)) \<and>
    ms_main_rev s' = ms_main_rev ?s \<and> ms_compacted_rev s' = ms_compacted_rev ?s \<and>
    ms_history s' = ms_history ?s @ map (\<lambda>e. entry_of_kg (fst e) (the (decode_kg (snd e)))) kvs"
    by (rule Cons.IH) (use Cons.prems in \<open>simp_all add: push_history_def ti.ok_put\<close>)
  then obtain s' where s': "walk load_kv_cb kvs (?s, CETCD_OK) = ((s', CETCD_OK), True)" "treap_ok (ms_index s')"
    "\<And>j. cetcd_treap_get (ms_index s') j =
       (case map_of kvs j of None \<Rightarrow> cetcd_treap_get (ms_index ?s) j | Some b \<Rightarrow> decode_kg b)"
    "ms_main_rev s' = ms_main_rev ?s" "ms_compacted_rev s' = ms_compacted_rev ?s"
    "ms_history s' = ms_history ?s @ map (\<lambda>e. entry_of_kg (fst e) (the (decode_kg (snd e)))) kvs" by blast
  have "map_of kvs k = None" using Cons.prems(2) e by (auto simp: map_of_eq_None_iff)
  then have "cetcd_treap_get (ms_index s') j =
      (case map_of (e # kvs) j of None \<Rightarrow> cetcd_treap_get (ms_index s) j | Some b \<Rightarrow> decode_kg b)" for j
    using s'(3) [of j] kg e Cons.prems(3) by (auto simp: push_history_def ti.get_put split: option.split)
  then show ?case
    using s' cb kg by (intro exI [of _ s']) (simp add: e push_history_def)
qed simp

context lmdb_laws
begin

lemma meta_loaded:
  assumes "meta_is (env_view be) key x" and "i64 x"
    and "cetcd_backend_get L be MVCC_BUCKET_META key = (rc, v)"
    and "rc = CETCD_OK \<or> env_view be MVCC_BUCKET_META key = None"
  shows "(case v of None \<Rightarrow> 0 | Some buf \<Rightarrow> if rc = CETCD_OK \<and> length buf \<ge> 8 then sint (read_le64 buf) else 0) = x"
  using assms backend_get [OF assms(3)] by (auto simp: meta_is_def split: option.split)

lemma load_mirrored:
  assumes "mirrors (env_view be) s" and "mvcc_ok s" and "ms_main_rev s < 2 ^ 63"
    and get: "\<And>key. key \<in> {MVCC_META_REV, MVCC_META_COMPACTED} \<Longrightarrow>
      fst (cetcd_backend_get L be MVCC_BUCKET_META key) = CETCD_OK \<or> env_view be MVCC_BUCKET_META key = None"
    and load: "cetcd_mvcc_load L cetcd_mvcc_store_new be = (CETCD_OK, t)"
    and scan: "full_scan L be MVCC_BUCKET_KEY"
  shows "treap_ok (ms_index t) \<and> cetcd_treap_get (ms_index t) = cetcd_treap_get (ms_index s) \<and>
    ms_main_rev t = ms_main_rev s \<and> ms_compacted_rev t = ms_compacted_rev s"
proof -
  define s0 where s0: "s0 = cetcd_mvcc_store_new\<lparr>ms_backend := Some be, ms_main_rev := ms_main_rev s, ms_compacted_rev := ms_compacted_rev s\<rparr>"
  have m: "i64 (ms_main_rev s)" "i64 (ms_compacted_rev s)"
    using assms(2,3) by (auto simp: mvcc_ok_def i64_def)
  obtain r1 v1 where g1: "cetcd_backend_get L be MVCC_BUCKET_META MVCC_META_REV = (r1, v1)" by fastforce
  obtain r2 v2 where g2: "cetcd_backend_get L be MVCC_BUCKET_META MVCC_META_COMPACTED = (r2, v2)" by fastforce
  have x1: "(case v1 of None \<Rightarrow> 0 | Some buf \<Rightarrow> if r1 = CETCD_OK \<and> length buf \<ge> 8 then sint (read_le64 buf) else 0) = ms_main_rev s"
    by (rule meta_loaded [OF _ m(1) g1]) (use assms(1) get [of MVCC_META_REV] g1 in \<open>auto simp: mirrors_def\<close>)
  have x2: "(case v2 of None \<Rightarrow> 0 | Some buf \<Rightarrow> if r2 = CETCD_OK \<and> length buf \<ge> 8 then sint (read_le64 buf) else 0) = ms_compacted_rev s"
    by (rule meta_loaded [OF _ m(2) g2]) (use assms(1) get [of MVCC_META_COMPACTED] g2 in \<open>auto simp: mirrors_def\<close>)
  have e1: "(case v1 of Some buf \<Rightarrow> if r1 = CETCD_OK \<and> length buf \<ge> 8
        then (cetcd_mvcc_store_new\<lparr>ms_backend := Some be\<rparr>)\<lparr>ms_main_rev := sint (read_le64 buf)\<rparr> else cetcd_mvcc_store_new\<lparr>ms_backend := Some be\<rparr>
      | None \<Rightarrow> cetcd_mvcc_store_new\<lparr>ms_backend := Some be\<rparr>) = cetcd_mvcc_store_new\<lparr>ms_backend := Some be, ms_main_rev := ms_main_rev s\<rparr>"
    unfolding x1 [symmetric] by (auto simp: cetcd_mvcc_store_new_def split: option.split)
  have e2: "(case v2 of Some buf \<Rightarrow> if r2 = CETCD_OK \<and> length buf \<ge> 8
        then (cetcd_mvcc_store_new\<lparr>ms_backend := Some be, ms_main_rev := ms_main_rev s\<rparr>)\<lparr>ms_compacted_rev := sint (read_le64 buf)\<rparr>
        else cetcd_mvcc_store_new\<lparr>ms_backend := Some be, ms_main_rev := ms_main_rev s\<rparr>
      | None \<Rightarrow> cetcd_mvcc_store_new\<lparr>ms_backend := Some be, ms_main_rev := ms_main_rev s\<rparr>) = s0"
    unfolding x2 [symmetric] s0 by (auto simp: cetcd_mvcc_store_new_def split: option.split)
  obtain u where f: "cetcd_backend_foreach L be MVCC_BUCKET_KEY load_kv_cb (s0, CETCD_OK) = (CETCD_OK, u)"
    using load unfolding cetcd_mvcc_load_def Let_def g1 g2 prod.case e1 e2 by (auto split: prod.splits if_splits)
  obtain kvs where kvs: "map_of kvs = env_view be MVCC_BUCKET_KEY" "sorted_wrt (<) (map fst kvs)"
    "u = fst (walk load_kv_cb kvs (s0, CETCD_OK))"
    using backend_foreach [OF f scan] by blast
  have dist: "distinct (map fst kvs)" using kvs(2) by (simp add: strict_sorted_iff)
  have dec: "decode_kg b = cetcd_treap_get (ms_index s) k \<and> cetcd_treap_get (ms_index s) k \<noteq> None" if "map_of kvs k = Some b" for k b
  proof -
    have "map_option encode_kg (cetcd_treap_get (ms_index s) k) = Some b"
      using that assms(1) by (simp add: kvs(1) mirrors_def)
    then obtain kg where kg: "cetcd_treap_get (ms_index s) k = Some kg" "b = encode_kg kg" by auto
    have "gen_ok (ms_main_rev s) kg" by (rule mvcc_ok_key [OF assms(2) kg(1)])
    then show ?thesis
      using gen_ok_i64 [OF _ assms(3)] kg assms(1) by (simp add: decode_encode_kg mirrors_def gen_ok_def)
  qed
  have elems: "\<forall>e \<in> set kvs. \<exists>kg. decode_kg (snd e) = Some kg \<and> rev_main (kg_mod_rev kg) \<le> ms_main_rev s0"
  proof
    fix e
    assume "e \<in> set kvs"
    then have "map_of kvs (fst e) = Some (snd e)" using dist by simp
    from dec [OF this] obtain kg where kg: "decode_kg (snd e) = Some kg" "cetcd_treap_get (ms_index s) (fst e) = Some kg" by auto
    with mvcc_ok_key [OF assms(2) kg(2)] show "\<exists>kg. decode_kg (snd e) = Some kg \<and> rev_main (kg_mod_rev kg) \<le> ms_main_rev s0"
      by (simp add: s0 gen_ok_def)
  qed
  have idx0: "treap_ok (ms_index s0)" "cetcd_treap_get (ms_index s0) j = None" for j
    by (simp_all add: s0 cetcd_mvcc_store_new_def ti.ok_empty ti.get_empty)
  obtain t' where t': "u = (t', CETCD_OK)" "treap_ok (ms_index t')"
    "\<And>j. cetcd_treap_get (ms_index t') j = (case map_of kvs j of None \<Rightarrow> None | Some b \<Rightarrow> decode_kg b)"
    "ms_main_rev t' = ms_main_rev s" "ms_compacted_rev t' = ms_compacted_rev s"
  proof -
    obtain t' where "walk load_kv_cb kvs (s0, CETCD_OK) = ((t', CETCD_OK), True)" "treap_ok (ms_index t')"
      "\<forall>j. cetcd_treap_get (ms_index t') j =
         (case map_of kvs j of None \<Rightarrow> cetcd_treap_get (ms_index s0) j | Some b \<Rightarrow> decode_kg b)"
      "ms_main_rev t' = ms_main_rev s0" "ms_compacted_rev t' = ms_compacted_rev s0"
      using walk_load [OF elems dist idx0(1)] by blast
    moreover have "ms_main_rev s0 = ms_main_rev s" "ms_compacted_rev s0 = ms_compacted_rev s" by (simp_all add: s0)
    ultimately show ?thesis using that [of t'] kvs(3) by (simp add: idx0(2) cong: option.case_cong)
  qed
  have "map_of kvs j = None \<longleftrightarrow> cetcd_treap_get (ms_index s) j = None" for j
    using assms(1) by (simp add: kvs(1) mirrors_def)
  then have get_eq: "cetcd_treap_get (ms_index t') = cetcd_treap_get (ms_index s)"
    using t'(3) dec by (fastforce split: option.split)
  have "(CETCD_OK, t) = (CETCD_OK, if length (ms_history t') > 1 then t'\<lparr>ms_history := sort_key history_rev_key (ms_history t')\<rparr> else t')"
    using load unfolding cetcd_mvcc_load_def Let_def g1 g2 prod.case e1 e2 f t'(1) by (auto split: if_splits)
  then show ?thesis using t' get_eq by auto
qed

end

section \<open>Properties\<close>

lemma mem_view_empty [simp]: "mem_view (\<lambda>_. None) = (\<lambda>_. Map.empty)"
  by (simp add: mem_view_def fun_eq_iff)

text \<open>
  C22. Writes are fail-closed: on a store with a backend, started on an empty database, the
  contents of the database mirror the memory after every sequence of operations, whichever
  of them LMDB refused. A key is stored exactly when the index has it, with the encoding of
  its generation, and the two revisions are the stored ones.
\<close>

theorem mvcc_backend_mirrors:
  assumes "lmdb_laws L env_view txn_view" and "env_view be0 = (\<lambda>_. Map.empty)" and "\<forall>op \<in> set ops. op_i64 op"
  shows "\<exists>be. ms_backend (mvcc_run L (Some be0) ops) = Some be \<and> mirrors (env_view be) (mvcc_run L (Some be0) ops)"
  using lmdb_laws.run_mirrored [OF assms] by (simp add: mirrored_def)

theorem mvcc_backend_mirrors_witness:
  "\<exists>be. ms_backend (mvcc_run mem_lmdb (Some (\<lambda>_. None)) [MPut [7] [1] 5, MDelete [7], MPut [] [1] 0]) = Some be \<and>
     mirrors (mem_view be) (mvcc_run mem_lmdb (Some (\<lambda>_. None)) [MPut [7] [1] 5, MDelete [7], MPut [] [1] 0])"
proof (rule mvcc_backend_mirrors [OF ml.lmdb_laws_axioms])
  show "mem_view (\<lambda>_. None) = (\<lambda>_. Map.empty)" by simp
  show "\<forall>op \<in> set [MPut [7] [1] 5, MDelete [7], MPut [] [1] 0]. op_i64 op" by (simp add: i64_def)
qed

text \<open>
  C23. Recovery: loading the database into a fresh store gives back the current revision,
  the compacted revision and every current read, as long as the revision fits 63 bits, the two
  stored revisions can be read and the cursor gets to the end of the bucket of keys. When the cursor
  fails on the way, the load returns success with the keys read so far.
\<close>

theorem mvcc_recovery:
  assumes "lmdb_laws L env_view txn_view" and "env_view be0 = (\<lambda>_. Map.empty)" and "\<forall>op \<in> set ops. op_i64 op"
    and "s = mvcc_run L (Some be0) ops" and "ms_backend s = Some be" and "ms_main_rev s < 2 ^ 63"
    and "\<forall>key \<in> {MVCC_META_REV, MVCC_META_COMPACTED}.
      fst (cetcd_backend_get L be MVCC_BUCKET_META key) = CETCD_OK \<or> env_view be MVCC_BUCKET_META key = None"
    and "cetcd_mvcc_load L cetcd_mvcc_store_new be = (CETCD_OK, t)" and "full_scan L be MVCC_BUCKET_KEY"
  shows "ms_main_rev t = ms_main_rev s \<and> ms_compacted_rev t = ms_compacted_rev s \<and>
    (\<forall>k. cetcd_mvcc_get t 0 k = cetcd_mvcc_get s 0 k)"
proof -
  have "mirrored env_view s" unfolding assms(4) by (rule lmdb_laws.run_mirrored [OF assms(1-3)])
  then have m: "mirrors (env_view be) s" using assms(5) by (simp add: mirrored_def)
  have ok: "mvcc_ok s" unfolding assms(4) by (rule mvcc_run_ok)
  have get: "fst (cetcd_backend_get L be MVCC_BUCKET_META key) = CETCD_OK \<or> env_view be MVCC_BUCKET_META key = None"
    if "key \<in> {MVCC_META_REV, MVCC_META_COMPACTED}" for key
    by (rule bspec [OF assms(7) that])
  note lmdb_laws.load_mirrored [OF assms(1) m ok assms(6), OF get assms(8,9)]
  then show ?thesis by (simp add: cetcd_mvcc_get_def)
qed

theorem mvcc_recovery_witness:
  "\<exists>be t. ms_backend (mvcc_run mem_lmdb (Some (\<lambda>_. None)) [MPut [7] [1] 5]) = Some be \<and>
     cetcd_mvcc_load mem_lmdb cetcd_mvcc_store_new be = (CETCD_OK, t) \<and> ms_main_rev t = 1 \<and>
     cetcd_mvcc_get t 0 [7] = (CETCD_OK, Some
       \<lparr>kv_key = [7], kv_value = [1], kv_create_rev = \<lparr>rev_main = 1, rev_sub = 0\<rparr>,
        kv_mod_rev = \<lparr>rev_main = 1, rev_sub = 0\<rparr>, kv_version = 1, kv_lease_id = 5\<rparr>)"
proof -
  let ?ops = "[MPut [7] [1] 5]"
  let ?s = "mvcc_run mem_lmdb (Some (\<lambda>_. None)) ?ops"
  let ?be = "the (ms_backend ?s)" and ?t = "snd (cetcd_mvcc_load mem_lmdb cetcd_mvcc_store_new (the (ms_backend ?s)))"
  have be: "ms_backend ?s = Some ?be"
    using ml.run_mirrored [of "\<lambda>_. None" ?ops] by (auto simp: i64_def mirrored_def)
  have m: "ms_main_rev ?s = 1" by code_simp
  have g: "cetcd_mvcc_get ?s 0 [7] = (CETCD_OK, Some
       \<lparr>kv_key = [7], kv_value = [1], kv_create_rev = \<lparr>rev_main = 1, rev_sub = 0\<rparr>,
        kv_mod_rev = \<lparr>rev_main = 1, rev_sub = 0\<rparr>, kv_version = 1, kv_lease_id = 5\<rparr>)" by code_simp
  have "fst (cetcd_mvcc_load mem_lmdb cetcd_mvcc_store_new ?be) = CETCD_OK" by code_simp
  then have l: "cetcd_mvcc_load mem_lmdb cetcd_mvcc_store_new ?be = (CETCD_OK, ?t)" by (simp add: prod_eq_iff)
  have meta: "fst (cetcd_backend_get mem_lmdb ?be MVCC_BUCKET_META MVCC_META_REV) = CETCD_OK"
    "mem_view ?be MVCC_BUCKET_META MVCC_META_COMPACTED = None" by code_simp+
  have "ms_main_rev ?t = ms_main_rev ?s \<and> ms_compacted_rev ?t = ms_compacted_rev ?s \<and>
      (\<forall>k. cetcd_mvcc_get ?t 0 k = cetcd_mvcc_get ?s 0 k)"
    by (rule mvcc_recovery [OF ml.lmdb_laws_axioms, of "\<lambda>_. None" ?ops])
      (use be m l meta in \<open>auto simp: i64_def\<close>)
  then show ?thesis using be l m g by (intro exI [of _ ?be] exI [of _ ?t]) simp
qed

end
