(* ===== verification/Lease.thy ===== *)
theory Lease
  imports Mvcc_Recovery
begin

text \<open>
  The lease manager of \<^verbatim>\<open>src/lease/lease.c\<close>. Leases are kept in an array in the order of
  creation, identifiers are 64-bit words, times are milliseconds as integers. The expiry
  callback is the list of calls made to it; the wall clock is an argument \<open>wall\<close> of the
  operations that read it, in milliseconds; loading the leases reads the clock for every record, here
  once. A time in seconds is multiplied by 1000 as an integer. The C code does so in 64 bits; the grants limit the
  seconds to \<open>CETCD_MAX_LEASE_TTL\<close> first, and renewals are called with a time that was granted.
\<close>

definition CETCD_MAX_LEASE_TTL :: int where "CETCD_MAX_LEASE_TTL = 9000000000"
definition CETCD_LEASE_REBUILD_TTL :: int where "CETCD_LEASE_REBUILD_TTL = 300"
definition LEASE_BUCKET :: string where "LEASE_BUCKET = ''lease''"
definition LEASE_KEY_NEXT :: bytes where "LEASE_KEY_NEXT = bytes_of ''next''"

record cetcd_lease =
  l_id :: u64
  l_ttl_seconds :: int
  l_deadline_ms :: int
  l_keys :: "bytes list"

record 'e cetcd_lease_mgr =
  lm_leases :: "cetcd_lease list"
  lm_next_id :: u64
  lm_now_ms :: int
  lm_on_expire :: bool
  lm_expired :: "(u64 \<times> bytes list) list"
  lm_backend :: "'e option"
  lm_have_bucket :: bool

definition lease_by_id :: "'e cetcd_lease_mgr \<Rightarrow> u64 \<Rightarrow> cetcd_lease option" where
  "lease_by_id m i = find (\<lambda>l. l_id l = i) (lm_leases m)"

section \<open>Persistence\<close>

definition lease_persist_put ::
  "('e, 't) lmdb \<Rightarrow> int \<Rightarrow> 'e \<Rightarrow> cetcd_lease \<Rightarrow> int \<Rightarrow> u64 \<Rightarrow> cetcd_status \<times> 'e" where
  "lease_persist_put L wall be l now_ms next_id =
     (let rem = l_deadline_ms l - now_ms;
          rem = (if rem < 0 then 0 else rem)
      in cetcd_backend_put2 L be LEASE_BUCKET (write_le64 (l_id l))
           (Some (write_le64 (word_of_int (l_ttl_seconds l)) @ write_le64 (word_of_int (wall + rem))))
           LEASE_BUCKET LEASE_KEY_NEXT (write_le64 next_id))"

definition lease_persist_del :: "('e, 't) lmdb \<Rightarrow> 'e \<Rightarrow> u64 \<Rightarrow> cetcd_status \<times> 'e" where
  "lease_persist_del L be i =
     (case cetcd_backend_del L be LEASE_BUCKET (write_le64 i) of
        (rc, be) \<Rightarrow> (if rc = CETCD_ERR_NOTFOUND then CETCD_OK else rc, be))"

definition lease_persist_next :: "('e, 't) lmdb \<Rightarrow> 'e \<Rightarrow> u64 \<Rightarrow> cetcd_status \<times> 'e" where
  "lease_persist_next L be next_id =
     cetcd_backend_put L be LEASE_BUCKET LEASE_KEY_NEXT (write_le64 next_id)"

section \<open>Granting and revoking\<close>

definition cetcd_lease_exists :: "'e cetcd_lease_mgr \<Rightarrow> u64 \<Rightarrow> bool" where
  "cetcd_lease_exists m i \<longleftrightarrow> lease_by_id m i \<noteq> None"

fun remove_lease :: "u64 \<Rightarrow> cetcd_lease list \<Rightarrow> cetcd_lease list" where
  "remove_lease i [] = []"
| "remove_lease i (l # ls) = (if l_id l = i then ls else l # remove_lease i ls)"

definition revoke_mem :: "'e cetcd_lease_mgr \<Rightarrow> u64 \<Rightarrow> cetcd_status \<times> 'e cetcd_lease_mgr" where
  "revoke_mem m i =
     (if lease_by_id m i = None then (CETCD_ERR_NOTFOUND, m)
      else (CETCD_OK, m\<lparr>lm_leases := remove_lease i (lm_leases m)\<rparr>))"

definition lease_restore :: "'e cetcd_lease_mgr \<Rightarrow> u64 \<Rightarrow> int \<Rightarrow> int \<Rightarrow> cetcd_status \<times> 'e cetcd_lease_mgr" where
  "lease_restore m i granted_ttl remaining_ms =
     (if i = 0 \<or> granted_ttl \<le> 0 \<or> granted_ttl > CETCD_MAX_LEASE_TTL then (CETCD_ERR_INVAL, m)
      else if cetcd_lease_exists m i then (CETCD_ERR_EXISTS, m)
      else
        let remaining_ms = (if remaining_ms < 0 then 0 else remaining_ms);
            l = \<lparr>l_id = i, l_ttl_seconds = granted_ttl, l_deadline_ms = lm_now_ms m + remaining_ms, l_keys = []\<rparr>;
            m = m\<lparr>lm_leases := lm_leases m @ [l]\<rparr>
        in (CETCD_OK, if lm_next_id m \<le> i then m\<lparr>lm_next_id := i + 1\<rparr> else m))"

definition cetcd_lease_mgr_new :: "bool \<Rightarrow> 'e cetcd_lease_mgr" where
  "cetcd_lease_mgr_new on_expire =
     \<lparr>lm_leases = [], lm_next_id = 1, lm_now_ms = 0, lm_on_expire = on_expire, lm_expired = [],
      lm_backend = None, lm_have_bucket = False\<rparr>"

definition cetcd_lease_mgr_set_expire :: "'e cetcd_lease_mgr \<Rightarrow> bool \<Rightarrow> 'e cetcd_lease_mgr" where
  "cetcd_lease_mgr_set_expire m on_expire = m\<lparr>lm_on_expire := on_expire\<rparr>"

text \<open>The end of both grants: the new lease is stored, or taken back when that fails.\<close>

definition grant_persist ::
  "('e, 't) lmdb \<Rightarrow> int \<Rightarrow> 'e cetcd_lease_mgr \<Rightarrow> cetcd_lease \<Rightarrow> u64 \<times> 'e cetcd_lease_mgr" where
  "grant_persist L wall m l =
     (case lm_backend m of
        None \<Rightarrow> (l_id l, m)
      | Some be \<Rightarrow>
          (case lease_persist_put L wall be l (lm_now_ms m) (lm_next_id m) of
             (rc, be) \<Rightarrow>
               let m = m\<lparr>lm_backend := Some be\<rparr> in
               if rc \<noteq> CETCD_OK then (0, snd (revoke_mem m (l_id l))) else (l_id l, m)))"

definition cetcd_lease_grant ::
  "('e, 't) lmdb \<Rightarrow> int \<Rightarrow> 'e cetcd_lease_mgr \<Rightarrow> int \<Rightarrow> u64 \<times> 'e cetcd_lease_mgr" where
  "cetcd_lease_grant L wall m ttl_seconds =
     (if ttl_seconds \<le> 0 \<or> ttl_seconds > CETCD_MAX_LEASE_TTL then (0, m)
      else
        let l = \<lparr>l_id = lm_next_id m, l_ttl_seconds = ttl_seconds,
                 l_deadline_ms = lm_now_ms m + ttl_seconds * 1000, l_keys = []\<rparr>
        in grant_persist L wall
             (m\<lparr>lm_next_id := lm_next_id m + 1, lm_leases := lm_leases m @ [l]\<rparr>) l)"

definition cetcd_lease_grant_id ::
  "('e, 't) lmdb \<Rightarrow> int \<Rightarrow> 'e cetcd_lease_mgr \<Rightarrow> u64 \<Rightarrow> int \<Rightarrow> u64 \<times> 'e cetcd_lease_mgr" where
  "cetcd_lease_grant_id L wall m i ttl_seconds =
     (if i = 0 \<or> ttl_seconds \<le> 0 \<or> ttl_seconds > CETCD_MAX_LEASE_TTL then (0, m)
      else if cetcd_lease_exists m i then (0, m)
      else
        let l = \<lparr>l_id = i, l_ttl_seconds = ttl_seconds,
                 l_deadline_ms = lm_now_ms m + ttl_seconds * 1000, l_keys = []\<rparr>;
            m = m\<lparr>lm_leases := lm_leases m @ [l]\<rparr>
        in grant_persist L wall (if lm_next_id m \<le> i then m\<lparr>lm_next_id := i + 1\<rparr> else m) l)"

definition cetcd_lease_revoke ::
  "('e, 't) lmdb \<Rightarrow> 'e cetcd_lease_mgr \<Rightarrow> u64 \<Rightarrow> cetcd_status \<times> 'e cetcd_lease_mgr" where
  "cetcd_lease_revoke L m i =
     (if \<not> cetcd_lease_exists m i then (CETCD_ERR_NOTFOUND, m)
      else case lm_backend m of
          None \<Rightarrow> revoke_mem m i
        | Some be \<Rightarrow>
            (case lease_persist_del L be i of
               (rc, be) \<Rightarrow>
                 let m = m\<lparr>lm_backend := Some be\<rparr> in
                 if rc \<noteq> CETCD_OK then (rc, m) else revoke_mem m i))"

text \<open>An update of the first lease with the identifier, in place.\<close>

fun update_lease :: "u64 \<Rightarrow> (cetcd_lease \<Rightarrow> cetcd_lease) \<Rightarrow> cetcd_lease list \<Rightarrow> cetcd_lease list" where
  "update_lease i f [] = []"
| "update_lease i f (l # ls) = (if l_id l = i then f l # ls else l # update_lease i f ls)"

definition cetcd_lease_keep_alive ::
  "('e, 't) lmdb \<Rightarrow> int \<Rightarrow> 'e cetcd_lease_mgr \<Rightarrow> u64 \<Rightarrow> int \<Rightarrow> cetcd_status \<times> 'e cetcd_lease_mgr" where
  "cetcd_lease_keep_alive L wall m i ttl_seconds =
     (case lease_by_id m i of
        None \<Rightarrow> (CETCD_ERR_NOTFOUND, m)
      | Some l \<Rightarrow>
          let l' = l\<lparr>l_ttl_seconds := ttl_seconds, l_deadline_ms := lm_now_ms m + ttl_seconds * 1000\<rparr>;
              m' = m\<lparr>lm_leases := update_lease i (\<lambda>_. l') (lm_leases m)\<rparr>
          in case lm_backend m of
               None \<Rightarrow> (CETCD_OK, m')
             | Some be \<Rightarrow>
                 (case lease_persist_put L wall be l' (lm_now_ms m) (lm_next_id m) of
                    (rc, be) \<Rightarrow>
                      if rc \<noteq> CETCD_OK then (CETCD_ERR_IO, m\<lparr>lm_backend := Some be\<rparr>)
                      else (CETCD_OK, m'\<lparr>lm_backend := Some be\<rparr>)))"

section \<open>Queries and attached keys\<close>

text \<open>C division truncates; the dividend is not negative.\<close>

definition cetcd_lease_ttl_remaining :: "'e cetcd_lease_mgr \<Rightarrow> u64 \<Rightarrow> int" where
  "cetcd_lease_ttl_remaining m i =
     (case lease_by_id m i of
        None \<Rightarrow> 0
      | Some l \<Rightarrow>
          let rem = l_deadline_ms l - lm_now_ms m; rem = (if rem < 0 then 0 else rem) in rem div 1000)"

definition cetcd_lease_granted_ttl :: "'e cetcd_lease_mgr \<Rightarrow> u64 \<Rightarrow> int" where
  "cetcd_lease_granted_ttl m i = (case lease_by_id m i of None \<Rightarrow> 0 | Some l \<Rightarrow> l_ttl_seconds l)"

definition cetcd_lease_mgr_leases :: "'e cetcd_lease_mgr \<Rightarrow> nat \<Rightarrow> u64 list" where
  "cetcd_lease_mgr_leases m cap =
     map l_id (take (if length (lm_leases m) < cap then length (lm_leases m) else cap) (lm_leases m))"

definition cetcd_lease_keys :: "'e cetcd_lease_mgr \<Rightarrow> u64 \<Rightarrow> bytes list" where
  "cetcd_lease_keys m i = (case lease_by_id m i of None \<Rightarrow> [] | Some l \<Rightarrow> l_keys l)"

definition same_key :: "bytes \<Rightarrow> bytes \<Rightarrow> bool" where
  "same_key key k \<longleftrightarrow> length k = length key \<and> (length key = 0 \<or> memcmp k key (length key) = 0)"

definition cetcd_lease_attach_key ::
  "'e cetcd_lease_mgr \<Rightarrow> u64 \<Rightarrow> bytes \<Rightarrow> cetcd_status \<times> 'e cetcd_lease_mgr" where
  "cetcd_lease_attach_key m i key =
     (case lease_by_id m i of
        None \<Rightarrow> (CETCD_ERR_NOTFOUND, m)
      | Some l \<Rightarrow>
          if list_ex (same_key key) (l_keys l) then (CETCD_OK, m)
          else (CETCD_OK,
            m\<lparr>lm_leases := update_lease i (\<lambda>l. l\<lparr>l_keys := l_keys l @ [key]\<rparr>) (lm_leases m)\<rparr>))"

fun remove_key :: "bytes \<Rightarrow> bytes list \<Rightarrow> bytes list" where
  "remove_key key [] = []"
| "remove_key key (k # ks) =
     (if length k = length key \<and> memcmp k key (length key) = 0 then ks else k # remove_key key ks)"

definition cetcd_lease_detach_key ::
  "'e cetcd_lease_mgr \<Rightarrow> u64 \<Rightarrow> bytes \<Rightarrow> cetcd_status \<times> 'e cetcd_lease_mgr" where
  "cetcd_lease_detach_key m i key =
     (case lease_by_id m i of
        None \<Rightarrow> (CETCD_ERR_NOTFOUND, m)
      | Some l \<Rightarrow>
          if list_ex (\<lambda>k. length k = length key \<and> memcmp k key (length key) = 0) (l_keys l)
          then (CETCD_OK,
            m\<lparr>lm_leases := update_lease i (\<lambda>l. l\<lparr>l_keys := remove_key key (l_keys l)\<rparr>) (lm_leases m)\<rparr>)
          else (CETCD_ERR_NOTFOUND, m))"

section \<open>Expiry\<close>

text \<open>
  The loop of \<^verbatim>\<open>cetcd_lease_mgr_tick\<close>: the leases kept, the backend and the calls of the
  expiry callback. A lease whose record cannot be deleted is kept.
\<close>

fun tick_loop ::
  "('e, 't) lmdb \<Rightarrow> bool \<Rightarrow> int \<Rightarrow> cetcd_lease list \<Rightarrow> 'e option \<Rightarrow>
   cetcd_lease list \<times> 'e option \<times> (u64 \<times> bytes list) list" where
  "tick_loop L on_expire now [] be = ([], be, [])"
| "tick_loop L on_expire now (l # ls) be =
     (if l_deadline_ms l \<le> now then
        case (case be of
                None \<Rightarrow> (CETCD_OK, None)
              | Some b \<Rightarrow> (case lease_persist_del L b (l_id l) of (rc, b) \<Rightarrow> (rc, Some b))) of
          (rc, be) \<Rightarrow>
            if rc \<noteq> CETCD_OK then
              (case tick_loop L on_expire now ls be of (ls, be, calls) \<Rightarrow> (l # ls, be, calls))
            else
              (case tick_loop L on_expire now ls be of
                 (ls, be, calls) \<Rightarrow> (ls, be, (if on_expire then (l_id l, l_keys l) # calls else calls)))
      else
        case tick_loop L on_expire now ls be of (ls, be, calls) \<Rightarrow> (l # ls, be, calls))"

definition cetcd_lease_mgr_tick ::
  "('e, 't) lmdb \<Rightarrow> 'e cetcd_lease_mgr \<Rightarrow> int \<Rightarrow> 'e cetcd_lease_mgr" where
  "cetcd_lease_mgr_tick L m elapsed_ms =
     (if elapsed_ms \<le> 0 then m
      else
        let now = lm_now_ms m + elapsed_ms in
        case tick_loop L (lm_on_expire m) now (lm_leases m) (lm_backend m) of
          (ls, be, calls) \<Rightarrow>
            m\<lparr>lm_now_ms := now, lm_leases := ls, lm_backend := be, lm_expired := lm_expired m @ calls\<rparr>)"

section \<open>Rebuilding, saving and loading\<close>

fun reindex_loop ::
  "('e, 't) lmdb \<Rightarrow> int \<Rightarrow> cetcd_kv list \<Rightarrow> 'e cetcd_lease_mgr \<Rightarrow> 'e cetcd_lease_mgr" where
  "reindex_loop L wall [] m = m"
| "reindex_loop L wall (kv # kvs) m =
     reindex_loop L wall kvs
       (if kv_lease_id kv \<le> 0 then m
        else
          let lid = word_of_int (kv_lease_id kv) in
          if \<not> cetcd_lease_exists m lid then
            (if lm_have_bucket m then
               (case lease_restore m lid 1 0 of
                  (rc, m) \<Rightarrow> if rc \<noteq> CETCD_OK then m else snd (cetcd_lease_attach_key m lid (kv_key kv)))
             else
               (case cetcd_lease_grant_id L wall m lid CETCD_LEASE_REBUILD_TTL of
                  (r, m) \<Rightarrow> if r = 0 then m else snd (cetcd_lease_attach_key m lid (kv_key kv))))
          else snd (cetcd_lease_attach_key m lid (kv_key kv)))"

definition cetcd_lease_reindex_from_store ::
  "('e, 't) lmdb \<Rightarrow> int \<Rightarrow> 'e cetcd_lease_mgr \<Rightarrow> 'e cetcd_mvcc_store \<Rightarrow> cetcd_status \<times> 'e cetcd_lease_mgr" where
  "cetcd_lease_reindex_from_store L wall m s =
     (case cetcd_mvcc_range s 0 [] [0] of
        (rc, kvs) \<Rightarrow> if rc \<noteq> CETCD_OK then (CETCD_OK, m) else (CETCD_OK, reindex_loop L wall kvs m))"

definition cetcd_lease_mgr_set_backend :: "'e cetcd_lease_mgr \<Rightarrow> 'e option \<Rightarrow> 'e cetcd_lease_mgr" where
  "cetcd_lease_mgr_set_backend m be = m\<lparr>lm_backend := be\<rparr>"

fun lease_save_loop ::
  "('e, 't) lmdb \<Rightarrow> int \<Rightarrow> int \<Rightarrow> u64 \<Rightarrow> cetcd_lease list \<Rightarrow> 'e \<Rightarrow> cetcd_status \<times> 'e" where
  "lease_save_loop L wall now next_id [] be = lease_persist_next L be next_id"
| "lease_save_loop L wall now next_id (l # ls) be =
     (case lease_persist_put L wall be l now next_id of
        (rc, be) \<Rightarrow> if rc \<noteq> CETCD_OK then (rc, be) else lease_save_loop L wall now next_id ls be)"

definition cetcd_lease_save :: "('e, 't) lmdb \<Rightarrow> int \<Rightarrow> 'e cetcd_lease_mgr \<Rightarrow> 'e \<Rightarrow> cetcd_status \<times> 'e" where
  "cetcd_lease_save L wall m be = lease_save_loop L wall (lm_now_ms m) (lm_next_id m) (lm_leases m) be"

definition lease_load_cb :: "int \<Rightarrow> (bytes, 'e cetcd_lease_mgr \<times> cetcd_status) cetcd_treap_iter_fn" where
  "lease_load_cb wall key val ctx =
     (let m = (fst ctx)\<lparr>lm_have_bucket := True\<rparr> in
      if length key = length LEASE_KEY_NEXT \<and> memcmp key LEASE_KEY_NEXT (length LEASE_KEY_NEXT) = 0 then
        ((if length val \<ge> 8 \<and> read_le64 val > lm_next_id m then m\<lparr>lm_next_id := read_le64 val\<rparr> else m, snd ctx), True)
      else if length key \<noteq> 8 \<or> length val \<noteq> 16 then ((m, snd ctx), True)
      else
        case lease_restore m (read_le64 key) (sint (read_le64 val)) (sint (read_le64 (drop 8 val)) - wall) of
          (rc, m) \<Rightarrow>
            ((m, if rc \<noteq> CETCD_OK \<and> rc \<noteq> CETCD_ERR_EXISTS then rc else snd ctx), True))"

definition cetcd_lease_load ::
  "('e, 't) lmdb \<Rightarrow> int \<Rightarrow> 'e cetcd_lease_mgr \<Rightarrow> 'e \<Rightarrow> cetcd_status \<times> 'e cetcd_lease_mgr" where
  "cetcd_lease_load L wall m be =
     (case cetcd_backend_foreach L be LEASE_BUCKET (lease_load_cb wall) (m\<lparr>lm_have_bucket := False\<rparr>, CETCD_OK) of
        (rc, ctx) \<Rightarrow> if rc \<noteq> CETCD_OK then (rc, fst ctx) else (snd ctx, fst ctx))"

end
