(* ===== verification/Apply.thy ===== *)
theory Apply
  imports Cluster Lease Mvcc_Store Raft_Step Jwt
begin

text \<open>
  The state machine of \<^verbatim>\<open>src/v3rpc/apply.c\<close>: the encodings of the operations that go through the
  Raft log, and the application of a committed entry to the stores of the node. The globals of
  \<^verbatim>\<open>src/v3rpc/v3rpc.c\<close> are the record \<open>rpc\<close>. All components of a node write to one LMDB environment,
  the field \<open>g_be\<close>; the backend field of a component says whether its pointer is set, and
  \<open>on_store\<close>, \<open>on_leases\<close> and \<open>on_cluster\<close> lend the environment to a component for one call. The
  alarms are those of \<^verbatim>\<open>src/v3rpc/maint_handler.c\<close>, the cancellation of watches that of
  \<^verbatim>\<open>src/v3rpc/watch_handler.c\<close>. The local \<^verbatim>\<open>write_varint_\<close> and \<^verbatim>\<open>read_varint_\<close> are \<open>varint\<close> and
  \<open>read_varint\<close>; a reader works on the bytes from its position on. A return value of -1 is \<open>False\<close>.
  The wall clock of the lease records is an argument.
\<close>

section \<open>The globals\<close>

record alarm =
  al_active :: bool
  al_alarm_type :: int
  al_member_id :: u64

record cetcd_stream_watcher_ctx =
  wc_watch_id :: int
  wc_start_rev :: int
  wc_canceled :: bool
  wc_write_fn :: bool
  wc_sw :: "nat option"

record 'e rpc =
  g_rpc_store :: "'e cetcd_mvcc_store option"
  g_rpc_lease_mgr :: "'e cetcd_lease_mgr option"
  g_rpc_raft :: "cetcd_raft option"
  g_rpc_cluster :: "'e cetcd_cluster option"
  g_rpc_auth :: "cetcd_auth_store option"
  g_rpc_auth_backend :: bool
  g_be :: 'e
  g_alarms :: "alarm list"
  g_stream_watchers :: "cetcd_stream_watcher_ctx list"
  g_cancels :: "(int \<times> int \<times> int) list"
  g_rpc_quota_bytes :: u64
  g_rpc_node_id :: u64

definition on_store :: "('e cetcd_mvcc_store \<Rightarrow> 'a \<times> 'e cetcd_mvcc_store) \<Rightarrow> 'e cetcd_mvcc_store \<Rightarrow> 'e rpc \<Rightarrow> 'a \<times> 'e rpc" where
  "on_store f s g =
     (case f (s\<lparr>ms_backend := map_option (\<lambda>_. g_be g) (ms_backend s)\<rparr>) of
        (r, s) \<Rightarrow> (r, g\<lparr>g_rpc_store := Some s, g_be := (case ms_backend s of None \<Rightarrow> g_be g | Some be \<Rightarrow> be)\<rparr>))"

definition on_leases :: "('e cetcd_lease_mgr \<Rightarrow> 'a \<times> 'e cetcd_lease_mgr) \<Rightarrow> 'e cetcd_lease_mgr \<Rightarrow> 'e rpc \<Rightarrow> 'a \<times> 'e rpc" where
  "on_leases f m g =
     (case f (m\<lparr>lm_backend := map_option (\<lambda>_. g_be g) (lm_backend m)\<rparr>) of
        (r, m) \<Rightarrow> (r, g\<lparr>g_rpc_lease_mgr := Some m, g_be := (case lm_backend m of None \<Rightarrow> g_be g | Some be \<Rightarrow> be)\<rparr>))"

definition on_cluster :: "('e cetcd_cluster \<Rightarrow> 'a \<times> 'e cetcd_cluster) \<Rightarrow> 'e cetcd_cluster \<Rightarrow> 'e rpc \<Rightarrow> 'a \<times> 'e rpc" where
  "on_cluster f c g =
     (case f (c\<lparr>cl_backend := map_option (\<lambda>_. g_be g) (cl_backend c)\<rparr>) of
        (r, c) \<Rightarrow> (r, g\<lparr>g_rpc_cluster := Some c, g_be := (case cl_backend c of None \<Rightarrow> g_be g | Some be \<Rightarrow> be)\<rparr>))"

section \<open>Operation tags\<close>

definition CETCD_APPLY_PUT :: byte where "CETCD_APPLY_PUT = 1"
definition CETCD_APPLY_DELETE :: byte where "CETCD_APPLY_DELETE = 2"
definition CETCD_APPLY_BATCH :: byte where "CETCD_APPLY_BATCH = 3"
definition CETCD_APPLY_DELETE_RANGE :: byte where "CETCD_APPLY_DELETE_RANGE = 4"
definition CETCD_APPLY_MEMBER_ADD :: byte where "CETCD_APPLY_MEMBER_ADD = 5"
definition CETCD_APPLY_MEMBER_REMOVE :: byte where "CETCD_APPLY_MEMBER_REMOVE = 6"
definition CETCD_APPLY_MEMBER_PROMOTE :: byte where "CETCD_APPLY_MEMBER_PROMOTE = 7"
definition CETCD_APPLY_MEMBER_UPDATE :: byte where "CETCD_APPLY_MEMBER_UPDATE = 8"
definition CETCD_APPLY_LEAVE_JOINT :: byte where "CETCD_APPLY_LEAVE_JOINT = 9"
definition CETCD_APPLY_LEASE_REVOKE :: byte where "CETCD_APPLY_LEASE_REVOKE = 10"
definition CETCD_APPLY_COMPACT :: byte where "CETCD_APPLY_COMPACT = 11"
definition CETCD_APPLY_LEASE_GRANT :: byte where "CETCD_APPLY_LEASE_GRANT = 12"
definition CETCD_APPLY_LEASE_KEEPALIVE :: byte where "CETCD_APPLY_LEASE_KEEPALIVE = 13"
definition CETCD_APPLY_AUTH_USER_ADD :: byte where "CETCD_APPLY_AUTH_USER_ADD = 14"
definition CETCD_APPLY_AUTH_ENABLED :: byte where "CETCD_APPLY_AUTH_ENABLED = 15"
definition CETCD_APPLY_AUTH_USER_DELETE :: byte where "CETCD_APPLY_AUTH_USER_DELETE = 16"
definition CETCD_APPLY_AUTH_ROLE_ADD :: byte where "CETCD_APPLY_AUTH_ROLE_ADD = 17"
definition CETCD_APPLY_AUTH_ROLE_DELETE :: byte where "CETCD_APPLY_AUTH_ROLE_DELETE = 18"
definition CETCD_APPLY_AUTH_USER_GRANT_ROLE :: byte where "CETCD_APPLY_AUTH_USER_GRANT_ROLE = 19"
definition CETCD_APPLY_AUTH_USER_REVOKE_ROLE :: byte where "CETCD_APPLY_AUTH_USER_REVOKE_ROLE = 20"
definition CETCD_APPLY_AUTH_ROLE_GRANT_PERM :: byte where "CETCD_APPLY_AUTH_ROLE_GRANT_PERM = 21"
definition CETCD_APPLY_AUTH_ROLE_REVOKE_PERM :: byte where "CETCD_APPLY_AUTH_ROLE_REVOKE_PERM = 22"
definition CETCD_APPLY_AUTH_USER_CHANGE_PASS :: byte where "CETCD_APPLY_AUTH_USER_CHANGE_PASS = 23"
definition CETCD_APPLY_ALARM :: byte where "CETCD_APPLY_ALARM = 24"

lemmas tag_defs = CETCD_APPLY_PUT_def CETCD_APPLY_DELETE_def CETCD_APPLY_BATCH_def CETCD_APPLY_DELETE_RANGE_def
  CETCD_APPLY_MEMBER_ADD_def CETCD_APPLY_MEMBER_REMOVE_def CETCD_APPLY_MEMBER_PROMOTE_def CETCD_APPLY_MEMBER_UPDATE_def
  CETCD_APPLY_LEAVE_JOINT_def CETCD_APPLY_LEASE_REVOKE_def CETCD_APPLY_COMPACT_def CETCD_APPLY_LEASE_GRANT_def
  CETCD_APPLY_LEASE_KEEPALIVE_def CETCD_APPLY_AUTH_USER_ADD_def CETCD_APPLY_AUTH_ENABLED_def
  CETCD_APPLY_AUTH_USER_DELETE_def CETCD_APPLY_AUTH_ROLE_ADD_def CETCD_APPLY_AUTH_ROLE_DELETE_def
  CETCD_APPLY_AUTH_USER_GRANT_ROLE_def CETCD_APPLY_AUTH_USER_REVOKE_ROLE_def CETCD_APPLY_AUTH_ROLE_GRANT_PERM_def
  CETCD_APPLY_AUTH_ROLE_REVOKE_PERM_def CETCD_APPLY_AUTH_USER_CHANGE_PASS_def CETCD_APPLY_ALARM_def

section \<open>Encoders\<close>

text \<open>
  A refused operation is \<open>None\<close>. The buffers have room for ten bytes per number, so \<^verbatim>\<open>write_varint_\<close>
  cannot fail in them; byte strings are shorter than half the address space, as for every object in memory.
\<close>

definition encode_tagged :: "byte \<Rightarrow> bytes \<Rightarrow> bytes \<Rightarrow> u64 option \<Rightarrow> bytes" where
  "encode_tagged tag a b extra =
     [tag] @ varint (of_nat (length a) :: u64) @ a @ varint (of_nat (length b) :: u64) @ b @
     (case extra of None \<Rightarrow> [] | Some x \<Rightarrow> varint x)"

definition cetcd_apply_encode_put :: "bytes \<Rightarrow> bytes \<Rightarrow> int \<Rightarrow> bytes option" where
  "cetcd_apply_encode_put key val lease_id =
     (if key = [] then None else Some (encode_tagged CETCD_APPLY_PUT key val (Some (word_of_int lease_id))))"

definition cetcd_apply_encode_delete :: "bytes \<Rightarrow> bytes option" where
  "cetcd_apply_encode_delete key =
     (if key = [] then None else Some (encode_tagged CETCD_APPLY_DELETE key [] None))"

definition cetcd_apply_encode_delete_range :: "bytes \<Rightarrow> bytes \<Rightarrow> bytes option" where
  "cetcd_apply_encode_delete_range key range_end =
     (if key = [] then None else Some (encode_tagged CETCD_APPLY_DELETE_RANGE key range_end None))"

definition cetcd_apply_encode_batch :: "bytes list \<Rightarrow> bytes option" where
  "cetcd_apply_encode_batch ops =
     (if length ops = 0 \<or> length ops > 128 then None
      else if length ops = 1 then Some (hd ops)
      else Some ([CETCD_APPLY_BATCH] @ varint (of_nat (length ops) :: u64) @
                 concat (map (\<lambda>x. varint (of_nat (length x) :: u64) @ x) ops)))"

definition cetcd_apply_encode_member_add :: "u64 \<Rightarrow> bool \<Rightarrow> bytes \<Rightarrow> u16 \<Rightarrow> bytes option" where
  "cetcd_apply_encode_member_add i is_learner addr port =
     (if i = 0 then None
      else Some ([CETCD_APPLY_MEMBER_ADD] @ varint i @ varint (of_bool is_learner :: u64) @
                 varint (of_nat (length addr) :: u64) @ addr @ varint (ucast port :: u64)))"

definition cetcd_apply_encode_member_remove :: "u64 \<Rightarrow> bytes option" where
  "cetcd_apply_encode_member_remove i = (if i = 0 then None else Some ([CETCD_APPLY_MEMBER_REMOVE] @ varint i))"

definition cetcd_apply_encode_member_promote :: "u64 \<Rightarrow> bytes option" where
  "cetcd_apply_encode_member_promote i = (if i = 0 then None else Some ([CETCD_APPLY_MEMBER_PROMOTE] @ varint i))"

definition cetcd_apply_encode_member_update :: "u64 \<Rightarrow> bytes \<Rightarrow> u16 \<Rightarrow> bytes option" where
  "cetcd_apply_encode_member_update i addr port =
     (if i = 0 then None
      else Some ([CETCD_APPLY_MEMBER_UPDATE] @ varint i @ varint (of_nat (length addr) :: u64) @ addr @
                 varint (ucast port :: u64)))"

definition cetcd_apply_encode_lease_revoke :: "u64 \<Rightarrow> bytes option" where
  "cetcd_apply_encode_lease_revoke lease_id =
     (if lease_id = 0 then None else Some ([CETCD_APPLY_LEASE_REVOKE] @ varint lease_id))"

definition cetcd_apply_encode_compact :: "int \<Rightarrow> bytes option" where
  "cetcd_apply_encode_compact revision =
     (if revision \<le> 0 then None else Some ([CETCD_APPLY_COMPACT] @ varint (word_of_int revision :: u64)))"

definition cetcd_apply_encode_lease_grant :: "u64 \<Rightarrow> int \<Rightarrow> bytes option" where
  "cetcd_apply_encode_lease_grant lease_id ttl =
     (if lease_id = 0 \<or> ttl \<le> 0 \<or> ttl > CETCD_MAX_LEASE_TTL then None
      else Some ([CETCD_APPLY_LEASE_GRANT] @ varint lease_id @ varint (word_of_int ttl :: u64)))"

definition cetcd_apply_encode_lease_keepalive :: "u64 \<Rightarrow> int \<Rightarrow> bytes option" where
  "cetcd_apply_encode_lease_keepalive lease_id ttl =
     (if lease_id = 0 \<or> ttl \<le> 0 \<or> ttl > CETCD_MAX_LEASE_TTL then None
      else Some ([CETCD_APPLY_LEASE_KEEPALIVE] @ varint lease_id @ varint (word_of_int ttl :: u64)))"

definition cetcd_apply_encode_auth_user_add :: "bytes \<Rightarrow> bytes \<Rightarrow> bytes option" where
  "cetcd_apply_encode_auth_user_add name hash =
     (if name = [] \<or> hash = [] then None else Some (encode_tagged CETCD_APPLY_AUTH_USER_ADD name hash None))"

definition cetcd_apply_encode_auth_enabled :: "int \<Rightarrow> bytes option" where
  "cetcd_apply_encode_auth_enabled enabled =
     (if enabled \<noteq> 0 \<and> enabled \<noteq> 1 then None
      else Some ([CETCD_APPLY_AUTH_ENABLED] @ varint (word_of_int enabled :: u64)))"

definition cetcd_apply_encode_auth_user_delete :: "bytes \<Rightarrow> bytes option" where
  "cetcd_apply_encode_auth_user_delete name =
     (if name = [] then None else Some (encode_tagged CETCD_APPLY_AUTH_USER_DELETE name [] None))"

definition cetcd_apply_encode_auth_role_add :: "bytes \<Rightarrow> bytes option" where
  "cetcd_apply_encode_auth_role_add name =
     (if name = [] then None else Some (encode_tagged CETCD_APPLY_AUTH_ROLE_ADD name [] None))"

definition cetcd_apply_encode_auth_role_delete :: "bytes \<Rightarrow> bytes option" where
  "cetcd_apply_encode_auth_role_delete name =
     (if name = [] then None else Some (encode_tagged CETCD_APPLY_AUTH_ROLE_DELETE name [] None))"

definition cetcd_apply_encode_auth_user_grant_role :: "bytes \<Rightarrow> bytes \<Rightarrow> bytes option" where
  "cetcd_apply_encode_auth_user_grant_role user role =
     (if user = [] \<or> role = [] then None else Some (encode_tagged CETCD_APPLY_AUTH_USER_GRANT_ROLE user role None))"

definition cetcd_apply_encode_auth_user_revoke_role :: "bytes \<Rightarrow> bytes \<Rightarrow> bytes option" where
  "cetcd_apply_encode_auth_user_revoke_role user role =
     (if user = [] \<or> role = [] then None else Some (encode_tagged CETCD_APPLY_AUTH_USER_REVOKE_ROLE user role None))"

definition cetcd_apply_encode_auth_role_grant_perm_range :: "bytes \<Rightarrow> bytes \<Rightarrow> int \<Rightarrow> bytes \<Rightarrow> bytes option" where
  "cetcd_apply_encode_auth_role_grant_perm_range role key perm_type range_end =
     (if role = [] \<or> perm_type < 0 \<or> perm_type > 2 then None
      else
        let out = encode_tagged CETCD_APPLY_AUTH_ROLE_GRANT_PERM role key (Some (word_of_int perm_type)) in
        if range_end = [] then Some out else Some (out @ varint (of_nat (length range_end) :: u64) @ range_end))"

definition cetcd_apply_encode_auth_role_revoke_perm_range :: "bytes \<Rightarrow> bytes \<Rightarrow> bytes \<Rightarrow> bytes option" where
  "cetcd_apply_encode_auth_role_revoke_perm_range role key range_end =
     (if role = [] then None
      else
        let out = encode_tagged CETCD_APPLY_AUTH_ROLE_REVOKE_PERM role key None in
        if range_end = [] then Some out else Some (out @ varint (of_nat (length range_end) :: u64) @ range_end))"

definition cetcd_apply_encode_auth_user_change_pass :: "bytes \<Rightarrow> bytes \<Rightarrow> bytes option" where
  "cetcd_apply_encode_auth_user_change_pass name hash =
     (if name = [] \<or> hash = [] then None else Some (encode_tagged CETCD_APPLY_AUTH_USER_CHANGE_PASS name hash None))"

definition cetcd_apply_encode_alarm :: "int \<Rightarrow> int \<Rightarrow> u64 \<Rightarrow> bytes option" where
  "cetcd_apply_encode_alarm action alarm_type member_id =
     (if action \<noteq> 1 \<and> action \<noteq> 2 then None
      else if alarm_type \<noteq> 1 \<and> alarm_type \<noteq> 2 then None
      else Some ([CETCD_APPLY_ALARM] @ varint (word_of_int action :: u64) @ varint (word_of_int alarm_type :: u64) @
                 varint member_id))"

section \<open>Keys and leases\<close>

definition lease_after_put :: "bytes \<Rightarrow> int \<Rightarrow> int \<Rightarrow> 'e rpc \<Rightarrow> 'e rpc" where
  "lease_after_put key old_lease new_lease g =
     (case g_rpc_lease_mgr g of
        None \<Rightarrow> g
      | Some m \<Rightarrow>
          let m = (if old_lease > 0 \<and> old_lease \<noteq> new_lease
                   then snd (cetcd_lease_detach_key m (word_of_int old_lease) key) else m);
              m = (if new_lease > 0 then snd (cetcd_lease_attach_key m (word_of_int new_lease) key) else m)
          in g\<lparr>g_rpc_lease_mgr := Some m\<rparr>)"

definition current_lease :: "'e rpc \<Rightarrow> 'e cetcd_mvcc_store \<Rightarrow> bytes \<Rightarrow> int" where
  "current_lease g s key =
     (if g_rpc_lease_mgr g = None then 0
      else case cetcd_mvcc_get s 0 key of (rc, kv) \<Rightarrow>
        if rc = CETCD_OK then (case kv of Some kv \<Rightarrow> kv_lease_id kv | None \<Rightarrow> 0) else 0)"

definition apply_put :: "('e, 't) lmdb \<Rightarrow> bytes \<Rightarrow> bytes \<Rightarrow> int \<Rightarrow> 'e rpc \<Rightarrow> bool \<times> 'e rpc" where
  "apply_put L key val lease_id g =
     (case g_rpc_store g of
        None \<Rightarrow> (False, g)
      | Some s \<Rightarrow>
          if key = [] then (False, g)
          else
            let old_lease = current_lease g s key in
            case on_store (\<lambda>s. cetcd_mvcc_put L s key val lease_id) s g of (r, g) \<Rightarrow>
              if rev_main r \<le> 0 then (False, g)
              else (True, lease_after_put key old_lease lease_id g))"

definition detach_key :: "int \<Rightarrow> bytes \<Rightarrow> 'e rpc \<Rightarrow> 'e rpc" where
  "detach_key lease_id key g =
     (case g_rpc_lease_mgr g of
        None \<Rightarrow> g
      | Some m \<Rightarrow>
          if lease_id > 0 then g\<lparr>g_rpc_lease_mgr := Some (snd (cetcd_lease_detach_key m (word_of_int lease_id) key))\<rparr>
          else g)"

definition apply_delete_one :: "('e, 't) lmdb \<Rightarrow> bytes \<Rightarrow> 'e rpc \<Rightarrow> bool \<times> 'e rpc" where
  "apply_delete_one L key g =
     (case g_rpc_store g of
        None \<Rightarrow> (False, g)
      | Some s \<Rightarrow>
          if key = [] then (False, g)
          else
            let lease_id = current_lease g s key in
            case on_store (\<lambda>s. cetcd_mvcc_delete L s key) s g of (r, g) \<Rightarrow>
              (True, if rev_main r > 0 then detach_key lease_id key g else g))"

definition apply_delete_range :: "('e, 't) lmdb \<Rightarrow> bytes \<Rightarrow> bytes \<Rightarrow> 'e rpc \<Rightarrow> bool \<times> 'e rpc" where
  "apply_delete_range L key range_end g =
     (case g_rpc_store g of
        None \<Rightarrow> (False, g)
      | Some s \<Rightarrow>
          if key = [] then (False, g)
          else if range_end = [] then apply_delete_one L key g
          else
            let kvs = snd (cetcd_mvcc_range s 0 key range_end) in
            if kvs = [] then (True, g)
            else
              case on_store (\<lambda>s. cetcd_mvcc_delete_keys L s (map kv_key kvs)) s g of (r, g) \<Rightarrow>
                (True, if rev_main r > 0 then fold (\<lambda>kv g. detach_key (kv_lease_id kv) (kv_key kv) g) kvs g else g))"

definition apply_lease_revoke :: "('e, 't) lmdb \<Rightarrow> u64 \<Rightarrow> 'e rpc \<Rightarrow> bool \<times> 'e rpc" where
  "apply_lease_revoke L i g =
     (if i = 0 then (False, g)
      else case g_rpc_lease_mgr g of
          None \<Rightarrow> (True, g)
        | Some m \<Rightarrow>
            let keys = cetcd_lease_keys m i;
                g = (case g_rpc_store g of
                       None \<Rightarrow> g
                     | Some s \<Rightarrow> if keys = [] then g else snd (on_store (\<lambda>s. cetcd_mvcc_delete_keys L s keys) s g))
            in (True, snd (on_leases (\<lambda>m. cetcd_lease_revoke L m i) m g)))"

section \<open>Members\<close>

definition cetcd_raft_copy_outgoing :: "cetcd_raft \<Rightarrow> nat \<Rightarrow> nat \<times> u64 list" where
  "cetcd_raft_copy_outgoing r cap = (length (r_outgoing r), take cap (r_outgoing r))"

definition cetcd_raft_joint_index :: "cetcd_raft \<Rightarrow> u64" where
  "cetcd_raft_joint_index r = r_joint_index r"

definition begin_voter_joint :: "('e, 't) lmdb \<Rightarrow> 'e rpc \<Rightarrow> bool \<times> 'e rpc" where
  "begin_voter_joint L g =
     (case g_rpc_raft g of
        None \<Rightarrow> (True, g)
      | Some r \<Rightarrow>
          (case cetcd_raft_enter_joint r of (rc, r) \<Rightarrow>
             let g = g\<lparr>g_rpc_raft := Some r\<rparr> in
             if rc \<noteq> 0 then (False, g)
             else case g_rpc_cluster g of
                 None \<Rightarrow> (True, g)
               | Some c \<Rightarrow>
                   let ids = snd (cetcd_raft_copy_outgoing r 16) in
                   case on_cluster (\<lambda>c. cetcd_cluster_persist_joint L c ids (cetcd_raft_joint_index r)) c g of (rc, g) \<Rightarrow>
                     if rc \<noteq> CETCD_OK then (False, g\<lparr>g_rpc_raft := Some (snd (cetcd_raft_leave_joint r))\<rparr>)
                     else (True, g)))"

definition not_in_joint :: "'e rpc \<Rightarrow> bool" where
  "not_in_joint g = (case g_rpc_raft g of None \<Rightarrow> True | Some r \<Rightarrow> \<not> cetcd_raft_in_joint r)"

definition on_raft :: "(cetcd_raft \<Rightarrow> int \<times> cetcd_raft) \<Rightarrow> 'e rpc \<Rightarrow> 'e rpc" where
  "on_raft f g = (case g_rpc_raft g of None \<Rightarrow> g | Some r \<Rightarrow> g\<lparr>g_rpc_raft := Some (snd (f r))\<rparr>)"

text \<open>The four operations of \<^verbatim>\<open>apply_member_\<close>, after the identifier has been read.\<close>

definition apply_member_remove :: "('e, 't) lmdb \<Rightarrow> u64 \<Rightarrow> 'e rpc \<Rightarrow> bool \<times> 'e rpc" where
  "apply_member_remove L i g =
     (case g_rpc_cluster g of None \<Rightarrow> (False, g) | Some c \<Rightarrow>
        let was_voter = (case cetcd_cluster_get_peer c i of None \<Rightarrow> False | Some p \<Rightarrow> \<not> pi_is_learner p) in
        case (if was_voter \<and> not_in_joint g then begin_voter_joint L g else (True, g)) of (ok, g) \<Rightarrow>
        if \<not> ok then (False, g)
        else
          case on_cluster (\<lambda>c. cetcd_cluster_persist_del L c i) (the (g_rpc_cluster g)) g of (rc, g) \<Rightarrow>
          if rc \<noteq> CETCD_OK then (False, g)
          else
            let g = snd (on_cluster (\<lambda>c. cetcd_cluster_remove_peer c i) (the (g_rpc_cluster g)) g)
            in (True, on_raft (\<lambda>r. cetcd_raft_remove_peer r i) g))"

definition apply_member_promote :: "('e, 't) lmdb \<Rightarrow> u64 \<Rightarrow> 'e rpc \<Rightarrow> bool \<times> 'e rpc" where
  "apply_member_promote L i g =
     (case g_rpc_cluster g of None \<Rightarrow> (False, g) | Some c \<Rightarrow>
        case cetcd_cluster_get_peer c i of None \<Rightarrow> (False, g) | Some p \<Rightarrow>
        if \<not> pi_is_learner p then (True, g)
        else
          case (if not_in_joint g then begin_voter_joint L g else (True, g)) of (ok, g) \<Rightarrow>
          if \<not> ok then (False, g)
          else
            case on_cluster (\<lambda>c. cetcd_cluster_persist_peer L c (p\<lparr>pi_is_learner := False\<rparr>)) (the (g_rpc_cluster g)) g of (rc, g) \<Rightarrow>
            if rc \<noteq> CETCD_OK then (False, g)
            else
              case on_cluster (\<lambda>c. cetcd_cluster_promote c i) (the (g_rpc_cluster g)) g of (rc, g) \<Rightarrow>
              if rc \<noteq> CETCD_OK then (False, g) else (True, on_raft (\<lambda>r. cetcd_raft_promote r i) g))"

definition apply_member_update :: "('e, 't) lmdb \<Rightarrow> cetcd_peer_info \<Rightarrow> 'e rpc \<Rightarrow> bool \<times> 'e rpc" where
  "apply_member_update L info g =
     (case g_rpc_cluster g of None \<Rightarrow> (False, g) | Some c \<Rightarrow>
        let info = (case cetcd_cluster_get_peer c (pi_id info) of
                      None \<Rightarrow> info | Some p \<Rightarrow> info\<lparr>pi_is_learner := pi_is_learner p\<rparr>)
        in case on_cluster (\<lambda>c. cetcd_cluster_persist_peer L c info) c g of (rc, g) \<Rightarrow>
           if rc \<noteq> CETCD_OK then (False, g)
           else
             case on_cluster (\<lambda>c. cetcd_cluster_update_peer c (pi_id info) info) (the (g_rpc_cluster g)) g of (rc, g) \<Rightarrow>
             (rc = CETCD_OK, g))"

definition apply_member_add :: "('e, 't) lmdb \<Rightarrow> cetcd_peer_info \<Rightarrow> 'e rpc \<Rightarrow> bool \<times> 'e rpc" where
  "apply_member_add L info g =
     (case g_rpc_cluster g of None \<Rightarrow> (False, g) | Some c \<Rightarrow>
        case (if \<not> pi_is_learner info \<and> not_in_joint g then begin_voter_joint L g else (True, g)) of (ok, g) \<Rightarrow>
        if \<not> ok then (False, g)
        else
          case on_cluster (\<lambda>c. cetcd_cluster_persist_peer L c info) (the (g_rpc_cluster g)) g of (rc, g) \<Rightarrow>
          if rc \<noteq> CETCD_OK then (False, g)
          else
            case on_cluster (\<lambda>c. cetcd_cluster_add_peer c info) (the (g_rpc_cluster g)) g of (rc, g) \<Rightarrow>
            if rc \<noteq> CETCD_OK \<and> rc \<noteq> CETCD_ERR_EXISTS then (False, g)
            else (True, on_raft (\<lambda>r. cetcd_raft_add_peer r (pi_id info) (pi_is_learner info)) g))"

text \<open>
  An address of 256 bytes or more is cut to 255, and the position moves by 255 only, so the port
  is then read out of the address.
\<close>

definition apply_member :: "('e, 't) lmdb \<Rightarrow> byte \<Rightarrow> bytes \<Rightarrow> 'e rpc \<Rightarrow> bool \<times> 'e rpc" where
  "apply_member L tag data g =
     (if g_rpc_cluster g = None then (False, g)
      else case read_varint data of None \<Rightarrow> (False, g) | Some (i, data) \<Rightarrow>
      if i = 0 then (False, g)
      else if tag = CETCD_APPLY_MEMBER_REMOVE then apply_member_remove L i g
      else if tag = CETCD_APPLY_MEMBER_PROMOTE then apply_member_promote L i g
      else
        case (if tag = CETCD_APPLY_MEMBER_ADD then read_varint data else Some (0, data)) of None \<Rightarrow> (False, g) | Some (is_learner, data) \<Rightarrow>
        case read_varint data of None \<Rightarrow> (False, g) | Some (alen, data) \<Rightarrow>
        if unat alen > length data then (False, g)
        else
          let alen = (if unat alen \<ge> 256 then 255 else unat alen); addr = take alen data; data = drop alen data in
          case read_varint data of None \<Rightarrow> (False, g) | Some (port, data) \<Rightarrow>
          let info = \<lparr>pi_id = i, pi_addr = cstr addr, pi_port = ucast port, pi_is_learner = (is_learner \<noteq> 0)\<rparr> in
          if tag = CETCD_APPLY_MEMBER_UPDATE then apply_member_update L info g else apply_member_add L info g)"

section \<open>Alarms\<close>

definition MAX_ALARMS :: nat where "MAX_ALARMS = 8"
definition ALARM_BUCKET :: string where "ALARM_BUCKET = ''alarm''"
definition ALARM_KEY :: bytes where "ALARM_KEY = bytes_of ''t''"
definition no_alarm :: alarm where "no_alarm = \<lparr>al_active = False, al_alarm_type = 0, al_member_id = 0\<rparr>"

definition alarm_record :: "alarm list \<Rightarrow> bytes" where
  "alarm_record as =
     (let active = filter al_active as
      in [of_nat (length active)] @
         concat (map (\<lambda>a. [word_of_int (al_alarm_type a)] @ write_le64 (al_member_id a)) active))"

definition alarm_persist :: "('e, 't) lmdb \<Rightarrow> 'e rpc \<Rightarrow> 'e rpc" where
  "alarm_persist L g =
     (if \<not> g_rpc_auth_backend g then g
      else g\<lparr>g_be := snd (cetcd_backend_put L (g_be g) ALARM_BUCKET ALARM_KEY (alarm_record (g_alarms g)))\<rparr>)"

fun alarm_load_loop :: "nat \<Rightarrow> bytes \<Rightarrow> alarm list" where
  "alarm_load_loop 0 val = []"
| "alarm_load_loop (Suc n) val =
     (let typ = uint (val ! 0); m = read_le64 (drop 1 val) in
      if typ \<le> 0 then alarm_load_loop n (drop 9 val)
      else \<lparr>al_active = True, al_alarm_type = typ, al_member_id = (if m = 0 then 1 else m)\<rparr> # alarm_load_loop n (drop 9 val))"

definition cetcd_v3rpc_alarm_load :: "('e, 't) lmdb \<Rightarrow> 'e option \<Rightarrow> alarm list" where
  "cetcd_v3rpc_alarm_load L be =
     (case be of
        None \<Rightarrow> replicate MAX_ALARMS no_alarm
      | Some be \<Rightarrow>
          (case cetcd_backend_get L be ALARM_BUCKET ALARM_KEY of (rc, val) \<Rightarrow>
             (case val of
                Some v \<Rightarrow>
                  if rc \<noteq> CETCD_OK \<or> length v < 1 \<or> unat (v ! 0) > MAX_ALARMS \<or> length v < 1 + unat (v ! 0) * 9
                  then replicate MAX_ALARMS no_alarm
                  else let as = alarm_load_loop (unat (v ! 0)) (drop 1 v) in as @ replicate (MAX_ALARMS - length as) no_alarm
              | None \<Rightarrow> replicate MAX_ALARMS no_alarm)))"

fun set_free_alarm :: "alarm \<Rightarrow> alarm list \<Rightarrow> alarm list option" where
  "set_free_alarm a [] = None"
| "set_free_alarm a (b # bs) = (if \<not> al_active b then Some (a # bs) else map_option (\<lambda>r. b # r) (set_free_alarm a bs))"

definition cetcd_v3rpc_alarm_activate :: "('e, 't) lmdb \<Rightarrow> int \<Rightarrow> u64 \<Rightarrow> 'e rpc \<Rightarrow> 'e rpc" where
  "cetcd_v3rpc_alarm_activate L alarm_type member_id g =
     (if alarm_type \<le> 0 then g
      else if list_ex (\<lambda>a. al_active a \<and> al_alarm_type a = alarm_type) (g_alarms g) then g
      else case set_free_alarm \<lparr>al_active = True, al_alarm_type = alarm_type,
                  al_member_id = (if member_id > 0 then member_id else 1)\<rparr> (g_alarms g) of
          None \<Rightarrow> g
        | Some as \<Rightarrow> alarm_persist L (g\<lparr>g_alarms := as\<rparr>))"

definition alarm_matches :: "int \<Rightarrow> u64 \<Rightarrow> alarm \<Rightarrow> bool" where
  "alarm_matches alarm_type member_id a \<longleftrightarrow>
     al_active a \<and> al_alarm_type a = alarm_type \<and> (member_id = 0 \<or> al_member_id a = member_id)"

definition cetcd_v3rpc_alarm_deactivate :: "('e, 't) lmdb \<Rightarrow> int \<Rightarrow> u64 \<Rightarrow> 'e rpc \<Rightarrow> 'e rpc" where
  "cetcd_v3rpc_alarm_deactivate L alarm_type member_id g =
     (if alarm_type \<le> 0 then g
      else if list_ex (alarm_matches alarm_type member_id) (g_alarms g)
      then alarm_persist L (g\<lparr>g_alarms := map (\<lambda>a. if alarm_matches alarm_type member_id a then no_alarm else a) (g_alarms g)\<rparr>)
      else g)"

definition cetcd_v3rpc_alarm_is_active :: "int \<Rightarrow> 'e rpc \<Rightarrow> bool" where
  "cetcd_v3rpc_alarm_is_active alarm_type g = list_ex (\<lambda>a. al_active a \<and> al_alarm_type a = alarm_type) (g_alarms g)"

section \<open>Watches behind a compaction\<close>

text \<open>
  The watches of open streams that start before the compacted revision are cancelled. The response
  written to a stream is recorded as its watch identifier, the current and the compacted revision.
\<close>

definition compacted_watch :: "int \<Rightarrow> cetcd_stream_watcher_ctx \<Rightarrow> bool" where
  "compacted_watch compact_rev w \<longleftrightarrow>
     \<not> wc_canceled w \<and> wc_write_fn w \<and> wc_start_rev w > 0 \<and> wc_start_rev w < compact_rev"

definition unsubscribe_ctx :: "cetcd_stream_watcher_ctx \<Rightarrow> 'e cetcd_mvcc_store \<Rightarrow> 'e cetcd_mvcc_store" where
  "unsubscribe_ctx w s = (case wc_sw w of None \<Rightarrow> s | Some p \<Rightarrow> cetcd_mvcc_watch_unsubscribe s p)"

definition cetcd_v3rpc_watch_cancel_compacted :: "int \<Rightarrow> 'e rpc \<Rightarrow> 'e rpc" where
  "cetcd_v3rpc_watch_cancel_compacted compact_rev g =
     (if compact_rev \<le> 0 then g
      else
        let current_rev = (case g_rpc_store g of None \<Rightarrow> 0 | Some s \<Rightarrow> ms_main_rev s);
            gone = filter (compacted_watch compact_rev) (g_stream_watchers g)
        in g\<lparr>g_rpc_store := map_option (fold unsubscribe_ctx gone) (g_rpc_store g),
             g_stream_watchers := filter (\<lambda>w. \<not> compacted_watch compact_rev w) (g_stream_watchers g),
             g_cancels := g_cancels g @ map (\<lambda>w. (wc_watch_id w, current_rev, compact_rev)) gone\<rparr>)"

section \<open>Users and roles\<close>

definition cetcd_v3rpc_auth_persist :: "('e, 't) lmdb \<Rightarrow> 'e rpc \<Rightarrow> 'e rpc" where
  "cetcd_v3rpc_auth_persist L g =
     (case g_rpc_auth g of
        None \<Rightarrow> g
      | Some a \<Rightarrow> if g_rpc_auth_backend g then g\<lparr>g_be := snd (cetcd_auth_save L a (g_be g))\<rparr> else g)"

definition auth_done :: "('e, 't) lmdb \<Rightarrow> cetcd_auth_store \<Rightarrow> 'e rpc \<Rightarrow> bool \<times> 'e rpc" where
  "auth_done L a g = (True, cetcd_v3rpc_auth_persist L (g\<lparr>g_rpc_auth := Some a\<rparr>))"

text \<open>
  The operations on users and roles. \<open>key\<close> is the first field of the entry, \<open>a\<close> the authentication
  store. Every test that fails leaves the state alone, so the fields are read before the tests.
\<close>

definition read_field :: "bytes \<Rightarrow> (bytes \<times> bytes) option" where
  "read_field data =
     (case read_varint data of
        None \<Rightarrow> None
      | Some (n, data) \<Rightarrow> if unat n > length data then None else Some (take (unat n) data, drop (unat n) data))"

definition apply_auth_user_add :: "('e, 't) lmdb \<Rightarrow> bytes \<Rightarrow> bytes \<Rightarrow> 'e rpc \<Rightarrow> bool \<times> 'e rpc" where
  "apply_auth_user_add L key hash g =
     (if hash = [] then (False, g)
        else case g_rpc_auth g of None \<Rightarrow> (False, g) | Some a \<Rightarrow>
          if length key \<ge> 128 then (False, g)
          else
            let name = cstr key in
            if cetcd_auth_has_user a name then auth_done L a g
            else case cetcd_auth_add_user_hash a name hash of (rc, a) \<Rightarrow>
              if rc \<noteq> CETCD_OK then (False, g) else auth_done L a g)"

definition apply_auth_user_delete :: "('e, 't) lmdb \<Rightarrow> bytes \<Rightarrow> 'e rpc \<Rightarrow> bool \<times> 'e rpc" where
  "apply_auth_user_delete L key g =
     (case g_rpc_auth g of None \<Rightarrow> (False, g) | Some a \<Rightarrow>
        if length key \<ge> 128 then (False, g)
        else
          let name = cstr key in
          if \<not> cetcd_auth_has_user a name then auth_done L a g
          else case cetcd_auth_remove_user a name of (rc, a) \<Rightarrow>
            if rc \<noteq> CETCD_OK then (False, g) else auth_done L a g)"

definition apply_auth_role_add :: "('e, 't) lmdb \<Rightarrow> bytes \<Rightarrow> 'e rpc \<Rightarrow> bool \<times> 'e rpc" where
  "apply_auth_role_add L key g =
     (case g_rpc_auth g of None \<Rightarrow> (False, g) | Some a \<Rightarrow>
        if length key \<ge> 128 then (False, g)
        else
          let name = cstr key in
          if cetcd_find_role a name \<noteq> None then auth_done L a g
          else case cetcd_auth_add_role a name True True (Some (bytes_of ''/'')) 1 of (rc, a) \<Rightarrow>
            if rc \<noteq> CETCD_OK then (False, g) else auth_done L a g)"

definition apply_auth_role_delete :: "('e, 't) lmdb \<Rightarrow> bytes \<Rightarrow> 'e rpc \<Rightarrow> bool \<times> 'e rpc" where
  "apply_auth_role_delete L key g =
     (case g_rpc_auth g of None \<Rightarrow> (False, g) | Some a \<Rightarrow>
        if length key \<ge> 128 then (False, g)
        else
          let name = cstr key in
          if cetcd_find_role a name = None then auth_done L a g
          else case cetcd_auth_remove_role a name of (rc, a) \<Rightarrow>
            if rc \<noteq> CETCD_OK then (False, g) else auth_done L a g)"

definition apply_auth_user_grant_role :: "('e, 't) lmdb \<Rightarrow> bytes \<Rightarrow> bytes \<Rightarrow> 'e rpc \<Rightarrow> bool \<times> 'e rpc" where
  "apply_auth_user_grant_role L key role g =
     (if role = [] then (False, g)
        else case g_rpc_auth g of None \<Rightarrow> (False, g) | Some a \<Rightarrow>
          if length key \<ge> 128 \<or> length role \<ge> 128 then (False, g)
          else case cetcd_auth_grant_role a (cstr key) (cstr role) of (rc, a) \<Rightarrow>
            if rc \<noteq> CETCD_OK then (False, g) else auth_done L a g)"

definition apply_auth_user_revoke_role :: "('e, 't) lmdb \<Rightarrow> bytes \<Rightarrow> bytes \<Rightarrow> 'e rpc \<Rightarrow> bool \<times> 'e rpc" where
  "apply_auth_user_revoke_role L key role g =
     (if role = [] then (False, g)
        else case g_rpc_auth g of None \<Rightarrow> (False, g) | Some a \<Rightarrow>
          if length key \<ge> 128 \<or> length role \<ge> 128 then (False, g)
          else case cetcd_auth_revoke_role a (cstr key) (cstr role) of (rc, a) \<Rightarrow>
            if rc \<noteq> CETCD_OK \<and> rc \<noteq> CETCD_ERR_NOTFOUND then (False, g) else auth_done L a g)"

text \<open>An optional field at the end of an entry, shorter than 256 bytes.\<close>

definition read_range_end :: "bytes \<Rightarrow> bytes option" where
  "read_range_end data =
     (if data = [] then Some []
      else case read_field data of None \<Rightarrow> None | Some (rend, _) \<Rightarrow> if length rend \<ge> 256 then None else Some rend)"

definition apply_auth_role_grant_perm :: "('e, 't) lmdb \<Rightarrow> bytes \<Rightarrow> bytes \<Rightarrow> u64 \<Rightarrow> bytes \<Rightarrow> 'e rpc \<Rightarrow> bool \<times> 'e rpc" where
  "apply_auth_role_grant_perm L key pkey ptype rend g =
     (if ptype > 2 then (False, g)
      else case g_rpc_auth g of None \<Rightarrow> (False, g) | Some a \<Rightarrow>
        if length key \<ge> 128 \<or> length pkey \<ge> 256 then (False, g)
        else
          let name = cstr key in
          if cetcd_find_role a name = None then (False, g)
          else case cetcd_auth_grant_permission_range a name (ptype = 0 \<or> ptype = 2) (ptype = 1 \<or> ptype = 2) pkey rend of (rc, a) \<Rightarrow>
            if rc \<noteq> CETCD_OK then (False, g) else auth_done L a g)"

definition apply_auth_role_revoke_perm :: "('e, 't) lmdb \<Rightarrow> bytes \<Rightarrow> bytes \<Rightarrow> bytes \<Rightarrow> 'e rpc \<Rightarrow> bool \<times> 'e rpc" where
  "apply_auth_role_revoke_perm L key pkey rend g =
     (case g_rpc_auth g of None \<Rightarrow> (False, g) | Some a \<Rightarrow>
        if length key \<ge> 128 \<or> length pkey \<ge> 256 then (False, g)
        else
          let name = cstr key in
          if cetcd_find_role a name = None then auth_done L a g
          else case cetcd_auth_revoke_permission_key_range a name pkey rend of (rc, a) \<Rightarrow>
            if rc \<noteq> CETCD_OK \<and> rc \<noteq> CETCD_ERR_NOTFOUND then (False, g) else auth_done L a g)"

definition apply_auth_user_change_pass :: "('e, 't) lmdb \<Rightarrow> bytes \<Rightarrow> bytes \<Rightarrow> 'e rpc \<Rightarrow> bool \<times> 'e rpc" where
  "apply_auth_user_change_pass L key hash g =
     (if hash = [] then (False, g)
        else case g_rpc_auth g of None \<Rightarrow> (False, g) | Some a \<Rightarrow>
          if length key \<ge> 128 then (False, g)
          else
            let name = cstr key in
            if \<not> cetcd_auth_has_user a name then auth_done L a g
            else case cetcd_auth_set_user_hash a name hash of (rc, a) \<Rightarrow>
              if rc \<noteq> CETCD_OK then (False, g) else auth_done L a g)"

definition apply_auth_enabled :: "('e, 't) lmdb \<Rightarrow> u64 \<Rightarrow> 'e rpc \<Rightarrow> bool \<times> 'e rpc" where
  "apply_auth_enabled L on g =
     (if on > 1 then (False, g)
      else case g_rpc_auth g of None \<Rightarrow> (False, g) | Some a \<Rightarrow>
        if on \<noteq> 0 \<and> \<not> cetcd_auth_has_user a ROOT then (False, g)
        else
          let a = cetcd_auth_set_enabled a (on \<noteq> 0);
              a = (if on = 0 then (case cetcd_auth_revoke_all_tokens a of None \<Rightarrow> a | Some a \<Rightarrow> a) else a)
          in auth_done L a g)"

section \<open>Applying an entry\<close>

definition apply_lease_grant :: "('e, 't) lmdb \<Rightarrow> int \<Rightarrow> u64 \<Rightarrow> u64 \<Rightarrow> 'e rpc \<Rightarrow> bool \<times> 'e rpc" where
  "apply_lease_grant L wall i ttl g =
     (if i = 0 \<or> ttl = 0 then (False, g)
      else if sint ttl > CETCD_MAX_LEASE_TTL then (False, g)
      else case g_rpc_lease_mgr g of None \<Rightarrow> (False, g) | Some m \<Rightarrow>
        if cetcd_lease_exists m i then (True, g)
        else case on_leases (\<lambda>m. cetcd_lease_grant_id L wall m i (sint ttl)) m g of (r, g) \<Rightarrow> (r \<noteq> 0, g))"

definition apply_lease_keepalive :: "('e, 't) lmdb \<Rightarrow> int \<Rightarrow> u64 \<Rightarrow> u64 \<Rightarrow> 'e rpc \<Rightarrow> bool \<times> 'e rpc" where
  "apply_lease_keepalive L wall i ttl g =
     (if i = 0 \<or> ttl = 0 then (False, g)
      else if sint ttl > CETCD_MAX_LEASE_TTL then (False, g)
      else case g_rpc_lease_mgr g of None \<Rightarrow> (False, g) | Some m \<Rightarrow>
        if \<not> cetcd_lease_exists m i then (True, g)
        else case on_leases (\<lambda>m. cetcd_lease_keep_alive L wall m i (sint ttl)) m g of (rc, g) \<Rightarrow> (rc = CETCD_OK, g))"

definition apply_alarm :: "('e, 't) lmdb \<Rightarrow> u64 \<Rightarrow> u64 \<Rightarrow> u64 \<Rightarrow> 'e rpc \<Rightarrow> bool \<times> 'e rpc" where
  "apply_alarm L action typ' member g =
     (if (action \<noteq> 1 \<and> action \<noteq> 2) \<or> (typ' \<noteq> 1 \<and> typ' \<noteq> 2) then (False, g)
      else if action = 1 then (True, cetcd_v3rpc_alarm_activate L (uint typ') member g)
      else (True, cetcd_v3rpc_alarm_deactivate L (uint typ') member g))"

definition apply_compact :: "('e, 't) lmdb \<Rightarrow> u64 \<Rightarrow> 'e rpc \<Rightarrow> bool \<times> 'e rpc" where
  "apply_compact L r g =
     (if r = 0 then (False, g)
      else case g_rpc_store g of None \<Rightarrow> (False, g) | Some s \<Rightarrow>
        case on_store (\<lambda>s. cetcd_mvcc_compact L s (sint r)) s g of (rc, g) \<Rightarrow>
          if rc = CETCD_OK then (True, cetcd_v3rpc_watch_cancel_compacted (sint r) g)
          else (rc = CETCD_ERR_RANGE \<and> ms_compacted_rev (the (g_rpc_store g)) \<ge> sint r, g))"

text \<open>One to three numbers at the front of the data.\<close>

definition read2 :: "bytes \<Rightarrow> (u64 \<times> u64) option" where
  "read2 data =
     (case read_varint data of None \<Rightarrow> None | Some (a, data) \<Rightarrow> map_option (\<lambda>x. (a, fst x)) (read_varint data))"

definition read3 :: "bytes \<Rightarrow> (u64 \<times> u64 \<times> u64) option" where
  "read3 data =
     (case read_varint data of None \<Rightarrow> None | Some (a, data) \<Rightarrow> map_option (\<lambda>x. (a, x)) (read2 data))"

definition apply_leave_joint :: "('e, 't) lmdb \<Rightarrow> 'e rpc \<Rightarrow> bool \<times> 'e rpc" where
  "apply_leave_joint L g =
     (let g = on_raft cetcd_raft_leave_joint g in
      (True, case g_rpc_cluster g of None \<Rightarrow> g | Some c \<Rightarrow> snd (on_cluster (cetcd_cluster_persist_clear_joint L) c g)))"

text \<open>The operations whose first field is a key or a name.\<close>

definition apply_keyed :: "('e, 't) lmdb \<Rightarrow> byte \<Rightarrow> bytes \<Rightarrow> 'e rpc \<Rightarrow> bool \<times> 'e rpc" where
  "apply_keyed L tag data g =
     (case read_field data of None \<Rightarrow> (False, g) | Some (key, data) \<Rightarrow>
        if key = [] then (False, g)
        else if tag = CETCD_APPLY_PUT then
          (case read_field data of None \<Rightarrow> (False, g) | Some (val, data) \<Rightarrow>
             if data = [] then apply_put L key val 0 g
             else case read_varint data of None \<Rightarrow> (False, g) | Some (lv, _) \<Rightarrow> apply_put L key val (sint lv) g)
        else if tag = CETCD_APPLY_DELETE then apply_delete_one L key g
        else if tag = CETCD_APPLY_DELETE_RANGE then
          (case read_field data of None \<Rightarrow> (False, g) | Some (rend, _) \<Rightarrow> apply_delete_range L key rend g)
        else if tag = CETCD_APPLY_AUTH_USER_ADD then
          (case read_field data of None \<Rightarrow> (False, g) | Some (hash, _) \<Rightarrow> apply_auth_user_add L key hash g)
        else if tag = CETCD_APPLY_AUTH_USER_DELETE then apply_auth_user_delete L key g
        else if tag = CETCD_APPLY_AUTH_ROLE_ADD then apply_auth_role_add L key g
        else if tag = CETCD_APPLY_AUTH_ROLE_DELETE then apply_auth_role_delete L key g
        else if tag = CETCD_APPLY_AUTH_USER_GRANT_ROLE then
          (case read_field data of None \<Rightarrow> (False, g) | Some (role, _) \<Rightarrow> apply_auth_user_grant_role L key role g)
        else if tag = CETCD_APPLY_AUTH_USER_REVOKE_ROLE then
          (case read_field data of None \<Rightarrow> (False, g) | Some (role, _) \<Rightarrow> apply_auth_user_revoke_role L key role g)
        else if tag = CETCD_APPLY_AUTH_ROLE_GRANT_PERM then
          (case read_field data of None \<Rightarrow> (False, g) | Some (pkey, data) \<Rightarrow>
           case read_varint data of None \<Rightarrow> (False, g) | Some (ptype, data) \<Rightarrow>
           case read_range_end data of None \<Rightarrow> (False, g) | Some rend \<Rightarrow> apply_auth_role_grant_perm L key pkey ptype rend g)
        else if tag = CETCD_APPLY_AUTH_ROLE_REVOKE_PERM then
          (case (if data = [] then Some ([], []) else read_field data) of None \<Rightarrow> (False, g) | Some (pkey, data) \<Rightarrow>
           case read_range_end data of None \<Rightarrow> (False, g) | Some rend \<Rightarrow> apply_auth_role_revoke_perm L key pkey rend g)
        else if tag = CETCD_APPLY_AUTH_USER_CHANGE_PASS then
          (case read_field data of None \<Rightarrow> (False, g) | Some (hash, _) \<Rightarrow> apply_auth_user_change_pass L key hash g)
        else (False, g))"

text \<open>
  An entry other than a batch. The tests of the length that precede a read of the same bytes are
  not repeated: on data that is too short the read fails in the same way, with the same result.
\<close>

definition apply_op :: "('e, 't) lmdb \<Rightarrow> int \<Rightarrow> byte \<Rightarrow> bytes \<Rightarrow> 'e rpc \<Rightarrow> bool \<times> 'e rpc" where
  "apply_op L wall tag data g =
     (if tag = CETCD_APPLY_LEAVE_JOINT then apply_leave_joint L g
      else if tag = CETCD_APPLY_LEASE_REVOKE then
        (case read_varint data of None \<Rightarrow> (False, g) | Some (i, _) \<Rightarrow> apply_lease_revoke L i g)
      else if tag = CETCD_APPLY_LEASE_GRANT then
        (case read2 data of None \<Rightarrow> (False, g) | Some (i, ttl) \<Rightarrow> apply_lease_grant L wall i ttl g)
      else if tag = CETCD_APPLY_LEASE_KEEPALIVE then
        (case read2 data of None \<Rightarrow> (False, g) | Some (i, ttl) \<Rightarrow> apply_lease_keepalive L wall i ttl g)
      else if tag = CETCD_APPLY_ALARM then
        (case read3 data of None \<Rightarrow> (False, g) | Some (action, typ', member) \<Rightarrow> apply_alarm L action typ' member g)
      else if tag = CETCD_APPLY_COMPACT then
        (case read_varint data of None \<Rightarrow> (False, g) | Some (r, _) \<Rightarrow> apply_compact L r g)
      else if tag = CETCD_APPLY_AUTH_ENABLED then
        (case read_varint data of None \<Rightarrow> (False, g) | Some (on, _) \<Rightarrow> apply_auth_enabled L on g)
      else if tag = CETCD_APPLY_MEMBER_ADD \<or> tag = CETCD_APPLY_MEMBER_REMOVE \<or>
              tag = CETCD_APPLY_MEMBER_PROMOTE \<or> tag = CETCD_APPLY_MEMBER_UPDATE then
        apply_member L tag data g
      else apply_keyed L tag data g)"

text \<open>The loop over a batch, which stops at the first operation that fails.\<close>

fun apply_batch :: "('e, 't) lmdb \<Rightarrow> int \<Rightarrow> nat \<Rightarrow> bytes \<Rightarrow> 'e rpc \<Rightarrow> bool \<times> 'e rpc" where
  "apply_batch L wall 0 data g = (True, g)"
| "apply_batch L wall (Suc n) data g =
     (case read_field data of None \<Rightarrow> (False, g) | Some (entry, data) \<Rightarrow>
        case entry of
          [] \<Rightarrow> (False, g)
        | tag # args \<Rightarrow>
            if tag = CETCD_APPLY_BATCH then (False, g)
            else case apply_op L wall tag args g of (ok, g) \<Rightarrow>
              if \<not> ok then (False, g) else apply_batch L wall n data g)"

fun cetcd_v3rpc_apply_entry :: "('e, 't) lmdb \<Rightarrow> int \<Rightarrow> bytes \<Rightarrow> 'e rpc \<Rightarrow> bool \<times> 'e rpc" where
  "cetcd_v3rpc_apply_entry L wall [] g = (False, g)"
| "cetcd_v3rpc_apply_entry L wall (tag # data) g =
     (if tag = CETCD_APPLY_BATCH then
        case read_varint data of None \<Rightarrow> (False, g) | Some (n, data) \<Rightarrow>
          if n = 0 \<or> n > 128 then (False, g) else apply_batch L wall (unat n) data g
      else apply_op L wall tag data g)"

section \<open>Proposing\<close>

text \<open>
  \<open>flush\<close> is the callback the server registers, which persists and applies what Raft hands out;
  \<open>db_size\<close> is the size LMDB reports. The result is 0, 1 or -1 as in the code.
\<close>

definition propose_checked ::
  "('e, 't) lmdb \<Rightarrow> int \<Rightarrow> ('e rpc \<Rightarrow> 'e rpc) option \<Rightarrow> bytes \<Rightarrow> 'e rpc \<Rightarrow> int \<times> 'e rpc" where
  "propose_checked L wall flush data g =
     (case g_rpc_raft g of
        None \<Rightarrow> (case cetcd_v3rpc_apply_entry L wall data g of (ok, g) \<Rightarrow> (if ok then 1 else -1, g))
      | Some r \<Rightarrow>
          if r_role r \<noteq> ROLE_LEADER then (-1, g)
          else case cetcd_raft_propose r data of (rc, r) \<Rightarrow>
            let g = g\<lparr>g_rpc_raft := Some r\<rparr> in
            if rc \<noteq> 0 then (-1, g)
            else
              let g = (case flush of None \<Rightarrow> g | Some f \<Rightarrow> f g) in
              case g_rpc_raft g of
                None \<Rightarrow> (0, g)
              | Some r \<Rightarrow> if r_applied r < r_log_last_index r then (-1, g) else (0, g))"

definition cetcd_v3rpc_propose_or_apply ::
  "('e, 't) lmdb \<Rightarrow> ('e \<Rightarrow> u64) \<Rightarrow> int \<Rightarrow> ('e rpc \<Rightarrow> 'e rpc) option \<Rightarrow> bytes \<Rightarrow> 'e rpc \<Rightarrow> int \<times> 'e rpc" where
  "cetcd_v3rpc_propose_or_apply L db_size wall flush data g =
     (if data = [] then (-1, g)
      else if hd data = CETCD_APPLY_PUT \<and> g_rpc_quota_bytes g \<noteq> 0 \<and> g_rpc_auth_backend g \<and>
              db_size (g_be g) \<ge> g_rpc_quota_bytes g then
        let mid = (if g_rpc_node_id g \<noteq> 0 then g_rpc_node_id g else 1) in
        case cetcd_apply_encode_alarm 1 1 mid of
          None \<Rightarrow> (-1, g)
        | Some ae \<Rightarrow> (-1, snd (propose_checked L wall flush ae g))
      else propose_checked L wall flush data g)"

text \<open>Deletions in batches of at most 128 keys.\<close>

fun encode_deletes :: "bytes list \<Rightarrow> bytes list option" where
  "encode_deletes [] = Some []"
| "encode_deletes (k # ks) =
     (case cetcd_apply_encode_delete k of None \<Rightarrow> None | Some x \<Rightarrow> map_option (\<lambda>xs. x # xs) (encode_deletes ks))"

function cetcd_v3rpc_propose_deletes ::
  "('e, 't) lmdb \<Rightarrow> ('e \<Rightarrow> u64) \<Rightarrow> int \<Rightarrow> ('e rpc \<Rightarrow> 'e rpc) option \<Rightarrow> bytes list \<Rightarrow> 'e rpc \<Rightarrow> bool \<times> 'e rpc" where
  "cetcd_v3rpc_propose_deletes L db_size wall flush keys g =
     (if keys = [] then (True, g)
      else case encode_deletes (take 128 keys) of None \<Rightarrow> (False, g) | Some ops \<Rightarrow>
        case cetcd_apply_encode_batch ops of None \<Rightarrow> (False, g) | Some batch \<Rightarrow>
        case cetcd_v3rpc_propose_or_apply L db_size wall flush batch g of (rc, g) \<Rightarrow>
          if rc < 0 then (False, g) else cetcd_v3rpc_propose_deletes L db_size wall flush (drop 128 keys) g)"
  by pat_completeness auto
termination
  by (relation "measure (\<lambda>(L, d, w, f, keys, g). length keys)") auto

declare cetcd_v3rpc_propose_deletes.simps [simp del]

end
