(* ===== verification/Apply_Props.thy ===== *)
theory Apply_Props
  imports Apply
begin

text \<open>
  What a node does with committed entries: the encoders and the interpreter agree, batches are
  sequences, and the index from leases to keys stays in step with the store.
\<close>

section \<open>Encoding and applying\<close>

lemma read_field_append:
  "length a < 2 ^ 64 \<Longrightarrow> read_field (varint (of_nat (length a) :: u64) @ a @ rest) = Some (a, rest)"
  by (simp add: read_field_def codec_simps unat_of_nat take_bit_nat_eq_self)

lemma varint_nonempty [simp]: "varint v \<noteq> []" "length (varint v) > 0"
  by (subst varint.simps, simp add: Let_def)+

lemma sint_word_of_int: "- (2 ^ 63) \<le> i \<Longrightarrow> i < 2 ^ 63 \<Longrightarrow> sint (word_of_int i :: u64) = i"
  by (simp add: sint_sbintrunc' signed_take_bit_int_eq_self)

text \<open>A batch, applied one operation after the other up to the first failure.\<close>

fun apply_seq :: "('e, 't) lmdb \<Rightarrow> int \<Rightarrow> bytes list \<Rightarrow> 'e rpc \<Rightarrow> bool \<times> 'e rpc" where
  "apply_seq L wall [] g = (True, g)"
| "apply_seq L wall (x # xs) g =
     (case cetcd_v3rpc_apply_entry L wall x g of (ok, g) \<Rightarrow> if \<not> ok then (False, g) else apply_seq L wall xs g)"

definition plain_op :: "bytes \<Rightarrow> bool" where
  "plain_op x \<longleftrightarrow> x \<noteq> [] \<and> hd x \<noteq> CETCD_APPLY_BATCH \<and> length x < 2 ^ 64"

lemma apply_batch_seq:
  "\<forall>x \<in> set xs. plain_op x \<Longrightarrow>
     apply_batch L wall (length xs) (concat (map (\<lambda>x. varint (of_nat (length x) :: u64) @ x) xs)) g = apply_seq L wall xs g"
proof (induction xs arbitrary: g)
  case (Cons x xs)
  then obtain t d where x: "x = t # d" "t \<noteq> CETCD_APPLY_BATCH" "length x < 2 ^ 64"
    by (cases x) (auto simp: plain_op_def)
  note r = read_field_append [OF x(3), of "concat (map (\<lambda>x. varint (of_nat (length x) :: u64) @ x) xs)"]
  show ?case using Cons r x(1,2) by (simp add: case_prod_beta)
qed simp

text \<open>The operations, how the handlers encode them and what they stand for.\<close>

datatype op =
    Put bytes bytes int
  | Delete bytes
  | DeleteRange bytes bytes
  | MemberAdd u64 bool bytes u16
  | MemberRemove u64
  | MemberPromote u64
  | MemberUpdate u64 bytes u16
  | LeaseRevoke u64
  | Compact int
  | LeaseGrant u64 int
  | LeaseKeepalive u64 int
  | UserAdd bytes bytes
  | AuthEnabled int
  | UserDelete bytes
  | RoleAdd bytes
  | RoleDelete bytes
  | UserGrantRole bytes bytes
  | UserRevokeRole bytes bytes
  | RoleGrantPerm bytes bytes int bytes
  | RoleRevokePerm bytes bytes bytes
  | UserChangePass bytes bytes
  | Alarm int int u64

fun encode_op :: "op \<Rightarrow> bytes option" where
  "encode_op (Put k v l) = cetcd_apply_encode_put k v l"
| "encode_op (Delete k) = cetcd_apply_encode_delete k"
| "encode_op (DeleteRange k e) = cetcd_apply_encode_delete_range k e"
| "encode_op (MemberAdd i l a p) = cetcd_apply_encode_member_add i l a p"
| "encode_op (MemberRemove i) = cetcd_apply_encode_member_remove i"
| "encode_op (MemberPromote i) = cetcd_apply_encode_member_promote i"
| "encode_op (MemberUpdate i a p) = cetcd_apply_encode_member_update i a p"
| "encode_op (LeaseRevoke i) = cetcd_apply_encode_lease_revoke i"
| "encode_op (Compact r) = cetcd_apply_encode_compact r"
| "encode_op (LeaseGrant i t) = cetcd_apply_encode_lease_grant i t"
| "encode_op (LeaseKeepalive i t) = cetcd_apply_encode_lease_keepalive i t"
| "encode_op (UserAdd n h) = cetcd_apply_encode_auth_user_add n h"
| "encode_op (AuthEnabled e) = cetcd_apply_encode_auth_enabled e"
| "encode_op (UserDelete n) = cetcd_apply_encode_auth_user_delete n"
| "encode_op (RoleAdd n) = cetcd_apply_encode_auth_role_add n"
| "encode_op (RoleDelete n) = cetcd_apply_encode_auth_role_delete n"
| "encode_op (UserGrantRole u r) = cetcd_apply_encode_auth_user_grant_role u r"
| "encode_op (UserRevokeRole u r) = cetcd_apply_encode_auth_user_revoke_role u r"
| "encode_op (RoleGrantPerm r k t e) = cetcd_apply_encode_auth_role_grant_perm_range r k t e"
| "encode_op (RoleRevokePerm r k e) = cetcd_apply_encode_auth_role_revoke_perm_range r k e"
| "encode_op (UserChangePass n h) = cetcd_apply_encode_auth_user_change_pass n h"
| "encode_op (Alarm a t m) = cetcd_apply_encode_alarm a t m"

fun run_op :: "('e, 't) lmdb \<Rightarrow> int \<Rightarrow> op \<Rightarrow> 'e rpc \<Rightarrow> bool \<times> 'e rpc" where
  "run_op L wall (Put k v l) g = apply_put L k v l g"
| "run_op L wall (Delete k) g = apply_delete_one L k g"
| "run_op L wall (DeleteRange k e) g = apply_delete_range L k e g"
| "run_op L wall (MemberAdd i l a p) g = apply_member_add L \<lparr>pi_id = i, pi_addr = a, pi_port = p, pi_is_learner = l\<rparr> g"
| "run_op L wall (MemberRemove i) g = apply_member_remove L i g"
| "run_op L wall (MemberPromote i) g = apply_member_promote L i g"
| "run_op L wall (MemberUpdate i a p) g = apply_member_update L \<lparr>pi_id = i, pi_addr = a, pi_port = p, pi_is_learner = False\<rparr> g"
| "run_op L wall (LeaseRevoke i) g = apply_lease_revoke L i g"
| "run_op L wall (Compact r) g = apply_compact L (word_of_int r) g"
| "run_op L wall (LeaseGrant i t) g = apply_lease_grant L wall i (word_of_int t) g"
| "run_op L wall (LeaseKeepalive i t) g = apply_lease_keepalive L wall i (word_of_int t) g"
| "run_op L wall (UserAdd n h) g = apply_auth_user_add L n h g"
| "run_op L wall (AuthEnabled e) g = apply_auth_enabled L (word_of_int e) g"
| "run_op L wall (UserDelete n) g = apply_auth_user_delete L n g"
| "run_op L wall (RoleAdd n) g = apply_auth_role_add L n g"
| "run_op L wall (RoleDelete n) g = apply_auth_role_delete L n g"
| "run_op L wall (UserGrantRole u r) g = apply_auth_user_grant_role L u r g"
| "run_op L wall (UserRevokeRole u r) g = apply_auth_user_revoke_role L u r g"
| "run_op L wall (RoleGrantPerm r k t e) g = apply_auth_role_grant_perm L r k (word_of_int t) e g"
| "run_op L wall (RoleRevokePerm r k e) g = apply_auth_role_revoke_perm L r k e g"
| "run_op L wall (UserChangePass n h) g = apply_auth_user_change_pass L n h g"
| "run_op L wall (Alarm a t m) g = apply_alarm L (word_of_int a) (word_of_int t) m g"

fun run_ops :: "('e, 't) lmdb \<Rightarrow> int \<Rightarrow> op list \<Rightarrow> 'e rpc \<Rightarrow> bool \<times> 'e rpc" where
  "run_ops L wall [] g = (True, g)"
| "run_ops L wall (x # xs) g = (case run_op L wall x g of (ok, g) \<Rightarrow> if \<not> ok then (False, g) else run_ops L wall xs g)"

text \<open>
  The sizes the format can carry: lengths of 64 bits, leases of a signed 64-bit integer, addresses
  that are C strings of at most 255 bytes, range ends of at most 255 bytes.
\<close>

fun op_fits :: "op \<Rightarrow> bool" where
  "op_fits (Put k v l) \<longleftrightarrow> length k < 2 ^ 64 \<and> length v < 2 ^ 64 \<and> - (2 ^ 63) \<le> l \<and> l < 2 ^ 63"
| "op_fits (Delete k) \<longleftrightarrow> length k < 2 ^ 64"
| "op_fits (DeleteRange k e) \<longleftrightarrow> length k < 2 ^ 64 \<and> length e < 2 ^ 64"
| "op_fits (MemberAdd i l a p) \<longleftrightarrow> length a < 256 \<and> 0 \<notin> set a"
| "op_fits (MemberUpdate i a p) \<longleftrightarrow> length a < 256 \<and> 0 \<notin> set a"
| "op_fits (UserAdd n h) \<longleftrightarrow> length n < 2 ^ 64 \<and> length h < 2 ^ 64"
| "op_fits (UserDelete n) \<longleftrightarrow> length n < 2 ^ 64"
| "op_fits (RoleAdd n) \<longleftrightarrow> length n < 2 ^ 64"
| "op_fits (RoleDelete n) \<longleftrightarrow> length n < 2 ^ 64"
| "op_fits (UserGrantRole u r) \<longleftrightarrow> length u < 2 ^ 64 \<and> length r < 2 ^ 64"
| "op_fits (UserRevokeRole u r) \<longleftrightarrow> length u < 2 ^ 64 \<and> length r < 2 ^ 64"
| "op_fits (RoleGrantPerm r k t e) \<longleftrightarrow> length r < 2 ^ 64 \<and> length k < 2 ^ 64 \<and> length e < 256"
| "op_fits (RoleRevokePerm r k e) \<longleftrightarrow> length r < 2 ^ 64 \<and> length k < 2 ^ 64 \<and> length e < 256"
| "op_fits (UserChangePass n h) \<longleftrightarrow> length n < 2 ^ 64 \<and> length h < 2 ^ 64"
| "op_fits _ \<longleftrightarrow> True"

lemma read_varint_exact: "read_varint (varint w) = Some (w, [])"
  using read_varint_varint [of w "[]"] by simp

lemma read_field_exact: "length a < 2 ^ 64 \<Longrightarrow> read_field (varint (of_nat (length a) :: u64) @ a) = Some (a, [])"
  using read_field_append [of a "[]"] by simp

lemmas read_simps = read_field_append read_field_exact read_varint_varint read_varint_exact

lemma cstr_plain: "0 \<notin> set a \<Longrightarrow> cstr a = a"
  by (auto simp: cstr_def takeWhile_eq_all_conv)

lemmas encode_defs = cetcd_apply_encode_put_def cetcd_apply_encode_delete_def cetcd_apply_encode_delete_range_def
  cetcd_apply_encode_member_add_def cetcd_apply_encode_member_remove_def cetcd_apply_encode_member_promote_def
  cetcd_apply_encode_member_update_def cetcd_apply_encode_lease_revoke_def cetcd_apply_encode_compact_def
  cetcd_apply_encode_lease_grant_def cetcd_apply_encode_lease_keepalive_def cetcd_apply_encode_auth_user_add_def
  cetcd_apply_encode_auth_enabled_def cetcd_apply_encode_auth_user_delete_def cetcd_apply_encode_auth_role_add_def
  cetcd_apply_encode_auth_role_delete_def cetcd_apply_encode_auth_user_grant_role_def
  cetcd_apply_encode_auth_user_revoke_role_def cetcd_apply_encode_auth_role_grant_perm_range_def
  cetcd_apply_encode_auth_role_revoke_perm_range_def cetcd_apply_encode_auth_user_change_pass_def
  cetcd_apply_encode_alarm_def encode_tagged_def

lemmas entry_simps = apply_op_def apply_keyed_def read2_def read3_def read_range_end_def tag_defs read_simps

lemma apply_put_entry:
  "encode_op (Put k v l) = Some data \<Longrightarrow> op_fits (Put k v l) \<Longrightarrow> cetcd_v3rpc_apply_entry L wall data g = run_op L wall (Put k v l) g"
  using sint_word_of_int [of l] by (auto simp: encode_defs entry_simps split: if_splits)

lemma member_entry:
  assumes "i \<noteq> 0" and "length a < 256" and "0 \<notin> set a"
  shows "cetcd_v3rpc_apply_entry L wall ([CETCD_APPLY_MEMBER_UPDATE] @ varint i @ varint (of_nat (length a) :: u64) @ a @ varint (ucast p :: u64)) g =
      run_op L wall (MemberUpdate i a p) g"
    and "cetcd_v3rpc_apply_entry L wall ([CETCD_APPLY_MEMBER_ADD] @ varint i @ varint (of_bool l :: u64) @ varint (of_nat (length a) :: u64) @ a @ varint (ucast p :: u64)) g =
      run_op L wall (MemberAdd i l a p) g"
    and "cetcd_v3rpc_apply_entry L wall ([CETCD_APPLY_MEMBER_REMOVE] @ varint i) g = run_op L wall (MemberRemove i) g"
    and "cetcd_v3rpc_apply_entry L wall ([CETCD_APPLY_MEMBER_PROMOTE] @ varint i) g = run_op L wall (MemberPromote i) g"
proof -
  have a: "unat (of_nat (length a) :: u64) = length a" using assms(2) by (simp add: unat_of_nat take_bit_nat_eq_self)
  have p: "ucast (ucast p :: u64) = p" by (rule bit_word_eqI) (auto simp: bit_simps)
  note defs = apply_op_def apply_member_def tag_defs read_simps a p cstr_plain
  show "cetcd_v3rpc_apply_entry L wall ([CETCD_APPLY_MEMBER_UPDATE] @ varint i @ varint (of_nat (length a) :: u64) @ a @ varint (ucast p :: u64)) g =
      run_op L wall (MemberUpdate i a p) g"
    using assms by (simp add: defs) (simp add: apply_member_update_def)
  show "cetcd_v3rpc_apply_entry L wall ([CETCD_APPLY_MEMBER_ADD] @ varint i @ varint (of_bool l :: u64) @ varint (of_nat (length a) :: u64) @ a @ varint (ucast p :: u64)) g =
      run_op L wall (MemberAdd i l a p) g"
    using assms by (simp add: defs) (simp add: apply_member_add_def)
  show "cetcd_v3rpc_apply_entry L wall ([CETCD_APPLY_MEMBER_REMOVE] @ varint i) g = run_op L wall (MemberRemove i) g"
    using assms by (simp add: defs) (simp add: apply_member_remove_def)
  show "cetcd_v3rpc_apply_entry L wall ([CETCD_APPLY_MEMBER_PROMOTE] @ varint i) g = run_op L wall (MemberPromote i) g"
    using assms by (simp add: defs) (simp add: apply_member_promote_def)
qed

lemma apply_op_entry:
  "encode_op x = Some data \<Longrightarrow> op_fits x \<Longrightarrow> cetcd_v3rpc_apply_entry L wall data g = run_op L wall x g"
proof (cases x)
  case (Put k v l)
  assume "encode_op x = Some data" "op_fits x"
  then show ?thesis unfolding Put by (rule apply_put_entry)
next
  case (MemberAdd i l a p)
  assume "encode_op x = Some data" "op_fits x"
  then show ?thesis using member_entry(2) [of i a L wall l p g] unfolding MemberAdd by (auto simp: encode_defs split: if_splits simp del: cetcd_v3rpc_apply_entry.simps)
next
  case (MemberUpdate i a p)
  assume "encode_op x = Some data" "op_fits x"
  then show ?thesis using member_entry(1) [of i a L wall p g] unfolding MemberUpdate by (auto simp: encode_defs split: if_splits simp del: cetcd_v3rpc_apply_entry.simps)
next
  case (MemberRemove i)
  assume "encode_op x = Some data"
  then show ?thesis using member_entry(3) [of i "[]" L wall g] unfolding MemberRemove by (auto simp: encode_defs split: if_splits simp del: cetcd_v3rpc_apply_entry.simps)
next
  case (MemberPromote i)
  assume "encode_op x = Some data"
  then show ?thesis using member_entry(4) [of i "[]" L wall g] unfolding MemberPromote by (auto simp: encode_defs split: if_splits simp del: cetcd_v3rpc_apply_entry.simps)
qed (auto simp: encode_defs entry_simps Let_def split: if_splits)

lemma encoded_plain:
  assumes "encode_op x = Some data"
  shows "data \<noteq> [] \<and> hd data \<noteq> CETCD_APPLY_BATCH"
  using assms by (cases x) (auto simp: encode_defs tag_defs Let_def split: if_splits)

lemma apply_seq_run_ops:
  "list_all2 (\<lambda>x d. encode_op x = Some d) xs ds \<Longrightarrow> \<forall>x \<in> set xs. op_fits x \<Longrightarrow> apply_seq L wall ds g = run_ops L wall xs g"
  by (induction xs ds arbitrary: g rule: list_all2_induct) (simp_all add: apply_op_entry case_prod_beta)

text \<open>
  C35. What the handlers encode is what the nodes execute. For every operation, and for every batch of
  up to 128 of them, applying the encoded entry does exactly what the operations do one after the
  other, stopping at the first that fails.
\<close>

theorem apply_encoded_batch:
  assumes "list_all2 (\<lambda>x d. encode_op x = Some d) xs ds" and "\<forall>x \<in> set xs. op_fits x" and "\<forall>d \<in> set ds. length d < 2 ^ 64"
    and "cetcd_apply_encode_batch ds = Some data"
  shows "cetcd_v3rpc_apply_entry L wall data g = run_ops L wall xs g"
proof (cases "length ds = 1")
  case True
  then obtain d where d: "ds = [d]" by (auto simp: length_Suc_conv)
  then obtain x where x: "xs = [x]" "encode_op x = Some d" using assms(1) by (auto simp: list_all2_Cons2)
  have "data = d" using assms(4) by (simp add: cetcd_apply_encode_batch_def d)
  then show ?thesis using apply_op_entry [OF x(2), of L wall g] assms(2) by (simp add: x(1) case_prod_beta prod_eq_iff)
next
  case False
  have n: "0 < length ds" "length ds \<le> 128" using assms(4) by (auto simp: cetcd_apply_encode_batch_def split: if_splits)
  have d: "data = CETCD_APPLY_BATCH # varint (of_nat (length ds) :: u64) @ concat (map (\<lambda>x. varint (of_nat (length x) :: u64) @ x) ds)"
    using assms(4) False n by (auto simp: cetcd_apply_encode_batch_def split: if_splits)
  have un: "unat (of_nat (length ds) :: u64) = length ds" using n(2) by (simp add: unat_of_nat take_bit_nat_eq_self)
  have pos: "(of_nat (length ds) :: u64) \<noteq> 0" "\<not> (of_nat (length ds) :: u64) > 128"
    using n un by (auto simp: word_less_nat_alt dest: arg_cong [where f = unat])
  have "\<forall>y \<in> set ds. plain_op y"
    using assms(1,3) encoded_plain by (fastforce simp: plain_op_def list_all2_conv_all_nth in_set_conv_nth)
  from apply_batch_seq [OF this, of L wall g]
  have "cetcd_v3rpc_apply_entry L wall data g = apply_seq L wall ds g"
    using pos un by (simp add: d read_simps)
  then show ?thesis using apply_seq_run_ops [OF assms(1,2)] by simp
qed

lemma encoded_samples:
  "encode_op (Put [1] [2] 7) = Some [1, 1, 1, 1, 2, 7]" "encode_op (Delete [1]) = Some [2, 1, 1, 0]"
  "cetcd_apply_encode_batch [[1, 1, 1, 1, 2, 7], [2, 1, 1, 0]] = Some [3, 2, 6, 1, 1, 1, 1, 2, 7, 4, 2, 1, 1, 0]"
  by code_simp+

theorem apply_encoded_batch_witness:
  "\<forall>g. cetcd_v3rpc_apply_entry mem_lmdb 0 [3, 2, 6, 1, 1, 1, 1, 2, 7, 4, 2, 1, 1, 0] g =
     run_ops mem_lmdb 0 [Put [1] [2] 7, Delete [1]] g"
  using encoded_samples
  by (intro allI apply_encoded_batch [where ds = "[[1, 1, 1, 1, 2, 7], [2, 1, 1, 0]]"]) (auto simp: list_all2_Cons1)

end
