(* ===== verification/Lease_Props.thy ===== *)
theory Lease_Props
  imports Lease
begin

text \<open>
  What the lease manager guarantees: identifiers stay unique, a lease that is not renewed
  expires exactly when its time is over, leases survive a restart with the time they have
  left, and the case of a lease that never expires.
\<close>

section \<open>Operations on the array of leases\<close>

lemma write_le64_inject [simp]: "write_le64 x = write_le64 y \<longleftrightarrow> x = y"
  by (metis read_write_le64_exact)

lemma write_le64_next [simp]: "write_le64 x \<noteq> LEASE_KEY_NEXT" "LEASE_KEY_NEXT \<noteq> write_le64 x"
proof -
  have "length LEASE_KEY_NEXT = 4" by code_simp
  then show "write_le64 x \<noteq> LEASE_KEY_NEXT" "LEASE_KEY_NEXT \<noteq> write_le64 x"
    by (metis length_write_le64 num.simps numeral_eq_iff)+
qed

lemma remove_lease_filter:
  "distinct (map l_id ls) \<Longrightarrow> remove_lease i ls = filter (\<lambda>l. l_id l \<noteq> i) ls"
  by (induction ls) (auto intro!: filter_True [symmetric] simp: image_iff)

lemma update_lease_ids [simp]:
  "(\<And>l. l_id l = i \<Longrightarrow> l_id (f l) = i) \<Longrightarrow> map l_id (update_lease i f ls) = map l_id ls"
  by (induction ls) auto

lemma update_lease_find:
  "(\<And>l. l_id l = i \<Longrightarrow> l_id (f l) = i) \<Longrightarrow>
     find (\<lambda>l. l_id l = j) (update_lease i f ls) =
       (if i = j then map_option f (find (\<lambda>l. l_id l = j) ls) else find (\<lambda>l. l_id l = j) ls)"
  by (induction ls) auto

lemma lease_by_id_Some: "lease_by_id m i = Some l \<Longrightarrow> l \<in> set (lm_leases m) \<and> l_id l = i"
  unfolding lease_by_id_def by (auto simp: find_Some_iff)

lemma lease_by_id_None: "lease_by_id m i = None \<longleftrightarrow> i \<notin> l_id ` set (lm_leases m)"
  by (auto simp: lease_by_id_def find_None_iff)

lemma tick_loop_step:
  assumes "tick_loop L on now (l # ls) be = (ls', be', calls)"
  obtains (later) ls1 where "now < l_deadline_ms l" "tick_loop L on now ls be = (ls1, be', calls)" "ls' = l # ls1"
  | (stuck) b rc b' ls1 where "l_deadline_ms l \<le> now" "be = Some b" "lease_persist_del L b (l_id l) = (rc, b')" "rc \<noteq> CETCD_OK"
      "tick_loop L on now ls (Some b') = (ls1, be', calls)" "ls' = l # ls1"
  | (expired) be1 calls1 where "l_deadline_ms l \<le> now" "tick_loop L on now ls be1 = (ls', be', calls1)"
      "calls = (if on then (l_id l, l_keys l) # calls1 else calls1)"
      "be = None \<and> be1 = None \<or> (\<exists>b b'. be = Some b \<and> be1 = Some b' \<and> lease_persist_del L b (l_id l) = (CETCD_OK, b'))"
proof (cases "l_deadline_ms l \<le> now")
  case False
  then show ?thesis using assms later by (auto split: prod.splits)
next
  case due: True
  show ?thesis
  proof (cases be)
    case None
    obtain ls1 b1 c1 where r: "tick_loop L on now ls None = (ls1, b1, c1)" by (rule prod_cases3)
    then show ?thesis using assms due None by (intro expired [of None c1]) auto
  next
    case (Some b)
    obtain rc b' where d: "lease_persist_del L b (l_id l) = (rc, b')" by fastforce
    obtain ls1 b1 c1 where r: "tick_loop L on now ls (Some b') = (ls1, b1, c1)" by (rule prod_cases3)
    show ?thesis
    proof (cases "rc = CETCD_OK")
      case True
      then show ?thesis using assms due Some d r by (intro expired [of "Some b'" c1]) auto
    next
      case False
      then show ?thesis using assms due Some d r by (intro stuck [of b rc b' ls1]) auto
    qed
  qed
qed

lemma tick_loop_subset:
  assumes "tick_loop L on now ls be = (ls', be', calls)"
  shows "set ls' \<subseteq> set ls \<and> (distinct (map l_id ls) \<longrightarrow> distinct (map l_id ls'))"
  using assms
proof (induction ls arbitrary: be ls' be' calls)
  case (Cons l ls)
  from Cons.prems show ?case
  proof (cases rule: tick_loop_step)
    case (later ls1)
    from Cons.IH [OF later(2)] later(3) show ?thesis by auto
  next
    case (stuck b rc b' ls1)
    from Cons.IH [OF stuck(5)] stuck(6) show ?thesis by auto
  next
    case (expired be1 calls1)
    from Cons.IH [OF expired(2)] show ?thesis by auto
  qed
qed simp

text \<open>
  A manager with a backend has a record for each of its leases, and the deletion of a record that is stored
  succeeds; a manager without a backend needs neither.
\<close>

definition deletes_ok :: "('e, 't) lmdb \<Rightarrow> ('e \<Rightarrow> view) \<Rightarrow> bool" where
  "deletes_ok L v \<longleftrightarrow> (\<forall>be k. v be LEASE_BUCKET k \<noteq> None \<longrightarrow> fst (cetcd_backend_del L be LEASE_BUCKET k) = CETCD_OK)"

definition store_ok :: "('e, 't) lmdb \<Rightarrow> ('e \<Rightarrow> view) \<Rightarrow> ('t \<Rightarrow> view) \<Rightarrow> 'e option \<Rightarrow> bool" where
  "store_ok L v w be \<longleftrightarrow> be = None \<or> lmdb_laws L v w \<and> deletes_ok L v"

definition has_records :: "('e \<Rightarrow> view) \<Rightarrow> 'e option \<Rightarrow> cetcd_lease list \<Rightarrow> bool" where
  "has_records v be ls \<longleftrightarrow> (\<forall>b. be = Some b \<longrightarrow> (\<forall>l \<in> set ls. v b LEASE_BUCKET (write_le64 (l_id l)) \<noteq> None))"

lemma has_records_ids:
  "has_records v be ls \<longleftrightarrow> (\<forall>b. be = Some b \<longrightarrow> (\<forall>i \<in> l_id ` set ls. v b LEASE_BUCKET (write_le64 i) \<noteq> None))"
  by (simp add: has_records_def)

lemma mem_deletes_ok: "deletes_ok mem_lmdb mem_view"
  by (auto simp: deletes_ok_def cetcd_backend_del_def cetcd_txn_begin_def get_dbi_def cetcd_txn_commit_def lmdb_error_def
      mem_lmdb_def mem_view_def split: option.splits)

lemma persist_del_records:
  assumes "lmdb_laws L v w" and "deletes_ok L v" and "v b LEASE_BUCKET (write_le64 i) \<noteq> None"
    and "lease_persist_del L b i = (rc, b')"
  shows "rc = CETCD_OK \<and> (\<forall>j. j \<noteq> i \<longrightarrow> v b' LEASE_BUCKET (write_le64 j) = v b LEASE_BUCKET (write_le64 j))"
proof -
  obtain r where r: "cetcd_backend_del L b LEASE_BUCKET (write_le64 i) = (r, b')" "rc = (if r = CETCD_ERR_NOTFOUND then CETCD_OK else r)"
    using assms(4) by (auto simp: lease_persist_del_def split: prod.splits)
  have "r = CETCD_OK" using assms(2,3) r(1) by (fastforce simp: deletes_ok_def)
  then show ?thesis using lmdb_laws.backend_del [OF assms(1) r(1)] r(2) by auto
qed

lemma persist_put_records:
  assumes "lmdb_laws L v w" and "lease_persist_put L wall b l now nx = (rc, b')"
  shows "(v b LEASE_BUCKET (write_le64 j) \<noteq> None \<longrightarrow> v b' LEASE_BUCKET (write_le64 j) \<noteq> None) \<and>
    (rc = CETCD_OK \<longrightarrow> v b' LEASE_BUCKET (write_le64 (l_id l)) \<noteq> None)"
  using lmdb_laws.backend_put2 [OF assms(1) assms(2) [unfolded lease_persist_put_def Let_def]] by auto

text \<open>Then the loop drops exactly the leases that are due.\<close>

lemma tick_loop_due:
  assumes "store_ok L v w be" and "has_records v be ls" and "distinct (map l_id ls)"
    and "tick_loop L on now ls be = (ls', be', calls)"
  shows "ls' = filter (\<lambda>l. now < l_deadline_ms l) ls \<and>
    calls = (if on then map (\<lambda>l. (l_id l, l_keys l)) (filter (\<lambda>l. l_deadline_ms l \<le> now) ls) else []) \<and>
    (be' = None \<longleftrightarrow> be = None) \<and>
    (\<forall>b b' j. be = Some b \<longrightarrow> be' = Some b' \<longrightarrow> (\<forall>l \<in> set ls. l_id l = j \<longrightarrow> now < l_deadline_ms l) \<longrightarrow>
      v b' LEASE_BUCKET (write_le64 j) = v b LEASE_BUCKET (write_le64 j))"
  using assms
proof (induction ls arbitrary: be ls' be' calls)
  case (Cons l ls)
  from Cons.prems(4) show ?case
  proof (cases rule: tick_loop_step)
    case (later ls1)
    have "has_records v be ls" using Cons.prems(2) by (auto simp: has_records_def)
    from Cons.IH [OF Cons.prems(1) this _ later(2)] Cons.prems(3) later show ?thesis by auto
  next
    case (stuck b rc b' ls1)
    then show ?thesis
      using persist_del_records [of L v w b "l_id l" rc b'] Cons.prems(1,2) by (auto simp: store_ok_def has_records_def)
  next
    case (expired be1 calls1)
    from expired(4) show ?thesis
    proof
      assume n: "be = None \<and> be1 = None"
      then have "has_records v be1 ls" "store_ok L v w be1" by (auto simp: has_records_def store_ok_def)
      from Cons.IH [OF this(2,1) _ expired(2)] Cons.prems(3) expired(1,3) n show ?thesis by auto
    next
      assume "\<exists>b b'. be = Some b \<and> be1 = Some b' \<and> lease_persist_del L b (l_id l) = (CETCD_OK, b')"
      then obtain b b' where b: "be = Some b" "be1 = Some b'" "lease_persist_del L b (l_id l) = (CETCD_OK, b')" by blast
      have law: "lmdb_laws L v w" "deletes_ok L v" using Cons.prems(1) b(1) by (auto simp: store_ok_def)
      have rest: "\<forall>j. j \<noteq> l_id l \<longrightarrow> v b' LEASE_BUCKET (write_le64 j) = v b LEASE_BUCKET (write_le64 j)"
        using persist_del_records [OF law _ b(3)] Cons.prems(2) b(1) by (auto simp: has_records_def)
      have "has_records v be1 ls" "store_ok L v w be1"
        using Cons.prems(2,3) rest law b by (auto simp: has_records_def store_ok_def image_iff)
      from Cons.IH [OF this(2,1) _ expired(2)] Cons.prems(3) expired(1,3) rest b show ?thesis by auto
    qed
  qed
qed simp

section \<open>Identifiers\<close>

datatype lease_op =
    LGrant int
  | LGrantId u64 int
  | LRevoke u64
  | LKeepAlive u64 int
  | LAttach u64 bytes
  | LDetach u64 bytes
  | LTick int

fun lease_apply :: "('e, 't) lmdb \<Rightarrow> int \<Rightarrow> lease_op \<Rightarrow> 'e cetcd_lease_mgr \<Rightarrow> 'e cetcd_lease_mgr" where
  "lease_apply L wall (LGrant ttl) m = snd (cetcd_lease_grant L wall m ttl)"
| "lease_apply L wall (LGrantId i ttl) m = snd (cetcd_lease_grant_id L wall m i ttl)"
| "lease_apply L wall (LRevoke i) m = snd (cetcd_lease_revoke L m i)"
| "lease_apply L wall (LKeepAlive i ttl) m = snd (cetcd_lease_keep_alive L wall m i ttl)"
| "lease_apply L wall (LAttach i k) m = snd (cetcd_lease_attach_key m i k)"
| "lease_apply L wall (LDetach i k) m = snd (cetcd_lease_detach_key m i k)"
| "lease_apply L wall (LTick ms) m = cetcd_lease_mgr_tick L m ms"

fun op_id_ok :: "lease_op \<Rightarrow> bool" where
  "op_id_ok (LGrantId i ttl) = (i < 2 ^ 63)"
| "op_id_ok _ = True"

text \<open>Identifiers are unique, not zero and below the next one, which is at most \<open>2 ^ 63 + n\<close>.\<close>

definition ids_ok :: "nat \<Rightarrow> 'e cetcd_lease_mgr \<Rightarrow> bool" where
  "ids_ok n m \<longleftrightarrow> distinct (map l_id (lm_leases m)) \<and>
     (\<forall>l \<in> set (lm_leases m). 0 < l_id l \<and> l_id l < lm_next_id m) \<and>
     0 < lm_next_id m \<and> unat (lm_next_id m) \<le> 2 ^ 63 + n"

lemma ids_ok_shrink:
  assumes "ids_ok n m" and "lm_next_id m' = lm_next_id m"
    and "l_id ` set (lm_leases m') \<subseteq> l_id ` set (lm_leases m)" and "distinct (map l_id (lm_leases m'))"
  shows "ids_ok (Suc n) m' \<and> lm_next_id m \<le> lm_next_id m'"
  using assms unfolding ids_ok_def by fastforce

lemma grant_persist_ids:
  assumes "grant_persist L wall m l = (r, m')" and "lm_leases m = ls @ [l]" and "l_id l \<notin> l_id ` set ls"
  shows "lm_next_id m' = lm_next_id m \<and> (lm_leases m' = ls @ [l] \<or> lm_leases m' = ls) \<and> lm_now_ms m' = lm_now_ms m"
proof -
  have "remove_lease (l_id l) (ls @ [l]) = ls"
    using assms(3) by (induction ls) auto
  moreover have "lease_by_id (m\<lparr>lm_backend := b\<rparr>) (l_id l) \<noteq> None" for b
    using assms(2) by (auto simp: lease_by_id_None)
  ultimately show ?thesis
    using assms(1,2) by (auto simp: grant_persist_def revoke_mem_def Let_def split: option.splits prod.splits if_splits)
qed

lemma next_id_Suc:
  assumes "unat (x :: u64) \<le> 2 ^ 63 + n" and "n < 2 ^ 62"
  shows "unat (x + 1) = unat x + 1" and "x < x + 1" and "0 < x + 1"
proof -
  have "unat x + 1 < 2 ^ 64" using assms by simp
  then show u: "unat (x + 1) = unat x + 1" by (simp add: unat_word_ariths)
  show "x < x + 1" "0 < x + 1" by (simp_all add: word_less_nat_alt u)
qed

lemma ids_ok_add:
  assumes "ids_ok n m" and "n < 2 ^ 62" and "l_id l = i" and "0 < i" and "i \<notin> l_id ` set (lm_leases m)"
    and "i < 2 ^ 63 \<or> i = lm_next_id m"
    and m': "lm_leases m' = lm_leases m @ [l] \<or> lm_leases m' = lm_leases m"
      "lm_next_id m' = (if lm_next_id m \<le> i then i + 1 else lm_next_id m)"
  shows "ids_ok (Suc n) m' \<and> lm_next_id m \<le> lm_next_id m'"
proof -
  have nx: "unat (lm_next_id m) \<le> 2 ^ 63 + n" using assms(1) by (simp add: ids_ok_def)
  have "i < 2 ^ 63 \<Longrightarrow> unat i < 2 ^ 63" by (simp add: word_less_nat_alt)
  then have "unat i \<le> 2 ^ 63 + n" using assms(6) nx by auto
  note suc = next_id_Suc [OF this assms(2)]
  have "i < lm_next_id m' \<and> lm_next_id m \<le> lm_next_id m' \<and> 0 < lm_next_id m' \<and> unat (lm_next_id m') \<le> 2 ^ 63 + Suc n"
  proof (cases "lm_next_id m \<le> i")
    case True
    then show ?thesis using suc m'(2) \<open>unat i \<le> 2 ^ 63 + n\<close> by auto
  next
    case False
    then show ?thesis using m'(2) nx assms(1) by (auto simp: ids_ok_def)
  qed
  then show ?thesis
    using assms(1,3,4,5) m'(1) unfolding ids_ok_def by (auto simp: image_iff dest: order_less_le_trans)
qed

lemma lease_apply_ids:
  assumes "ids_ok n m" and "n < 2 ^ 62" and "op_id_ok op"
  shows "ids_ok (Suc n) (lease_apply L wall op m) \<and> lm_next_id m \<le> lm_next_id (lease_apply L wall op m)"
proof -
  have same: "ids_ok (Suc n) m" using assms(1) by (auto simp: ids_ok_def)
  have dist: "distinct (map l_id (lm_leases m))" using assms(1) by (simp add: ids_ok_def)
  have upd: "ids_ok (Suc n) m' \<and> lm_next_id m \<le> lm_next_id m'" if "map l_id (lm_leases m') = map l_id (lm_leases m)" "lm_next_id m' = lm_next_id m" for m' :: "'a cetcd_lease_mgr"
    by (rule ids_ok_shrink [OF assms(1) that(2)]) (use that dist in \<open>simp_all flip: set_map\<close>)
  have rev: "ids_ok (Suc n) (snd (revoke_mem m' i)) \<and> lm_next_id m \<le> lm_next_id (snd (revoke_mem m' i))" if "lm_leases m' = lm_leases m" "lm_next_id m' = lm_next_id m" for m' :: "'a cetcd_lease_mgr" and i
    by (rule ids_ok_shrink [OF assms(1)])
      (use that dist in \<open>auto simp: revoke_mem_def remove_lease_filter distinct_map_filter\<close>)
  show ?thesis
  proof (cases op)
    case (LGrant ttl)
    let ?l = "\<lparr>l_id = lm_next_id m, l_ttl_seconds = ttl, l_deadline_ms = lm_now_ms m + ttl * 1000, l_keys = []\<rparr>"
    have nid: "lm_next_id m \<notin> l_id ` set (lm_leases m)" "0 < lm_next_id m" using assms(1) by (auto simp: ids_ok_def)
    let ?m = "m\<lparr>lm_next_id := lm_next_id m + 1, lm_leases := lm_leases m @ [?l]\<rparr>"
    obtain r m' where g: "grant_persist L wall ?m ?l = (r, m')" by fastforce
    have "ids_ok (Suc n) m' \<and> lm_next_id m \<le> lm_next_id m'"
      by (rule ids_ok_add [OF assms(1,2), of ?l]) (use grant_persist_ids [OF g, of "lm_leases m"] nid in auto)
    then show ?thesis using LGrant same g by (simp add: cetcd_lease_grant_def Let_def)
  next
    case (LGrantId i ttl)
    let ?l = "\<lparr>l_id = i, l_ttl_seconds = ttl, l_deadline_ms = lm_now_ms m + ttl * 1000, l_keys = []\<rparr>"
    let ?m = "(if lm_next_id m \<le> i then m\<lparr>lm_leases := lm_leases m @ [?l], lm_next_id := i + 1\<rparr> else m\<lparr>lm_leases := lm_leases m @ [?l]\<rparr>)"
    obtain r m' where g: "grant_persist L wall ?m ?l = (r, m')" by fastforce
    have "ids_ok (Suc n) m' \<and> lm_next_id m \<le> lm_next_id m'" if "i \<noteq> 0" "\<not> cetcd_lease_exists m i"
      by (rule ids_ok_add [OF assms(1,2), of ?l i])
        (use that grant_persist_ids [OF g, of "lm_leases m"] assms(3) LGrantId in
          \<open>auto simp: cetcd_lease_exists_def lease_by_id_None word_gt_0 split: if_splits\<close>)
    then show ?thesis using LGrantId same g by (simp add: cetcd_lease_grant_id_def Let_def)
  next
    case (LRevoke i)
    have "ids_ok (Suc n) (m\<lparr>lm_backend := b\<rparr>)" for b using same by (simp add: ids_ok_def)
    then show ?thesis using LRevoke same rev
      by (auto simp: cetcd_lease_revoke_def Let_def split: option.split prod.split)
  next
    case (LKeepAlive i ttl)
    then show ?thesis using same
      by (auto simp: cetcd_lease_keep_alive_def Let_def lease_by_id_Some intro!: upd [THEN conjunct1] split: option.split prod.split)
  next
    case (LAttach i k)
    then show ?thesis using same by (auto simp: cetcd_lease_attach_key_def intro!: upd [THEN conjunct1] split: option.split)
  next
    case (LDetach i k)
    then show ?thesis using same by (auto simp: cetcd_lease_detach_key_def intro!: upd [THEN conjunct1] split: option.split)
  next
    case (LTick ms)
    obtain ls be calls where r: "tick_loop L (lm_on_expire m) (lm_now_ms m + ms) (lm_leases m) (lm_backend m) = (ls, be, calls)"
      by (rule prod_cases3)
    let ?m = "m\<lparr>lm_now_ms := lm_now_ms m + ms, lm_leases := ls, lm_backend := be, lm_expired := lm_expired m @ calls\<rparr>"
    have "ids_ok (Suc n) ?m \<and> lm_next_id m \<le> lm_next_id ?m"
      by (rule ids_ok_shrink [OF assms(1)]) (use tick_loop_subset [OF r] dist in auto)
    then show ?thesis using LTick same r by (simp add: cetcd_lease_mgr_tick_def Let_def)
  qed
qed

lemma lease_run_ids:
  assumes "ids_ok n m" and "n + length ops \<le> 2 ^ 62" and "\<forall>op \<in> set ops. op_id_ok op"
  shows "ids_ok (n + length ops) (fold (lease_apply L wall) ops m)"
  using assms
proof (induction ops arbitrary: n m)
  case (Cons op ops)
  have "ids_ok (Suc n) (lease_apply L wall op m)"
    using lease_apply_ids [OF Cons.prems(1), of op L wall] Cons.prems by simp
  from Cons.IH [OF this] Cons.prems show ?case by simp
qed simp

lemma new_ids: "ids_ok 0 (cetcd_lease_mgr_new on_expire)"
  by (simp add: ids_ok_def cetcd_lease_mgr_new_def)

text \<open>
  C27. Lease identifiers are unique: after any sequence of fewer than \<open>2 ^ 62\<close> operations on a
  new manager, with or without a backend, whose failures are arbitrary, no two leases have the
  same identifier, none is zero, and the identifier the next grant will hand out is not in use.
  Identifiers chosen by clients are below \<open>2 ^ 63\<close>, which the RPC layer enforces.
\<close>

theorem lease_ids_unique:
  assumes "\<forall>op \<in> set ops. op_id_ok op" and "length ops < 2 ^ 62"
  shows "let m = fold (lease_apply L wall) ops (cetcd_lease_mgr_set_backend (cetcd_lease_mgr_new on_expire) be)
    in distinct (map l_id (lm_leases m)) \<and> 0 \<notin> l_id ` set (lm_leases m) \<and>
       lm_next_id m \<noteq> 0 \<and> \<not> cetcd_lease_exists m (lm_next_id m)"
proof -
  let ?m = "cetcd_lease_mgr_set_backend (cetcd_lease_mgr_new on_expire) be"
  have "ids_ok 0 ?m" using new_ids [of on_expire] by (simp add: ids_ok_def cetcd_lease_mgr_set_backend_def)
  from lease_run_ids [OF this, of ops L wall] assms
  have "ids_ok (length ops) (fold (lease_apply L wall) ops ?m)" by simp
  then show ?thesis
    unfolding Let_def ids_ok_def by (auto simp: cetcd_lease_exists_def lease_by_id_None)
qed

theorem lease_ids_unique_witness:
  "let m = fold (lease_apply mem_lmdb 0) [LGrant 5, LGrantId 9 5, LTick 1000, LGrant 5]
         (cetcd_lease_mgr_set_backend (cetcd_lease_mgr_new True) (Some (Map.empty :: mem_env)))
   in distinct (map l_id (lm_leases m)) \<and> 0 \<notin> l_id ` set (lm_leases m) \<and>
      lm_next_id m \<noteq> 0 \<and> \<not> cetcd_lease_exists m (lm_next_id m)"
  by (rule lease_ids_unique) simp_all

section \<open>Expiry\<close>

fun untouched :: "u64 \<Rightarrow> lease_op \<Rightarrow> bool" where
  "untouched i (LGrantId j ttl) = (j \<noteq> i)"
| "untouched i (LRevoke j) = (j \<noteq> i)"
| "untouched i (LKeepAlive j ttl) = (j \<noteq> i)"
| "untouched i _ = True"

fun op_elapsed :: "lease_op \<Rightarrow> int" where
  "op_elapsed (LTick ms) = max 0 ms"
| "op_elapsed _ = 0"

lemma op_elapsed_nonneg [simp]: "0 \<le> op_elapsed op"
  by (cases op) auto

definition expiry_calls :: "u64 \<Rightarrow> 'e cetcd_lease_mgr \<Rightarrow> nat" where
  "expiry_calls i m = length (filter (\<lambda>c. fst c = i) (lm_expired m))"

text \<open>Everything but the leases, the identifiers, the keys and the database.\<close>

definition clock_same :: "'e cetcd_lease_mgr \<Rightarrow> 'e cetcd_lease_mgr \<Rightarrow> bool" where
  "clock_same m m' \<longleftrightarrow> lm_now_ms m' = lm_now_ms m \<and> lm_on_expire m' = lm_on_expire m \<and>
     lm_expired m' = lm_expired m"

lemma remove_lease_find:
  "i \<noteq> j \<Longrightarrow> find (\<lambda>l. l_id l = j) (remove_lease i ls) = find (\<lambda>l. l_id l = j) ls"
  by (induction ls) auto

lemma find_append: "find P (xs @ ys) = (case find P xs of None \<Rightarrow> find P ys | Some x \<Rightarrow> Some x)"
  by (induction xs) auto

lemma find_absent: "\<forall>x \<in> set ls. i \<noteq> l_id x \<Longrightarrow> find (\<lambda>l. l_id l = i) ls = None"
  by (auto simp: find_None_iff)

lemma find_filter_id:
  "distinct (map l_id ls) \<Longrightarrow>
     find (\<lambda>l. l_id l = i) (filter P ls) =
       (case find (\<lambda>l. l_id l = i) ls of None \<Rightarrow> None | Some l \<Rightarrow> if P l then Some l else None)"
  by (induction ls) (auto simp: find_absent image_iff)

lemma count_due:
  "distinct (map l_id ls) \<Longrightarrow>
     length (filter (\<lambda>l. P l \<and> l_id l = i) ls) =
       (case find (\<lambda>l. l_id l = i) ls of None \<Rightarrow> 0 | Some l \<Rightarrow> if P l then 1 else 0)"
  by (induction ls) (auto simp: find_absent image_iff)

lemma untimed_step:
  assumes "untouched i op" and "\<forall>ms. op \<noteq> LTick ms" and "i < lm_next_id m"
  shows "clock_same m (lease_apply L wall op m) \<and>
    map_option l_deadline_ms (lease_by_id (lease_apply L wall op m) i) = map_option l_deadline_ms (lease_by_id m i)"
proof (cases op)
  case (LGrant ttl)
  then show ?thesis using assms
    by (auto simp: cetcd_lease_grant_def grant_persist_def clock_same_def lease_by_id_def find_append remove_lease_find
        revoke_mem_def Let_def split: option.split prod.split)
next
  case (LGrantId j ttl)
  then show ?thesis using assms
    by (auto simp: cetcd_lease_grant_id_def grant_persist_def clock_same_def lease_by_id_def find_append remove_lease_find
        revoke_mem_def Let_def split: option.split prod.split)
next
  case (LRevoke j)
  then show ?thesis using assms
    by (auto simp: cetcd_lease_revoke_def revoke_mem_def clock_same_def lease_by_id_def remove_lease_find Let_def split: option.split prod.split)
next
  case (LKeepAlive j ttl)
  have "j \<noteq> i" using assms LKeepAlive by simp
  then show ?thesis using LKeepAlive
    by (auto simp: cetcd_lease_keep_alive_def clock_same_def lease_by_id_def Let_def update_lease_find find_Some_iff split: option.split prod.split)
next
  case (LAttach j k)
  then show ?thesis
    by (auto simp: cetcd_lease_attach_key_def clock_same_def lease_by_id_def update_lease_find split: option.split)
next
  case (LDetach j k)
  then show ?thesis
    by (auto simp: cetcd_lease_detach_key_def clock_same_def lease_by_id_def update_lease_find split: option.split)
qed (use assms in simp)

lemma timed_step:
  assumes "store_ok L v w (lm_backend m)" and "has_records v (lm_backend m) (lm_leases m)"
    and "distinct (map l_id (lm_leases m))" and "lease_apply L wall (LTick ms) m = m'"
  shows "lm_on_expire m' = lm_on_expire m \<and> lm_now_ms m' = lm_now_ms m + max 0 ms \<and>
    lease_by_id m' i = (case lease_by_id m i of None \<Rightarrow> None
      | Some l \<Rightarrow> if ms \<le> 0 \<or> lm_now_ms m + ms < l_deadline_ms l then Some l else None) \<and>
    expiry_calls i m' = expiry_calls i m + (case lease_by_id m i of None \<Rightarrow> 0
      | Some l \<Rightarrow> if 0 < ms \<and> l_deadline_ms l \<le> lm_now_ms m + ms \<and> lm_on_expire m then 1 else 0)"
proof (cases "ms \<le> 0")
  case True
  then show ?thesis using assms(4) by (auto simp: cetcd_lease_mgr_tick_def split: option.split)
next
  case False
  obtain ls be calls where r: "tick_loop L (lm_on_expire m) (lm_now_ms m + ms) (lm_leases m) (lm_backend m) = (ls, be, calls)"
    by (rule prod_cases3)
  note due = tick_loop_due [OF assms(1-3) r]
  have m': "m' = m\<lparr>lm_now_ms := lm_now_ms m + ms,
      lm_leases := filter (\<lambda>l. lm_now_ms m + ms < l_deadline_ms l) (lm_leases m), lm_backend := be,
      lm_expired := lm_expired m @ (if lm_on_expire m then
        map (\<lambda>l. (l_id l, l_keys l)) (filter (\<lambda>l. l_deadline_ms l \<le> lm_now_ms m + ms) (lm_leases m)) else [])\<rparr>"
    using assms(4) False r due by (simp add: cetcd_lease_mgr_tick_def Let_def)
  show ?thesis
    unfolding m' using False assms(3) count_due [OF assms(3), of "\<lambda>l. l_deadline_ms l \<le> lm_now_ms m + ms" i]
    by (auto simp: lease_by_id_def expiry_calls_def find_filter_id filter_map o_def split: option.splits)
qed

text \<open>Every operation keeps a record for each lease.\<close>

lemma grant_persist_records:
  assumes "store_ok L v w (lm_backend m)" and "has_records v (lm_backend m) ls"
    and "lm_leases m = ls @ [l]" and "l_id l \<notin> l_id ` set ls" and "grant_persist L wall m l = (r, m')"
  shows "store_ok L v w (lm_backend m') \<and> has_records v (lm_backend m') (lm_leases m')"
proof (cases "lm_backend m")
  case None
  then show ?thesis using assms(5) by (auto simp: grant_persist_def store_ok_def has_records_def)
next
  case (Some b)
  have law: "lmdb_laws L v w" "deletes_ok L v" using assms(1) Some by (auto simp: store_ok_def)
  obtain rc b' where p: "lease_persist_put L wall b l (lm_now_ms m) (lm_next_id m) = (rc, b')" by fastforce
  have rl: "remove_lease (l_id l) (ls @ [l]) = ls" using assms(4) by (induction ls) auto
  have "lease_by_id (m\<lparr>lm_backend := Some b'\<rparr>) (l_id l) \<noteq> None" using assms(3) by (auto simp: lease_by_id_None)
  then show ?thesis
    using assms(2,3,5) Some p rl law persist_put_records [OF law(1) p]
    by (auto simp: grant_persist_def store_ok_def has_records_def revoke_mem_def Let_def split: if_splits)
qed

lemma lease_apply_records:
  assumes "store_ok L v w (lm_backend m)" and "has_records v (lm_backend m) (lm_leases m)" and "ids_ok n m"
  shows "store_ok L v w (lm_backend (lease_apply L wall op m)) \<and>
    has_records v (lm_backend (lease_apply L wall op m)) (lm_leases (lease_apply L wall op m))"
proof -
  have dist: "distinct (map l_id (lm_leases m))" using assms(3) by (simp add: ids_ok_def)
  have upd: "has_records v be ls'" if "has_records v be ls" "map l_id ls' = map l_id ls" for be ls ls'
  proof -
    have "l_id ` set ls' = l_id ` set ls" using that(2) by (metis set_map)
    then show ?thesis using that(1) by (simp add: has_records_ids)
  qed
  show ?thesis
  proof (cases op)
    case (LGrant ttl)
    let ?l = "\<lparr>l_id = lm_next_id m, l_ttl_seconds = ttl, l_deadline_ms = lm_now_ms m + ttl * 1000, l_keys = []\<rparr>"
    let ?m = "m\<lparr>lm_next_id := lm_next_id m + 1, lm_leases := lm_leases m @ [?l]\<rparr>"
    obtain r m' where g: "grant_persist L wall ?m ?l = (r, m')" by fastforce
    have "lm_next_id m \<notin> l_id ` set (lm_leases m)" using assms(3) by (auto simp: ids_ok_def)
    with grant_persist_records [OF _ _ _ _ g, of v w "lm_leases m"] assms(1,2)
    have "store_ok L v w (lm_backend m') \<and> has_records v (lm_backend m') (lm_leases m')" by simp
    then show ?thesis using LGrant g assms(1,2) by (simp add: cetcd_lease_grant_def Let_def)
  next
    case (LGrantId i ttl)
    let ?l = "\<lparr>l_id = i, l_ttl_seconds = ttl, l_deadline_ms = lm_now_ms m + ttl * 1000, l_keys = []\<rparr>"
    let ?m = "(if lm_next_id m \<le> i then m\<lparr>lm_leases := lm_leases m @ [?l], lm_next_id := i + 1\<rparr> else m\<lparr>lm_leases := lm_leases m @ [?l]\<rparr>)"
    obtain r m' where g: "grant_persist L wall ?m ?l = (r, m')" by fastforce
    have "store_ok L v w (lm_backend m') \<and> has_records v (lm_backend m') (lm_leases m')" if "\<not> cetcd_lease_exists m i"
      using grant_persist_records [OF _ _ _ _ g, of v w "lm_leases m"] assms(1,2) that
      by (simp add: cetcd_lease_exists_def lease_by_id_None)
    then show ?thesis using LGrantId g assms(1,2) by (simp add: cetcd_lease_grant_id_def Let_def)
  next
    case (LRevoke i)
    show ?thesis
    proof (cases "lm_backend m")
      case None
      then show ?thesis using LRevoke by (auto simp: cetcd_lease_revoke_def revoke_mem_def store_ok_def has_records_def)
    next
      case (Some b)
      have law: "lmdb_laws L v w" "deletes_ok L v" using assms(1) Some by (auto simp: store_ok_def)
      obtain rc b' where d: "lease_persist_del L b i = (rc, b')" by fastforce
      have "rc = CETCD_OK \<and> (\<forall>j. j \<noteq> i \<longrightarrow> v b' LEASE_BUCKET (write_le64 j) = v b LEASE_BUCKET (write_le64 j))" if "cetcd_lease_exists m i"
        by (rule persist_del_records [OF law _ d])
          (use that assms(2) Some lease_by_id_Some in \<open>fastforce simp: cetcd_lease_exists_def has_records_def\<close>)
      then show ?thesis
        using LRevoke Some d law assms(1,2) dist
        by (auto simp: cetcd_lease_revoke_def revoke_mem_def store_ok_def has_records_def remove_lease_filter Let_def
            cetcd_lease_exists_def lease_by_id_def)
    qed
  next
    case (LKeepAlive i ttl)
    show ?thesis
    proof (cases "lease_by_id m i")
      case None
      then show ?thesis using LKeepAlive assms(1,2) by (simp add: cetcd_lease_keep_alive_def)
    next
      case l: (Some l)
      define l' where "l' = l\<lparr>l_ttl_seconds := ttl, l_deadline_ms := lm_now_ms m + ttl * 1000\<rparr>"
      have "map l_id (update_lease i (\<lambda>_. l') (lm_leases m)) = map l_id (lm_leases m)"
        using lease_by_id_Some [OF l] by (simp add: l'_def)
      note u = upd [OF _ this]
      show ?thesis
      proof (cases "lm_backend m")
        case None
        then show ?thesis using LKeepAlive l by (simp add: cetcd_lease_keep_alive_def store_ok_def has_records_def)
      next
        case (Some b)
        have law: "lmdb_laws L v w" "deletes_ok L v" using assms(1) Some by (auto simp: store_ok_def)
        obtain rc b' where p: "lease_persist_put L wall b l' (lm_now_ms m) (lm_next_id m) = (rc, b')" by fastforce
        have "has_records v (Some b') (lm_leases m)"
          using assms(2) Some persist_put_records [OF law(1) p] by (auto simp: has_records_def)
        then show ?thesis
          using LKeepAlive l Some p law u by (simp add: cetcd_lease_keep_alive_def store_ok_def l'_def [symmetric] Let_def)
      qed
    qed
  next
    case (LAttach i k)
    then show ?thesis using assms(1,2)
      by (auto simp: cetcd_lease_attach_key_def intro: upd split: option.split)
  next
    case (LDetach i k)
    then show ?thesis using assms(1,2)
      by (auto simp: cetcd_lease_detach_key_def intro: upd split: option.split)
  next
    case (LTick ms)
    obtain ls be calls where r: "tick_loop L (lm_on_expire m) (lm_now_ms m + ms) (lm_leases m) (lm_backend m) = (ls, be, calls)"
      by (rule prod_cases3)
    note due = tick_loop_due [OF assms(1,2) dist r]
    have "has_records v be ls"
      unfolding has_records_def
    proof (intro allI impI ballI)
      fix b l
      assume b: "be = Some b" and l: "l \<in> set ls"
      then obtain b0 where b0: "lm_backend m = Some b0" using due by blast
      have "\<forall>l' \<in> set (lm_leases m). l_id l' = l_id l \<longrightarrow> lm_now_ms m + ms < l_deadline_ms l'"
        using l due dist by (auto simp: distinct_map dest: inj_onD)
      then have "v b LEASE_BUCKET (write_le64 (l_id l)) = v b0 LEASE_BUCKET (write_le64 (l_id l))" using due b b0 by blast
      then show "v b LEASE_BUCKET (write_le64 (l_id l)) \<noteq> None"
        using assms(2) b0 l due by (simp add: has_records_def)
    qed
    moreover have "store_ok L v w be" using assms(1) due by (auto simp: store_ok_def)
    ultimately show ?thesis using LTick assms(1,2) r by (simp add: cetcd_lease_mgr_tick_def Let_def)
  qed
qed

lemma lease_run_records:
  assumes "ids_ok n m" and "n + length ops \<le> 2 ^ 62" and "\<forall>op \<in> set ops. op_id_ok op"
    and "store_ok L v w (lm_backend m)" and "has_records v (lm_backend m) (lm_leases m)"
    and "m' = fold (lease_apply L wall) ops m"
  shows "store_ok L v w (lm_backend m') \<and> has_records v (lm_backend m') (lm_leases m')"
  using assms
proof (induction ops arbitrary: n m)
  case (Cons op ops)
  have "ids_ok (Suc n) (lease_apply L wall op m)"
    using lease_apply_ids [OF Cons.prems(1), of op L wall] Cons.prems by simp
  from Cons.IH [OF this] lease_apply_records [OF Cons.prems(4,5,1), of wall op] Cons.prems show ?case by simp
qed simp

lemma lease_run_expiry:
  assumes "ids_ok n m" and "n + length ops \<le> 2 ^ 62" and "\<forall>op \<in> set ops. op_id_ok op \<and> untouched i op"
    and "store_ok L v w (lm_backend m)" and "has_records v (lm_backend m) (lm_leases m)" and "i < lm_next_id m"
    and "\<And>l. lease_by_id m i = Some l \<Longrightarrow> lm_now_ms m < l_deadline_ms l"
    and "m' = fold (lease_apply L wall) ops m"
  shows "lm_now_ms m' = lm_now_ms m + sum_list (map op_elapsed ops) \<and>
    (case lease_by_id m i of
       None \<Rightarrow> lease_by_id m' i = None \<and> expiry_calls i m' = expiry_calls i m
     | Some l \<Rightarrow> if lm_now_ms m' < l_deadline_ms l
         then lease_by_id m' i \<noteq> None \<and> expiry_calls i m' = expiry_calls i m
         else lease_by_id m' i = None \<and> expiry_calls i m' = expiry_calls i m + (if lm_on_expire m then 1 else 0))"
  using assms
proof (induction ops arbitrary: n m)
  case Nil
  then show ?case by (auto split: option.split)
next
  case (Cons op ops)
  let ?m = "lease_apply L wall op m"
  have ids: "ids_ok (Suc n) ?m" and nx: "lm_next_id m \<le> lm_next_id ?m"
    using lease_apply_ids [OF Cons.prems(1), of op L wall] Cons.prems by simp_all
  have rec: "store_ok L v w (lm_backend ?m)" "has_records v (lm_backend ?m) (lm_leases ?m)"
    using lease_apply_records [OF Cons.prems(4,5,1), of wall op] by simp_all
  have dist: "distinct (map l_id (lm_leases m))" using Cons.prems(1) by (simp add: ids_ok_def)
  have el: "0 \<le> sum_list (map op_elapsed ops)" by (rule sum_list_nonneg) auto
  note IH = Cons.IH [OF ids _ _ rec]
  show ?case
  proof (cases "\<exists>ms. op = LTick ms")
    case True
    then obtain ms where op: "op = LTick ms" by blast
    note st = timed_step [OF Cons.prems(4,5) dist, of wall ms ?m i, folded op, OF refl]
    show ?thesis
      using IH st Cons.prems nx el by (auto simp: op split: option.splits if_splits)
  next
    case False
    then have "op_elapsed op = 0" by (cases op) auto
    note st = this untimed_step [of i op m L wall]
    show ?thesis
      using IH st Cons.prems nx False by (auto simp: clock_same_def expiry_calls_def split: option.splits if_splits)
  qed
qed

text \<open>
  C26. A lease expires exactly when its time is over. Take a lease that has time left in a
  manager, without a backend or with an LMDB backend in which deleting a stored record succeeds, whatever else
  fails there, and any further operations that do not revoke it, renew it or
  grant its identifier again. Afterwards it exists if and only if the time that passed is less
  than what it had left, and its expiry was reported exactly once if it is gone, provided
  there is a callback, and never otherwise.
\<close>

theorem lease_expiry:
  assumes "m = fold (lease_apply L wall) past (cetcd_lease_mgr_set_backend (cetcd_lease_mgr_new on_expire) be)"
    and "be = None \<or> lmdb_laws L env_view txn_view \<and> deletes_ok L env_view"
    and "lease_by_id m i = Some l" and "lm_now_ms m < l_deadline_ms l"
    and "\<forall>op \<in> set (past @ ops). op_id_ok op" and "\<forall>op \<in> set ops. untouched i op"
    and "length (past @ ops) < 2 ^ 62" and "m' = fold (lease_apply L wall) ops m"
    and "passed = sum_list (map op_elapsed ops)"
  shows "(cetcd_lease_exists m' i \<longleftrightarrow> lm_now_ms m + passed < l_deadline_ms l) \<and>
    expiry_calls i m' = expiry_calls i m + (if cetcd_lease_exists m' i \<or> \<not> lm_on_expire m then 0 else 1)"
proof -
  let ?m = "cetcd_lease_mgr_set_backend (cetcd_lease_mgr_new on_expire) be"
  have ids0: "ids_ok 0 ?m" using new_ids [of on_expire] by (simp add: ids_ok_def cetcd_lease_mgr_set_backend_def)
  have "store_ok L env_view txn_view (lm_backend ?m)" "has_records env_view (lm_backend ?m) (lm_leases ?m)"
    using assms(2) by (auto simp: store_ok_def has_records_def cetcd_lease_mgr_set_backend_def cetcd_lease_mgr_new_def)
  from lease_run_records [OF ids0 _ _ this assms(1)] assms(5,7)
  have rec: "store_ok L env_view txn_view (lm_backend m)" "has_records env_view (lm_backend m) (lm_leases m)" by simp_all
  have ids: "ids_ok (length past) m"
    using lease_run_ids [OF ids0, of past L wall] assms(1,5,7) by simp
  have "i < lm_next_id m" using ids lease_by_id_Some [OF assms(3)] by (auto simp: ids_ok_def)
  then have "lm_now_ms m' = lm_now_ms m + passed \<and>
    (if lm_now_ms m' < l_deadline_ms l
     then lease_by_id m' i \<noteq> None \<and> expiry_calls i m' = expiry_calls i m
     else lease_by_id m' i = None \<and> expiry_calls i m' = expiry_calls i m + (if lm_on_expire m then 1 else 0))"
    using lease_run_expiry [OF ids _ _ rec, of ops i m' wall] assms(3-) by (auto split: if_splits)
  then show ?thesis by (auto simp: cetcd_lease_exists_def split: if_splits)
qed

theorem lease_expiry_witness:
  "let m = fold (lease_apply mem_lmdb 0) [LGrant 5, LTick 1000]
         (cetcd_lease_mgr_set_backend (cetcd_lease_mgr_new True) (Some (Map.empty :: mem_env)));
       m' = fold (lease_apply mem_lmdb 0) [LGrant 9, LTick 3999, LTick 1] m
   in \<not> cetcd_lease_exists m' 1 \<and> expiry_calls 1 m' = 1"
proof -
  define m where "m = fold (lease_apply mem_lmdb 0) [LGrant 5, LTick 1000]
    (cetcd_lease_mgr_set_backend (cetcd_lease_mgr_new True) (Some (Map.empty :: mem_env)))"
  have eval: "map_option l_deadline_ms (lease_by_id m 1) = Some 5000" "lm_now_ms m = 1000" "expiry_calls 1 m = 0" "lm_on_expire m"
    unfolding m_def by code_simp+
  then obtain l where l: "lease_by_id m 1 = Some l" "l_deadline_ms l = 5000" by auto
  show ?thesis
    using lease_expiry [OF m_def _ l(1), of mem_view mem_view "[LGrant 9, LTick 3999, LTick 1]", OF _ _ _ _ _ refl refl]
      eval l(2) ml.lmdb_laws_axioms mem_deletes_ok
    unfolding Let_def m_def [symmetric] by simp
qed

section \<open>A lease without a record\<close>

context lmdb_laws
begin

lemma persist_del_missing:
  assumes "env_view e LEASE_BUCKET (write_le64 i) = None" and "lease_persist_del L e j = (rc, e')"
  shows "env_view e' LEASE_BUCKET (write_le64 i) = None" and "i = j \<Longrightarrow> rc \<noteq> CETCD_OK"
proof -
  obtain r where d: "cetcd_backend_del L e LEASE_BUCKET (write_le64 j) = (r, e')"
    "rc = (if r = CETCD_ERR_NOTFOUND then CETCD_OK else r)"
    using assms(2) by (auto simp: lease_persist_del_def split: prod.splits)
  have "r \<in> {CETCD_OK, CETCD_ERR_IO}"
    using d(1) by (auto simp: cetcd_backend_del_def lmdb_error_def split: option.splits prod.splits if_splits)
  with d backend_del_missing [of e LEASE_BUCKET "write_le64 j"] assms(1)
  show "i = j \<Longrightarrow> rc \<noteq> CETCD_OK" by auto
  show "env_view e' LEASE_BUCKET (write_le64 i) = None"
    using backend_del [OF d(1)] assms(1) by auto
qed

lemma tick_loop_missing_view:
  assumes "env_view b LEASE_BUCKET (write_le64 i) = None" and "tick_loop L on now ls (Some b) = (ls', be', calls)"
  shows "\<exists>b'. be' = Some b' \<and> env_view b' LEASE_BUCKET (write_le64 i) = None"
  using assms
proof (induction ls arbitrary: b ls' calls)
  case (Cons l ls)
  from Cons.prems(2) show ?case
    by (cases rule: tick_loop_step) (use Cons.IH Cons.prems(1) persist_del_missing(1) in blast)+
qed auto

lemma tick_loop_missing:
  assumes "env_view b LEASE_BUCKET (write_le64 i) = None" and "tick_loop L on now ls (Some b) = (ls', be', calls)"
    and "i \<in> l_id ` set ls"
  shows "i \<in> l_id ` set ls' \<and> (\<exists>b'. be' = Some b' \<and> env_view b' LEASE_BUCKET (write_le64 i) = None)"
  using assms
proof (induction ls arbitrary: b ls' calls)
  case (Cons l ls)
  from Cons.prems(2) show ?case
  proof (cases rule: tick_loop_step)
    case (later ls1)
    then show ?thesis using Cons.IH [OF Cons.prems(1) later(2)] Cons.prems(3) tick_loop_missing_view [OF Cons.prems(1) later(2)] by auto
  next
    case (stuck b1 rc b2 ls1)
    have v: "env_view b2 LEASE_BUCKET (write_le64 i) = None"
      using persist_del_missing(1) [OF _ stuck(3)] Cons.prems(1) stuck(2) by simp
    then show ?thesis using Cons.IH [OF v stuck(5)] Cons.prems(3) stuck(6) tick_loop_missing_view [OF v stuck(5)] by auto
  next
    case (expired be1 calls1)
    then obtain b' where b': "be1 = Some b'" "lease_persist_del L b (l_id l) = (CETCD_OK, b')" by auto
    have v: "env_view b' LEASE_BUCKET (write_le64 i) = None" "i \<noteq> l_id l"
      using persist_del_missing [OF Cons.prems(1) b'(2)] by auto
    then show ?thesis using Cons.IH [OF v(1)] expired(2) b'(1) Cons.prems(3) by auto
  qed
qed simp

lemma ticks_missing:
  assumes "lm_backend m = Some b" and "env_view b LEASE_BUCKET (write_le64 i) = None" and "cetcd_lease_exists m i"
  shows "cetcd_lease_exists (fold (\<lambda>ms m. cetcd_lease_mgr_tick L m ms) mss m) i"
  using assms
proof (induction mss arbitrary: m b)
  case (Cons ms mss)
  let ?m = "cetcd_lease_mgr_tick L m ms"
  have "\<exists>b'. lm_backend ?m = Some b' \<and> env_view b' LEASE_BUCKET (write_le64 i) = None \<and> cetcd_lease_exists ?m i"
  proof (cases "ms \<le> 0")
    case True
    then show ?thesis using Cons.prems by (simp add: cetcd_lease_mgr_tick_def)
  next
    case False
    obtain ls be calls where r: "tick_loop L (lm_on_expire m) (lm_now_ms m + ms) (lm_leases m) (Some b) = (ls, be, calls)"
      by (rule prod_cases3)
    from False r Cons.prems(1) have m: "?m = m\<lparr>lm_now_ms := lm_now_ms m + ms, lm_leases := ls, lm_backend := be, lm_expired := lm_expired m @ calls\<rparr>"
      by (simp add: cetcd_lease_mgr_tick_def Let_def)
    have "i \<in> l_id ` set (lm_leases m)" using Cons.prems(3) by (simp add: cetcd_lease_exists_def lease_by_id_None)
    from tick_loop_missing [OF Cons.prems(2) r this] show ?thesis
      by (auto simp: m cetcd_lease_exists_def lease_by_id_None)
  qed
  then show ?case using Cons.IH by auto
qed simp

end

lemma reindex_restores:
  assumes "lm_have_bucket m" and "\<forall>kv \<in> set kvs. kv_lease_id kv < 2 ^ 63"
  shows "lm_backend (reindex_loop L wall kvs m) = lm_backend m \<and>
    (\<forall>i. cetcd_lease_exists m i \<or> (\<exists>kv \<in> set kvs. 0 < kv_lease_id kv \<and> i = word_of_int (kv_lease_id kv)) \<longrightarrow>
       cetcd_lease_exists (reindex_loop L wall kvs m) i)"
  using assms
proof (induction kvs arbitrary: m)
  case (Cons kv kvs)
  let ?i = "word_of_int (kv_lease_id kv) :: u64"
  define m1 where "m1 = (if kv_lease_id kv \<le> 0 then m
        else if \<not> cetcd_lease_exists m ?i then
               (case lease_restore m ?i 1 0 of
                  (rc, m) \<Rightarrow> if rc \<noteq> CETCD_OK then m else snd (cetcd_lease_attach_key m ?i (kv_key kv)))
          else snd (cetcd_lease_attach_key m ?i (kv_key kv)))"
  have loop: "reindex_loop L wall (kv # kvs) m = reindex_loop L wall kvs m1"
    using Cons.prems(1) by (simp add: m1_def Let_def)
  have nz: "?i \<noteq> 0" if "0 < kv_lease_id kv"
  proof -
    have "kv_lease_id kv < 2 ^ 63" using Cons.prems(2) by simp
    then have "uint ?i = kv_lease_id kv" using that by (simp add: uint_word_of_int take_bit_int_eq_self)
    with that show ?thesis by auto
  qed
  have att: "lm_have_bucket (snd (cetcd_lease_attach_key m j k)) = lm_have_bucket m \<and>
      lm_backend (snd (cetcd_lease_attach_key m j k)) = lm_backend m \<and>
      (\<forall>i. cetcd_lease_exists (snd (cetcd_lease_attach_key m j k)) i = cetcd_lease_exists m i)" for m :: "'a cetcd_lease_mgr" and j k
    by (auto simp: cetcd_lease_attach_key_def cetcd_lease_exists_def lease_by_id_def update_lease_find split: option.split)
  have m1: "lm_have_bucket m1 \<and> lm_backend m1 = lm_backend m \<and>
      (\<forall>i. cetcd_lease_exists m i \<or> 0 < kv_lease_id kv \<and> i = ?i \<longrightarrow> cetcd_lease_exists m1 i)"
    using Cons.prems(1) nz
    by (auto simp: m1_def att lease_restore_def CETCD_MAX_LEASE_TTL_def Let_def)
      (auto simp: cetcd_lease_exists_def lease_by_id_None)
  show ?case
    unfolding loop using Cons.IH [of m1] m1 Cons.prems(2) by auto
qed simp

text \<open>
  C29. A lease whose record is missing never expires. \<^verbatim>\<open>cetcd_lease_reindex_from_store\<close> re-creates a
  lease that a stored key names but the loaded lease bucket does not contain, with no time
  left, so that the next tick removes it and its keys. The tick first deletes the record; the
  backend reports a missing record as \<^verbatim>\<open>CETCD_ERR_IO\<close>, never as the
  \<^verbatim>\<open>CETCD_ERR_NOTFOUND\<close> the tick would accept, and the tick then keeps the lease. It is
  still there after any number of ticks of any length.
\<close>

theorem lease_without_record_never_expires:
  assumes "lmdb_laws L env_view txn_view"
    and "lm_have_bucket m" and "lm_backend m = Some be" and "env_view be LEASE_BUCKET (write_le64 i) = None"
    and "cetcd_mvcc_range s 0 [] [0] = (CETCD_OK, kvs)" and "\<forall>kv \<in> set kvs. kv_lease_id kv < 2 ^ 63"
    and "kv \<in> set kvs" and "0 < kv_lease_id kv" and "i = word_of_int (kv_lease_id kv)"
    and "cetcd_lease_reindex_from_store L wall m s = (rc, m')"
  shows "cetcd_lease_exists (fold (\<lambda>ms m. cetcd_lease_mgr_tick L m ms) mss m') i"
proof -
  have "m' = reindex_loop L wall kvs m" using assms(5,10) by (simp add: cetcd_lease_reindex_from_store_def)
  with reindex_restores [OF assms(2,6), of L wall] assms(7-9)
  have "lm_backend m' = lm_backend m" "cetcd_lease_exists m' i" by auto
  with lmdb_laws.ticks_missing [OF assms(1), of m' be] assms(3,4) show ?thesis by simp
qed

theorem lease_without_record_never_expires_witness:
  "let be = Map.empty(LEASE_BUCKET \<mapsto> [(LEASE_KEY_NEXT, write_le64 8)]) :: mem_env;
       m = cetcd_lease_mgr_set_backend (snd (cetcd_lease_load mem_lmdb 0 (cetcd_lease_mgr_new True) be)) (Some be);
       s = snd (cetcd_mvcc_put mem_lmdb cetcd_mvcc_store_new [97] [1] 7);
       m' = snd (cetcd_lease_reindex_from_store mem_lmdb 0 m s)
   in cetcd_lease_exists (fold (\<lambda>ms m. cetcd_lease_mgr_tick mem_lmdb m ms) [500, 1000000] m') 7"
proof -
  define be :: mem_env where "be = Map.empty(LEASE_BUCKET \<mapsto> [(LEASE_KEY_NEXT, write_le64 8)])"
  define m where "m = cetcd_lease_mgr_set_backend (snd (cetcd_lease_load mem_lmdb 0 (cetcd_lease_mgr_new True) be)) (Some be)"
  define s :: "mem_env cetcd_mvcc_store" where "s = snd (cetcd_mvcc_put mem_lmdb cetcd_mvcc_store_new [97] [1] 7)"
  obtain rc m' where r: "cetcd_lease_reindex_from_store mem_lmdb 0 m s = (rc, m')" by fastforce
  have m: "lm_have_bucket m"
    unfolding m_def be_def by code_simp
  have mb: "lm_backend m = Some be"
    unfolding m_def by (simp add: cetcd_lease_mgr_set_backend_def)
  have v: "mem_view be LEASE_BUCKET (write_le64 7) = None"
    unfolding be_def by code_simp
  obtain rc' kvs where k: "cetcd_mvcc_range s 0 [] [0] = (rc', kvs)" by fastforce
  have "fst (cetcd_mvcc_range s 0 [] [0]) = CETCD_OK \<and> map kv_lease_id (snd (cetcd_mvcc_range s 0 [] [0])) = [7]"
    unfolding s_def by code_simp
  then obtain kv where kv: "rc' = CETCD_OK" "kvs = [kv]" "kv_lease_id kv = 7" using k by auto
  have "cetcd_lease_exists (fold (\<lambda>ms m. cetcd_lease_mgr_tick mem_lmdb m ms) [500, 1000000] m') 7"
    by (rule lease_without_record_never_expires [OF ml.lmdb_laws_axioms m mb v _ _ _ _ _ r, of kvs kv]) (use k kv in auto)
  then show ?thesis using r unfolding Let_def be_def [symmetric] m_def [symmetric] s_def [symmetric] by simp
qed

section \<open>Saving and loading\<close>

text \<open>What a record of the bucket says of a lease, when the clock of the manager is at zero.\<close>

definition saved_lease :: "int \<Rightarrow> u64 \<Rightarrow> bytes \<Rightarrow> cetcd_lease" where
  "saved_lease wall i v =
     \<lparr>l_id = i, l_ttl_seconds = sint (read_le64 v), l_deadline_ms = max 0 (sint (read_le64 (drop 8 v)) - wall), l_keys = []\<rparr>"

definition lease_record :: "int \<Rightarrow> int \<Rightarrow> cetcd_lease \<Rightarrow> bytes" where
  "lease_record wall now l =
     write_le64 (word_of_int (l_ttl_seconds l)) @ write_le64 (word_of_int (wall + max 0 (l_deadline_ms l - now)))"

definition record_ok :: "u64 \<Rightarrow> bytes \<times> bytes \<Rightarrow> bool" where
  "record_ok nx e \<longleftrightarrow> e = (LEASE_KEY_NEXT, write_le64 nx) \<or>
     (\<exists>i. fst e = write_le64 i \<and> i \<noteq> 0 \<and> i < nx \<and> length (snd e) = 16 \<and>
        0 < sint (read_le64 (snd e)) \<and> sint (read_le64 (snd e)) \<le> CETCD_MAX_LEASE_TTL)"

lemma load_cb_next:
  "fst (lease_load_cb wall LEASE_KEY_NEXT (write_le64 nx) (m, st)) =
     (m\<lparr>lm_have_bucket := True, lm_next_id := (if nx > lm_next_id m then nx else lm_next_id m)\<rparr>, st)"
  by (simp add: lease_load_cb_def Let_def memcmp_zero_iff)

lemma load_cb_lease:
  assumes "length v = 16" and "0 < sint (read_le64 v)" and "sint (read_le64 v) \<le> CETCD_MAX_LEASE_TTL" and "i \<noteq> 0"
    and "lease_by_id m i = None" and "lm_now_ms m = 0"
  shows "fst (lease_load_cb wall (write_le64 i) v (m, st)) =
     (m\<lparr>lm_have_bucket := True, lm_leases := lm_leases m @ [saved_lease wall i v],
        lm_next_id := (if lm_next_id m \<le> i then i + 1 else lm_next_id m)\<rparr>, st)"
  using assms
  by (auto simp: lease_load_cb_def Let_def lease_restore_def cetcd_lease_exists_def lease_by_id_def saved_lease_def
      memcmp_zero_iff)

lemma load_cb_goes_on: "snd (lease_load_cb wall k v ctx)"
  by (auto simp: lease_load_cb_def Let_def split: prod.split)

lemma u64_Suc:
  assumes "i < (nx :: u64)"
  shows "i + 1 \<le> nx" and "i < i + 1"
proof -
  have "unat nx < 2 ^ LENGTH(64)" by (rule unsigned_less)
  then have "unat i + 1 < 2 ^ 64" using assms by (simp add: word_less_nat_alt)
  then have "unat (i + 1) = unat i + 1" by (simp add: unat_word_ariths)
  then show "i + 1 \<le> nx" "i < i + 1" using assms by (simp_all add: word_less_nat_alt word_le_nat_alt)
qed

lemma load_walk:
  assumes "\<forall>e \<in> set kvs. record_ok nx e" and "distinct (map fst kvs)" and "lm_now_ms m = 0" and "lm_next_id m \<le> nx"
    and "\<forall>i. write_le64 i \<in> fst ` set kvs \<longrightarrow> lease_by_id m i = None"
    and "fst (walk (lease_load_cb wall) kvs (m, st)) = (m', st')"
  shows "st' = st \<and> lm_next_id m' \<le> nx \<and> lm_next_id m \<le> lm_next_id m' \<and>
    (LEASE_KEY_NEXT \<in> fst ` set kvs \<longrightarrow> lm_next_id m' = nx) \<and>
    (\<forall>i. lease_by_id m' i =
       (case map_of kvs (write_le64 i) of None \<Rightarrow> lease_by_id m i | Some v \<Rightarrow> Some (saved_lease wall i v)))"
  using assms
proof (induction kvs arbitrary: m st)
  case (Cons e kvs)
  obtain k v where e: "e = (k, v)" by fastforce
  obtain m1 st1 where cb: "lease_load_cb wall k v (m, st) = ((m1, st1), True)"
    using load_cb_goes_on [of wall k v "(m, st)"] by (metis (full_types) prod.collapse)
  have rest: "fst (walk (lease_load_cb wall) kvs (m1, st1)) = (m', st')"
    using Cons.prems(6) cb by (simp add: e)
  have dist: "distinct (map fst kvs)" "k \<notin> fst ` set kvs" using Cons.prems(2) e by auto
  have ok: "\<forall>e \<in> set kvs. record_ok nx e" "record_ok nx (k, v)" using Cons.prems(1) e by auto
  from ok(2) consider (nx) "k = LEASE_KEY_NEXT" "v = write_le64 nx"
    | (lease) i where "k = write_le64 i" "i \<noteq> 0" "i < nx" "length v = 16"
        "0 < sint (read_le64 v)" "sint (read_le64 v) \<le> CETCD_MAX_LEASE_TTL"
    by (auto simp: record_ok_def)
  then show ?case
  proof cases
    case nx
    have m1: "m1 = m\<lparr>lm_have_bucket := True, lm_next_id := nx\<rparr>" "st1 = st"
      using cb load_cb_next [of wall nx m st] Cons.prems(4) nx by (auto split: if_splits)
    have by_id: "lease_by_id m1 i = lease_by_id m i" for i by (simp add: m1 lease_by_id_def)
    have "lm_now_ms m1 = 0" "lm_next_id m1 = nx" using Cons.prems(3) by (simp_all add: m1)
    with Cons.IH [OF ok(1) dist(1) _ _ _ rest] Cons.prems(4,5) show ?thesis
      by (auto simp: by_id e nx m1(2) split: option.split)
  next
    case (lease i)
    have none: "lease_by_id m i = None" using Cons.prems(5) e lease(1) by auto
    have m1: "m1 = m\<lparr>lm_have_bucket := True, lm_leases := lm_leases m @ [saved_lease wall i v],
        lm_next_id := (if lm_next_id m \<le> i then i + 1 else lm_next_id m)\<rparr>" "st1 = st"
      using cb load_cb_lease [OF lease(4-6,2) none Cons.prems(3), of wall st] lease(1) by auto
    have by_id: "lease_by_id m1 j = (if j = i then Some (saved_lease wall i v) else lease_by_id m j)" for j
      using none by (auto simp: m1 lease_by_id_def find_append saved_lease_def split: option.split)
    have "i + 1 \<le> nx" "i < i + 1" using u64_Suc [OF lease(3)] by auto
    moreover have "lm_now_ms m1 = 0" "lm_next_id m1 = (if lm_next_id m \<le> i then i + 1 else lm_next_id m)"
      using Cons.prems(3) by (simp_all add: m1)
    moreover have "\<forall>j. write_le64 j \<in> fst ` set kvs \<longrightarrow> lease_by_id m1 j = None"
      using Cons.prems(5) dist(2) lease(1) by (auto simp: by_id e)
    moreover have "lm_next_id m1 \<le> nx" using calculation Cons.prems(4) by simp
    ultimately show ?thesis
      using Cons.IH [OF ok(1) dist(1) _ _ _ rest] dist(2) map_of_eq_None_iff [of kvs "write_le64 i"]
      by (auto simp: by_id e lease(1) m1(2) split: if_splits option.split)
  qed
qed (auto)

context lmdb_laws
begin

lemma save_loop_view:
  assumes "lease_save_loop L wall now nx ls be = (CETCD_OK, be')" and "distinct (map l_id ls)"
  shows "env_view be' LEASE_BUCKET k =
    (if k = LEASE_KEY_NEXT then Some (write_le64 nx)
     else case find (\<lambda>l. write_le64 (l_id l) = k) ls of
         None \<Rightarrow> env_view be LEASE_BUCKET k
       | Some l \<Rightarrow> Some (lease_record wall now l))"
  using assms
proof (induction ls arbitrary: be)
  case Nil
  then have "cetcd_backend_put L be LEASE_BUCKET LEASE_KEY_NEXT (write_le64 nx) = (CETCD_OK, be')"
    by (simp add: lease_persist_next_def)
  from backend_put [OF this] show ?case by simp
next
  case (Cons l ls)
  obtain be1 where p: "lease_persist_put L wall be l now nx = (CETCD_OK, be1)" "lease_save_loop L wall now nx ls be1 = (CETCD_OK, be')"
    using Cons.prems(1) by (auto split: prod.splits if_splits)
  have v: "env_view be1 = vset (vset (env_view be) LEASE_BUCKET (write_le64 (l_id l)) (Some (lease_record wall now l)))
      LEASE_BUCKET LEASE_KEY_NEXT (Some (write_le64 nx))"
    using backend_put2 [OF p(1) [unfolded lease_persist_put_def Let_def]] by (auto simp: lease_record_def max_def)
  have "find (\<lambda>x. write_le64 (l_id x) = write_le64 (l_id l)) ls = None"
    using Cons.prems(2) by (auto simp: find_None_iff image_iff)
  with Cons.IH [OF p(2)] Cons.prems(2) show ?case by (auto simp: v split: option.split)
qed

lemma save_load:
  assumes "ids_ok n m" and "env_view be LEASE_BUCKET = Map.empty"
    and "\<forall>l \<in> set (lm_leases m). 0 < l_ttl_seconds l \<and> l_ttl_seconds l \<le> CETCD_MAX_LEASE_TTL \<and>
      i64 (wall + max 0 (l_deadline_ms l - lm_now_ms m))"
    and "cetcd_lease_save L wall m be = (CETCD_OK, be')"
    and "cetcd_lease_load L wall' (cetcd_lease_mgr_new on_expire) be' = (CETCD_OK, m')"
    and "full_scan L be' LEASE_BUCKET"
  shows "lm_next_id m' = lm_next_id m \<and>
    (\<forall>i. lease_by_id m' i = map_option (\<lambda>l. l\<lparr>l_deadline_ms := max 0 (wall + max 0 (l_deadline_ms l - lm_now_ms m) - wall'), l_keys := []\<rparr>)
      (lease_by_id m i))"
proof -
  let ?m0 = "(cetcd_lease_mgr_new on_expire)\<lparr>lm_have_bucket := False\<rparr>" and ?rec = "lease_record wall (lm_now_ms m)"
  have view: "env_view be' LEASE_BUCKET k =
    (if k = LEASE_KEY_NEXT then Some (write_le64 (lm_next_id m))
     else map_option ?rec (find (\<lambda>l. write_le64 (l_id l) = k) (lm_leases m)))" for k
    using save_loop_view [OF assms(4) [unfolded cetcd_lease_save_def]] assms(1,2)
    by (auto simp: ids_ok_def split: option.split)
  obtain u where u: "cetcd_backend_foreach L be' LEASE_BUCKET (lease_load_cb wall') (?m0, CETCD_OK) = (CETCD_OK, u)" "m' = fst u" "snd u = CETCD_OK"
    using assms(5) by (auto simp: cetcd_lease_load_def split: prod.splits if_splits)
  obtain kvs where kvs: "map_of kvs = env_view be' LEASE_BUCKET" "sorted_wrt (<) (map fst kvs)"
    "u = fst (walk (lease_load_cb wall') kvs (?m0, CETCD_OK))"
    using backend_foreach [OF u(1) assms(6)] by blast
  have dist: "distinct (map fst kvs)" using kvs(2) by (simp add: strict_sorted_iff)
  have rec: "length (?rec l) = 16 \<and> sint (read_le64 (?rec l)) = l_ttl_seconds l \<and>
      sint (read_le64 (drop 8 (?rec l))) = wall + max 0 (l_deadline_ms l - lm_now_ms m)" if "l \<in> set (lm_leases m)" for l
  proof -
    have "0 < l_ttl_seconds l" "l_ttl_seconds l \<le> CETCD_MAX_LEASE_TTL" using assms(3) that by auto
    then have "i64 (l_ttl_seconds l)" by (simp add: i64_def CETCD_MAX_LEASE_TTL_def)
    then show ?thesis using assms(3) that by (simp add: lease_record_def del: of_int_add)
  qed
  have ok: "record_ok (lm_next_id m) e" if "e \<in> set kvs" for e
  proof (cases "fst e = LEASE_KEY_NEXT")
    case True
    have "map_of kvs (fst e) = Some (snd e)" using that dist by simp
    with True show ?thesis by (cases e) (simp add: kvs(1) view record_ok_def)
  next
    case False
    have "map_of kvs (fst e) = Some (snd e)" using that dist by simp
    then obtain l where "find (\<lambda>l. write_le64 (l_id l) = fst e) (lm_leases m) = Some l" "snd e = ?rec l"
      using False by (auto simp: kvs(1) view)
    then have l: "l \<in> set (lm_leases m)" "fst e = write_le64 (l_id l)" "snd e = ?rec l" by (auto simp: find_Some_iff)
    moreover have "l_id l \<noteq> 0" "l_id l < lm_next_id m" using assms(1) l(1) by (auto simp: ids_ok_def)
    ultimately show ?thesis using rec [OF l(1)] assms(3) by (auto simp: record_ok_def)
  qed
  have m0: "lm_now_ms ?m0 = 0" "lm_next_id ?m0 \<le> lm_next_id m" "\<And>i. lease_by_id ?m0 i = None"
    using assms(1) by (auto simp: cetcd_lease_mgr_new_def lease_by_id_def ids_ok_def word_less_nat_alt word_le_nat_alt)
  have "fst (walk (lease_load_cb wall') kvs (?m0, CETCD_OK)) = (m', CETCD_OK)" using kvs(3) u(2,3) by (metis prod.collapse)
  note w = load_walk [OF _ dist m0(1,2) _ this, unfolded m0(3)]
  have "LEASE_KEY_NEXT \<in> fst ` set kvs"
    by (metis kvs(1) view map_of_eq_None_iff option.distinct(1))
  moreover have "lease_by_id m' i = map_option (\<lambda>l. saved_lease wall' i (?rec l)) (lease_by_id m i)" for i
  proof -
    have "map_of kvs (write_le64 i) = map_option ?rec (lease_by_id m i)" by (simp add: kvs(1) view lease_by_id_def)
    then show ?thesis using w ok by (simp split: option.split)
  qed
  moreover have "saved_lease wall' i (?rec l) =
      l\<lparr>l_deadline_ms := max 0 (wall + max 0 (l_deadline_ms l - lm_now_ms m) - wall'), l_keys := []\<rparr>" if "lease_by_id m i = Some l" for i l
    using rec lease_by_id_Some [OF that] by (simp add: saved_lease_def)
  ultimately show ?thesis using w ok by (auto intro!: option.map_cong)
qed

end

text \<open>
  C28. Leases survive a restart. Saving the leases of a manager, whose granted times are positive and
  within the limit, to an empty bucket and loading them into a new manager, when both return success and the cursor
  of the load gets to the end of the bucket, gives back the same identifiers and
  granted times and the same next identifier, and each lease has the time it had left less the
  wall-clock time between the two, but not less than zero. The keys are not stored.
\<close>

theorem lease_save_load:
  assumes "lmdb_laws L env_view txn_view"
    and "m = fold (lease_apply L wall) ops (cetcd_lease_mgr_new on_expire)"
    and "\<forall>op \<in> set ops. op_id_ok op" and "length ops < 2 ^ 62"
    and "env_view be LEASE_BUCKET = Map.empty"
    and "\<forall>l \<in> set (lm_leases m). 0 < l_ttl_seconds l \<and> l_ttl_seconds l \<le> CETCD_MAX_LEASE_TTL \<and>
      i64 (wall + max 0 (l_deadline_ms l - lm_now_ms m))"
    and "cetcd_lease_save L wall m be = (CETCD_OK, be')"
    and "cetcd_lease_load L wall' (cetcd_lease_mgr_new on_expire') be' = (CETCD_OK, m')"
    and "full_scan L be' LEASE_BUCKET"
  shows "lm_next_id m' = lm_next_id m \<and>
    (\<forall>i. lease_by_id m' i = map_option (\<lambda>l. l\<lparr>l_deadline_ms := max 0 (wall + max 0 (l_deadline_ms l - lm_now_ms m) - wall'), l_keys := []\<rparr>)
      (lease_by_id m i))"
proof -
  have "ids_ok (length ops) m"
    using lease_run_ids [OF new_ids, of ops L wall on_expire] assms(2,3,4) by simp
  from lmdb_laws.save_load [OF assms(1) this assms(5-9)] show ?thesis .
qed

theorem lease_save_load_witness:
  "let m = fold (lease_apply mem_lmdb 1000) [LGrant 5, LTick 1000] (cetcd_lease_mgr_new True);
       be = snd (cetcd_lease_save mem_lmdb 1000 m (Map.empty :: mem_env));
       m' = snd (cetcd_lease_load mem_lmdb 2500 (cetcd_lease_mgr_new True) be)
   in lm_next_id m' = 2 \<and> map_option l_deadline_ms (lease_by_id m' 1) = Some 2500"
proof -
  define m :: "mem_env cetcd_lease_mgr" where "m = fold (lease_apply mem_lmdb 1000) [LGrant 5, LTick 1000] (cetcd_lease_mgr_new True)"
  define be where "be = snd (cetcd_lease_save mem_lmdb 1000 m (Map.empty :: mem_env))"
  define m' where "m' = snd (cetcd_lease_load mem_lmdb 2500 (cetcd_lease_mgr_new True) be)"
  have leases: "lm_leases m = [\<lparr>l_id = 1, l_ttl_seconds = 5, l_deadline_ms = 5000, l_keys = []\<rparr>]" "lm_now_ms m = 1000" "lm_next_id m = 2"
    unfolding m_def by code_simp+
  have "fst (cetcd_lease_save mem_lmdb 1000 m (Map.empty :: mem_env)) = CETCD_OK" unfolding m_def by code_simp
  then have save: "cetcd_lease_save mem_lmdb 1000 m Map.empty = (CETCD_OK, be)" unfolding be_def by (metis prod.collapse)
  have "fst (cetcd_lease_load mem_lmdb 2500 (cetcd_lease_mgr_new True) be) = CETCD_OK" unfolding be_def m_def by code_simp
  then have load: "cetcd_lease_load mem_lmdb 2500 (cetcd_lease_mgr_new True) be = (CETCD_OK, m')" unfolding m'_def by (metis prod.collapse)
  have "mem_view Map.empty LEASE_BUCKET = Map.empty" by (simp add: mem_view_def)
  from lease_save_load [OF ml.lmdb_laws_axioms m_def _ _ this _ save load mem_full_scan] leases
  have "lm_next_id m' = 2 \<and> map_option l_deadline_ms (lease_by_id m' 1) = Some 2500"
    by (simp add: CETCD_MAX_LEASE_TTL_def i64_def lease_by_id_def)
  then show ?thesis unfolding Let_def m'_def be_def m_def .
qed

end
