(* ===== verification/Apply_Lease.thy ===== *)
theory Apply_Lease
  imports Apply_Props Mvcc_Range Lease_Props
begin

text \<open>
  The index from leases to keys and the store, kept in step by the state machine: as long as no lease
  is granted under an identifier that live keys still carry, the keys of a lease are exactly the live
  keys that were last written with it, so that the revocation of a lease deletes exactly those.
\<close>

section \<open>The lease of a key\<close>

definition key_lease :: "'e cetcd_mvcc_store \<Rightarrow> bytes \<Rightarrow> u64 option" where
  "key_lease s k =
     (case cetcd_mvcc_get s 0 k of
        (rc, Some kv) \<Rightarrow> if rc = CETCD_OK \<and> kv_lease_id kv > 0 then Some (word_of_int (kv_lease_id kv)) else None
      | _ \<Rightarrow> None)"

definition lease_of :: "int \<Rightarrow> u64 option" where
  "lease_of l = (if l > 0 then Some (word_of_int l) else None)"

definition lease_index_ok :: "'e cetcd_mvcc_store \<Rightarrow> 'e cetcd_lease_mgr \<Rightarrow> bool" where
  "lease_index_ok s m \<longleftrightarrow> mvcc_ok s \<and> distinct (map l_id (lm_leases m)) \<and> key_lease s [] = None \<and>
     (\<forall>i. distinct (cetcd_lease_keys m i)) \<and>
     (\<forall>i. cetcd_lease_exists m i \<longrightarrow> (\<forall>k. k \<in> set (cetcd_lease_keys m i) \<longleftrightarrow> key_lease s k = Some i))"

definition lease_index :: "'e rpc \<Rightarrow> bool" where
  "lease_index g \<longleftrightarrow>
     (case (g_rpc_store g, g_rpc_lease_mgr g) of (Some s, Some m) \<Rightarrow> lease_index_ok s m | _ \<Rightarrow> False)"

lemma key_lease_index:
  "mvcc_ok s \<Longrightarrow> key_lease s k = (case cetcd_treap_get (ms_index s) k of None \<Rightarrow> None | Some kg \<Rightarrow> lease_of (kg_lease_id kg))"
  by (simp add: key_lease_def get_current lease_of_def split: option.splits)

lemma key_lease_backend [simp]: "key_lease (s\<lparr>ms_backend := be\<rparr>) = key_lease s"
  by (rule ext) (simp add: key_lease_def cetcd_mvcc_get_def)

lemma current_lease_of:
  assumes "mvcc_ok s" and "g_rpc_lease_mgr g = Some m"
  shows "lease_of (current_lease g s k) = key_lease s k"
  using assms by (simp add: key_lease_index current_lease_def get_current lease_of_def split: option.splits)

section \<open>The effect of the writes on the leases of the keys\<close>

lemma put_key_lease:
  assumes "mvcc_ok s" and "cetcd_mvcc_put L s k v l = (r, s')"
  shows "mvcc_ok s'"
    and "rev_main r > 0 \<Longrightarrow> key_lease s' = (key_lease s)(k := lease_of l)"
    and "rev_main r \<le> 0 \<Longrightarrow> key_lease s' = key_lease s"
proof -
  show ok: "mvcc_ok s'" by (rule mvcc_put_ok(1) [OF assms])
  have t: "treap_ok (ms_index s)" and m: "0 \<le> ms_main_rev s" using assms(1) by (simp_all add: mvcc_ok_def)
  have "(rev_main r > 0 \<and> key_lease s' = (key_lease s)(k := lease_of l)) \<or> (rev_main r = 0 \<and> key_lease s' = key_lease s)"
  proof (cases rule: put_ok_cases [of L s k v l])
    case (failed rc be)
    then show ?thesis using assms(2) by (auto simp: zero_rev_def)
  next
    case (stored be s1)
    have "s1 = s'" "r = \<lparr>rev_main = ms_main_rev s + 1, rev_sub = 0\<rparr>" using assms(2) stored(1) by auto
    moreover have "kg_lease_id (put_gen s k v l) = l" by (simp add: put_gen_def Let_def split: option.splits)
    then have "key_lease s1 = (key_lease s)(k := lease_of l)"
      using ok stored(4) ti.get_put [OF t, of k "put_gen s k v l"] \<open>s1 = s'\<close>
      by (auto simp: key_lease_index [OF assms(1)] key_lease_index fun_eq_iff)
    ultimately show ?thesis using m by simp
  qed
  then show "rev_main r > 0 \<Longrightarrow> key_lease s' = (key_lease s)(k := lease_of l)"
    and "rev_main r \<le> 0 \<Longrightarrow> key_lease s' = key_lease s" by auto
qed

text \<open>One deletion removes the key when it is live.\<close>

lemma delete_one_index:
  assumes "mvcc_ok s" and "delete_one L s k p f = (r, s')" and "\<forall>q. f = Some q \<longrightarrow> rev_main q > 0"
  shows "(rev_main r > 0 \<and> cetcd_treap_get (ms_index s) k \<noteq> None \<and>
       cetcd_treap_get (ms_index s') = (cetcd_treap_get (ms_index s))(k := None)) \<or>
     (rev_main r = 0 \<and> ms_index s' = ms_index s \<and> (p \<or> cetcd_treap_get (ms_index s) k = None))"
proof (cases rule: delete_one_cases [of L s k p f])
  case absent
  then have "cetcd_treap_get (ms_index s) k = None" using mvcc_ok_key [OF assms(1)] by (auto simp: gen_ok_def)
  then show ?thesis using absent assms(2) by (auto simp: zero_rev_def)
next
  case (failed kg rc be)
  then show ?thesis using assms(2) by (auto simp: zero_rev_def)
next
  case (gone kg be s1 r1)
  have t: "treap_ok (ms_index s)" and m: "0 \<le> ms_main_rev s" using assms(1) by (simp_all add: mvcc_ok_def)
  have "rev_main r1 > 0" using gone(4) m assms(3) by (cases f) auto
  moreover have "cetcd_treap_get (ms_index s1) = (cetcd_treap_get (ms_index s))(k := None)"
    using gone(7) ti.get_del [OF t, of k] by (auto simp: fun_eq_iff)
  ultimately show ?thesis using gone(1,2) assms(2) by auto
qed


lemma delete_key_lease:
  assumes "mvcc_ok s" and "cetcd_mvcc_delete L s k = (r, s')"
  shows "mvcc_ok s'"
    and "rev_main r > 0 \<Longrightarrow> key_lease s' = (key_lease s)(k := None)"
    and "rev_main r \<le> 0 \<Longrightarrow> key_lease s' = key_lease s"
proof -
  show ok: "mvcc_ok s'" by (rule mvcc_delete_ok(1) [OF assms])
  have d: "delete_one L s k True None = (r, s')" using assms(2) by (simp add: cetcd_mvcc_delete_def)
  from delete_one_index [OF assms(1) d]
  show "rev_main r > 0 \<Longrightarrow> key_lease s' = (key_lease s)(k := None)"
    and "rev_main r \<le> 0 \<Longrightarrow> key_lease s' = key_lease s"
    using ok by (auto simp: key_lease_index [OF assms(1)] key_lease_index fun_eq_iff)
qed

lemma delete_keys_loop_index:
  assumes "mvcc_ok s" and "ms_main_rev s \<le> m" and "0 < m" and "\<forall>a \<in> set (ms_history s). history_rev_key a < (m, i)"
    and "distinct ks" and "\<forall>k \<in> set ks. cetcd_treap_get (ms_index s) k \<noteq> None"
    and "delete_keys_loop L ks m i l s = (r, s')"
  shows "cetcd_treap_get (ms_index s') = (\<lambda>k. if k \<in> set ks then None else cetcd_treap_get (ms_index s) k) \<and>
    (ks \<noteq> [] \<longrightarrow> rev_main r > 0)"
  using assms
proof (induction L ks m i l s arbitrary: r s' rule: delete_keys_loop.induct)
  case (2 L k ks m i l s)
  let ?f = "Some \<lparr>rev_main = m, rev_sub = i\<rparr>"
  obtain r1 s1 where s1: "delete_one L s k False ?f = (r1, s1)" by (cases "delete_one L s k False ?f")
  have ok1: "mvcc_ok s1"
    by (rule delete_one_ok [OF 2(2) s1]) (use 2(3-5) in auto)
  have app: "appends_at m s s1" by (rule delete_one_appends(1) [OF s1]) simp
  obtain new where new: "ms_history s1 = ms_history s @ new" "\<forall>e \<in> set new. he_rev e = \<lparr>rev_main = m, rev_sub = i\<rparr>"
    using delete_one_appends(2) [OF s1 refl] by auto
  have h: "history_rev_key a < (m, i + 1)" if "a \<in> set (ms_history s1)" for a
    using that new 2(5) by (force simp: history_rev_key_def)
  have x: "rev_main r1 > 0" "cetcd_treap_get (ms_index s1) = (cetcd_treap_get (ms_index s))(k := None)"
    using delete_one_index [OF 2(2) s1] 2(4,7) by auto
  have m1: "ms_main_rev s1 \<le> m" using app 2(3) by (simp add: appends_at_def)
  have live: "\<forall>k \<in> set ks. cetcd_treap_get (ms_index s1) k \<noteq> None" using x(2) 2(6,7) by auto
  have run: "delete_keys_loop L ks m (i + 1) r1 s1 = (r, s')" using 2(8) s1 by simp
  have "cetcd_treap_get (ms_index s') = (\<lambda>k. if k \<in> set ks then None else cetcd_treap_get (ms_index s1) k) \<and>
    (ks \<noteq> [] \<longrightarrow> rev_main r > 0)"
    using 2(1) [OF s1 [symmetric] ok1 m1 2(4) _ _ live run] h 2(6) by simp
  moreover have "ks = [] \<Longrightarrow> rev_main r > 0" using run x(1) by simp
  ultimately show ?case using x(2) by (auto simp: fun_eq_iff)
qed simp

lemma delete_keys_index:
  assumes "mvcc_ok s" and "cetcd_mvcc_delete_keys L s ks = (r, s')" and "distinct ks" and "[] \<notin> set ks"
  shows "(rev_main r > 0 \<and>
       cetcd_treap_get (ms_index s') = (\<lambda>k. if k \<in> set ks then None else cetcd_treap_get (ms_index s) k)) \<or>
     (rev_main r = 0 \<and> ms_index s' = ms_index s \<and> ((\<forall>k \<in> set ks. cetcd_treap_get (ms_index s) k = None) \<or>
        (\<exists>be. ms_backend s = Some be \<and> fst (cetcd_backend_del_n L be MVCC_BUCKET_KEY (filter (live_key s) ks) MVCC_BUCKET_META MVCC_META_REV (write_le64 (word_of_int (ms_main_rev s + 1)))) \<noteq> CETCD_OK)))"
proof -
  let ?m = "ms_main_rev s + 1" and ?ks = "filter (live_key s) ks"
  have live: "live_key s k \<longleftrightarrow> cetcd_treap_get (ms_index s) k \<noteq> None" if "k \<in> set ks" for k
    using that assms(4) mvcc_ok_key [OF assms(1), of k] by (auto simp: live_key_def gen_ok_def split: option.splits)
  have m: "0 < ?m" and h: "\<forall>a \<in> set (ms_history s). history_rev_key a < (?m, 0)"
    using assms(1) by (auto simp: mvcc_ok_def history_rev_key_def)
  have loop: ?thesis if "delete_keys_loop L ?ks ?m 0 l (s\<lparr>ms_backend := be\<rparr>) = (r, s')" and "?ks \<noteq> []" for l be
  proof -
    have lv: "\<forall>k \<in> set ?ks. cetcd_treap_get (ms_index (s\<lparr>ms_backend := be\<rparr>)) k \<noteq> None" using live by auto
    have "cetcd_treap_get (ms_index s') = (\<lambda>k. if k \<in> set ?ks then None else cetcd_treap_get (ms_index s) k) \<and>
        (?ks \<noteq> [] \<longrightarrow> rev_main r > 0)"
      using delete_keys_loop_index [OF _ _ m _ _ lv that(1)] assms(1,3) h by (simp cong: if_cong)
    then show ?thesis using that(2) live by (auto simp: fun_eq_iff)
  qed
  show ?thesis
  proof (cases "?ks = []")
    case True
    then have "\<forall>k \<in> set ks. cetcd_treap_get (ms_index s) k = None" using live by (auto simp: filter_empty_conv)
    then show ?thesis using assms(2) True by (auto simp: cetcd_mvcc_delete_keys_def zero_rev_def Let_def split: if_splits)
  next
    case False
    then have ne: "ks \<noteq> []" by auto
    show ?thesis
    proof (cases "ms_backend s")
      case None
      then have "s\<lparr>ms_backend := None\<rparr> = s" by simp
      moreover have "delete_keys_loop L ?ks ?m 0 zero_rev s = (r, s')"
        using assms(2) False ne None by (simp add: cetcd_mvcc_delete_keys_def Let_def)
      ultimately show ?thesis using loop [of zero_rev None] False by simp
    next
      case (Some be)
      then show ?thesis
        using assms(2) False ne loop
        by (auto simp: cetcd_mvcc_delete_keys_def Let_def zero_rev_def split: prod.splits if_splits)
    qed
  qed
qed

lemma delete_keys_lease:
  assumes "mvcc_ok s" and "cetcd_mvcc_delete_keys L s ks = (r, s')" and "distinct ks" and "[] \<notin> set ks"
  shows "mvcc_ok s'"
    and "rev_main r > 0 \<Longrightarrow> key_lease s' = (\<lambda>k. if k \<in> set ks then None else key_lease s k)"
    and "rev_main r \<le> 0 \<Longrightarrow> key_lease s' = key_lease s"
proof -
  show ok: "mvcc_ok s'" by (rule mvcc_delete_keys_ok(1) [OF assms(1,2)])
  from delete_keys_index [OF assms]
  show "rev_main r > 0 \<Longrightarrow> key_lease s' = (\<lambda>k. if k \<in> set ks then None else key_lease s k)"
    and "rev_main r \<le> 0 \<Longrightarrow> key_lease s' = key_lease s"
    using ok by (auto simp: key_lease_index [OF assms(1)] key_lease_index fun_eq_iff)
qed

section \<open>The effect on the leases\<close>

lemma keys_same [simp]: "same_key key k \<longleftrightarrow> k = key"
  "length k = length key \<and> memcmp k key (length key) = 0 \<longleftrightarrow> k = key"
  by (auto simp: same_key_def memcmp_zero_iff)

lemma remove_key_remove1: "remove_key k ks = remove1 k ks"
  by (induction ks) (auto simp: memcmp_zero_iff)

lemma attach_effect:
  fixes m :: "'e cetcd_lease_mgr" and i :: u64 and k :: bytes
  defines "m' \<equiv> snd (cetcd_lease_attach_key m i k)"
  shows "map l_id (lm_leases m') = map l_id (lm_leases m)" and "cetcd_lease_exists m' j = cetcd_lease_exists m j"
    and "cetcd_lease_exists m j \<Longrightarrow> set (cetcd_lease_keys m' j) = (if j = i then {k} else {}) \<union> set (cetcd_lease_keys m j)"
    and "distinct (cetcd_lease_keys m j) \<Longrightarrow> distinct (cetcd_lease_keys m' j)"
  unfolding m'_def
  by (auto simp: cetcd_lease_attach_key_def cetcd_lease_exists_def cetcd_lease_keys_def lease_by_id_def update_lease_find
      list_ex_iff split: option.splits)

lemma detach_effect:
  fixes m :: "'e cetcd_lease_mgr" and i :: u64 and k :: bytes
  defines "m' \<equiv> snd (cetcd_lease_detach_key m i k)"
  shows "map l_id (lm_leases m') = map l_id (lm_leases m)" and "cetcd_lease_exists m' j = cetcd_lease_exists m j"
    and "distinct (cetcd_lease_keys m j) \<Longrightarrow> set (cetcd_lease_keys m' j) = set (cetcd_lease_keys m j) - (if j = i then {k} else {})"
    and "distinct (cetcd_lease_keys m j) \<Longrightarrow> distinct (cetcd_lease_keys m' j)"
  unfolding m'_def
  by (auto simp: cetcd_lease_detach_key_def cetcd_lease_exists_def cetcd_lease_keys_def lease_by_id_def update_lease_find
      list_ex_iff remove_key_remove1 split: option.splits if_splits)

section \<open>Every operation keeps the index\<close>

lemma lease_indexE:
  assumes "lease_index g"
  obtains s m where "g_rpc_store g = Some s" "g_rpc_lease_mgr g = Some m" "lease_index_ok s m"
  using assms by (auto simp: lease_index_def split: option.splits)

lemma lease_indexI:
  "g_rpc_store g = Some s \<Longrightarrow> g_rpc_lease_mgr g = Some m \<Longrightarrow> lease_index_ok s m \<Longrightarrow> lease_index g"
  by (simp add: lease_index_def)

lemma lease_index_ok_backend [simp]:
  "lease_index_ok (s\<lparr>ms_backend := be\<rparr>) m = lease_index_ok s m"
  "lease_index_ok s (m\<lparr>lm_backend := be'\<rparr>) = lease_index_ok s m"
  by (simp_all add: lease_index_ok_def cetcd_lease_keys_def cetcd_lease_exists_def lease_by_id_def)

lemma on_storeE:
  assumes "mvcc_ok s" and "on_store f s g = (r, g')"
  obtains s1 s' where "f s1 = (r, s')" "mvcc_ok s1" "key_lease s1 = key_lease s" "g_rpc_store g' = Some s'"
    "g_rpc_lease_mgr g' = g_rpc_lease_mgr g"
  using assms by (auto simp: on_store_def split: prod.splits)

lemma store_same:
  assumes "lease_index_ok s m" and "mvcc_ok s'" and "key_lease s' = key_lease s"
  shows "lease_index_ok s' m"
  using assms by (simp add: lease_index_ok_def)

text \<open>Detaching a key from its lease, once the key has no lease in the store.\<close>

lemma detach_index:
  assumes "lease_index_ok s m" and "mvcc_ok s'" and "key_lease s' = (key_lease s)(k := None)"
    and "key_lease s k = lease_of l" and "g_rpc_store g = Some s'" and "g_rpc_lease_mgr g = Some m"
  shows "lease_index (detach_key l k g)"
proof (cases "l > 0")
  case True
  let ?m = "snd (cetcd_lease_detach_key m (word_of_int l) k)"
  have "lease_index_ok s' ?m"
    using assms(1-4) True detach_effect [where m = m and i = "word_of_int l" and k = k] by (auto simp: lease_index_ok_def lease_of_def)
  then show ?thesis using assms(5,6) True by (simp add: detach_key_def lease_index_def)
next
  case False
  then have "lease_index_ok s' m" using assms(1-4) by (auto simp: lease_index_ok_def lease_of_def)
  then show ?thesis using assms(5,6) False by (simp add: detach_key_def lease_index_def)
qed

lemma after_put_index:
  assumes "lease_index_ok s m" and "mvcc_ok s'" and "key_lease s' = (key_lease s)(k := lease_of l)" and "k \<noteq> []"
    and "key_lease s k = lease_of old" and "g_rpc_store g = Some s'" and "g_rpc_lease_mgr g = Some m"
  shows "lease_index (lease_after_put k old l g)"
proof -
  define m1 where "m1 = (if old > 0 \<and> old \<noteq> l then snd (cetcd_lease_detach_key m (word_of_int old) k) else m)"
  define m2 where "m2 = (if l > 0 then snd (cetcd_lease_attach_key m1 (word_of_int l) k) else m1)"
  have d: "distinct (cetcd_lease_keys m i)" for i using assms(1) by (simp add: lease_index_ok_def)
  have m1: "map l_id (lm_leases m1) = map l_id (lm_leases m)" "\<And>i. cetcd_lease_exists m1 i = cetcd_lease_exists m i"
    "\<And>i. distinct (cetcd_lease_keys m1 i)"
    "\<And>i. set (cetcd_lease_keys m1 i) = set (cetcd_lease_keys m i) - (if old > 0 \<and> old \<noteq> l \<and> i = word_of_int old then {k} else {})"
    using detach_effect [where m = m and i = "word_of_int old" and k = k] d by (simp_all add: m1_def)
  have m2: "map l_id (lm_leases m2) = map l_id (lm_leases m)" "\<And>i. cetcd_lease_exists m2 i = cetcd_lease_exists m i"
    "\<And>i. distinct (cetcd_lease_keys m2 i)"
    "\<And>i. cetcd_lease_exists m i \<Longrightarrow> set (cetcd_lease_keys m2 i) = (if l > 0 \<and> i = word_of_int l then {k} else {}) \<union> set (cetcd_lease_keys m1 i)"
    using attach_effect [where m = m1 and i = "word_of_int l" and k = k] m1(1-3) by (auto simp: m2_def)
  have "lease_index_ok s' m2"
    using assms(1-5) m1 m2 by (auto simp: lease_index_ok_def lease_of_def split: if_splits)
  moreover have "lease_after_put k old l g = g\<lparr>g_rpc_lease_mgr := Some m2\<rparr>"
    using assms(7) by (simp add: lease_after_put_def m1_def m2_def Let_def)
  ultimately show ?thesis using assms(6) by (simp add: lease_index_def)
qed

lemma apply_put_index:
  assumes "lease_index g"
  shows "lease_index (snd (apply_put L k v l g))"
proof -
  obtain s m where g: "g_rpc_store g = Some s" "g_rpc_lease_mgr g = Some m" "lease_index_ok s m"
    using assms by (rule lease_indexE)
  then have ok: "mvcc_ok s" by (simp add: lease_index_ok_def)
  show ?thesis
  proof (cases "k = []")
    case False
    obtain r g' where run: "on_store (\<lambda>s. cetcd_mvcc_put L s k v l) s g = (r, g')" by (meson surj_pair)
    from on_storeE [OF ok run] obtain s1 s' where s1: "cetcd_mvcc_put L s1 k v l = (r, s')" "mvcc_ok s1"
      "key_lease s1 = key_lease s" "g_rpc_store g' = Some s'" "g_rpc_lease_mgr g' = g_rpc_lease_mgr g" .
    note e = put_key_lease [OF s1(2,1)]
    show ?thesis
    proof (cases "rev_main r > 0")
      case True
      have "lease_index (lease_after_put k (current_lease g s k) l g')"
        by (rule after_put_index [OF g(3) e(1)])
          (use True False e(2) s1 g current_lease_of [OF ok g(2)] in auto)
      then show ?thesis using True False by (simp add: apply_put_def g run)
    next
      case f: False
      then have "lease_index_ok s' m" using store_same [OF g(3) e(1)] e(3) s1(3) by simp
      then show ?thesis using f False s1 g by (simp add: apply_put_def run lease_index_def)
    qed
  qed (use assms g in \<open>simp add: apply_put_def\<close>)
qed

lemma apply_delete_index:
  assumes "lease_index g"
  shows "lease_index (snd (apply_delete_one L k g))"
proof -
  obtain s m where g: "g_rpc_store g = Some s" "g_rpc_lease_mgr g = Some m" "lease_index_ok s m"
    using assms by (rule lease_indexE)
  then have ok: "mvcc_ok s" by (simp add: lease_index_ok_def)
  show ?thesis
  proof (cases "k = []")
    case False
    obtain r g' where run: "on_store (\<lambda>s. cetcd_mvcc_delete L s k) s g = (r, g')" by (meson surj_pair)
    from on_storeE [OF ok run] obtain s1 s' where s1: "cetcd_mvcc_delete L s1 k = (r, s')" "mvcc_ok s1"
      "key_lease s1 = key_lease s" "g_rpc_store g' = Some s'" "g_rpc_lease_mgr g' = g_rpc_lease_mgr g" .
    note e = delete_key_lease [OF s1(2,1)]
    show ?thesis
    proof (cases "rev_main r > 0")
      case True
      have "lease_index (detach_key (current_lease g s k) k g')"
        by (rule detach_index [OF g(3) e(1)])
          (use True e(2) s1 g current_lease_of [OF ok g(2)] in auto)
      then show ?thesis using True False by (simp add: apply_delete_one_def g run)
    next
      case f: False
      then have "lease_index_ok s' m" using store_same [OF g(3) e(1)] e(3) s1(3) by simp
      then show ?thesis using f False s1 g by (simp add: apply_delete_one_def run lease_index_def)
    qed
  qed (use assms g in \<open>simp add: apply_delete_one_def\<close>)
qed

text \<open>A range of keys is detached one by one; the store already lacks them all.\<close>

lemma detach_fold:
  assumes "g_rpc_store g = Some s'" and "g_rpc_lease_mgr g = Some m" and "mvcc_ok s'" and "distinct (map l_id (lm_leases m))"
    and "key_lease s' [] = None" and "\<And>i. distinct (cetcd_lease_keys m i)"
    and "\<And>i k. cetcd_lease_exists m i \<Longrightarrow>
      k \<in> set (cetcd_lease_keys m i) \<longleftrightarrow> key_lease s' k = Some i \<or> (\<exists>kv \<in> set kvs. kv_key kv = k \<and> lease_of (kv_lease_id kv) = Some i)"
    and "\<And>kv. kv \<in> set kvs \<Longrightarrow> key_lease s' (kv_key kv) = None" and "distinct (map kv_key kvs)"
  shows "lease_index (fold (\<lambda>kv g. detach_key (kv_lease_id kv) (kv_key kv) g) kvs g)"
  using assms
proof (induction kvs arbitrary: g m)
  case Nil
  then show ?case by (simp add: lease_index_def lease_index_ok_def)
next
  case (Cons kv kvs)
  let ?l = "kv_lease_id kv" and ?k = "kv_key kv"
  let ?m = "if ?l > 0 then snd (cetcd_lease_detach_key m (word_of_int ?l) ?k) else m"
  have g: "g_rpc_store (detach_key ?l ?k g) = Some s'" "g_rpc_lease_mgr (detach_key ?l ?k g) = Some ?m"
    using Cons.prems(1,2) by (simp_all add: detach_key_def)
  note e = detach_effect [where m = m and i = "word_of_int ?l" and k = ?k]
  have m: "distinct (map l_id (lm_leases ?m))" "\<And>i. distinct (cetcd_lease_keys ?m i)" "\<And>i. cetcd_lease_exists ?m i = cetcd_lease_exists m i"
    using e Cons.prems(4,6) by auto
  have s: "set (cetcd_lease_keys ?m i) = set (cetcd_lease_keys m i) - (if lease_of ?l = Some i then {?k} else {})" for i
    using e(3) [of i] Cons.prems(6) by (auto simp: lease_of_def)
  have fresh: "kv_key kv' \<noteq> ?k" if "kv' \<in> set kvs" for kv' using that Cons.prems(9) by (metis distinct.simps(2) image_eqI list.simps(9) set_map)
  have "k \<in> set (cetcd_lease_keys ?m i) \<longleftrightarrow> key_lease s' k = Some i \<or> (\<exists>kv \<in> set kvs. kv_key kv = k \<and> lease_of (kv_lease_id kv) = Some i)"
    if "cetcd_lease_exists ?m i" for i k
    using that Cons.prems(7) [of i k] Cons.prems(8) [of kv] fresh m(3) by (auto simp: s)
  from Cons.IH [OF g Cons.prems(3) m(1) Cons.prems(5) m(2) this] Cons.prems(8,9) show ?case by simp
qed

lemma apply_delete_range_index:
  assumes "lease_index g"
  shows "lease_index (snd (apply_delete_range L k e g))"
proof -
  obtain s m where g: "g_rpc_store g = Some s" "g_rpc_lease_mgr g = Some m" "lease_index_ok s m"
    using assms by (rule lease_indexE)
  then have ok: "mvcc_ok s" by (simp add: lease_index_ok_def)
  obtain kvs where kvs: "cetcd_mvcc_range s 0 k e = (CETCD_OK, kvs)" "sorted_wrt (<) (map kv_key kvs)"
    "\<And>kv. kv \<in> set kvs \<longleftrightarrow> in_bounds k (range_end_of e) (kv_key kv) \<and> cetcd_mvcc_get s 0 (kv_key kv) = (CETCD_OK, Some kv)"
    using range_current [OF ok, of k e] by metis
  show ?thesis
  proof (cases "k = [] \<or> e = [] \<or> kvs = []")
    case True
    then show ?thesis
      using apply_delete_index [OF assms] assms kvs(1) g(1) by (auto simp: apply_delete_range_def Let_def)
  next
    case False
    obtain r g' where run: "on_store (\<lambda>s. cetcd_mvcc_delete_keys L s (map kv_key kvs)) s g = (r, g')" by (meson surj_pair)
    from on_storeE [OF ok run] obtain s1 s' where s1: "cetcd_mvcc_delete_keys L s1 (map kv_key kvs) = (r, s')" "mvcc_ok s1"
      "key_lease s1 = key_lease s" "g_rpc_store g' = Some s'" "g_rpc_lease_mgr g' = g_rpc_lease_mgr g" .
    have d: "distinct (map kv_key kvs)" using kvs(2) strict_sorted_iff by blast
    have ne: "[] \<notin> set (map kv_key kvs)" using kvs(3) False by (auto simp: in_bounds_def)
    note eff = delete_keys_lease [OF s1(2,1) d ne]
    have kl: "key_lease s (kv_key kv) = lease_of (kv_lease_id kv)" if "kv \<in> set kvs" for kv
      using that kvs(3) [of kv] by (simp add: key_lease_def lease_of_def)
    have kl': "kv \<in> set kvs \<Longrightarrow> kv' \<in> set kvs \<Longrightarrow> kv_key kv = kv_key kv' \<Longrightarrow> lease_of (kv_lease_id kv) = lease_of (kv_lease_id kv')" for kv kv'
      using kl by metis
    have run': "snd (apply_delete_range L k e g) =
        (if rev_main r > 0 then fold (\<lambda>kv g. detach_key (kv_lease_id kv) (kv_key kv) g) kvs g' else g')"
      using False kvs(1) run g(1) by (simp add: apply_delete_range_def)
    show ?thesis
    proof (cases "rev_main r > 0")
      case True
      have l: "key_lease s' = (\<lambda>j. if j \<in> kv_key ` set kvs then None else key_lease s j)" using eff(2) [OF True] s1(3) by auto
      have "lease_index (fold (\<lambda>kv g. detach_key (kv_lease_id kv) (kv_key kv) g) kvs g')"
        by (rule detach_fold [OF s1(4) _ eff(1), of m])
          (use g s1(5) l d kl in \<open>auto simp: lease_index_ok_def dest: kl'\<close>)
      then show ?thesis using True run' by simp
    next
      case f: False
      then have "lease_index_ok s' m" using store_same [OF g(3) eff(1)] eff(3) s1(3) by simp
      then show ?thesis using f s1 g run' by (simp add: lease_index_def)
    qed
  qed
qed

lemma revoke_effect:
  assumes "cetcd_lease_revoke L m i = (rc, m')" and "distinct (map l_id (lm_leases m))"
  shows "lm_leases m' = lm_leases m \<or> lm_leases m' = filter (\<lambda>l. l_id l \<noteq> i) (lm_leases m)"
    and "rc = CETCD_OK \<Longrightarrow> cetcd_lease_exists m i \<and> lm_leases m' = filter (\<lambda>l. l_id l \<noteq> i) (lm_leases m)"
  using assms
  by (auto simp: cetcd_lease_revoke_def revoke_mem_def cetcd_lease_exists_def lease_by_id_def remove_lease_filter Let_def
      split: if_splits option.splits prod.splits)

text \<open>Leases may disappear.\<close>

lemma leases_shrink:
  assumes "lease_index_ok s m" and "lm_leases m' = filter P (lm_leases m)"
  shows "lease_index_ok s m'"
proof -
  have d: "distinct (map l_id (lm_leases m))" using assms(1) by (simp add: lease_index_ok_def)
  have "lease_by_id m' i = (case lease_by_id m i of None \<Rightarrow> None | Some l \<Rightarrow> if P l then Some l else None)" for i
    by (simp add: lease_by_id_def assms(2) find_filter_id [OF d])
  then show ?thesis
    using assms by (auto simp: lease_index_ok_def cetcd_lease_exists_def cetcd_lease_keys_def distinct_map_filter split: option.splits if_splits)
qed

lemma on_leasesE:
  assumes "lease_index_ok s m" and "on_leases f m g = (r, g')"
  obtains m1 m' where "f m1 = (r, m')" "lease_index_ok s m1" "lm_leases m1 = lm_leases m" "g_rpc_lease_mgr g' = Some m'"
    "g_rpc_store g' = g_rpc_store g"
  using assms by (auto simp: on_leases_def split: prod.splits)

text \<open>The part of a revocation that deletes the keys.\<close>

definition revoke_deletes :: "('e, 't) lmdb \<Rightarrow> bytes list \<Rightarrow> 'e rpc \<Rightarrow> 'e rpc" where
  "revoke_deletes L keys g =
     (case g_rpc_store g of
        None \<Rightarrow> g
      | Some s \<Rightarrow> if keys = [] then g else snd (on_store (\<lambda>s. cetcd_mvcc_delete_keys L s keys) s g))"

lemma revoke_deletes_effect:
  assumes "g_rpc_store g = Some s" and "g_rpc_lease_mgr g = Some m" and "lease_index_ok s m"
  obtains s' where "g_rpc_store (revoke_deletes L (cetcd_lease_keys m i) g) = Some s'" "mvcc_ok s'"
    "g_rpc_lease_mgr (revoke_deletes L (cetcd_lease_keys m i) g) = Some m"
    "cetcd_treap_get (ms_index s') = (\<lambda>k. if k \<in> set (cetcd_lease_keys m i) then None else cetcd_treap_get (ms_index s) k) \<or>
     (ms_index s' = ms_index s \<and> ms_backend s \<noteq> None \<and> fst (cetcd_backend_del_n L (g_be g) MVCC_BUCKET_KEY (cetcd_lease_keys m i) MVCC_BUCKET_META MVCC_META_REV (write_le64 (word_of_int (ms_main_rev s + 1)))) \<noteq> CETCD_OK)"
proof (cases "cetcd_lease_keys m i = []")
  case True
  then show ?thesis using that assms by (simp add: revoke_deletes_def lease_index_ok_def)
next
  case False
  let ?ks = "cetcd_lease_keys m i" and ?s = "s\<lparr>ms_backend := map_option (\<lambda>_. g_be g) (ms_backend s)\<rparr>"
  have ok: "mvcc_ok ?s" and oks: "mvcc_ok s" and d: "distinct ?ks" using assms(3) by (simp_all add: lease_index_ok_def)
  have ex: "cetcd_lease_exists m i" using False by (cases "lease_by_id m i") (auto simp: cetcd_lease_keys_def cetcd_lease_exists_def)
  then have ne: "[] \<notin> set ?ks" using assms(3) by (auto simp: lease_index_ok_def)
  have "key_lease s k = Some i" if "k \<in> set ?ks" for k using that assms(3) ex by (simp add: lease_index_ok_def)
  then have "live_key ?s k" if "k \<in> set ?ks" for k
    using that ne mvcc_ok_key [OF oks, of k]
    by (fastforce simp: live_key_def gen_ok_def key_lease_index [OF oks] split: option.splits)
  then have live: "filter (live_key ?s) ?ks = ?ks" by simp
  obtain r s' where run: "cetcd_mvcc_delete_keys L ?s ?ks = (r, s')" by (meson surj_pair)
  show ?thesis
  proof (rule that)
    show "g_rpc_store (revoke_deletes L ?ks g) = Some s'" using False run assms(1) by (simp add: revoke_deletes_def on_store_def)
    show "g_rpc_lease_mgr (revoke_deletes L ?ks g) = Some m" using False run assms(1,2) by (simp add: revoke_deletes_def on_store_def)
    show "cetcd_treap_get (ms_index s') = (\<lambda>k. if k \<in> set ?ks then None else cetcd_treap_get (ms_index s) k) \<or>
        (ms_index s' = ms_index s \<and> ms_backend s \<noteq> None \<and> fst (cetcd_backend_del_n L (g_be g) MVCC_BUCKET_KEY (cetcd_lease_keys m i) MVCC_BUCKET_META MVCC_META_REV (write_le64 (word_of_int (ms_main_rev s + 1)))) \<noteq> CETCD_OK)"
      using delete_keys_index [OF ok run d ne, unfolded live] by (auto simp: fun_eq_iff)
    show "mvcc_ok s'" by (rule mvcc_delete_keys_ok(1) [OF ok run])
  qed
qed

lemma apply_lease_revoke_unfold:
  "g_rpc_lease_mgr g = Some m \<Longrightarrow> i \<noteq> 0 \<Longrightarrow>
     apply_lease_revoke L i g = (True, snd (on_leases (\<lambda>m. cetcd_lease_revoke L m i) m (revoke_deletes L (cetcd_lease_keys m i) g)))"
  by (simp add: apply_lease_revoke_def revoke_deletes_def Let_def)

text \<open>The lease is gone afterwards, unless its record could not be deleted.\<close>

definition lease_gone :: "u64 \<Rightarrow> 'e rpc \<Rightarrow> bool" where
  "lease_gone i g \<longleftrightarrow> (case g_rpc_lease_mgr g of None \<Rightarrow> True | Some m \<Rightarrow> \<not> cetcd_lease_exists m i)"

lemma apply_lease_revoke_index:
  assumes "lease_index g" and "lease_gone i (snd (apply_lease_revoke L i g))"
  shows "lease_index (snd (apply_lease_revoke L i g))"
proof (cases "i = 0")
  case True
  then show ?thesis using assms(1) by (simp add: apply_lease_revoke_def)
next
  case False
  obtain s m where g: "g_rpc_store g = Some s" "g_rpc_lease_mgr g = Some m" "lease_index_ok s m"
    using assms(1) by (rule lease_indexE)
  let ?g = "revoke_deletes L (cetcd_lease_keys m i) g"
  obtain s' where s': "g_rpc_store ?g = Some s'" "mvcc_ok s'" "g_rpc_lease_mgr ?g = Some m"
    "cetcd_treap_get (ms_index s') = (\<lambda>k. if k \<in> set (cetcd_lease_keys m i) then None else cetcd_treap_get (ms_index s) k) \<or>
     (ms_index s' = ms_index s \<and> ms_backend s \<noteq> None \<and> fst (cetcd_backend_del_n L (g_be g) MVCC_BUCKET_KEY (cetcd_lease_keys m i) MVCC_BUCKET_META MVCC_META_REV (write_le64 (word_of_int (ms_main_rev s + 1)))) \<noteq> CETCD_OK)"
    by (rule revoke_deletes_effect [OF g])
  have ok: "mvcc_ok s" using g(3) by (simp add: lease_index_ok_def)
  have kl: "key_lease s' = key_lease s \<or> key_lease s' = (\<lambda>k. if k \<in> set (cetcd_lease_keys m i) then None else key_lease s k)"
    using s'(4) by (auto simp: key_lease_index [OF ok] key_lease_index [OF s'(2)] fun_eq_iff)
  obtain rc g' where run: "on_leases (\<lambda>m. cetcd_lease_revoke L m i) m ?g = (rc, g')" by (meson surj_pair)
  from on_leasesE [OF g(3) run] obtain m1 m' where m1: "cetcd_lease_revoke L m1 i = (rc, m')" "lease_index_ok s m1"
    "lm_leases m1 = lm_leases m" "g_rpc_lease_mgr g' = Some m'" "g_rpc_store g' = g_rpc_store ?g" .
  have d: "distinct (map l_id (lm_leases m1))" using m1(2) by (simp add: lease_index_ok_def)
  have run': "snd (apply_lease_revoke L i g) = g'"
    using g(2) False run by (simp add: apply_lease_revoke_unfold)
  then have gone: "\<not> cetcd_lease_exists m' i" using assms(2) m1(4) by (simp add: lease_gone_def)
  have m': "lease_index_ok s m'"
  proof (rule leases_shrink [OF m1(2)])
    show "lm_leases m' = filter (\<lambda>l. l_id l \<noteq> i) (lm_leases m1)"
      using revoke_effect(1) [OF m1(1) d] gone
      by (auto simp: cetcd_lease_exists_def lease_by_id_None intro!: filter_True [symmetric])
  qed
  have k: "k \<in> set (cetcd_lease_keys m i) \<Longrightarrow> key_lease s k = Some i" for k
    using g(3) by (cases "lease_by_id m i") (auto simp: lease_index_ok_def cetcd_lease_exists_def cetcd_lease_keys_def)
  have "lease_index_ok s' m'"
    using m' s'(2) kl gone k by (auto simp: lease_index_ok_def split: if_splits)
  then show ?thesis using run' m1(4,5) s'(1) by (simp add: lease_index_def)
qed

lemma grant_id_effect:
  assumes "cetcd_lease_grant_id L wall m i t = (r, m')"
  shows "lm_leases m' = lm_leases m \<or>
    (\<not> cetcd_lease_exists m i \<and> (\<exists>l. l_id l = i \<and> l_keys l = [] \<and> lm_leases m' = lm_leases m @ [l]))"
proof (cases "i = 0 \<or> t \<le> 0 \<or> t > CETCD_MAX_LEASE_TTL \<or> cetcd_lease_exists m i")
  case True
  then show ?thesis using assms by (auto simp: cetcd_lease_grant_id_def split: if_splits)
next
  case False
  let ?l = "\<lparr>l_id = i, l_ttl_seconds = t, l_deadline_ms = lm_now_ms m + t * 1000, l_keys = []\<rparr>"
  let ?m = "m\<lparr>lm_leases := lm_leases m @ [?l]\<rparr>"
  have "grant_persist L wall (if lm_next_id ?m \<le> i then ?m\<lparr>lm_next_id := i + 1\<rparr> else ?m) ?l = (r, m')"
    using assms False by (simp add: cetcd_lease_grant_id_def Let_def)
  moreover have "i \<notin> l_id ` set (lm_leases m)" using False by (auto simp: cetcd_lease_exists_def lease_by_id_None)
  ultimately have "lm_leases m' = lm_leases m @ [?l] \<or> lm_leases m' = lm_leases m"
    using grant_persist_ids [of L wall "if lm_next_id ?m \<le> i then ?m\<lparr>lm_next_id := i + 1\<rparr> else ?m" ?l r m' "lm_leases m"] by (simp split: if_splits)
  then show ?thesis using False by auto
qed

lemma grant_index:
  assumes "lease_index_ok s m" and "lm_leases m' = lm_leases m @ [l]" and "l_id l = i" and "l_keys l = []"
    and "\<not> cetcd_lease_exists m i" and "\<forall>k. key_lease s k \<noteq> Some i"
  shows "lease_index_ok s m'"
proof -
  have "lease_by_id m' j = (if j = i then Some l else lease_by_id m j)" for j
    using assms(2,3,5) by (auto simp: lease_by_id_def find_append cetcd_lease_exists_def split: option.splits)
  moreover have "i \<notin> l_id ` set (lm_leases m)" using assms(5) by (simp add: cetcd_lease_exists_def flip: lease_by_id_None)
  ultimately show ?thesis
    using assms by (auto simp: lease_index_ok_def cetcd_lease_exists_def cetcd_lease_keys_def)
qed

lemma apply_lease_grant_index:
  assumes "lease_index g" and "\<And>s k. g_rpc_store g = Some s \<Longrightarrow> key_lease s k \<noteq> Some i"
  shows "lease_index (snd (apply_lease_grant L wall i t g))"
proof -
  obtain s m where g: "g_rpc_store g = Some s" "g_rpc_lease_mgr g = Some m" "lease_index_ok s m"
    using assms(1) by (rule lease_indexE)
  obtain r g' where run: "on_leases (\<lambda>m. cetcd_lease_grant_id L wall m i (sint t)) m g = (r, g')" by (meson surj_pair)
  from on_leasesE [OF g(3) run] obtain m1 m' where m1: "cetcd_lease_grant_id L wall m1 i (sint t) = (r, m')" "lease_index_ok s m1"
    "lm_leases m1 = lm_leases m" "g_rpc_lease_mgr g' = Some m'" "g_rpc_store g' = g_rpc_store g" .
  have "lease_index_ok s m'"
    using grant_id_effect [OF m1(1)] grant_index [OF m1(2)] leases_shrink [OF m1(2), of m' "\<lambda>_. True"] assms(2) [OF g(1)] by auto
  then have "lease_index g'" using m1 g(1) by (simp add: lease_index_def)
  then show ?thesis using assms(1) run g(2) by (simp add: apply_lease_grant_def)
qed

lemma keep_alive_index:
  assumes "cetcd_lease_keep_alive L wall m i t = (rc, m')" and "lease_index_ok s m"
  shows "lease_index_ok s m'"
proof -
  have "lm_leases m' = lm_leases m \<or>
    (\<exists>l d. lease_by_id m i = Some l \<and> lm_leases m' = update_lease i (\<lambda>_. l\<lparr>l_ttl_seconds := t, l_deadline_ms := d\<rparr>) (lm_leases m))"
    using assms(1) by (auto simp: cetcd_lease_keep_alive_def Let_def split: option.splits prod.splits if_splits)
  then show ?thesis
  proof (elim disjE exE conjE)
    assume "lm_leases m' = lm_leases m"
    then show ?thesis using leases_shrink [OF assms(2), of m' "\<lambda>_. True"] by simp
  next
    fix l d
    assume l: "lease_by_id m i = Some l"
      and m': "lm_leases m' = update_lease i (\<lambda>_. l\<lparr>l_ttl_seconds := t, l_deadline_ms := d\<rparr>) (lm_leases m)"
    have lid: "l_id l = i" using lease_by_id_Some [OF l] by simp
    have j: "lease_by_id m' j = (if i = j then Some (l\<lparr>l_ttl_seconds := t, l_deadline_ms := d\<rparr>) else lease_by_id m j)" for j
      using l lid by (auto simp: lease_by_id_def m' update_lease_find)
    have "cetcd_lease_keys m' j = cetcd_lease_keys m j" "cetcd_lease_exists m' j = cetcd_lease_exists m j" for j
      using l by (auto simp: j cetcd_lease_exists_def cetcd_lease_keys_def)
    moreover have "map l_id (lm_leases m') = map l_id (lm_leases m)" using lid by (simp add: m')
    ultimately show ?thesis using assms(2) by (simp add: lease_index_ok_def)
  qed
qed

lemma apply_lease_keepalive_index:
  assumes "lease_index g"
  shows "lease_index (snd (apply_lease_keepalive L wall i t g))"
proof -
  obtain s m where g: "g_rpc_store g = Some s" "g_rpc_lease_mgr g = Some m" "lease_index_ok s m"
    using assms(1) by (rule lease_indexE)
  obtain r g' where run: "on_leases (\<lambda>m. cetcd_lease_keep_alive L wall m i (sint t)) m g = (r, g')" by (meson surj_pair)
  from on_leasesE [OF g(3) run] obtain m1 m' where m1: "cetcd_lease_keep_alive L wall m1 i (sint t) = (r, m')" "lease_index_ok s m1"
    "lm_leases m1 = lm_leases m" "g_rpc_lease_mgr g' = Some m'" "g_rpc_store g' = g_rpc_store g" .
  have "lease_index g'" using keep_alive_index [OF m1(1,2)] m1(4,5) g(1) by (simp add: lease_index_def)
  then show ?thesis using assms(1) run g(2) by (simp add: apply_lease_keepalive_def)
qed

lemma unsubscribe_fold:
  "mvcc_ok (fold unsubscribe_ctx ws s) = mvcc_ok s \<and> key_lease (fold unsubscribe_ctx ws s) = key_lease s"
proof (induction ws arbitrary: s)
  case (Cons w ws)
  have "mvcc_ok (s\<lparr>ms_stream_watchers := x\<rparr>) = mvcc_ok s" for x by (simp add: mvcc_ok_def index_agrees_def)
  moreover have "key_lease (s\<lparr>ms_stream_watchers := x\<rparr>) = key_lease s" for x by (rule ext) (simp add: key_lease_def cetcd_mvcc_get_def)
  ultimately have "mvcc_ok (unsubscribe_ctx w s) = mvcc_ok s \<and> key_lease (unsubscribe_ctx w s) = key_lease s"
    by (simp add: unsubscribe_ctx_def cetcd_mvcc_watch_unsubscribe_def split: option.split)
  then show ?case using Cons by simp
qed simp

lemma apply_compact_index:
  assumes "lease_index g"
  shows "lease_index (snd (apply_compact L r g))"
proof -
  obtain s m where g: "g_rpc_store g = Some s" "g_rpc_lease_mgr g = Some m" "lease_index_ok s m"
    using assms(1) by (rule lease_indexE)
  then have ok: "mvcc_ok s" by (simp add: lease_index_ok_def)
  obtain rc g' where run: "on_store (\<lambda>s. cetcd_mvcc_compact L s (sint r)) s g = (rc, g')" by (meson surj_pair)
  from on_storeE [OF ok run] obtain s1 s' where s1: "cetcd_mvcc_compact L s1 (sint r) = (rc, s')" "mvcc_ok s1"
    "key_lease s1 = key_lease s" "g_rpc_store g' = Some s'" "g_rpc_lease_mgr g' = g_rpc_lease_mgr g" .
  have ok': "mvcc_ok s'" by (rule mvcc_compact_ok(1) [OF s1(2,1)])
  have "ms_index s' = ms_index s1" using s1(1) by (cases rule: compact_cases) auto
  then have "key_lease s' = key_lease s" using s1(3) ok' s1(2) by (auto simp: key_lease_index fun_eq_iff)
  then have i: "lease_index_ok s' m" by (rule store_same [OF g(3) ok'])
  have i': "lease_index_ok (fold unsubscribe_ctx ws s') m" for ws
    by (rule store_same [OF i]) (use unsubscribe_fold [of ws s'] ok' in simp_all)
  show ?thesis
    using assms run g(1,2) s1(4,5) i i'
    by (auto simp: apply_compact_def cetcd_v3rpc_watch_cancel_compacted_def lease_index_def Let_def)
qed

text \<open>Members, users, roles and alarms leave the store and the leases alone.\<close>

definition same_data :: "'e rpc \<Rightarrow> 'e rpc \<Rightarrow> bool" where
  "same_data g g' \<longleftrightarrow> g_rpc_store g' = g_rpc_store g \<and> g_rpc_lease_mgr g' = g_rpc_lease_mgr g"

lemma same_data_refl [simp]: "same_data g g"
  by (simp add: same_data_def)

lemma same_data_parts [simp]:
  "same_data g (g\<lparr>g_rpc_raft := r\<rparr>)" "same_data g (g\<lparr>g_rpc_auth := a\<rparr>)" "same_data g (g\<lparr>g_be := e\<rparr>)" "same_data g (g\<lparr>g_alarms := as\<rparr>)"
  "same_data g (on_raft f g)" "same_data g (snd (on_cluster f' c g))"
  by (simp_all add: same_data_def on_raft_def on_cluster_def split: option.splits prod.splits)

lemma data_cluster [simp]:
  "g_rpc_store (snd (on_cluster f c g)) = g_rpc_store g" "g_rpc_lease_mgr (snd (on_cluster f c g)) = g_rpc_lease_mgr g"
  "g_rpc_store (on_raft h g) = g_rpc_store g" "g_rpc_lease_mgr (on_raft h g) = g_rpc_lease_mgr g"
  by (simp_all add: on_cluster_def on_raft_def case_prod_beta split: option.split)

lemma data_joint [simp]:
  "g_rpc_store (snd (begin_voter_joint L g)) = g_rpc_store g" "g_rpc_lease_mgr (snd (begin_voter_joint L g)) = g_rpc_lease_mgr g"
  by (simp_all add: begin_voter_joint_def Let_def case_prod_beta split: option.split)

lemma same_data_auth [simp]: "same_data g (snd (auth_done L a g))"
  by (simp add: auth_done_def cetcd_v3rpc_auth_persist_def same_data_def split: option.splits)

lemma same_data_member:
  "same_data g (snd (apply_member_add L p g))" "same_data g (snd (apply_member_remove L i g))"
  "same_data g (snd (apply_member_promote L i g))" "same_data g (snd (apply_member_update L p g))"
  by (simp_all add: same_data_def apply_member_add_def apply_member_remove_def apply_member_promote_def apply_member_update_def
      Let_def case_prod_beta split: option.split)

lemma same_data_users:
  "same_data g (snd (apply_auth_user_add L n h g))" "same_data g (snd (apply_auth_user_delete L n g))"
  "same_data g (snd (apply_auth_role_add L n g))" "same_data g (snd (apply_auth_role_delete L n g))"
  "same_data g (snd (apply_auth_user_grant_role L n q g))" "same_data g (snd (apply_auth_user_revoke_role L n q g))"
  "same_data g (snd (apply_auth_role_grant_perm L n k t e g))" "same_data g (snd (apply_auth_role_revoke_perm L n k e g))"
  "same_data g (snd (apply_auth_user_change_pass L n h g))" "same_data g (snd (apply_auth_enabled L on g))"
  by (simp_all add: apply_auth_user_add_def apply_auth_user_delete_def apply_auth_role_add_def apply_auth_role_delete_def
      apply_auth_user_grant_role_def apply_auth_user_revoke_role_def apply_auth_role_grant_perm_def
      apply_auth_role_revoke_perm_def apply_auth_user_change_pass_def apply_auth_enabled_def Let_def split: option.split prod.split)

lemma same_data_alarm: "same_data g (snd (apply_alarm L a t m g))"
  by (auto simp: apply_alarm_def cetcd_v3rpc_alarm_activate_def cetcd_v3rpc_alarm_deactivate_def alarm_persist_def same_data_def
      split: option.split)

lemma same_data_index: "same_data g g' \<Longrightarrow> lease_index g \<Longrightarrow> lease_index g'"
  by (simp add: same_data_def lease_index_def)

text \<open>
  What an operation needs: a lease is not granted under an identifier that live keys carry, and the
  record of a lease can be deleted when the lease is revoked.
\<close>

definition lease_step_ok :: "('e, 't) lmdb \<Rightarrow> int \<Rightarrow> op \<Rightarrow> 'e rpc \<Rightarrow> bool" where
  "lease_step_ok L wall x g \<longleftrightarrow>
     (case x of
        LeaseGrant i t \<Rightarrow> \<forall>s k. g_rpc_store g = Some s \<longrightarrow> key_lease s k \<noteq> Some i
      | LeaseRevoke i \<Rightarrow> lease_gone i (snd (run_op L wall x g))
      | _ \<Rightarrow> True)"

lemma run_op_index: "lease_index g \<Longrightarrow> lease_step_ok L wall x g \<Longrightarrow> lease_index (snd (run_op L wall x g))"
  by (cases x)
    (simp_all add: lease_step_ok_def apply_put_index apply_delete_index apply_delete_range_index apply_lease_revoke_index
      apply_lease_grant_index apply_lease_keepalive_index apply_compact_index
      same_data_index [OF same_data_member(1)] same_data_index [OF same_data_member(2)] same_data_index [OF same_data_member(3)]
      same_data_index [OF same_data_member(4)] same_data_index [OF same_data_users(1)] same_data_index [OF same_data_users(2)]
      same_data_index [OF same_data_users(3)] same_data_index [OF same_data_users(4)] same_data_index [OF same_data_users(5)]
      same_data_index [OF same_data_users(6)] same_data_index [OF same_data_users(7)] same_data_index [OF same_data_users(8)]
      same_data_index [OF same_data_users(9)] same_data_index [OF same_data_users(10)] same_data_index [OF same_data_alarm])

text \<open>The states of a node that starts with an empty store and applies operations.\<close>

inductive node_reach :: "('e, 't) lmdb \<Rightarrow> 'e rpc \<Rightarrow> bool" for L where
  start: "g_rpc_store g = Some (cetcd_mvcc_store_new\<lparr>ms_backend := be\<rparr>) \<Longrightarrow>
     g_rpc_lease_mgr g = Some ((cetcd_lease_mgr_new cb)\<lparr>lm_backend := be'\<rparr>) \<Longrightarrow> node_reach L g"
| step: "node_reach L g \<Longrightarrow> lease_step_ok L wall x g \<Longrightarrow> node_reach L (snd (run_op L wall x g))"

lemma no_lease_new: "key_lease cetcd_mvcc_store_new k = None"
  by (simp add: key_lease_index [OF mvcc_ok_new]) (simp add: cetcd_mvcc_store_new_def ti.get_empty)

lemma node_reach_index: "node_reach L g \<Longrightarrow> lease_index g"
proof (induction rule: node_reach.induct)
  case (start g be cb be')
  then show ?case
    by (simp add: mvcc_ok_new no_lease_new lease_index_def lease_index_ok_def cetcd_lease_mgr_new_def cetcd_lease_exists_def cetcd_lease_keys_def lease_by_id_def)
next
  case (step g wall x)
  then show ?case by (simp add: run_op_index)
qed

text \<open>
  C36. The keys of a lease are exactly the live keys last written with it. In every state a node reaches
  from an empty store by applying operations of which no one grants a lease under an identifier that live keys already
  carry, and every revocation gets to delete the record of its lease, a key is attached to an existing lease
  if and only if its current value carries the identifier of that lease, and it is attached once.
\<close>

theorem lease_keys_exact:
  assumes "node_reach L g" and "g_rpc_store g = Some s" and "g_rpc_lease_mgr g = Some m" and "cetcd_lease_exists m i"
  shows "(k \<in> set (cetcd_lease_keys m i) \<longleftrightarrow>
       (\<exists>kv. cetcd_mvcc_get s 0 k = (CETCD_OK, Some kv) \<and> 0 < kv_lease_id kv \<and> word_of_int (kv_lease_id kv) = i)) \<and>
     distinct (cetcd_lease_keys m i)"
proof -
  have "lease_index_ok s m" using node_reach_index [OF assms(1)] assms(2,3) by (simp add: lease_index_def)
  then show ?thesis using assms(4) by (auto simp: lease_index_ok_def key_lease_def split: prod.splits option.splits if_splits)
qed

text \<open>
  C37. The revocation of a lease deletes its keys and nothing else: in every such state (reached
  from an empty store without granting a lease whose identifier live keys carry and with every revocation deleting the record
  of its lease), applying it
  leaves every key that carries another lease or none as it was and removes every key that carries this one,
  all at once; or the write transaction of the deletion failed in the database, and then no key changes.
\<close>

theorem lease_revoke_exact:
  assumes "node_reach L g" and "g_rpc_store g = Some s" and "g_rpc_lease_mgr g = Some m" and "cetcd_lease_exists m i" and "i \<noteq> 0"
    and "apply_lease_revoke L i g = (ok, g')"
  shows "\<exists>s'. g_rpc_store g' = Some s' \<and>
     ((\<forall>k. cetcd_mvcc_get s' 0 k = (if key_lease s k = Some i then (CETCD_ERR_NOTFOUND, None) else cetcd_mvcc_get s 0 k)) \<or>
      (ms_backend s \<noteq> None \<and> fst (cetcd_backend_del_n L (g_be g) MVCC_BUCKET_KEY (cetcd_lease_keys m i) MVCC_BUCKET_META MVCC_META_REV (write_le64 (word_of_int (ms_main_rev s + 1)))) \<noteq> CETCD_OK \<and>
       (\<forall>k. cetcd_mvcc_get s' 0 k = cetcd_mvcc_get s 0 k)))"
proof -
  have ix: "lease_index_ok s m" using node_reach_index [OF assms(1)] assms(2,3) by (simp add: lease_index_def)
  then have ok: "mvcc_ok s" and k: "\<And>k. k \<in> set (cetcd_lease_keys m i) \<longleftrightarrow> key_lease s k = Some i"
    using assms(4) by (simp_all add: lease_index_ok_def)
  let ?g = "revoke_deletes L (cetcd_lease_keys m i) g"
  obtain s' where s': "g_rpc_store ?g = Some s'" "mvcc_ok s'" "g_rpc_lease_mgr ?g = Some m"
    "cetcd_treap_get (ms_index s') = (\<lambda>k. if k \<in> set (cetcd_lease_keys m i) then None else cetcd_treap_get (ms_index s) k) \<or>
     (ms_index s' = ms_index s \<and> ms_backend s \<noteq> None \<and> fst (cetcd_backend_del_n L (g_be g) MVCC_BUCKET_KEY (cetcd_lease_keys m i) MVCC_BUCKET_META MVCC_META_REV (write_le64 (word_of_int (ms_main_rev s + 1)))) \<noteq> CETCD_OK)"
    by (rule revoke_deletes_effect [OF assms(2,3) ix])
  have "g_rpc_store g' = Some s'"
    using assms(3,5,6) s'(1) by (auto simp: apply_lease_revoke_unfold on_leases_def split: prod.splits)
  then show ?thesis
    using s'(4) by (auto simp: get_current [OF ok] get_current [OF s'(2)] k)
qed

section \<open>A node in memory\<close>

definition node0 :: "mem_env rpc" where
  "node0 = \<lparr>g_rpc_store = Some cetcd_mvcc_store_new, g_rpc_lease_mgr = Some (cetcd_lease_mgr_new True), g_rpc_raft = None,
     g_rpc_cluster = None, g_rpc_auth = None, g_rpc_auth_backend = False, g_be = (\<lambda>_. None), g_alarms = replicate MAX_ALARMS no_alarm,
     g_stream_watchers = [], g_cancels = [], g_rpc_quota_bytes = 0, g_rpc_node_id = 1\<rparr>"

definition node1 :: "mem_env rpc" where
  "node1 = snd (run_op mem_lmdb 0 (LeaseGrant 7 60) node0)"

definition node2 :: "mem_env rpc" where
  "node2 = snd (run_op mem_lmdb 0 (Put [1] [2] 7) node1)"

lemma node2_reach: "node_reach mem_lmdb node2"
proof -
  have "node_reach mem_lmdb node0"
    by (rule node_reach.start [where be = None and cb = True and be' = None])
      (simp_all add: node0_def cetcd_mvcc_store_new_def cetcd_lease_mgr_new_def)
  then have "node_reach mem_lmdb node1"
    unfolding node1_def by (rule node_reach.step) (simp add: lease_step_ok_def node0_def no_lease_new)
  then show ?thesis unfolding node2_def by (rule node_reach.step) (simp add: lease_step_ok_def)
qed

lemma node2_leases: "g_rpc_store node2 \<noteq> None" "g_rpc_lease_mgr node2 \<noteq> None"
  "cetcd_lease_exists (the (g_rpc_lease_mgr node2)) 7"
  "cetcd_mvcc_get (the (g_rpc_store node2)) 0 [1] = (CETCD_OK, Some \<lparr>kv_key = [1], kv_value = [2], kv_create_rev = \<lparr>rev_main = 1, rev_sub = 0\<rparr>,
      kv_mod_rev = \<lparr>rev_main = 1, rev_sub = 0\<rparr>, kv_version = 1, kv_lease_id = 7\<rparr>)"
  by code_simp+

theorem lease_keys_exact_witness: "[1] \<in> set (cetcd_lease_keys (the (g_rpc_lease_mgr node2)) 7)"
  using lease_keys_exact [OF node2_reach _ _ node2_leases(3), of "the (g_rpc_store node2)" "[1]"] node2_leases(1,2,4) by auto

theorem lease_revoke_exact_witness:
  "\<exists>s'. g_rpc_store (snd (apply_lease_revoke mem_lmdb 7 node2)) = Some s' \<and> cetcd_mvcc_get s' 0 [1] = (CETCD_ERR_NOTFOUND, None)"
proof -
  let ?s = "the (g_rpc_store node2)"
  have b: "ms_backend ?s = None" by code_simp
  have k: "key_lease ?s [1] = Some 7" by (simp add: key_lease_def node2_leases(4))
  have "\<exists>s'. g_rpc_store (snd (apply_lease_revoke mem_lmdb 7 node2)) = Some s' \<and>
     ((\<forall>k. cetcd_mvcc_get s' 0 k = (if key_lease ?s k = Some 7 then (CETCD_ERR_NOTFOUND, None) else cetcd_mvcc_get ?s 0 k)) \<or>
      (ms_backend ?s \<noteq> None \<and> fst (cetcd_backend_del_n mem_lmdb (g_be node2) MVCC_BUCKET_KEY (cetcd_lease_keys (the (g_rpc_lease_mgr node2)) 7)
         MVCC_BUCKET_META MVCC_META_REV (write_le64 (word_of_int (ms_main_rev ?s + 1)))) \<noteq> CETCD_OK \<and>
       (\<forall>k. cetcd_mvcc_get s' 0 k = cetcd_mvcc_get ?s 0 k)))"
    by (rule lease_revoke_exact [OF node2_reach _ _ node2_leases(3)])
      (use node2_leases(1,2) in \<open>auto simp: prod_eq_iff\<close>)
  then show ?thesis using b k by auto
qed

end
