(* ===== verification/Kv_Request.thy ===== *)
theory Kv_Request
  imports Apply_Props
begin

unbundle bit_operations_syntax

text \<open>
  The requests of the key-value service as \<^verbatim>\<open>src/v3rpc/kv_handler.c\<close> reads them, and their permission
  check. A request is a message of protocol buffers: fields of a tag and a varint or a length and
  bytes. A position is a 64-bit word, and the code compares \<^verbatim>\<open>p + skip > len\<close> in that arithmetic.

  The parsers of the handlers are the same loop over different fields, written out in each; here the
  loop is \<open>parse_fields\<close>, with the fields as an argument. Its result is \<open>None\<close> when the code has no result
  because the loop never ends, \<open>Some None\<close> when it is -1. An allocation of 2^63 bytes or more fails.
\<close>

section \<open>Fields\<close>

definition varint_at :: "bytes \<Rightarrow> u64 \<Rightarrow> (u64 \<times> u64) option" where
  "varint_at buf p =
     (case read_varint (drop (unat p) buf) of
        None \<Rightarrow> None | Some (v, rest) \<Rightarrow> Some (v, of_nat (length buf - length rest)))"

text \<open>The start, the length and the end of a payload.\<close>

definition ldelim_at :: "bytes \<Rightarrow> u64 \<Rightarrow> (u64 \<times> u64 \<times> u64) option" where
  "ldelim_at buf p =
     (case varint_at buf p of
        None \<Rightarrow> None
      | Some (n, p) \<Rightarrow> if p + n > of_nat (length buf) then None else Some (p, n, p + n))"

definition skip_unknown_at :: "bytes \<Rightarrow> u64 \<Rightarrow> byte \<Rightarrow> u64 option" where
  "skip_unknown_at buf p tag =
     (if tag AND 7 = 0 then map_option snd (varint_at buf p)
      else if tag AND 7 = 2 then map_option (\<lambda>(_, _, p). p) (ldelim_at buf p)
      else None)"

definition payload :: "bytes \<Rightarrow> u64 \<Rightarrow> u64 \<Rightarrow> bytes" where
  "payload buf p n = take (unat n) (drop (unat p) buf)"

text \<open>What a parser does with the fields it knows.\<close>

record 's pb_fields =
  bytes_tag :: "byte \<Rightarrow> bool"
  num_tag :: "byte \<Rightarrow> bool"
  set_bytes :: "byte \<Rightarrow> bytes \<Rightarrow> 's \<Rightarrow> 's"
  set_num :: "byte \<Rightarrow> u64 \<Rightarrow> 's \<Rightarrow> 's option"

text \<open>One round of the loop: it leaves the loop with a result, or goes on at a position.\<close>

definition parse_step :: "'s pb_fields \<Rightarrow> bytes \<Rightarrow> u64 \<Rightarrow> 's \<Rightarrow> 's option + u64 \<times> 's" where
  "parse_step F req p s =
     (if \<not> p < of_nat (length req) then Inl (Some s)
      else
        let tag = req ! unat p; p = p + 1 in
        if tag = 0 then Inr (p, s)
        else if bytes_tag F tag then
          (case ldelim_at req p of
             None \<Rightarrow> Inl None
           | Some (p, skip, p') \<Rightarrow>
               if skip = 0 then Inr (p, set_bytes F tag [] s)
               else if skip \<ge> 2 ^ 63 then Inl None
               else Inr (p', set_bytes F tag (payload req p skip) s))
        else if num_tag F tag then
          (case varint_at req p of
             None \<Rightarrow> Inl None
           | Some (v, p) \<Rightarrow> (case set_num F tag v s of None \<Rightarrow> Inl None | Some s \<Rightarrow> Inr (p, s)))
        else (case skip_unknown_at req p tag of None \<Rightarrow> Inl None | Some p \<Rightarrow> Inr (p, s)))"

partial_function (option) parse_fields :: "'s pb_fields \<Rightarrow> bytes \<Rightarrow> u64 \<Rightarrow> 's \<Rightarrow> 's option option" where
  "parse_fields F req p s =
     (case parse_step F req p s of Inl r \<Rightarrow> Some r | Inr q \<Rightarrow> parse_fields F req (fst q) (snd q))"

section \<open>Requests\<close>

record put_request =
  pr_key :: bytes
  pr_value :: bytes
  pr_lease :: int
  pr_prev_kv :: bool
  pr_ignore_value :: bool
  pr_ignore_lease :: bool

definition INT64_MAX :: u64 where "INT64_MAX = 0x7FFFFFFFFFFFFFFF"

definition key_or_second :: "byte \<Rightarrow> bool" where
  "key_or_second tag \<longleftrightarrow> tag = 0x0A \<or> tag = 0x12"

definition put_num :: "byte \<Rightarrow> bool" where
  "put_num tag \<longleftrightarrow> tag = 0x18 \<or> tag = 0x20 \<or> tag = 0x28 \<or> tag = 0x30"

definition put_set_bytes :: "byte \<Rightarrow> bytes \<Rightarrow> put_request \<Rightarrow> put_request" where
  "put_set_bytes tag bs r = (if tag = 0x0A then r\<lparr>pr_key := bs\<rparr> else r\<lparr>pr_value := bs\<rparr>)"

definition put_set_num :: "byte \<Rightarrow> u64 \<Rightarrow> put_request \<Rightarrow> put_request option" where
  "put_set_num tag v r =
     (if v > INT64_MAX then None
      else if tag = 0x18 then Some (r\<lparr>pr_lease := sint v\<rparr>)
      else if tag = 0x20 then Some (r\<lparr>pr_prev_kv := (v \<noteq> 0)\<rparr>)
      else if tag = 0x28 then Some (r\<lparr>pr_ignore_value := (v \<noteq> 0)\<rparr>)
      else Some (r\<lparr>pr_ignore_lease := (v \<noteq> 0)\<rparr>))"

definition put_request0 :: put_request where
  "put_request0 = \<lparr>pr_key = [], pr_value = [], pr_lease = 0, pr_prev_kv = False, pr_ignore_value = False, pr_ignore_lease = False\<rparr>"

definition put_fields :: "put_request pb_fields" where
  "put_fields = \<lparr>bytes_tag = key_or_second, num_tag = put_num, set_bytes = put_set_bytes, set_num = put_set_num\<rparr>"

definition parse_put_request :: "bytes \<Rightarrow> put_request option option" where
  "parse_put_request req = parse_fields put_fields req 0 put_request0"

record range_request =
  rr_key :: bytes
  rr_range_end :: bytes
  rr_rev :: int
  rr_limit :: int
  rr_sort_order :: int
  rr_sort_target :: int
  rr_serializable :: bool
  rr_keys_only :: bool
  rr_count_only :: bool
  rr_min_mod_rev :: int
  rr_max_mod_rev :: int
  rr_min_create_rev :: int
  rr_max_create_rev :: int

definition range_num :: "byte \<Rightarrow> bool" where
  "range_num tag \<longleftrightarrow> tag = 0x18 \<or> tag = 0x20 \<or> tag = 0x28 \<or> tag = 0x30 \<or> tag = 0x38 \<or> tag = 0x40 \<or>
     tag = 0x48 \<or> tag = 0x50 \<or> tag = 0x58 \<or> tag = 0x60 \<or> tag = 0x68"

definition range_set_bytes :: "byte \<Rightarrow> bytes \<Rightarrow> range_request \<Rightarrow> range_request" where
  "range_set_bytes tag bs r = (if tag = 0x0A then r\<lparr>rr_key := bs\<rparr> else r\<lparr>rr_range_end := bs\<rparr>)"

definition to_int32 :: "u64 \<Rightarrow> int" where
  "to_int32 v = sint (ucast v :: u32)"

definition range_set_num :: "byte \<Rightarrow> u64 \<Rightarrow> range_request \<Rightarrow> range_request option" where
  "range_set_num tag v r =
     (if v > INT64_MAX then None
      else if tag = 0x18 then Some (r\<lparr>rr_limit := sint v\<rparr>)
      else if tag = 0x20 then Some (r\<lparr>rr_rev := sint v\<rparr>)
      else if tag = 0x28 then Some (r\<lparr>rr_sort_order := to_int32 v\<rparr>)
      else if tag = 0x30 then Some (r\<lparr>rr_sort_target := to_int32 v\<rparr>)
      else if tag = 0x38 then Some (r\<lparr>rr_serializable := (v \<noteq> 0)\<rparr>)
      else if tag = 0x40 then Some (r\<lparr>rr_keys_only := (v \<noteq> 0)\<rparr>)
      else if tag = 0x48 then Some (r\<lparr>rr_count_only := (v \<noteq> 0)\<rparr>)
      else if tag = 0x50 then Some (r\<lparr>rr_min_mod_rev := sint v\<rparr>)
      else if tag = 0x58 then Some (r\<lparr>rr_max_mod_rev := sint v\<rparr>)
      else if tag = 0x60 then Some (r\<lparr>rr_min_create_rev := sint v\<rparr>)
      else Some (r\<lparr>rr_max_create_rev := sint v\<rparr>))"

definition range_request0 :: range_request where
  "range_request0 = \<lparr>rr_key = [], rr_range_end = [], rr_rev = 0, rr_limit = 0, rr_sort_order = 0, rr_sort_target = 0,
     rr_serializable = False, rr_keys_only = False, rr_count_only = False, rr_min_mod_rev = 0, rr_max_mod_rev = 0,
     rr_min_create_rev = 0, rr_max_create_rev = 0\<rparr>"

definition range_fields :: "range_request pb_fields" where
  "range_fields = \<lparr>bytes_tag = key_or_second, num_tag = range_num, set_bytes = range_set_bytes, set_num = range_set_num\<rparr>"

definition parse_range_request :: "bytes \<Rightarrow> range_request option option" where
  "parse_range_request req = parse_fields range_fields req 0 range_request0"

record delete_range_request =
  dr_key :: bytes
  dr_range_end :: bytes
  dr_prev_kv :: bool

definition delete_set_bytes :: "byte \<Rightarrow> bytes \<Rightarrow> delete_range_request \<Rightarrow> delete_range_request" where
  "delete_set_bytes tag bs r = (if tag = 0x0A then r\<lparr>dr_key := bs\<rparr> else r\<lparr>dr_range_end := bs\<rparr>)"

definition delete_fields :: "delete_range_request pb_fields" where
  "delete_fields = \<lparr>bytes_tag = key_or_second, num_tag = (\<lambda>tag. tag = 0x18), set_bytes = delete_set_bytes,
     set_num = (\<lambda>tag v r. Some (r\<lparr>dr_prev_kv := (v \<noteq> 0)\<rparr>))\<rparr>"

definition delete_range_request0 :: delete_range_request where
  "delete_range_request0 = \<lparr>dr_key = [], dr_range_end = [], dr_prev_kv = False\<rparr>"

definition parse_delete_range_request :: "bytes \<Rightarrow> delete_range_request option option" where
  "parse_delete_range_request req = parse_fields delete_fields req 0 delete_range_request0"

definition compact_set_num :: "byte \<Rightarrow> u64 \<Rightarrow> int \<times> bool \<Rightarrow> (int \<times> bool) option" where
  "compact_set_num tag v r =
     (if tag = 0x08 then if v > INT64_MAX then None else Some (sint v, snd r) else Some (fst r, v \<noteq> 0))"

definition compact_fields :: "(int \<times> bool) pb_fields" where
  "compact_fields = \<lparr>bytes_tag = (\<lambda>_. False), num_tag = (\<lambda>tag. tag = 0x08 \<or> tag = 0x10), set_bytes = (\<lambda>_ _ r. r),
     set_num = compact_set_num\<rparr>"

definition parse_compact_request :: "bytes \<Rightarrow> (int \<times> bool) option option" where
  "parse_compact_request req = parse_fields compact_fields req 0 (0, False)"

record txn_compare =
  tc_key :: bytes
  tc_range_end :: bytes
  tc_result :: int
  tc_target :: int
  tc_version :: int
  tc_create_revision :: int
  tc_mod_revision :: int
  tc_value :: bytes
  tc_lease :: int

definition compare_set_bytes :: "byte \<Rightarrow> bytes \<Rightarrow> txn_compare \<Rightarrow> txn_compare" where
  "compare_set_bytes tag bs c =
     (if tag = 0x1A then c\<lparr>tc_key := bs\<rparr> else if tag = 0x3A then c\<lparr>tc_value := bs\<rparr> else c\<lparr>tc_range_end := bs\<rparr>)"

definition compare_set_num :: "byte \<Rightarrow> u64 \<Rightarrow> txn_compare \<Rightarrow> txn_compare option" where
  "compare_set_num tag v c = Some
     (if tag = 0x08 then c\<lparr>tc_result := to_int32 v\<rparr>
      else if tag = 0x10 then c\<lparr>tc_target := to_int32 v\<rparr>
      else if tag = 0x20 then c\<lparr>tc_version := sint v\<rparr>
      else if tag = 0x28 then c\<lparr>tc_create_revision := sint v\<rparr>
      else if tag = 0x30 then c\<lparr>tc_mod_revision := sint v\<rparr>
      else c\<lparr>tc_lease := sint v\<rparr>)"

definition compare_fields :: "txn_compare pb_fields" where
  "compare_fields = \<lparr>bytes_tag = (\<lambda>tag. tag = 0x1A \<or> tag = 0x3A \<or> tag = 0x4A),
     num_tag = (\<lambda>tag. tag = 0x08 \<or> tag = 0x10 \<or> tag = 0x20 \<or> tag = 0x28 \<or> tag = 0x30 \<or> tag = 0x40),
     set_bytes = compare_set_bytes, set_num = compare_set_num\<rparr>"

definition txn_compare0 :: txn_compare where
  "txn_compare0 =
     \<lparr>tc_key = [], tc_range_end = [], tc_result = 0, tc_target = 0, tc_version = 0, tc_create_revision = 0,
      tc_mod_revision = 0, tc_value = [], tc_lease = 0\<rparr>"

definition parse_txn_compare :: "bytes \<Rightarrow> txn_compare option option" where
  "parse_txn_compare req = parse_fields compare_fields req 0 txn_compare0"

section \<open>Permissions\<close>

definition cetcd_v3rpc_check_key_perm :: "cetcd_auth_store option \<Rightarrow> bytes option \<Rightarrow> bool \<Rightarrow> bytes option \<Rightarrow> bool" where
  "cetcd_v3rpc_check_key_perm auth user want_write key =
     (case auth of
        None \<Rightarrow> True
      | Some a \<Rightarrow>
          if \<not> cetcd_auth_is_enabled a then True
          else case user of None \<Rightarrow> False | Some u \<Rightarrow>
            (case key of None \<Rightarrow> False | Some k \<Rightarrow> cetcd_auth_check_perm a u k want_write))"

text \<open>
  The check of the operations of a transaction looks for the key in the bytes of the request, before they
  are parsed. \<open>chk\<close> is \<open>cetcd_v3rpc_check_key_perm\<close>; the result is \<open>None\<close> when the loop never ends or
  a payload reaches outside the bytes it is declared in, which a length of 2^63 or more can do.
\<close>

definition inside :: "bytes \<Rightarrow> u64 \<Rightarrow> u64 \<Rightarrow> bytes option" where
  "inside buf p n = (if unat p + unat n \<le> length buf then Some (payload buf p n) else None)"

partial_function (option) op_key_perm :: "(bool \<Rightarrow> bytes option \<Rightarrow> bool) \<Rightarrow> bool \<Rightarrow> bytes \<Rightarrow> u64 \<Rightarrow> bool option" where
  "op_key_perm chk want_write pl ip =
     (if \<not> ip < of_nat (length pl) then Some (chk want_write None)
      else if pl ! unat ip = 0 then op_key_perm chk want_write pl (ip + 1)
      else if pl ! unat ip = 0x0A then
        (case ldelim_at pl (ip + 1) of
           None \<Rightarrow> Some False
         | Some q \<Rightarrow> map_option (\<lambda>key. chk want_write (Some key)) (inside pl (fst q) (fst (snd q))))
      else case skip_unknown_at pl (ip + 1) (pl ! unat ip) of
          None \<Rightarrow> Some False
        | Some ip \<Rightarrow> op_key_perm chk want_write pl ip)"

text \<open>\<open>nested\<close> checks the request of a nested transaction.\<close>

partial_function (option) op_perm ::
  "(bool \<Rightarrow> bytes option \<Rightarrow> bool) \<Rightarrow> (bytes \<Rightarrow> bool option) \<Rightarrow> bytes \<Rightarrow> u64 \<Rightarrow> bool option" where
  "op_perm chk nested op pos =
     (if \<not> pos < of_nat (length op) then Some True
      else if op ! unat pos = 0 then op_perm chk nested op (pos + 1)
      else if op ! unat pos = 0x0A \<or> op ! unat pos = 0x12 \<or> op ! unat pos = 0x1A \<or> op ! unat pos = 0x22 then
        (case ldelim_at op (pos + 1) of
           None \<Rightarrow> Some False
         | Some q \<Rightarrow>
             (case inside op (fst q) (fst (snd q)) of
                None \<Rightarrow> None
              | Some pl \<Rightarrow> if op ! unat pos = 0x22 then nested pl else op_key_perm chk (op ! unat pos \<noteq> 0x0A) pl 0))
      else case skip_unknown_at op (pos + 1) (op ! unat pos) of
          None \<Rightarrow> Some False
        | Some pos \<Rightarrow> op_perm chk nested op pos)"

partial_function (option) compare_perm :: "(bool \<Rightarrow> bytes option \<Rightarrow> bool) \<Rightarrow> bytes \<Rightarrow> u64 \<Rightarrow> bool option" where
  "compare_perm chk cmp ip =
     (if \<not> ip < of_nat (length cmp) then Some True
      else if cmp ! unat ip = 0 then compare_perm chk cmp (ip + 1)
      else if cmp ! unat ip = 0x1A then
        (case ldelim_at cmp (ip + 1) of
           None \<Rightarrow> Some False
         | Some q \<Rightarrow>
             (case inside cmp (fst q) (fst (snd q)) of
                None \<Rightarrow> None
              | Some key \<Rightarrow> if \<not> chk False (Some key) then Some False else compare_perm chk cmp (snd (snd q))))
      else case skip_unknown_at cmp (ip + 1) (cmp ! unat ip) of
          None \<Rightarrow> Some False
        | Some ip \<Rightarrow> compare_perm chk cmp ip)"

partial_function (option) request_perm ::
  "(bool \<Rightarrow> bytes option \<Rightarrow> bool) \<Rightarrow> (bytes \<Rightarrow> bool option) \<Rightarrow> bytes \<Rightarrow> u64 \<Rightarrow> bool option" where
  "request_perm chk nested req pos =
     (if \<not> pos < of_nat (length req) then Some True
      else if req ! unat pos = 0 then request_perm chk nested req (pos + 1)
      else if req ! unat pos = 0x0A \<or> req ! unat pos = 0x12 \<or> req ! unat pos = 0x1A then
        (case ldelim_at req (pos + 1) of
           None \<Rightarrow> Some False
         | Some q \<Rightarrow>
             (case inside req (fst q) (fst (snd q)) of
                None \<Rightarrow> None
              | Some pl \<Rightarrow>
                  (case (if req ! unat pos = 0x0A then compare_perm chk pl 0 else op_perm chk nested pl 0) of
                     None \<Rightarrow> None
                   | Some ok \<Rightarrow> if \<not> ok then Some False else request_perm chk nested req (snd (snd q)))))
      else case skip_unknown_at req (pos + 1) (req ! unat pos) of
          None \<Rightarrow> Some False
        | Some pos \<Rightarrow> request_perm chk nested req pos)"

definition TXN_MAX_DEPTH :: nat where "TXN_MAX_DEPTH = 16"

text \<open>\<open>d\<close> is the depth that remains, \<^verbatim>\<open>TXN_MAX_DEPTH - g_txn_depth\<close>.\<close>

fun txn_request_check_perm :: "(bool \<Rightarrow> bytes option \<Rightarrow> bool) \<Rightarrow> nat \<Rightarrow> bytes \<Rightarrow> bool option" where
  "txn_request_check_perm chk 0 req = Some False"
| "txn_request_check_perm chk (Suc d) req =
     request_perm chk (if d = 0 then \<lambda>_. Some False else txn_request_check_perm chk d) req 0"

definition txn_op_check_perm :: "(bool \<Rightarrow> bytes option \<Rightarrow> bool) \<Rightarrow> nat \<Rightarrow> bytes \<Rightarrow> bool option" where
  "txn_op_check_perm chk d op =
     (if op = [] then Some True
      else op_perm chk (if d \<le> 1 then \<lambda>_. Some False else txn_request_check_perm chk (d - 1)) op 0)"

end
