(* ===== verification/Kv_Request_Props.thy ===== *)
theory Kv_Request_Props
  imports Kv_Request
begin

unbundle bit_operations_syntax

text \<open>
  What the parsers of the key-value requests do with well-formed messages, and what a malformed length
  and a repeated key do to them.
\<close>

section \<open>Well-formed messages\<close>

datatype pb_field = Bytes byte bytes | Num byte u64

fun encode_field :: "pb_field \<Rightarrow> bytes" where
  "encode_field (Bytes tag bs) = tag # varint (of_nat (length bs) :: u64) @ bs"
| "encode_field (Num tag v) = tag # varint v"

definition message :: "pb_field list \<Rightarrow> bytes" where
  "message fs = concat (map encode_field fs)"

fun field_ok :: "'s pb_fields \<Rightarrow> pb_field \<Rightarrow> bool" where
  "field_ok F (Bytes tag bs) \<longleftrightarrow> tag \<noteq> 0 \<and> (bytes_tag F tag \<or> \<not> num_tag F tag \<and> tag AND 7 = 2)"
| "field_ok F (Num tag v) \<longleftrightarrow> tag \<noteq> 0 \<and> \<not> bytes_tag F tag \<and> (num_tag F tag \<or> tag AND 7 = 0)"

fun field_effect :: "'s pb_fields \<Rightarrow> pb_field \<Rightarrow> 's \<Rightarrow> 's option" where
  "field_effect F (Bytes tag bs) s = Some (if bytes_tag F tag then set_bytes F tag bs s else s)"
| "field_effect F (Num tag v) s = (if num_tag F tag then set_num F tag v s else Some s)"

fun fields_effect :: "'s pb_fields \<Rightarrow> pb_field list \<Rightarrow> 's \<Rightarrow> 's option" where
  "fields_effect F [] s = Some s"
| "fields_effect F (f # fs) s = (case field_effect F f s of None \<Rightarrow> None | Some s \<Rightarrow> fields_effect F fs s)"

lemma unat_small: "n < 2 ^ 63 \<Longrightarrow> unat (of_nat n :: u64) = n"
  by (simp add: unat_of_nat take_bit_nat_eq_self)

lemma varint_at_append:
  assumes "length buf < 2 ^ 63" and "buf = pre @ varint v @ rest" and "p = of_nat (length pre)"
  shows "varint_at buf p = Some (v, of_nat (length pre + length (varint v)))"
proof -
  have "unat p = length pre" using assms by (simp add: unat_small)
  then show ?thesis by (simp add: varint_at_def assms(2) codec_simps)
qed

lemma ldelim_at_append:
  assumes "length buf < 2 ^ 63" and "buf = pre @ varint (of_nat (length bs) :: u64) @ bs @ rest" and "p = of_nat (length pre)"
  shows "ldelim_at buf p = Some (of_nat (length pre + length (varint (of_nat (length bs) :: u64))), of_nat (length bs),
    of_nat (length pre + length (varint (of_nat (length bs) :: u64)) + length bs))"
proof -
  let ?q = "length pre + length (varint (of_nat (length bs) :: u64))"
  have v: "varint_at buf p = Some (of_nat (length bs), of_nat ?q)"
    by (rule varint_at_append [OF assms(1) _ assms(3)]) (simp add: assms(2))
  have le: "?q + length bs \<le> length buf" by (simp add: assms(2))
  have "(of_nat ?q :: u64) + of_nat (length bs) = of_nat (?q + length bs)" by simp
  moreover have "\<not> (of_nat (?q + length bs) :: u64) > of_nat (length buf)"
    using le assms(1) unat_small [of "?q + length bs"] unat_small [OF assms(1)] by (simp only: word_less_nat_alt)
  ultimately show ?thesis using v by (simp add: ldelim_at_def)
qed

lemma parse_step_field:
  assumes "length buf < 2 ^ 63" and "buf = pre @ encode_field f @ rest" and "p = of_nat (length pre)" and "field_ok F f"
  shows "parse_step F buf p s =
    (case field_effect F f s of None \<Rightarrow> Inl None | Some s \<Rightarrow> Inr (of_nat (length pre + length (encode_field f)), s))"
proof -
  have up: "unat p = length pre" using assms(1-3) by (simp add: unat_small)
  have lt: "p < of_nat (length buf)"
    using up assms(1,2) unat_small [OF assms(1)] by (cases f) (simp_all add: word_less_nat_alt)
  have p1: "p + 1 = of_nat (length pre + 1)" by (simp add: assms(3))
  show ?thesis
  proof (cases f)
    case (Bytes tag bs)
    have tag: "buf ! unat p = tag" using up assms(2) Bytes by simp
    note l = ldelim_at_append [OF assms(1), of "pre @ [tag]" bs rest "p + 1"]
    have n: "unat (of_nat (length bs) :: u64) = length bs" using assms(1,2) Bytes by (simp add: unat_small)
    have q: "unat (of_nat (length pre + 1 + length (varint (of_nat (length bs) :: u64))) :: u64) =
        length pre + 1 + length (varint (of_nat (length bs) :: u64))"
      by (rule unat_small) (use assms(1,2) Bytes in simp)
    have z: "(of_nat (length bs) :: u64) = 0 \<longleftrightarrow> bs = []" using n by (auto dest: arg_cong [where f = unat])
    have big: "\<not> (of_nat (length bs) :: u64) \<ge> 2 ^ 63" using n assms(1,2) Bytes by (simp add: word_le_nat_alt)
    have l: "ldelim_at buf (p + 1) = Some (of_nat (length pre + 1 + length (varint (of_nat (length bs) :: u64))), of_nat (length bs),
        of_nat (length pre + length (encode_field f)))"
      using l assms(2) Bytes p1 by (simp add: add.assoc add.commute)
    have pl: "payload buf (of_nat (length pre + 1 + length (varint (of_nat (length bs) :: u64)))) (of_nat (length bs)) = bs"
      unfolding payload_def q n using assms(2) Bytes by simp
    show ?thesis
    proof (cases "bytes_tag F tag")
      case True
      have "parse_step F buf p s = Inr (of_nat (length pre + length (encode_field f)), set_bytes F tag bs s)"
        using assms(4) Bytes lt tag l z big pl True by (auto simp: parse_step_def Let_def simp del: of_nat_add of_nat_Suc)
      then show ?thesis using Bytes True by simp
    next
      case False
      then have "\<not> num_tag F tag" "tag AND 7 = 2" "tag \<noteq> 0" using assms(4) Bytes by auto
      then have "parse_step F buf p s = Inr (of_nat (length pre + length (encode_field f)), s)"
        using lt tag l False by (simp add: parse_step_def skip_unknown_at_def Let_def del: of_nat_add of_nat_Suc)
      then show ?thesis using Bytes False by simp
    qed
  next
    case (Num tag v)
    have tag: "buf ! unat p = tag" using up assms(2) Num by simp
    have v: "varint_at buf (p + 1) = Some (v, of_nat (length pre + length (encode_field f)))"
      using varint_at_append [OF assms(1), of "pre @ [tag]" v rest "p + 1"] assms(2) Num p1 by (simp add: add.assoc add.commute)
    show ?thesis
      using assms(4) Num lt tag v by (auto simp: parse_step_def skip_unknown_at_def Let_def split: option.split)
  qed
qed

lemma parse_fields_message:
  assumes "length (pre @ message fs) < 2 ^ 63" and "\<forall>f \<in> set fs. field_ok F f" and "p = of_nat (length pre)"
  shows "parse_fields F (pre @ message fs) p s = Some (fields_effect F fs s)"
  using assms
proof (induction fs arbitrary: pre p s)
  case Nil
  then show ?case
    by (subst parse_fields.simps) (simp add: parse_step_def message_def)
next
  case (Cons f fs)
  have st: "parse_step F (pre @ message (f # fs)) p s =
      (case field_effect F f s of None \<Rightarrow> Inl None | Some s \<Rightarrow> Inr (of_nat (length pre + length (encode_field f)), s))"
    by (rule parse_step_field [OF Cons.prems(1) _ Cons.prems(3)]) (use Cons.prems(2) in \<open>simp_all add: message_def\<close>)
  have ih: "parse_fields F ((pre @ encode_field f) @ message fs) (of_nat (length (pre @ encode_field f))) s' = Some (fields_effect F fs s')" for s'
    by (rule Cons.IH) (use Cons.prems in \<open>simp_all add: message_def\<close>)
  show ?case
    using st ih by (subst parse_fields.simps) (simp add: message_def split: option.split)
qed

lemma parse_message:
  assumes "length (message fs) < 2 ^ 63" and "\<forall>f \<in> set fs. field_ok F f"
  shows "parse_fields F (message fs) 0 s = Some (fields_effect F fs s)"
  using parse_fields_message [of "[]" fs F 0 s] assms by simp

lemma put_tags [simp]: "bytes_tag put_fields = key_or_second" "num_tag put_fields = put_num"
  "set_bytes put_fields = put_set_bytes" "set_num put_fields = put_set_num"
  by (simp_all add: put_fields_def)

text \<open>The fields as the encoding has them: the wire type of the tag tells bytes from numbers.\<close>

fun wire_ok :: "pb_field \<Rightarrow> bool" where
  "wire_ok (Bytes tag bs) \<longleftrightarrow> tag AND 7 = 2"
| "wire_ok (Num tag v) \<longleftrightarrow> tag \<noteq> 0 \<and> tag AND 7 = 0"

text \<open>The values of the fields with a tag, in order, and the one that counts: the last.\<close>

fun bytes_with :: "byte \<Rightarrow> pb_field list \<Rightarrow> bytes list" where
  "bytes_with tag [] = []"
| "bytes_with tag (Bytes t bs # fs) = (if t = tag then bs # bytes_with tag fs else bytes_with tag fs)"
| "bytes_with tag (Num t v # fs) = bytes_with tag fs"

fun nums_with :: "byte \<Rightarrow> pb_field list \<Rightarrow> u64 list" where
  "nums_with tag [] = []"
| "nums_with tag (Num t v # fs) = (if t = tag then v # nums_with tag fs else nums_with tag fs)"
| "nums_with tag (Bytes t bs # fs) = nums_with tag fs"

definition last_bytes :: "byte \<Rightarrow> pb_field list \<Rightarrow> bytes" where
  "last_bytes tag fs = last ([] # bytes_with tag fs)"

definition last_num :: "byte \<Rightarrow> pb_field list \<Rightarrow> u64" where
  "last_num tag fs = last (0 # nums_with tag fs)"

text \<open>Some field with one of the tags does not fit a signed 64-bit number.\<close>

definition too_big :: "byte list \<Rightarrow> pb_field list \<Rightarrow> bool" where
  "too_big tags fs \<longleftrightarrow> (\<exists>tag \<in> set tags. \<exists>v \<in> set (nums_with tag fs). v > 0x7FFFFFFFFFFFFFFF)"

lemma with_snoc [simp]:
  "bytes_with tag (fs @ [Bytes t bs]) = bytes_with tag fs @ (if t = tag then [bs] else [])"
  "bytes_with tag (fs @ [Num t v]) = bytes_with tag fs"
  "nums_with tag (fs @ [Num t v]) = nums_with tag fs @ (if t = tag then [v] else [])"
  "nums_with tag (fs @ [Bytes t bs]) = nums_with tag fs"
proof -
  have b: "bytes_with tag (fs @ gs) = bytes_with tag fs @ bytes_with tag gs" for gs
    by (induction tag fs rule: bytes_with.induct) auto
  have n: "nums_with tag (fs @ gs) = nums_with tag fs @ nums_with tag gs" for gs
    by (induction tag fs rule: nums_with.induct) auto
  show "bytes_with tag (fs @ [Bytes t bs]) = bytes_with tag fs @ (if t = tag then [bs] else [])"
    "bytes_with tag (fs @ [Num t v]) = bytes_with tag fs"
    "nums_with tag (fs @ [Num t v]) = nums_with tag fs @ (if t = tag then [v] else [])"
    "nums_with tag (fs @ [Bytes t bs]) = nums_with tag fs"
    by (simp_all add: b n)
qed

lemma last_snoc_field [simp]:
  "last_bytes tag (fs @ [Bytes t bs]) = (if t = tag then bs else last_bytes tag fs)"
  "last_bytes tag (fs @ [Num t v]) = last_bytes tag fs"
  "last_num tag (fs @ [Num t v]) = (if t = tag then v else last_num tag fs)"
  "last_num tag (fs @ [Bytes t bs]) = last_num tag fs"
  "too_big tags (fs @ [Bytes t bs]) = too_big tags fs"
  "too_big tags (fs @ [Num t v]) \<longleftrightarrow> too_big tags fs \<or> t \<in> set tags \<and> v > 0x7FFFFFFFFFFFFFFF"
  by (auto simp: last_bytes_def last_num_def too_big_def split: if_splits)

lemma last_none [simp]: "last_bytes tag [] = []" "last_num tag [] = 0" "\<not> too_big tags []"
  by (simp_all add: last_bytes_def last_num_def too_big_def)

lemma fields_effect_snoc:
  "fields_effect F (fs @ [f]) s = (case fields_effect F fs s of None \<Rightarrow> None | Some s \<Rightarrow> field_effect F f s)"
  by (induction fs arbitrary: s) (auto split: option.split)

lemma put_fields_effect:
  "fields_effect put_fields fs put_request0 =
     (if too_big [0x18, 0x20, 0x28, 0x30] fs then None
      else Some \<lparr>pr_key = last_bytes 0x0A fs, pr_value = last_bytes 0x12 fs, pr_lease = sint (last_num 0x18 fs),
        pr_prev_kv = (last_num 0x20 fs \<noteq> 0), pr_ignore_value = (last_num 0x28 fs \<noteq> 0), pr_ignore_lease = (last_num 0x30 fs \<noteq> 0)\<rparr>)"
proof (induction fs rule: rev_induct)
  case (snoc f fs)
  then show ?case
    by (cases f) (auto simp: fields_effect_snoc key_or_second_def put_num_def put_set_bytes_def put_set_num_def INT64_MAX_def)
qed (simp add: put_request0_def)

lemma range_fields_effect:
  "fields_effect range_fields fs range_request0 =
     (if too_big [0x18, 0x20, 0x28, 0x30, 0x38, 0x40, 0x48, 0x50, 0x58, 0x60, 0x68] fs then None
      else Some \<lparr>rr_key = last_bytes 0x0A fs, rr_range_end = last_bytes 0x12 fs, rr_rev = sint (last_num 0x20 fs),
        rr_limit = sint (last_num 0x18 fs), rr_sort_order = to_int32 (last_num 0x28 fs), rr_sort_target = to_int32 (last_num 0x30 fs),
        rr_serializable = (last_num 0x38 fs \<noteq> 0), rr_keys_only = (last_num 0x40 fs \<noteq> 0), rr_count_only = (last_num 0x48 fs \<noteq> 0),
        rr_min_mod_rev = sint (last_num 0x50 fs), rr_max_mod_rev = sint (last_num 0x58 fs),
        rr_min_create_rev = sint (last_num 0x60 fs), rr_max_create_rev = sint (last_num 0x68 fs)\<rparr>)"
proof (induction fs rule: rev_induct)
  case (snoc f fs)
  then show ?case
    by (cases f) (auto simp: fields_effect_snoc range_fields_def key_or_second_def range_num_def range_set_bytes_def range_set_num_def INT64_MAX_def)
qed (simp add: range_request0_def to_int32_def)

lemma delete_fields_effect:
  "fields_effect delete_fields fs delete_range_request0 =
     Some \<lparr>dr_key = last_bytes 0x0A fs, dr_range_end = last_bytes 0x12 fs, dr_prev_kv = (last_num 0x18 fs \<noteq> 0)\<rparr>"
proof (induction fs rule: rev_induct)
  case (snoc f fs)
  then show ?case by (cases f) (auto simp: fields_effect_snoc delete_fields_def key_or_second_def delete_set_bytes_def)
qed (simp add: delete_range_request0_def)

lemma compact_fields_effect:
  "fields_effect compact_fields fs (0, False) =
     (if too_big [0x08] fs then None else Some (sint (last_num 0x08 fs), last_num 0x10 fs \<noteq> 0))"
proof (induction fs rule: rev_induct)
  case (snoc f fs)
  then show ?case by (cases f) (auto simp: fields_effect_snoc compact_fields_def compact_set_num_def INT64_MAX_def)
qed simp

lemma compare_fields_effect:
  "fields_effect compare_fields fs txn_compare0 =
     Some \<lparr>tc_key = last_bytes 0x1A fs, tc_range_end = last_bytes 0x4A fs, tc_result = to_int32 (last_num 0x08 fs),
       tc_target = to_int32 (last_num 0x10 fs), tc_version = sint (last_num 0x20 fs), tc_create_revision = sint (last_num 0x28 fs),
       tc_mod_revision = sint (last_num 0x30 fs), tc_value = last_bytes 0x3A fs, tc_lease = sint (last_num 0x40 fs)\<rparr>"
proof (induction fs rule: rev_induct)
  case (snoc f fs)
  then show ?case by (cases f) (auto simp: fields_effect_snoc compare_fields_def compare_set_bytes_def compare_set_num_def)
qed (simp add: txn_compare0_def to_int32_def)

lemma wire_field_ok:
  assumes "wire_ok f"
  shows "field_ok put_fields f" "field_ok range_fields f" "field_ok delete_fields f" "field_ok compact_fields f" "field_ok compare_fields f"
  using assms by (cases f; auto simp: put_num_def range_fields_def range_num_def delete_fields_def compact_fields_def compare_fields_def key_or_second_def)+

text \<open>
  C38. The requests of the key-value service mean their fields. Take a message of fields with a tag of one byte, each a number
  (wire type 0) or bytes (wire type 2), in any order, with any repetitions and any unknown fields between them. Each of the
  five parsers returns, and every field of its result is the value of the last field with its tag, or empty, zero or false when there
  is none; Put, Range and Compact refuse the message exactly when a number they know, of those listed, does not fit a signed 64-bit
  number.
\<close>

theorem requests_mean_fields:
  assumes "length (message fs) < 2 ^ 63" and "\<forall>f \<in> set fs. wire_ok f"
  shows "parse_put_request (message fs) = Some
      (if too_big [0x18, 0x20, 0x28, 0x30] fs then None
       else Some \<lparr>pr_key = last_bytes 0x0A fs, pr_value = last_bytes 0x12 fs, pr_lease = sint (last_num 0x18 fs),
         pr_prev_kv = (last_num 0x20 fs \<noteq> 0), pr_ignore_value = (last_num 0x28 fs \<noteq> 0), pr_ignore_lease = (last_num 0x30 fs \<noteq> 0)\<rparr>) \<and>
    parse_range_request (message fs) = Some
      (if too_big [0x18, 0x20, 0x28, 0x30, 0x38, 0x40, 0x48, 0x50, 0x58, 0x60, 0x68] fs then None
       else Some \<lparr>rr_key = last_bytes 0x0A fs, rr_range_end = last_bytes 0x12 fs, rr_rev = sint (last_num 0x20 fs),
         rr_limit = sint (last_num 0x18 fs), rr_sort_order = to_int32 (last_num 0x28 fs), rr_sort_target = to_int32 (last_num 0x30 fs),
         rr_serializable = (last_num 0x38 fs \<noteq> 0), rr_keys_only = (last_num 0x40 fs \<noteq> 0), rr_count_only = (last_num 0x48 fs \<noteq> 0),
         rr_min_mod_rev = sint (last_num 0x50 fs), rr_max_mod_rev = sint (last_num 0x58 fs),
         rr_min_create_rev = sint (last_num 0x60 fs), rr_max_create_rev = sint (last_num 0x68 fs)\<rparr>) \<and>
    parse_delete_range_request (message fs) = Some (Some
       \<lparr>dr_key = last_bytes 0x0A fs, dr_range_end = last_bytes 0x12 fs, dr_prev_kv = (last_num 0x18 fs \<noteq> 0)\<rparr>) \<and>
    parse_compact_request (message fs) = Some
      (if too_big [0x08] fs then None else Some (sint (last_num 0x08 fs), last_num 0x10 fs \<noteq> 0)) \<and>
    parse_txn_compare (message fs) = Some (Some
       \<lparr>tc_key = last_bytes 0x1A fs, tc_range_end = last_bytes 0x4A fs, tc_result = to_int32 (last_num 0x08 fs),
         tc_target = to_int32 (last_num 0x10 fs), tc_version = sint (last_num 0x20 fs), tc_create_revision = sint (last_num 0x28 fs),
         tc_mod_revision = sint (last_num 0x30 fs), tc_value = last_bytes 0x3A fs, tc_lease = sint (last_num 0x40 fs)\<rparr>)"
  using assms(2) wire_field_ok
  by (simp add: parse_message [OF assms(1)] parse_put_request_def parse_range_request_def parse_delete_range_request_def parse_compact_request_def
      parse_txn_compare_def put_fields_effect range_fields_effect delete_fields_effect compact_fields_effect compare_fields_effect)

theorem requests_mean_fields_witness:
  "parse_put_request (message [Num 0x40 5, Bytes 0x0A [107], Bytes 0x7A [1, 2], Num 0x18 9, Num 0x18 7]) =
     Some (Some \<lparr>pr_key = [107], pr_value = [], pr_lease = 7, pr_prev_kv = False, pr_ignore_value = False, pr_ignore_lease = False\<rparr>)"
  using requests_mean_fields [of "[Num 0x40 5, Bytes 0x0A [107], Bytes 0x7A [1, 2], Num 0x18 9, Num 0x18 7]", THEN conjunct1]
  by (simp add: message_def varint_small last_bytes_def last_num_def too_big_def)

section \<open>A length that wraps\<close>

text \<open>
  The field behind tag \<^verbatim>\<open>0x7a\<close> declares a payload of 2^64 - 11 bytes. Behind the eleven bytes of the field
  the position wraps to 0, which passes the test \<^verbatim>\<open>p + skip > len\<close>.
\<close>

definition wrapping_field :: bytes where
  "wrapping_field = [0x7A, 0xF5, 0xFF, 0xFF, 0xFF, 0xFF, 0xFF, 0xFF, 0xFF, 0xFF, 0x01]"

lemma wrapping_step: "parse_step put_fields wrapping_field 0 s = Inr (0, s)"
proof -
  have "skip_unknown_at wrapping_field 1 0x7A = Some 0" by code_simp
  then show ?thesis by (simp add: parse_step_def wrapping_field_def key_or_second_def put_num_def)
qed

lemma parse_loops:
  assumes "parse_fields F req p s = Some y"
  shows "parse_step F req p s \<noteq> Inr (p, s)"
proof (rule parse_fields.raw_induct [OF _ assms])
  fix parse :: "'a pb_fields \<Rightarrow> bytes \<Rightarrow> u64 \<Rightarrow> 'a \<Rightarrow> 'a option option" and F req p s y
  assume IH: "\<And>F req p s y. parse F req p s = Some y \<Longrightarrow> parse_step F req p s \<noteq> Inr (p, s)"
    and body: "(case parse_step F req p s of Inl r \<Rightarrow> Some r | Inr q \<Rightarrow> parse F req (fst q) (snd q)) = Some y"
  show "parse_step F req p s \<noteq> Inr (p, s)"
  proof
    assume st: "parse_step F req p s = Inr (p, s)"
    then have "parse F req p s = Some y" using body by simp
    from IH [OF this] st show False by simp
  qed
qed

text \<open>
  C40. The parser of Put requests does not return on eleven bytes: an unknown field whose declared length makes
  the position wrap to the start of the request, over and over.
\<close>

theorem put_request_hangs: "parse_put_request wrapping_field = None"
proof (cases "parse_put_request wrapping_field")
  case (Some y)
  then have "parse_fields put_fields wrapping_field 0 put_request0 = Some y" by (simp only: parse_put_request_def)
  from parse_loops [OF this] wrapping_step [of put_request0] show ?thesis by (simp only: HOL.simp_thms)
qed

section \<open>A key given twice\<close>

lemma inside_append:
  assumes "length buf < 2 ^ 63" and "buf = pre @ bs @ rest"
  shows "inside buf (of_nat (length pre)) (of_nat (length bs)) = Some bs"
proof -
  have "length pre < 2 ^ 63" "length bs < 2 ^ 63" using assms by simp_all
  then have "unat (of_nat (length pre) :: u64) = length pre" "unat (of_nat (length bs) :: u64) = length bs"
    by (simp_all only: unat_small)
  then show ?thesis by (simp add: inside_def payload_def assms(2))
qed

lemma first_field:
  assumes "length buf < 2 ^ 63" and "buf = encode_field (Bytes tag bs) @ rest"
  obtains p q where "ldelim_at buf 1 = Some (p, of_nat (length bs), q)" and "inside buf p (of_nat (length bs)) = Some bs"
    and "(0 :: u64) < of_nat (length buf)" and "buf ! 0 = tag" and "buf \<noteq> []"
proof -
  let ?pre = "tag # varint (of_nat (length bs) :: u64)"
  have "ldelim_at buf 1 = Some (of_nat (length ?pre), of_nat (length bs), of_nat (length ?pre + length bs))"
    using ldelim_at_append [OF assms(1), of "[tag]" bs rest 1] assms(2) by simp
  moreover have "inside buf (of_nat (length ?pre)) (of_nat (length bs)) = Some bs"
    by (rule inside_append [OF assms(1)]) (simp add: assms(2))
  moreover have "(0 :: u64) < of_nat (length buf)"
    unfolding word_less_nat_alt using unat_small [OF assms(1)] assms(2) by simp
  ultimately show ?thesis using that assms(2) by simp
qed

lemma op_check_first:
  assumes "length op < 2 ^ 63" and "op = encode_field (Bytes 0x12 put)"
  shows "txn_op_check_perm chk d op = op_key_perm chk True put 0"
proof -
  obtain p q where "ldelim_at op 1 = Some (p, of_nat (length put), q)" "inside op p (of_nat (length put)) = Some put"
    "(0 :: u64) < of_nat (length op)" "op ! 0 = 0x12" "op \<noteq> []"
    by (rule first_field [OF assms(1), of "0x12" put "[]"]) (simp_all add: assms(2))
  then show ?thesis unfolding txn_op_check_perm_def by (subst op_perm.simps) simp
qed

fun keys_of :: "pb_field list \<Rightarrow> bytes list" where
  "keys_of [] = []"
| "keys_of (Bytes tag bs # fs) = (if tag = 0x0A then bs # keys_of fs else keys_of fs)"
| "keys_of (Num tag v # fs) = keys_of fs"

lemma put_key_last:
  "fields_effect put_fields fs s = Some r \<Longrightarrow> pr_key r = last (pr_key s # keys_of fs)"
proof (induction fs arbitrary: s)
  case (Cons f fs)
  show ?case
  proof (cases f)
    case (Bytes tag bs)
    then show ?thesis using Cons by (auto simp: key_or_second_def put_set_bytes_def split: if_splits)
  next
    case (Num tag v)
    then show ?thesis using Cons by (fastforce simp: put_set_num_def split: if_splits option.splits)
  qed
qed simp

lemma skip_unknown_field:
  assumes "length buf < 2 ^ 63" and "buf = pre @ encode_field f @ rest" and "wire_ok f"
    and "buf ! length pre = tag"
  shows "skip_unknown_at buf (of_nat (length pre + 1)) tag = Some (of_nat (length pre + length (encode_field f)))"
proof (cases f)
  case (Bytes t bs)
  then have "ldelim_at buf (of_nat (length pre + 1)) = Some (of_nat (length pre + 1 + length (varint (of_nat (length bs) :: u64))),
      of_nat (length bs), of_nat (length pre + 1 + length (varint (of_nat (length bs) :: u64)) + length bs))"
    using ldelim_at_append [OF assms(1), of "pre @ [t]" bs rest "of_nat (length pre + 1)"] assms(2) by simp
  then show ?thesis using assms Bytes by (simp add: skip_unknown_at_def add.assoc)
next
  case (Num t v)
  then have "varint_at buf (of_nat (length pre + 1)) = Some (v, of_nat (length pre + 1 + length (varint v)))"
    using varint_at_append [OF assms(1), of "pre @ [t]" v rest "of_nat (length pre + 1)"] assms(2) by simp
  then show ?thesis using assms Num by (simp add: skip_unknown_at_def add.assoc)
qed

lemma op_key_perm_message:
  assumes "length (pre @ message fs) < 2 ^ 63" and "\<forall>f \<in> set fs. wire_ok f"
  shows "op_key_perm chk w (pre @ message fs) (of_nat (length pre)) =
    Some (chk w (case keys_of fs of [] \<Rightarrow> None | k # _ \<Rightarrow> Some k))"
  using assms
proof (induction fs arbitrary: pre)
  case Nil
  then show ?case by (subst op_key_perm.simps) (simp add: message_def)
next
  case (Cons f fs)
  let ?buf = "pre @ message (f # fs)" and ?p = "of_nat (length pre) :: u64"
  obtain tag where tag: "?buf ! length pre = tag" "tag = hd (encode_field f)"
    by (cases f) (auto simp: message_def)
  have up: "unat ?p = length pre" using Cons.prems(1) by (intro unat_small) simp
  have lt: "?p < of_nat (length ?buf)"
    unfolding word_less_nat_alt up unat_small [OF Cons.prems(1)] by (cases f) (simp_all add: message_def)
  have nz: "tag \<noteq> 0" using Cons.prems(2) tag by (cases f) auto
  have p1: "?p + 1 = of_nat (length pre + 1)" by simp
  show ?case
  proof (cases "tag = 0x0A")
    case True
    then obtain key where f: "f = Bytes 0x0A key" using Cons.prems(2) tag by (cases f) auto
    let ?q = "of_nat (length pre + 1 + length (varint (of_nat (length key) :: u64))) :: u64"
    obtain e where l: "ldelim_at ?buf (of_nat (length pre + 1)) = Some (?q, of_nat (length key), e)"
      using ldelim_at_append [OF Cons.prems(1), of "pre @ [0x0A]" key "message fs" "of_nat (length pre + 1)"] f
      by (simp add: message_def)
    have i: "inside ?buf ?q (of_nat (length key)) = Some key"
      using inside_append [OF Cons.prems(1), of "pre @ [0x0A] @ varint (of_nat (length key) :: u64)" key "message fs"] f
      by (simp add: message_def add.assoc)
    show ?thesis using lt nz True l i f tag(1) unfolding p1 [symmetric]
      by (subst op_key_perm.simps) (simp add: up del: of_nat_add of_nat_Suc)
  next
    case False
    have sk: "skip_unknown_at ?buf (of_nat (length pre + 1)) tag = Some (of_nat (length (pre @ encode_field f)))"
      using skip_unknown_field [OF Cons.prems(1), of pre f "message fs" tag] Cons.prems(2) tag(1) by (simp add: message_def)
    have ih: "op_key_perm chk w ?buf (of_nat (length (pre @ encode_field f))) =
        Some (chk w (case keys_of fs of [] \<Rightarrow> None | k # _ \<Rightarrow> Some k))"
      using Cons.IH [of "pre @ encode_field f"] Cons.prems by (simp add: message_def)
    have "keys_of (f # fs) = keys_of fs" using False tag(2) by (cases f) simp_all
    then show ?thesis using lt nz False sk ih tag(1) unfolding p1 [symmetric]
      by (subst op_key_perm.simps) (simp add: up del: of_nat_add of_nat_Suc length_append)
  qed
qed

text \<open>
  C39. The permission check of a Put inside a transaction decides about the first key of the Put, whatever fields
  stand around it and whatever the depth of the transaction, and a Put without a key is checked as such. The parser
  takes the last key. With one key the two agree; a second key is written without a check.
\<close>

theorem txn_put_check:
  assumes "\<forall>f \<in> set fs. wire_ok f" and "length (message fs) < 2 ^ 61"
  shows "txn_op_check_perm chk d (encode_field (Bytes 0x12 (message fs))) =
      Some (chk True (case keys_of fs of [] \<Rightarrow> None | k # _ \<Rightarrow> Some k)) \<and>
    (\<forall>r. parse_put_request (message fs) = Some (Some r) \<longrightarrow> pr_key r = last ([] # keys_of fs))"
proof (intro conjI allI impI)
  have "length (encode_field (Bytes 0x12 (message fs))) < 2 ^ 63"
    using assms(2) length_varint_u64 [of "of_nat (length (message fs))"] by simp
  then have "txn_op_check_perm chk d (encode_field (Bytes 0x12 (message fs))) = op_key_perm chk True (message fs) 0"
    by (rule op_check_first [OF _ refl])
  also have "\<dots> = Some (chk True (case keys_of fs of [] \<Rightarrow> None | k # _ \<Rightarrow> Some k))"
    using op_key_perm_message [of "[]" fs chk True] assms by simp
  finally show "txn_op_check_perm chk d (encode_field (Bytes 0x12 (message fs))) =
      Some (chk True (case keys_of fs of [] \<Rightarrow> None | k # _ \<Rightarrow> Some k))" .
  fix r assume "parse_put_request (message fs) = Some (Some r)"
  moreover have "parse_fields put_fields ([] @ message fs) 0 put_request0 = Some (fields_effect put_fields fs put_request0)"
    by (rule parse_fields_message) (use assms wire_field_ok(1) in auto)
  ultimately show "pr_key r = last ([] # keys_of fs)"
    using put_key_last [of fs put_request0 r] by (simp add: parse_put_request_def put_request0_def)
qed

theorem txn_put_check_witness:
  "txn_op_check_perm (\<lambda>_ key. key = Some [97]) 16
     (encode_field (Bytes 0x12 (message [Bytes 0x0A [97], Num 0x18 7, Bytes 0x0A [98]]))) = Some True \<and>
   (\<exists>r. parse_put_request (message [Bytes 0x0A [97], Num 0x18 7, Bytes 0x0A [98]]) = Some (Some r) \<and> pr_key r = [98])"
proof -
  let ?fs = "[Bytes 0x0A [97], Num 0x18 7, Bytes 0x0A [98]]"
  have len: "length (message ?fs) < 2 ^ 61" by (simp add: message_def varint_small)
  have "parse_put_request (message ?fs) = Some (fields_effect put_fields ?fs put_request0)"
    unfolding parse_put_request_def
    by (rule parse_message) (use len in \<open>simp_all add: key_or_second_def put_num_def\<close>)
  moreover have "\<exists>r. fields_effect put_fields ?fs put_request0 = Some r"
    by (simp add: key_or_second_def put_num_def put_set_num_def INT64_MAX_def)
  ultimately show ?thesis
    using txn_put_check [of ?fs "\<lambda>_ key. key = Some [97]" 16] len by auto
qed

end
