(* ===== verification/Spec2Isabelle.thy ===== *)
theory Spec2Isabelle
  imports Raft_Findings Raft_Wire Mvcc_Watch Jwt_Props Apply_Lease Kv_Request_Props
begin

text \<open>
  A verification library for cetcd, a reimplementation of etcd in C: a replicated key-value store with
  revisions, leases, watches and authentication. All paths below are relative to the source tree.

  \<^bold>\<open>The program.\<close> A request of a client is parsed by a handler (\<^verbatim>\<open>src/v3rpc\<close>), which checks permissions and proposes
  an operation, encoded as bytes, to the Raft node (\<^verbatim>\<open>src/raft/raft.c\<close>). The server (\<^verbatim>\<open>src/server/server.c\<close>) takes what
  the node has ready, writes the hard state and the entries to the write-ahead log (\<^verbatim>\<open>src/wal\<close>), sends the messages to
  the peers, and hands committed entries to the state machine (\<^verbatim>\<open>src/v3rpc/apply.c\<close>). That changes the multi-version
  store (\<^verbatim>\<open>src/mvcc/mvcc.c\<close>), the leases (\<^verbatim>\<open>src/lease/lease.c\<close>), the users and roles (\<^verbatim>\<open>src/auth/auth.c\<close>) and the members
  (\<^verbatim>\<open>src/peer/peer.c\<close>), each of which writes its records through a wrapper of LMDB (\<^verbatim>\<open>src/backend/backend.c\<close>) before it changes
  its memory. The store is built on a treap and a hash table (\<^verbatim>\<open>src/base\<close>).

  \<^bold>\<open>Conventions.\<close> A C struct is a record, an enum a datatype, an array with a count a list, and a function
  that changes a struct returns it changed. Words have the width of the C type where it matters (terms, indices,
  identifiers, hashes, lengths on the wire); revisions and times, which are \<^verbatim>\<open>int64_t\<close>, are integers, and a property that needs
  them to fit 63 bits says so. Allocation succeeds. A callback is the list of its calls. What the sources only call is a
  parameter: LMDB (\<open>lmdb\<close>, with the documented laws in the locale \<open>lmdb_laws\<close> and the instance \<open>mem_lmdb\<close> in memory), OpenSSL and
  libcrypt (\<open>auth_crypto\<close>), the clocks, random bytes and the results of the calls of the C library that \<open>cetcd_wal_encoder_release\<close> makes.

  \<^bold>\<open>Theories.\<close>
  \<^item> \<open>Prelude\<close>: machine types, status codes, byte strings, shared lemmas. \<open>Slice\<close>, \<open>Checksum\<close>: \<^verbatim>\<open>src/base/slice.c\<close>, \<^verbatim>\<open>src/base/hash.c\<close>
    and the checksum of the log. \<open>Wire\<close>: variable-length and little-endian integers.
  \<^item> \<open>Index\<close>: the contract of a container keyed by byte strings. \<open>Treap\<close> (\<^verbatim>\<open>src/base/treap.c\<close>) and \<open>Hashmap\<close> (\<^verbatim>\<open>src/base/hashmap.c\<close>) implement
    it: both refine a map, through rotations and priorities, and through probing, tombstones and resizing.
  \<^item> \<open>Raft_Log\<close>, \<open>Raft_Node\<close>, \<open>Raft_Step\<close>: the node of \<^verbatim>\<open>src/raft/raft.c\<close>, one definition per function. \<open>Raft_Frame\<close>, \<open>Raft_Persist\<close>,
    \<open>Raft_Election\<close>, \<open>Raft_Quorum\<close>, \<open>Raft_Replication\<close>: what a call changes, that the hard state is queued whenever it changes, what
    a call does to votes and terms, majorities and the commit rule, and the log as a list. \<open>Raft_Cluster\<close>: nodes that
    exchange messages, crash and restart, with \<^verbatim>\<open>process_ready_\<close> and \<^verbatim>\<open>replay_wal_\<close> of the server, as a step relation.
    \<open>Raft_Safety\<close>: election safety in every reachable state of the cluster, under the condition that vote responses of an older term are not
    delivered, and the run without that condition that reaches two leaders. \<open>Raft_Findings\<close>: further runs in which the code departs from the
    protocol. \<open>Raft_Sample\<close>: the nodes used in examples. \<open>Raft_Wire\<close>: messages between peers, round trip and buffer sizes.
  \<^item> \<open>Wal\<close>: the log file as bytes, round trip of the records, checksums, torn tails, and the release of the log on a model of the files
    of a directory.
  \<^item> \<open>Backend\<close>: the wrapper of LMDB and its contract \<open>kv_backend\<close>, proved from \<open>lmdb_laws\<close>. A cursor may fail on the way; \<open>full_scan\<close>
    says that it does not, and is a hypothesis where a load has to be complete, since the wrapper does not report the failure.
  \<^item> \<open>Mvcc\<close>, \<open>Mvcc_Store\<close>, \<open>Mvcc_Range\<close>, \<open>Mvcc_Recovery\<close>, \<open>Mvcc_Watch\<close>: the store; its invariant, reads at the current and at past revisions, ranges
    against single reads, the database as a mirror of memory whatever fails, recovery, and that a watcher gets every event once.
  \<^item> \<open>Lease\<close>, \<open>Lease_Props\<close>: leases; unique identifiers, exact expiry with and without a backend, the round trip through the database, and the lease
    that never expires. \<open>Cluster\<close>: the member list.
  \<^item> \<open>Auth\<close>, \<open>Auth_Props\<close>, \<open>Jwt\<close>, \<open>Jwt_Props\<close>: users, roles, passwords and tokens; what a permission covers, the effect of a change of password,
    the round trips of the records and of JSON web tokens.
  \<^item> \<open>Apply\<close>, \<open>Apply_Props\<close>, \<open>Apply_Lease\<close>: the operations in the log and the state machine; that the interpreter does what was encoded, batches
    included, and that the keys of a lease are the keys written with it.
  \<^item> \<open>Kv_Request\<close>, \<open>Kv_Request_Props\<close>: the parsers of the key-value requests and the permission check of transactions in \<^verbatim>\<open>src/v3rpc/kv_handler.c\<close>.

  \<^bold>\<open>Loops and bounds.\<close> Recursion is structural or has a termination proof, with three exceptions. The loops that may
  not end (\<open>next_pow2_loop\<close>, \<open>parse_fields\<close> and the loops of the permission check) are partial functions into \<open>option\<close>, in which \<open>None\<close> is
  a run without end; that they return is proved for the inputs in question, and that they do not for others. \<open>app_count\<close> has the limit of 256 entries per
  message of the C loop as its fuel. \<open>txn_request_check_perm\<close> recurses over the nesting depth that remains, at most 16 as in
  the C code. Bounds that appear in hypotheses: indices below \<open>2 ^ 32\<close> for the log array, whose capacity is computed in 32 bits;
  fewer than \<open>2 ^ 62\<close> operations for lease identifiers, so that the counter does not wrap; capacities below \<open>2 ^ 63\<close> for hash tables.

  \<^bold>\<open>Not modelled.\<close> The replies of the RPC handlers and the requests of the other services (they print and parse field by field around operations that are
  modelled); connections, timers, TLS, HTTP/2 and the event loop, which are input and output over libuv, OpenSSL and nghttp2; snapshot files
  and defragmentation, which copy the file of LMDB; logging and metrics; allocators and clocks; the parsers of options
  (\<^verbatim>\<open>src/server/auto_compact.c\<close>, \<^verbatim>\<open>src/peer/cluster_spec.c\<close>, \<^verbatim>\<open>src/base/discovery.c\<close>), which compute settings at start-up; the command-line programs; generated message
  code; and the corruption check, which compares hashes from other members.
\<close>

end
